(* ===== verification/Prelude.thy ===== *)
theory Prelude
  imports Main "HOL-Library.Sublist"
begin

text \<open>
  Shared base of the development: the proof-hint collections, Go's fixed-width integers with
  their wrap-around written out, and the generic facts about lists, maps and options that the
  component theories use.

  Go's \<open>int\<close> and \<open>int64\<close> are 64-bit two's complement on every platform the agent is built
  for; \<open>i64\<close> is the value an operation leaves in such a variable. \<open>u64\<close>, \<open>i32\<close> and
  \<open>u16\<close> are the conversions to those widths. Durations and times are counted in nanoseconds,
  as \<open>time.Duration\<close> counts them.
\<close>

named_theorems fd_simps \<open>unfolding rules of the model's small operations\<close>
named_theorems fd_inv \<open>preservation lemmas of the components' invariants\<close>

text \<open>Evaluation by \<open>code_simp\<close> decides a test before it looks at the branches.\<close>

lemma if_eval [code_unfold]: "(if b then x else y) = (case b of True \<Rightarrow> x | False \<Rightarrow> y)"
  by (simp split: bool.split)

section \<open>Machine integers\<close>

definition i64 :: "int \<Rightarrow> int" where
  "i64 x = (x + 2 ^ 63) mod 2 ^ 64 - 2 ^ 63"

definition u64 :: "int \<Rightarrow> int" where
  "u64 x = x mod 2 ^ 64"

definition i32 :: "int \<Rightarrow> int" where
  "i32 x = (x + 2 ^ 31) mod 2 ^ 32 - 2 ^ 31"

definition u32 :: "int \<Rightarrow> int" where
  "u32 x = x mod 2 ^ 32"

definition u16 :: "int \<Rightarrow> int" where
  "u16 x = x mod 2 ^ 16"

definition in_i64 :: "int \<Rightarrow> bool" where
  "in_i64 x \<longleftrightarrow> - (2 ^ 63) \<le> x \<and> x < 2 ^ 63"

lemma i64_id [simp]: "in_i64 x \<Longrightarrow> i64 x = x"
  by (simp add: in_i64_def i64_def)

lemma in_i64_i64 [simp]: "in_i64 (i64 x)"
proof -
  have "0 \<le> (x + 2 ^ 63) mod 2 ^ 64" and "(x + 2 ^ 63) mod 2 ^ 64 < (2 ^ 64 :: int)"
    by simp_all
  then show ?thesis by (simp add: in_i64_def i64_def)
qed

lemma u64_id: "0 \<le> x \<Longrightarrow> x < 2 ^ 64 \<Longrightarrow> u64 x = x"
  by (simp add: u64_def)

lemma i32_id: "- (2 ^ 31) \<le> x \<Longrightarrow> x < 2 ^ 31 \<Longrightarrow> i32 x = x"
  by (simp add: i32_def)

lemma u16_id: "0 \<le> x \<Longrightarrow> x < 2 ^ 16 \<Longrightarrow> u16 x = x"
  by (simp add: u16_def)

text \<open>Go's integer division truncates towards zero.\<close>

definition go_div :: "int \<Rightarrow> int \<Rightarrow> int" where
  "go_div a b = sgn a * sgn b * (\<bar>a\<bar> div \<bar>b\<bar>)"

lemma go_div_nonneg: "0 \<le> a \<Longrightarrow> 0 < b \<Longrightarrow> go_div a b = a div b"
  by (cases "a = 0") (auto simp: go_div_def)

section \<open>Time\<close>

type_synonym duration = int
type_synonym instant = int

definition millisecond :: duration where "millisecond = 1000000"
definition second :: duration where "second = 1000000000"
definition minute :: duration where "minute = 60000000000"

lemmas time_units [fd_simps] = millisecond_def second_def minute_def

section \<open>Lists\<close>

lemma sum_list_nonneg_int: "(\<And>x. x \<in> set xs \<Longrightarrow> (0::int) \<le> x) \<Longrightarrow> 0 \<le> sum_list xs"
  by (induction xs) auto

lemma sum_list_bound:
  assumes "\<And>x. x \<in> set xs \<Longrightarrow> x \<le> (b::int)"
  shows "sum_list xs \<le> int (length xs) * b"
  using assms
proof (induction xs)
  case Nil
  then show ?case by simp
next
  case (Cons x xs)
  then have "x \<le> b" and "sum_list xs \<le> int (length xs) * b" by auto
  then show ?case by (simp add: algebra_simps)
qed

lemma last_dropWhile_rev: "rev (dropWhile P (rev xs)) \<noteq> [] \<Longrightarrow> \<not> P (last (rev (dropWhile P (rev xs))))"
  by (simp add: last_rev hd_dropWhile)

lemma prefix_rev_dropWhile: "prefix (rev (dropWhile P (rev xs))) xs"
proof -
  have "suffix (dropWhile P (rev xs)) (rev xs)" by (rule suffix_dropWhile)
  then show ?thesis by (simp add: suffix_to_prefix)
qed

lemma last_append_neq: "ys \<noteq> [] \<Longrightarrow> last (xs @ ys) = last ys"
  by simp

end
