(* ===== verification/GoStrings.thy ===== *)
theory GoStrings
  imports Prelude
begin

text \<open>
  What the source uses of Go's packages \<open>strings\<close> and \<open>unicode/utf8\<close>. A Go string is a
  sequence of bytes, and so is a HOL \<open>string\<close>: one \<open>char\<close> is one byte, \<open>length\<close> is \<open>len\<close>.
  Runes are the code points a \<open>range\<close> loop decodes from those bytes, as numbers; an invalid
  byte decodes to U+FFFD with width 1, as in Go.
\<close>

definition byte :: "char \<Rightarrow> int" where
  "byte c = of_char c"

lemma byte_nat: "byte c = int (of_char c)"
  by (simp only: byte_def of_nat_of_char)

lemma byte_less [simp]: "byte c < 256"
proof -
  have "(of_char c :: nat) < 256" by simp
  then have "int (of_char c) < int 256" by (simp only: of_nat_less_iff)
  then show ?thesis by (simp add: byte_nat)
qed

lemma byte_nonneg [simp]: "0 \<le> byte c"
  by (simp only: byte_nat of_nat_0_le_iff)

lemma byte_eq_iff: "byte c = byte d \<longleftrightarrow> c = d"
  by (simp add: byte_def)

section \<open>Package strings\<close>

definition has_prefix :: "string \<Rightarrow> string \<Rightarrow> bool" where
  "has_prefix s p \<longleftrightarrow> take (length p) s = p"

definition has_suffix :: "string \<Rightarrow> string \<Rightarrow> bool" where
  "has_suffix s p \<longleftrightarrow> length p \<le> length s \<and> drop (length s - length p) s = p"

definition trim_prefix :: "string \<Rightarrow> string \<Rightarrow> string" where
  "trim_prefix s p = (if has_prefix s p then drop (length p) s else s)"

definition trim_suffix :: "string \<Rightarrow> string \<Rightarrow> string" where
  "trim_suffix s p = (if has_suffix s p then take (length s - length p) s else s)"

text \<open>\<open>ContainsAny\<close>, \<open>TrimRight\<close> and \<open>Trim\<close> with a set of ASCII characters: such a byte
  never occurs inside the encoding of another rune, so they work byte by byte.\<close>

definition contains_any :: "string \<Rightarrow> string \<Rightarrow> bool" where
  "contains_any s cs \<longleftrightarrow> list_ex (\<lambda>c. c \<in> set cs) s"

definition trim_right :: "string \<Rightarrow> string \<Rightarrow> string" where
  "trim_right s cs = rev (dropWhile (\<lambda>c. c \<in> set cs) (rev s))"

definition trim_both :: "string \<Rightarrow> string \<Rightarrow> string" where
  "trim_both s cs = trim_right (dropWhile (\<lambda>c. c \<in> set cs) s) cs"

fun contains_sub :: "string \<Rightarrow> string \<Rightarrow> bool" where
  "contains_sub [] p = (p = [])"
| "contains_sub (c # s) p = (has_prefix (c # s) p \<or> contains_sub s p)"

text \<open>\<open>LastIndex\<close> of a one-byte separator, as the length of what is before it.\<close>

fun last_index :: "string \<Rightarrow> char \<Rightarrow> nat option" where
  "last_index [] c = None"
| "last_index (x # xs) c =
     (case last_index xs c of Some i \<Rightarrow> Some (Suc i) | None \<Rightarrow> if x = c then Some 0 else None)"

text \<open>\<open>Cut\<close> around the first one-byte separator: before, after, found.\<close>

fun cut_at :: "string \<Rightarrow> char \<Rightarrow> string \<times> string \<times> bool" where
  "cut_at [] c = ([], [], False)"
| "cut_at (x # xs) c =
     (if x = c then ([], xs, True)
      else (case cut_at xs c of (b, a, f) \<Rightarrow> (x # b, a, f)))"

text \<open>\<open>Split\<close> and \<open>SplitSeq\<close> at a one-byte separator: always at least one field.\<close>

fun split_on :: "char \<Rightarrow> string \<Rightarrow> string list" where
  "split_on c [] = [[]]"
| "split_on c (x # xs) =
     (if x = c then [] # split_on c xs
      else (case split_on c xs of [] \<Rightarrow> [[x]] | f # fs \<Rightarrow> (x # f) # fs))"

fun join_with :: "string \<Rightarrow> string list \<Rightarrow> string" where
  "join_with sep [] = []"
| "join_with sep [s] = s"
| "join_with sep (s # t # ss) = s @ sep @ join_with sep (t # ss)"

definition ascii_lower_char :: "char \<Rightarrow> char" where
  "ascii_lower_char c = (if 65 \<le> byte c \<and> byte c \<le> 90 then char_of (byte c + 32) else c)"

definition ascii_upper_char :: "char \<Rightarrow> char" where
  "ascii_upper_char c = (if 97 \<le> byte c \<and> byte c \<le> 122 then char_of (byte c - 32) else c)"

text \<open>\<open>ToLower\<close>, \<open>ToUpper\<close> and \<open>EqualFold\<close>, on the ASCII letters. The source compares the
  results with ASCII words only. No rune outside ASCII lower-cases to an ASCII letter except
  U+0130 (to i) and the Kelvin sign (to k), and none upper-cases to one except U+0131 (to I)
  and U+017F (to S).\<close>

definition to_lower :: "string \<Rightarrow> string" where
  "to_lower = map ascii_lower_char"

definition to_upper :: "string \<Rightarrow> string" where
  "to_upper = map ascii_upper_char"

definition equal_fold :: "string \<Rightarrow> string \<Rightarrow> bool" where
  "equal_fold s t \<longleftrightarrow> to_lower s = to_lower t"

section \<open>White space: TrimSpace\<close>

text \<open>Go's white space runes: tab to carriage return, space, U+0085, U+00A0, U+1680,
  U+2000 to U+200A, U+2028, U+2029, U+202F, U+205F and U+3000. \<open>space_width\<close> is the number of
  bytes of such a rune at the head of a string (0 if there is none), \<open>space_width_rev\<close> the
  same at the end of a string given in reverse.\<close>

definition ascii_space :: "char \<Rightarrow> bool" where
  "ascii_space c \<longleftrightarrow> byte c \<in> {9, 10, 11, 12, 13, 32}"

definition wide_space :: "int \<Rightarrow> int \<Rightarrow> int \<Rightarrow> bool" where
  "wide_space a b c \<longleftrightarrow>
     (a = 225 \<and> b = 154 \<and> c = 128) \<or>
     (a = 226 \<and> b = 128 \<and> (128 \<le> c \<and> c \<le> 138 \<or> c = 168 \<or> c = 169 \<or> c = 175)) \<or>
     (a = 226 \<and> b = 129 \<and> c = 159) \<or>
     (a = 227 \<and> b = 128 \<and> c = 128)"

fun space_width :: "string \<Rightarrow> nat" where
  "space_width [] = 0"
| "space_width (a # s) =
     (if ascii_space a then 1
      else (case s of
              [] \<Rightarrow> 0
            | b # t \<Rightarrow>
                if byte a = 194 \<and> (byte b = 133 \<or> byte b = 160) then 2
                else (case t of
                        [] \<Rightarrow> 0
                      | c # u \<Rightarrow> if wide_space (byte a) (byte b) (byte c) then 3 else 0)))"

fun space_width_rev :: "string \<Rightarrow> nat" where
  "space_width_rev [] = 0"
| "space_width_rev (c # s) =
     (if ascii_space c then 1
      else (case s of
              [] \<Rightarrow> 0
            | b # t \<Rightarrow>
                if byte b = 194 \<and> (byte c = 133 \<or> byte c = 160) then 2
                else (case t of
                        [] \<Rightarrow> 0
                      | a # u \<Rightarrow> if wide_space (byte a) (byte b) (byte c) then 3 else 0)))"

function trim_space_left :: "string \<Rightarrow> string" where
  "trim_space_left s = (if s = [] \<or> space_width s = 0 then s else trim_space_left (drop (space_width s) s))"
  by pat_completeness auto
termination
  by (relation "measure length") auto

function trim_space_rev :: "string \<Rightarrow> string" where
  "trim_space_rev s = (if s = [] \<or> space_width_rev s = 0 then s else trim_space_rev (drop (space_width_rev s) s))"
  by pat_completeness auto
termination
  by (relation "measure length") auto

declare trim_space_left.simps [simp del] trim_space_rev.simps [simp del]

definition trim_space :: "string \<Rightarrow> string" where
  "trim_space s = rev (trim_space_rev (rev (trim_space_left s)))"

text \<open>A string that white space neither starts nor ends is left alone.\<close>

lemma trim_space_unfold:
  "trim_space s = s \<longleftrightarrow> space_width s = 0 \<and> space_width_rev (rev s) = 0"
proof -
  have l: "length (trim_space_left t) \<le> length t" for t
  proof (induction t rule: trim_space_left.induct)
    case (1 s)
    then show ?case by (subst trim_space_left.simps) auto
  qed
  have r: "length (trim_space_rev t) \<le> length t" for t
  proof (induction t rule: trim_space_rev.induct)
    case (1 s)
    then show ?case by (subst trim_space_rev.simps) auto
  qed
  have l1: "length (trim_space_left s) < length s" if "space_width s \<noteq> 0"
  proof -
    from that have ne: "s \<noteq> []" by auto
    then have "0 < length s" by simp
    with that have "length (drop (space_width s) s) < length s" by (simp only: length_drop diff_less)
    with that ne l[of "drop (space_width s) s"] show ?thesis
      by (subst trim_space_left.simps) (simp only: simp_thms if_False le_less_trans)
  qed
  have r1: "length (trim_space_rev t) < length t" if "space_width_rev t \<noteq> 0" for t
  proof -
    from that have ne: "t \<noteq> []" by auto
    then have "0 < length t" by simp
    with that have "length (drop (space_width_rev t) t) < length t" by (simp only: length_drop diff_less)
    with that ne r[of "drop (space_width_rev t) t"] show ?thesis
      by (subst trim_space_rev.simps) (simp only: simp_thms if_False le_less_trans)
  qed
  show ?thesis
  proof
    assume eq: "trim_space s = s"
    then have len: "length (trim_space_rev (rev (trim_space_left s))) = length s"
      by (metis length_rev trim_space_def)
    have "space_width s = 0"
      using len l1 r[of "rev (trim_space_left s)"] by force
    then have "trim_space_left s = s" by (subst trim_space_left.simps) simp
    with len r1[of "rev s"] \<open>space_width s = 0\<close> show "space_width s = 0 \<and> space_width_rev (rev s) = 0" by force
  next
    assume "space_width s = 0 \<and> space_width_rev (rev s) = 0"
    then have "trim_space_left s = s" "trim_space_rev (rev s) = rev s"
      by (subst trim_space_left.simps trim_space_rev.simps, simp)+
    then show "trim_space s = s" by (simp add: trim_space_def)
  qed
qed

lemma wide_space_high: "wide_space a b c \<Longrightarrow> 128 \<le> a \<and> 128 \<le> b \<and> 128 \<le> c"
  by (auto simp: wide_space_def)

lemma space_width_rev_append:
  assumes "space_width_rev x = 0" and "x \<noteq> []" and "y \<noteq> [] \<Longrightarrow> byte (hd y) < 128"
  shows "space_width_rev (x @ y) = 0"
proof -
  obtain c x1 where x: "x = c # x1" using assms(2) by (cases x) auto
  then have c: "\<not> ascii_space c" using assms(1) by (simp split: if_splits)
  have low: "byte b \<noteq> 194" "\<not> wide_space a (byte b) d" "\<not> wide_space (byte b) a d" if "y = b # t" for a b d t
    using assms(3) that wide_space_high[of a "byte b" d] wide_space_high[of "byte b" a d] by auto
  show ?thesis
  proof (cases x1)
    case Nil
    show ?thesis
    proof (cases y)
      case (Cons b t)
      then show ?thesis using x Nil c low[OF Cons] by (cases t) simp_all
    qed (use x Nil c in simp)
  next
    case (Cons b x2)
    show ?thesis
    proof (cases x2)
      case Nil
      show ?thesis
      proof (cases y)
        case y: (Cons a t)
        show ?thesis using assms(1) x Cons Nil c low[OF y] y by (simp split: if_splits)
      qed (use assms(1) x Cons Nil in simp)
    next
      case rest: (Cons a u)
      show ?thesis using assms(1) x Cons rest c by (simp split: if_splits)
    qed
  qed
qed

definition plain_ascii :: "char \<Rightarrow> bool" where
  "plain_ascii c \<longleftrightarrow> byte c < 128 \<and> \<not> ascii_space c"

lemma space_width_plain: "plain_ascii c \<Longrightarrow> space_width (c # s) = 0"
  using wide_space_high[of "byte c"] by (fastforce simp: plain_ascii_def split: list.splits)

lemma space_width_rev_plain: "plain_ascii c \<Longrightarrow> space_width_rev (c # s) = 0"
  using wide_space_high[of _ _ "byte c"] by (fastforce simp: plain_ascii_def split: list.splits)

lemma trim_space_plain:
  assumes "plain_ascii c" and "plain_ascii (last (c # s))"
  shows "trim_space (c # s) = c # s"
proof -
  have "rev (c # s) = last (c # s) # rev (butlast (c # s))" by (metis append_butlast_last_id list.distinct(1) rev_eq_Cons_iff rev_rev_ident)
  with space_width_rev_plain[OF assms(2)] have "space_width_rev (rev (c # s)) = 0" by metis
  then show ?thesis unfolding trim_space_unfold using space_width_plain[OF assms(1)] by blast
qed

lemma trim_space_after:
  assumes "plain_ascii c" and "plain_ascii (last (c # s))" and "trim_space t = t"
  shows "trim_space (c # s @ t) = c # s @ t"
proof (cases "t = []")
  case False
  have "byte (hd (rev (c # s))) < 128" using assms(2) by (simp only: hd_rev plain_ascii_def)
  then have "space_width_rev (rev t @ rev (c # s)) = 0"
    using assms(3) False by (intro space_width_rev_append) (simp_all add: trim_space_unfold)
  then show ?thesis unfolding trim_space_unfold using space_width_plain[OF assms(1)] by simp
qed (use trim_space_plain[OF assms(1,2)] in simp)

end
