(* ===== verification/Utf8.thy ===== *)
theory Utf8
  imports GoStrings
begin

text \<open>
  Package \<open>unicode/utf8\<close>: decoding a rune at either end of a string, validity, and the
  sequence of runes a \<open>range\<close> loop sees. The facts proved here are that decoding consumes
  at least one byte, that it distributes over a concatenation whose first part is valid, and
  that dropping the last rune of a valid string leaves a valid string.
\<close>

definition rune_error :: int where "rune_error = 65533"

definition cont_byte :: "int \<Rightarrow> int \<Rightarrow> char \<Rightarrow> bool" where
  "cont_byte lo hi c \<longleftrightarrow> lo \<le> byte c \<and> byte c \<le> hi"

text \<open>The accept range of the second byte, as the table \<open>first\<close> of the package has it:
  (number of bytes, lowest and highest second byte), or nothing for an invalid first byte.\<close>

definition lead_info :: "int \<Rightarrow> (nat \<times> int \<times> int) option" where
  "lead_info b =
     (if 194 \<le> b \<and> b \<le> 223 then Some (2, 128, 191)
      else if b = 224 then Some (3, 160, 191)
      else if (225 \<le> b \<and> b \<le> 236) \<or> b = 238 \<or> b = 239 then Some (3, 128, 191)
      else if b = 237 then Some (3, 128, 159)
      else if b = 240 then Some (4, 144, 191)
      else if 241 \<le> b \<and> b \<le> 243 then Some (4, 128, 191)
      else if b = 244 then Some (4, 128, 143)
      else None)"

text \<open>\<open>DecodeRuneInString\<close>: the rune and its width.\<close>

definition decode_rune :: "string \<Rightarrow> int \<times> nat" where
  "decode_rune s =
     (case s of
        [] \<Rightarrow> (rune_error, 0)
      | a # t \<Rightarrow>
         (if byte a < 128 then (byte a, 1)
          else (case lead_info (byte a) of
                  None \<Rightarrow> (rune_error, 1)
                | Some (n, lo, hi) \<Rightarrow>
                    (case t of
                       [] \<Rightarrow> (rune_error, 1)
                     | b # u \<Rightarrow>
                         if \<not> cont_byte lo hi b then (rune_error, 1)
                         else if n = 2 then ((byte a mod 32) * 64 + byte b mod 64, 2)
                         else (case u of
                                 [] \<Rightarrow> (rune_error, 1)
                               | c # v \<Rightarrow>
                                   if \<not> cont_byte 128 191 c then (rune_error, 1)
                                   else if n = 3
                                   then ((byte a mod 16) * 4096 + (byte b mod 64) * 64 + byte c mod 64, 3)
                                   else (case v of
                                           [] \<Rightarrow> (rune_error, 1)
                                         | d # _ \<Rightarrow>
                                             if \<not> cont_byte 128 191 d then (rune_error, 1)
                                             else ((byte a mod 8) * 262144 + (byte b mod 64) * 4096
                                                   + (byte c mod 64) * 64 + byte d mod 64, 4)))))))"

lemma decode_rune_Nil [simp]: "decode_rune [] = (rune_error, 0)"
  by (simp add: decode_rune_def)

lemma decode_rune_ascii: "byte a < 128 \<Longrightarrow> decode_rune (a # t) = (byte a, 1)"
  by (simp add: decode_rune_def)

lemma decode_rune_width: "s \<noteq> [] \<Longrightarrow> 1 \<le> snd (decode_rune s) \<and> snd (decode_rune s) \<le> length s"
  by (auto simp: decode_rune_def split: list.splits option.splits)

lemma decode_rune_width_le4: "snd (decode_rune s) \<le> 4"
  by (auto simp: decode_rune_def split: list.splits option.splits)

text \<open>The runes of a string with their widths, as \<open>for _, r := range s\<close> visits them.\<close>

function rune_seq :: "string \<Rightarrow> (int \<times> nat) list" where
  "rune_seq s = (if s = [] then [] else decode_rune s # rune_seq (drop (snd (decode_rune s)) s))"
  by pat_completeness auto
termination
proof (relation "measure length")
  fix s :: string
  assume "s \<noteq> []"
  with decode_rune_width[of s] show "(drop (snd (decode_rune s)) s, s) \<in> measure length"
    by (cases s) auto
qed simp

declare rune_seq.simps [simp del]

definition runes :: "string \<Rightarrow> int list" where
  "runes s = map fst (rune_seq s)"

text \<open>\<open>ValidString\<close>.\<close>

definition rune_ok :: "int \<times> nat \<Rightarrow> bool" where
  "rune_ok p \<longleftrightarrow> \<not> (fst p = rune_error \<and> snd p = 1)"

definition valid_utf8 :: "string \<Rightarrow> bool" where
  "valid_utf8 s \<longleftrightarrow> list_all rune_ok (rune_seq s)"

text \<open>\<open>RuneStart\<close> and \<open>DecodeLastRuneInString\<close>: walk back over at most three continuation
  bytes to a byte that can start a rune, and take that rune if it ends where the string does.\<close>

definition rune_start :: "char \<Rightarrow> bool" where
  "rune_start c \<longleftrightarrow> \<not> (128 \<le> byte c \<and> byte c \<le> 191)"

definition last_start :: "string \<Rightarrow> nat" where
  "last_start s =
     (let n = length s in
      if 2 \<le> n \<and> rune_start (s ! (n - 2)) then n - 2
      else if 3 \<le> n \<and> rune_start (s ! (n - 3)) then n - 3
      else if 4 \<le> n \<and> rune_start (s ! (n - 4)) then n - 4
      else n - 5)"

definition decode_last_rune :: "string \<Rightarrow> int \<times> nat" where
  "decode_last_rune s =
     (if s = [] then (rune_error, 0)
      else if byte (last s) < 128 then (byte (last s), 1)
      else let st = last_start s; (r, w) = decode_rune (drop st s)
           in if st + w = length s then (r, w) else (rune_error, 1))"

lemma decode_last_rune_width: "s \<noteq> [] \<Longrightarrow> 1 \<le> snd (decode_last_rune s) \<and> snd (decode_last_rune s) \<le> length s"
proof -
  assume s: "s \<noteq> []"
  have "st + w = length s \<Longrightarrow> decode_rune (drop st s) = (r, w) \<Longrightarrow> drop st s \<noteq> [] \<Longrightarrow> 1 \<le> w" for st r w
    using decode_rune_width[of "drop st s"] by auto
  moreover have "drop (last_start s) s \<noteq> []"
    using s by (cases s) (auto simp: last_start_def Let_def)
  ultimately show ?thesis
    using s by (auto simp: decode_last_rune_def Let_def Suc_le_eq split: prod.splits)
qed

section \<open>Valid strings\<close>

lemma rune_seq_Nil [simp]: "rune_seq [] = []"
  by (simp add: rune_seq.simps)

lemma valid_utf8_Nil [simp]: "valid_utf8 []"
  by (simp add: valid_utf8_def)

lemma rune_seq_unfold:
  "s \<noteq> [] \<Longrightarrow> rune_seq s = decode_rune s # rune_seq (drop (snd (decode_rune s)) s)"
  by (subst rune_seq.simps) simp

lemma decode_rune_cases:
  assumes "decode_rune s = (r, w)" and "rune_ok (r, w)" and "s \<noteq> []"
  obtains (one) a t where "s = a # t" "w = 1" "byte a < 128"
  | (two) a b t lo hi where "s = a # b # t" "w = 2" "\<not> byte a < 128" "lead_info (byte a) = Some (2, lo, hi)"
      "cont_byte lo hi b"
  | (three) a b c t lo hi where "s = a # b # c # t" "w = 3" "\<not> byte a < 128"
      "lead_info (byte a) = Some (3, lo, hi)" "cont_byte lo hi b" "cont_byte 128 191 c"
  | (four) a b c d t n lo hi where "s = a # b # c # d # t" "w = 4" "\<not> byte a < 128"
      "lead_info (byte a) = Some (n, lo, hi)" "n \<noteq> 2" "n \<noteq> 3"
      "cont_byte lo hi b" "cont_byte 128 191 c" "cont_byte 128 191 d"
proof -
  from assms(3) obtain a t where s: "s = a # t" by (cases s) auto
  show thesis
  proof (cases "byte a < 128")
    case True
    with assms(1) s one show thesis by (simp add: decode_rune_ascii)
  next
    case a: False
    with assms(1,2) s obtain n lo hi where li: "lead_info (byte a) = Some (n, lo, hi)"
      by (fastforce simp: decode_rune_def rune_ok_def split: option.splits)
    from assms(1,2) s a li obtain b u where t: "t = b # u" and b: "cont_byte lo hi b"
      by (cases t) (auto simp: decode_rune_def rune_ok_def split: if_splits)
    show thesis
    proof (cases "n = 2")
      case True
      with assms(1) s t a li b two show thesis by (simp add: decode_rune_def)
    next
      case n2: False
      with assms(1,2) s a li t b obtain c v where u: "u = c # v" and c: "cont_byte 128 191 c"
        by (cases u) (auto simp: decode_rune_def rune_ok_def split: if_splits)
      show thesis
      proof (cases "n = 3")
        case True
        with assms(1) s t u a li b c three show thesis by (simp add: decode_rune_def)
      next
        case n3: False
        with assms(1,2) s a li t b n2 u c obtain d v' where v: "v = d # v'" and d: "cont_byte 128 191 d"
          by (cases v) (auto simp: decode_rune_def rune_ok_def split: if_splits)
        with assms(1) s t u a li b c n2 n3 four show thesis by (simp add: decode_rune_def)
      qed
    qed
  qed
qed

text \<open>A rune that decodes properly does not depend on the bytes after it.\<close>

lemma decode_rune_append:
  assumes "s \<noteq> []" and "rune_ok (decode_rune s)"
  shows "decode_rune (s @ t) = decode_rune s"
proof -
  obtain r w where rw: "decode_rune s = (r, w)" by fastforce
  with assms(2) have "rune_ok (r, w)" by simp
  from rw this assms(1) show ?thesis
    by (cases rule: decode_rune_cases) (simp_all add: decode_rune_ascii, simp_all add: decode_rune_def)
qed

lemma valid_utf8_step:
  assumes "s \<noteq> []"
  shows "valid_utf8 s \<longleftrightarrow> rune_ok (decode_rune s) \<and> valid_utf8 (drop (snd (decode_rune s)) s)"
  using assms by (simp add: valid_utf8_def rune_seq_unfold)

lemma rune_seq_append: "valid_utf8 s \<Longrightarrow> rune_seq (s @ t) = rune_seq s @ rune_seq t"
proof (induction s rule: rune_seq.induct)
  case (1 s)
  show ?case
  proof (cases "s = []")
    case False
    let ?w = "snd (decode_rune s)"
    from False "1.prems" have ok: "rune_ok (decode_rune s)" and v: "valid_utf8 (drop ?w s)"
      by (simp_all add: valid_utf8_step)
    from False ok have eq: "decode_rune (s @ t) = decode_rune s" by (rule decode_rune_append)
    from decode_rune_width[OF False] have "?w \<le> length s" by simp
    then have "rune_seq (s @ t) = decode_rune s # rune_seq (drop ?w s @ t)"
      using False eq by (simp add: rune_seq_unfold[of "s @ t"])
    with "1.IH"[OF False v] False show ?thesis by (simp add: rune_seq_unfold[of s])
  qed simp
qed

lemma valid_utf8_append: "valid_utf8 s \<Longrightarrow> valid_utf8 (s @ t) \<longleftrightarrow> valid_utf8 t"
  by (simp add: valid_utf8_def rune_seq_append)

lemma runes_append: "valid_utf8 s \<Longrightarrow> runes (s @ t) = runes s @ runes t"
  by (simp add: runes_def rune_seq_append)

text \<open>The bytes of one rune: an ASCII byte, or a starting byte and one to three
  continuation bytes.\<close>

definition one_rune :: "string \<Rightarrow> bool" where
  "one_rune ch \<longleftrightarrow> ch \<noteq> [] \<and> rune_ok (decode_rune ch) \<and> snd (decode_rune ch) = length ch"

lemma lead_info_start: "lead_info (byte a) = Some x \<Longrightarrow> rune_start a"
  by (auto simp: lead_info_def rune_start_def split: if_splits)

lemma lead_info_range: "lead_info x = Some (n, lo, hi) \<Longrightarrow> 128 \<le> lo \<and> hi \<le> 191"
  by (auto simp: lead_info_def split: if_splits)

lemma cont_byte_not_start: "128 \<le> lo \<Longrightarrow> hi \<le> 191 \<Longrightarrow> cont_byte lo hi c \<Longrightarrow> \<not> rune_start c"
  by (auto simp: cont_byte_def rune_start_def)

lemma one_rune_shape:
  assumes "one_rune ch"
  shows "(\<exists>a. ch = [a] \<and> byte a < 128) \<or>
         (\<exists>a us. ch = a # us \<and> rune_start a \<and> 128 \<le> byte a \<and> us \<noteq> [] \<and> length us \<le> 3 \<and> list_all (\<lambda>c. \<not> rune_start c) us)"
proof (cases ch)
  case (Cons a t)
  show ?thesis
  proof (cases "byte a < 128")
    case True
    with assms Cons show ?thesis by (simp add: one_rune_def decode_rune_ascii)
  next
    case False
    with assms Cons obtain n lo hi where li: "lead_info (byte a) = Some (n, lo, hi)"
      by (auto simp: one_rune_def decode_rune_def rune_ok_def split: option.splits)
    note rng = lead_info_range[OF li]
    show ?thesis
      using assms Cons False li lead_info_start[OF li]
        cont_byte_not_start[OF rng[THEN conjunct1] rng[THEN conjunct2]] cont_byte_not_start[of 128 191]
      by (auto simp: one_rune_def decode_rune_def rune_ok_def split: list.splits if_splits)
  qed
qed (use assms in \<open>simp add: one_rune_def\<close>)

lemma decode_rune_take:
  assumes "rune_ok (decode_rune s)" and "s \<noteq> []"
  shows "decode_rune (take (snd (decode_rune s)) s) = decode_rune s"
proof -
  obtain r w where rw: "decode_rune s = (r, w)" by fastforce
  from rw assms have "rune_ok (r, w)" by simp
  from rw this assms(2) have "decode_rune (take w s) = decode_rune s"
  proof (cases rule: decode_rune_cases)
    case (one a t)
    then have "take w s = [a]" by simp
    with one show ?thesis by (simp add: decode_rune_ascii)
  next
    case (two a b t lo hi)
    then have "take w s = [a, b]" by simp
    with two show ?thesis by (simp add: decode_rune_def)
  next
    case (three a b c t lo hi)
    then have "take w s = [a, b, c]" by simp
    with three show ?thesis by (simp add: decode_rune_def)
  next
    case (four a b c d t n lo hi)
    then have "take w s = [a, b, c, d]" by simp
    with four show ?thesis by (simp add: decode_rune_def)
  qed
  with rw show ?thesis by simp
qed

lemma valid_utf8_last:
  "valid_utf8 s \<Longrightarrow> s \<noteq> [] \<Longrightarrow> \<exists>p ch. s = p @ ch \<and> valid_utf8 p \<and> one_rune ch"
proof (induction s rule: rune_seq.induct)
  case (1 s)
  let ?w = "snd (decode_rune s)"
  from "1.prems" have ok: "rune_ok (decode_rune s)" and v: "valid_utf8 (drop ?w s)"
    by (simp_all add: valid_utf8_step)
  have wd: "1 \<le> ?w" "?w \<le> length s" using decode_rune_width[OF "1.prems"(2)] by simp_all
  have head: "one_rune (take ?w s)"
  proof -
    have "decode_rune (take ?w s) = decode_rune s"
      using ok "1.prems"(2) by (rule decode_rune_take)
    then show ?thesis using ok wd "1.prems"(2) by (auto simp: one_rune_def)
  qed
  show ?case
  proof (cases "drop ?w s = []")
    case True
    then have "take ?w s = s" by simp
    with head show ?thesis by (metis append_Nil valid_utf8_Nil)
  next
    case False
    from "1.IH"[OF "1.prems"(2) v False] obtain p ch where
      p: "drop ?w s = p @ ch" "valid_utf8 p" "one_rune ch" by blast
    have "valid_utf8 (take ?w s)"
      using head by (simp add: valid_utf8_step one_rune_def)
    then have "valid_utf8 (take ?w s @ p)" using p(2) by (simp add: valid_utf8_append)
    moreover have "s = (take ?w s @ p) @ ch" using p(1) by (metis append.assoc append_take_drop_id)
    ultimately show ?thesis using p(3) by blast
  qed
qed

lemma decode_last_rune_append:
  assumes "one_rune ch"
  shows "decode_last_rune (p @ ch) = decode_rune ch"
  using one_rune_shape[OF assms]
proof
  assume "\<exists>a. ch = [a] \<and> byte a < 128"
  then show ?thesis by (auto simp: decode_last_rune_def decode_rune_ascii)
next
  assume "\<exists>a us. ch = a # us \<and> rune_start a \<and> 128 \<le> byte a \<and> us \<noteq> [] \<and> length us \<le> 3 \<and> list_all (\<lambda>c. \<not> rune_start c) us"
  then obtain a us where ch: "ch = a # us" and a: "rune_start a" and us: "us \<noteq> []" "length us \<le> 3"
    and cs: "list_all (\<lambda>c. \<not> rune_start c) us" by blast
  have "\<not> rune_start (last us)" using cs us(1) by (simp add: list_all_iff)
  then have last: "\<not> byte (last (p @ ch)) < 128"
    using us(1) by (simp add: ch rune_start_def)
  have st: "last_start (p @ ch) = length p"
  proof -
    from us consider u where "us = [u]" | u v where "us = [u, v]" | u v w where "us = [u, v, w]"
      by (cases us; cases "tl us"; cases "tl (tl us)"; cases "tl (tl (tl us))") auto
    then show ?thesis using cs a by cases (auto simp: last_start_def ch nth_append Let_def)
  qed
  show ?thesis
    using assms last st ch by (auto simp: decode_last_rune_def Let_def one_rune_def split: prod.splits)
qed

theorem valid_utf8_drop_last:
  assumes "valid_utf8 s" and "s \<noteq> []"
  shows "valid_utf8 (take (length s - snd (decode_last_rune s)) s)"
proof -
  from valid_utf8_last[OF assms] obtain p ch where s: "s = p @ ch" and p: "valid_utf8 p" and ch: "one_rune ch"
    by blast
  from decode_last_rune_append[OF ch] ch have "snd (decode_last_rune s) = length ch"
    by (simp add: s one_rune_def)
  with s p show ?thesis by simp
qed

lemma valid_utf8_ascii: "list_all (\<lambda>c. byte c < 128) s \<Longrightarrow> valid_utf8 s"
proof (induction s)
  case (Cons a s)
  then have "rune_ok (decode_rune (a # s))" and "snd (decode_rune (a # s)) = 1"
    by (simp_all add: decode_rune_ascii rune_ok_def rune_error_def)
  with Cons show ?case by (simp add: valid_utf8_step)
qed simp

end
