(* ===== verification/FileName.thy ===== *)
theory FileName
  imports Utf8
begin

text \<open>
  \<open>transfer/name.go\<close>: turning a file name the viewer supplied into one that is safe to create
  in a fixed directory. The errors of the package \<open>transfer\<close> are declared here, as its other
  files return them too.
\<close>

datatype os_err = ENOSPC | EDQUOT | ErrNotExist | ErrExist | ErrPermission | ErrOther

datatype transfer_err = ErrBadName | ErrTooManyCollisions | ErrOS os_err

definition maxNameBytes :: nat where "maxNameBytes = 200"

definition reservedStems :: "string list" where
  "reservedStems =
     [''CON'', ''PRN'', ''AUX'', ''NUL'',
      ''COM1'', ''COM2'', ''COM3'', ''COM4'', ''COM5'', ''COM6'', ''COM7'', ''COM8'', ''COM9'',
      ''LPT1'', ''LPT2'', ''LPT3'', ''LPT4'', ''LPT5'', ''LPT6'', ''LPT7'', ''LPT8'', ''LPT9'']"

definition isBidiControl :: "int \<Rightarrow> bool" where
  "isBidiControl r \<longleftrightarrow>
     r \<in> {0x200E, 0x200F, 0x202A, 0x202B, 0x202C, 0x202D, 0x202E, 0x2066, 0x2067, 0x2068, 0x2069}"

text \<open>The switch of the rune loop: control characters, the characters
  \<open>< > " | ? *\<close>, and the bidirectional controls.\<close>

definition bad_rune :: "int \<Rightarrow> bool" where
  "bad_rune r \<longleftrightarrow> r < 0x20 \<or> r = 0x7F \<or> r \<in> {60, 62, 34, 124, 63, 42} \<or> isBidiControl r"

definition path_seps :: string where
  "path_seps = [CHR ''/'', CHR 0x5C]"

text \<open>\<open>filepath.Base\<close> as Windows has it (both slashes, a drive letter dropped). The names it
  is asked about hold neither a slash nor a colon, where every platform's version agrees.\<close>

definition filepath_base :: "string \<Rightarrow> string" where
  "filepath_base path =
     (if path = [] then ''.''
      else let p = trim_right path path_seps;
               p = (if 2 \<le> length p \<and> p ! 1 = CHR '':'' then drop 2 p else p);
               e = rev (takeWhile (\<lambda>c. c \<notin> set path_seps) (rev p))
           in if e = [] then [CHR 0x5C] else e)"

definition splitExt :: "string \<Rightarrow> string \<times> string" where
  "splitExt name =
     (case last_index name (CHR ''.'') of
        None \<Rightarrow> (name, [])
      | Some i \<Rightarrow> if i = 0 then (name, []) else (take i name, drop i name))"

text \<open>The loop of \<open>truncate\<close>: one rune less until the stem fits the budget.\<close>

function shrink_stem :: "string \<Rightarrow> nat \<Rightarrow> string" where
  "shrink_stem stem budget =
     (if budget < length stem
      then shrink_stem (take (length stem - snd (decode_last_rune stem)) stem) budget
      else stem)"
  by pat_completeness auto
termination
proof (relation "measure (\<lambda>(stem, budget). length stem)")
  fix stem :: string and budget :: nat
  assume "budget < length stem"
  then have "stem \<noteq> []" by auto
  from decode_last_rune_width[OF this]
  show "((take (length stem - snd (decode_last_rune stem)) stem, budget), (stem, budget))
        \<in> measure (\<lambda>(stem, budget). length stem)" by auto
qed simp

declare shrink_stem.simps [simp del]

definition truncate_name :: "string \<Rightarrow> string \<Rightarrow> string" where
  "truncate_name stem0 ext0 =
     (let (stem, ext) = (if maxNameBytes div 2 < length ext0 then (stem0 @ ext0, []) else (stem0, ext0));
          stem = trim_right (shrink_stem stem (maxNameBytes - length ext)) ''. ''
      in if stem = [] then [] else stem @ ext)"

definition reserved_name :: "string \<Rightarrow> bool" where
  "reserved_name name \<longleftrightarrow> to_upper (fst (cut_at name (CHR ''.''))) \<in> set reservedStems"

text \<open>\<open>SafeName\<close> in the order of the code: \<open>name_rejected\<close> holds the checks made on the
  trimmed name, \<open>fit_name\<close> the truncation of an overlong one, \<open>safe_stripped\<close> what follows
  the removal of trailing dots and spaces.\<close>

definition name_rejected :: "string \<Rightarrow> bool" where
  "name_rejected name \<longleftrightarrow>
     name = [] \<or> \<not> valid_utf8 name \<or> contains_any name path_seps \<or> CHR '':'' \<in> set name \<or>
     list_ex bad_rune (runes name)"

definition fit_name :: "string \<Rightarrow> string" where
  "fit_name name =
     (if maxNameBytes < length name then truncate_name (fst (splitExt name)) (snd (splitExt name)) else name)"

definition plain_component :: "string \<Rightarrow> transfer_err + string" where
  "plain_component name =
     (if name = [] then Inl ErrBadName
      else if name \<noteq> filepath_base name \<or> name = ''.'' \<or> name = ''..'' then Inl ErrBadName
      else Inr name)"

definition safe_stripped :: "string \<Rightarrow> transfer_err + string" where
  "safe_stripped name =
     (if name = [] then Inl ErrBadName
      else if reserved_name name then Inl ErrBadName
      else plain_component (fit_name name))"

definition SafeName :: "string \<Rightarrow> transfer_err + string" where
  "SafeName raw =
     (if name_rejected (trim_space raw) then Inl ErrBadName
      else safe_stripped (trim_right (trim_space raw) ''. ''))"

lemma SafeName_plain: "SafeName ''report.pdf'' = Inr ''report.pdf''" by code_simp

text \<open>Two names whose result a second pass would treat differently.\<close>

lemma SafeName_con:
  "SafeName (''CON'' @ replicate 194 (CHR '' '') @ ''x.txt'') = Inr ''CON.txt''"
  "SafeName ''CON.txt'' = Inl ErrBadName"
  by code_simp+

lemma SafeName_nbsp:
  "SafeName [CHR ''a'', CHR 0xC2, CHR 0xA0, CHR ''.''] = Inr [CHR ''a'', CHR 0xC2, CHR 0xA0]"
  "SafeName [CHR ''a'', CHR 0xC2, CHR 0xA0] = Inr ''a''"
  by code_simp+

section \<open>Valid and clean strings\<close>

lemma decode_last_rune_ascii: "byte c < 128 \<Longrightarrow> decode_last_rune (s @ [c]) = (byte c, 1)"
  by (simp add: decode_last_rune_def)

lemma valid_utf8_butlast_ascii:
  assumes "valid_utf8 (s @ [c])" and "byte c < 128"
  shows "valid_utf8 s"
  using valid_utf8_drop_last[OF assms(1)] assms(2) by (simp add: decode_last_rune_ascii)

lemma valid_utf8_trim_right:
  assumes "list_all (\<lambda>c. byte c < 128) cs" and "valid_utf8 s"
  shows "valid_utf8 (trim_right s cs)"
  using assms(2)
proof (induction s rule: rev_induct)
  case (snoc c s)
  show ?case
  proof (cases "c \<in> set cs")
    case True
    with assms(1) have "byte c < 128" by (simp add: list_all_iff)
    with snoc have "valid_utf8 (trim_right s cs)" by (blast intro: valid_utf8_butlast_ascii)
    with True show ?thesis by (simp add: trim_right_def)
  next
    case False
    with snoc.prems show ?thesis by (simp add: trim_right_def)
  qed
qed (simp add: trim_right_def)

text \<open>A string may be cut in front of an ASCII byte.\<close>

lemma valid_utf8_cut_ascii:
  "valid_utf8 (s @ c # t) \<Longrightarrow> byte c < 128 \<Longrightarrow> valid_utf8 s \<and> valid_utf8 (c # t)"
proof (induction s rule: rune_seq.induct)
  case (1 s)
  show ?case
  proof (cases "s = []")
    case False
    let ?u = "s @ c # t" and ?w = "snd (decode_rune (s @ c # t))"
    have ne: "?u \<noteq> []" by simp
    from "1.prems" ne have ok: "rune_ok (decode_rune ?u)" and v: "valid_utf8 (drop ?w ?u)"
      by (simp_all add: valid_utf8_step)
    have w: "?w \<le> length s"
    proof -
      obtain r w where rw: "decode_rune ?u = (r, w)" by fastforce
      with ok have "rune_ok (r, w)" by simp
      have nc: "\<not> cont_byte lo hi c" if "128 \<le> lo" for lo hi
        using that "1.prems"(2) by (simp add: cont_byte_def)
      from rw \<open>rune_ok (r, w)\<close> ne have "w \<le> length s"
      proof (cases rule: decode_rune_cases)
        case (one a t')
        with False show ?thesis by (cases s) auto
      next
        case (two a b t' lo hi)
        with nc[of lo hi] lead_info_range[of "byte a" 2 lo hi] False show ?thesis
          by (cases s; cases "tl s") auto
      next
        case (three a b d t' lo hi)
        with nc[of lo hi] nc[of 128 191] lead_info_range[of "byte a" 3 lo hi] False show ?thesis
          by (cases s; cases "tl s"; cases "tl (tl s)") auto
      next
        case (four a b d e t' n lo hi)
        with nc[of lo hi] nc[of 128 191] lead_info_range[of "byte a" n lo hi] False show ?thesis
          by (cases s; cases "tl s"; cases "tl (tl s)"; cases "tl (tl (tl s))") auto
      qed
      with rw show ?thesis by simp
    qed
    have w1: "1 \<le> ?w" using decode_rune_width[OF ne] by simp
    have tk: "take ?w ?u = take ?w s" using w by simp
    from decode_rune_take[OF ok ne] have ds: "decode_rune (take ?w s) = decode_rune ?u" by (simp only: tk)
    have tne: "take ?w s \<noteq> []" using w1 False by (cases s) auto
    have "decode_rune (take ?w s @ drop ?w s) = decode_rune (take ?w s)"
      using tne ds ok by (intro decode_rune_append) simp_all
    then have dsu: "decode_rune s = decode_rune ?u" using ds by simp
    have "valid_utf8 (drop (snd (decode_rune s)) s @ c # t)"
      using v w dsu by simp
    from "1.IH"[OF False this "1.prems"(2)] show ?thesis
      using False ok dsu by (simp add: valid_utf8_step[of s])
  qed (use "1.prems" in simp)
qed

definition clean :: "string \<Rightarrow> bool" where
  "clean s \<longleftrightarrow> valid_utf8 s \<and> \<not> contains_any s path_seps \<and> CHR '':'' \<notin> set s \<and> \<not> list_ex bad_rune (runes s)"

lemma clean_append: "valid_utf8 p \<Longrightarrow> clean (p @ q) \<longleftrightarrow> clean p \<and> clean q"
  by (auto simp: clean_def valid_utf8_append runes_append contains_any_def)

lemma clean_valid: "clean s \<Longrightarrow> valid_utf8 s"
  by (simp add: clean_def)

lemma clean_Nil [simp]: "clean []"
  by (simp add: clean_def runes_def contains_any_def)

lemma name_rejected_iff: "name_rejected name \<longleftrightarrow> name = [] \<or> \<not> clean name"
  by (auto simp: name_rejected_def clean_def)

lemma clean_prefix: "clean s \<Longrightarrow> prefix p s \<Longrightarrow> valid_utf8 p \<Longrightarrow> clean p"
  by (auto simp: prefix_def clean_append)

lemma prefix_trim_right: "prefix (trim_right s cs) s"
  unfolding trim_right_def by (rule prefix_rev_dropWhile)

lemma ascii_dot_space: "list_all (\<lambda>c. byte c < 128) ''. ''"
  by code_simp

lemma clean_trim_right: "clean s \<Longrightarrow> clean (trim_right s ''. '')"
  by (rule clean_prefix[OF _ prefix_trim_right valid_utf8_trim_right[OF ascii_dot_space clean_valid]])

lemma trim_right_last: "trim_right s cs \<noteq> [] \<Longrightarrow> last (trim_right s cs) \<notin> set cs"
  unfolding trim_right_def using last_dropWhile_rev[of "\<lambda>c. c \<in> set cs" s] by auto

lemma trim_right_id: "s \<noteq> [] \<Longrightarrow> last s \<notin> set cs \<Longrightarrow> trim_right s cs = s"
  by (cases s rule: rev_cases) (auto simp: trim_right_def)

section \<open>Splitting and shortening\<close>

lemma last_index_split:
  "last_index s c = Some i \<Longrightarrow> i < length s \<and> s ! i = c"
  by (induction s arbitrary: i) (auto split: option.splits if_splits)

lemma splitExt_join: "fst (splitExt name) @ snd (splitExt name) = name"
  by (simp add: splitExt_def split: option.splits)

lemma splitExt_dot: "snd (splitExt name) \<noteq> [] \<Longrightarrow> \<exists>e. snd (splitExt name) = CHR ''.'' # e"
  by (auto simp: splitExt_def Cons_nth_drop_Suc[symmetric] dest!: last_index_split split: option.splits if_splits)

lemma shrink_stem_le: "length (shrink_stem stem budget) \<le> budget"
  by (induction stem budget rule: shrink_stem.induct) (subst shrink_stem.simps, simp)

lemma shrink_stem_prefix: "prefix (shrink_stem stem budget) stem"
proof (induction stem budget rule: shrink_stem.induct)
  case (1 stem budget)
  then show ?case
    by (subst shrink_stem.simps) (auto intro: prefix_order.trans take_is_prefix)
qed

lemma shrink_stem_valid: "valid_utf8 stem \<Longrightarrow> valid_utf8 (shrink_stem stem budget)"
proof (induction stem budget rule: shrink_stem.induct)
  case (1 stem budget)
  show ?case
  proof (cases "budget < length stem")
    case True
    then have "valid_utf8 (take (length stem - snd (decode_last_rune stem)) stem)"
      using "1.prems" by (intro valid_utf8_drop_last) auto
    with 1 True show ?thesis by (subst shrink_stem.simps) simp
  next
    case False
    with 1 show ?thesis by (subst shrink_stem.simps) simp
  qed
qed

section \<open>What SafeName returns\<close>

lemma fit_name_props:
  assumes "clean name" and "name \<noteq> []" and "last name \<notin> set ''. ''" and "fit_name name \<noteq> []"
  shows "length (fit_name name) \<le> maxNameBytes" and "clean (fit_name name)"
    and "last (fit_name name) \<notin> set ''. ''"
    and "\<exists>p. p \<noteq> [] \<and> valid_utf8 p \<and> prefix p name \<and> prefix p (fit_name name)"
proof -
  obtain stem ext where se: "splitExt name = (stem, ext)" by fastforce
  with splitExt_join[of name] have join: "stem @ ext = name" by simp
  have parts: "valid_utf8 stem \<and> valid_utf8 ext"
  proof (cases "ext = []")
    case True
    with assms(1) join show ?thesis by (auto simp: clean_valid)
  next
    case False
    with splitExt_dot[of name] se obtain e where e: "ext = CHR ''.'' # e" by auto
    have "byte (CHR ''.'') < 128" by code_simp
    with assms(1) join e valid_utf8_cut_ascii[of stem "CHR ''.''" e] show ?thesis by (auto dest: clean_valid)
  qed
  have "length (fit_name name) \<le> maxNameBytes \<and> clean (fit_name name) \<and> last (fit_name name) \<notin> set ''. '' \<and>
    (\<exists>p. p \<noteq> [] \<and> valid_utf8 p \<and> prefix p name \<and> prefix p (fit_name name))"
  proof (cases "maxNameBytes < length name")
    case False
    with assms show ?thesis by (auto simp: fit_name_def clean_valid)
  next
    case True
    define st ex where "st = (if maxNameBytes div 2 < length ext then stem @ ext else stem)"
      and "ex = (if maxNameBytes div 2 < length ext then [] else ext)"
    have vs: "valid_utf8 st" and ps: "st @ ex = name" and lex: "length ex \<le> maxNameBytes div 2"
      using parts join by (auto simp: st_def ex_def valid_utf8_append)
    define t where "t = trim_right (shrink_stem st (maxNameBytes - length ex)) ''. ''"
    have f: "fit_name name = (if t = [] then [] else t @ ex)"
      using True se by (auto simp: fit_name_def truncate_name_def t_def st_def ex_def Let_def)
    with assms(4) have t: "t \<noteq> []" and ft: "fit_name name = t @ ex" by (auto split: if_splits)
    have pt: "prefix t name"
      unfolding t_def using prefix_trim_right shrink_stem_prefix ps
      by (metis prefix_order.trans prefixI)
    have vt: "valid_utf8 t"
      unfolding t_def by (intro valid_utf8_trim_right[OF ascii_dot_space] shrink_stem_valid vs)
    have "length t \<le> maxNameBytes - length ex"
      unfolding t_def using shrink_stem_le[of st "maxNameBytes - length ex"]
        prefix_length_le[OF prefix_trim_right] by (metis le_trans)
    with lex have len: "length (t @ ex) \<le> maxNameBytes" by (simp add: maxNameBytes_def)
    have "clean ex" using assms(1) ps vs clean_append[of st ex] by simp
    moreover have "clean t" using assms(1) pt vt by (rule clean_prefix)
    ultimately have "clean (t @ ex)" using vt by (simp add: clean_append)
    moreover have "last (t @ ex) \<notin> set ''. ''"
    proof (cases "ex = []")
      case True
      with t trim_right_last[of "shrink_stem st (maxNameBytes - length ex)" "''. ''"] show ?thesis
        by (simp add: t_def)
    next
      case False
      with assms(3) ps show ?thesis by (metis last_append_neq)
    qed
    ultimately show ?thesis using len ft t vt pt by auto
  qed
  then show "length (fit_name name) \<le> maxNameBytes" "clean (fit_name name)"
    "last (fit_name name) \<notin> set ''. ''"
    "\<exists>p. p \<noteq> [] \<and> valid_utf8 p \<and> prefix p name \<and> prefix p (fit_name name)" by blast+
qed

lemma SafeName_cases:
  assumes "SafeName raw = Inr n"
  obtains name where "name = trim_right (trim_space raw) ''. ''" "name \<noteq> []" "clean (trim_space raw)" "clean name"
    "last name \<notin> set ''. ''" "\<not> reserved_name name" "n = fit_name name" "n \<noteq> []"
    "n = filepath_base n" "n \<noteq> ''.''" "n \<noteq> ''..''"
proof -
  let ?name = "trim_right (trim_space raw) ''. ''"
  from assms have "clean (trim_space raw)"
    by (auto simp: SafeName_def name_rejected_iff split: if_splits)
  moreover from assms have "?name \<noteq> []" "\<not> reserved_name ?name" "n = fit_name ?name" "n \<noteq> []"
    "n = filepath_base n" "n \<noteq> ''.''" "n \<noteq> ''..''"
    by (auto simp: SafeName_def safe_stripped_def plain_component_def split: if_splits)
  ultimately show thesis
    using that[of ?name] trim_right_last[of "trim_space raw" "''. ''"] clean_trim_right by simp
qed

lemma SafeName_length:
  assumes "SafeName raw = Inr n"
  shows "length n \<le> maxNameBytes"
  using assms by (rule SafeName_cases) (use fit_name_props(1) in auto)

lemma SafeName_facts:
  assumes "SafeName raw = Inr n"
  shows "n \<noteq> [] \<and> length n \<le> maxNameBytes \<and> valid_utf8 n \<and> \<not> list_ex bad_rune (runes n)
     \<and> CHR ''/'' \<notin> set n \<and> CHR 0x5C \<notin> set n \<and> CHR '':'' \<notin> set n \<and> last n \<noteq> CHR ''.'' \<and> last n \<noteq> CHR '' ''
     \<and> filepath_base n = n \<and> n \<noteq> ''.'' \<and> n \<noteq> ''..''"
  using assms
proof (rule SafeName_cases)
  fix name
  assume *: "name \<noteq> []" "clean name" "last name \<notin> set ''. ''" "n = fit_name name" "n \<noteq> []"
    "n = filepath_base n" "n \<noteq> ''.''" "n \<noteq> ''..''"
  with fit_name_props(1-3)[of name] have "length n \<le> maxNameBytes" "clean n" "last n \<notin> set ''. ''" by auto
  moreover from *(6) have "filepath_base n = n" by (rule sym)
  ultimately show ?thesis using *(5,7,8)
    by (simp add: clean_def contains_any_def path_seps_def list_ex_iff) blast
qed



section \<open>A second pass\<close>

text \<open>The white space at the head of a string depends on its first rune only.\<close>

lemma space_width_append:
  assumes "p \<noteq> []" and "valid_utf8 p"
  shows "space_width (p @ q) = space_width p"
proof -
  obtain r w where rw: "decode_rune p = (r, w)" by fastforce
  with assms have "rune_ok (r, w)" by (simp add: valid_utf8_step)
  from rw this assms(1) show ?thesis
  proof (cases rule: decode_rune_cases)
    case (one a t)
    then show ?thesis by (auto simp: wide_space_def split: list.splits)
  next
    case (two a b t lo hi)
    then have "byte a \<le> 223" by (auto simp: lead_info_def split: if_splits)
    with two show ?thesis by (auto simp: wide_space_def split: list.splits)
  qed auto
qed

lemma space_width_trim_space: "space_width (trim_space_left s) = 0"
proof (induction s rule: trim_space_left.induct)
  case (1 s)
  then show ?case by (subst trim_space_left.simps) auto
qed

lemma prefix_trim_space: "prefix (trim_space s) (trim_space_left s)"
proof -
  have "suffix (trim_space_rev t) t" for t
  proof (induction t rule: trim_space_rev.induct)
    case (1 s)
    then show ?case by (subst trim_space_rev.simps) (auto intro: suffix_order.trans suffix_drop)
  qed
  from this[of "rev (trim_space_left s)"] show ?thesis by (simp add: trim_space_def suffix_to_prefix)
qed

lemma space_width_SafeName:
  assumes "SafeName raw = Inr n"
  shows "space_width n = 0"
  using assms
proof (rule SafeName_cases)
  fix name
  assume n: "name = trim_right (trim_space raw) ''. ''" "name \<noteq> []" "clean name" "last name \<notin> set ''. ''"
    "n = fit_name name" "n \<noteq> []" and ts: "clean (trim_space raw)"
  with fit_name_props(4)[of name] obtain p where
    p: "p \<noteq> []" "valid_utf8 p" "prefix p name" "prefix p n" by auto
  from p(3) have "prefix p (trim_space_left raw)"
    unfolding n(1) using prefix_trim_right prefix_trim_space by (metis prefix_order.trans)
  then have "space_width p = 0"
    using space_width_append[OF p(1,2)] space_width_trim_space[of raw] by (auto simp: prefix_def)
  with p show ?thesis using space_width_append[OF p(1,2)] by (auto simp: prefix_def)
qed

text \<open>What a second pass does with an accepted name. \<open>Dest.Create\<close> applies \<open>SafeName\<close> to a name
  that was already made safe when the operator was asked. It gets the same name back exactly when
  that name is not a reserved device name (truncation can produce one) and does not end in white
  space (removing a trailing dot can expose some).\<close>

theorem SafeName_stable:
  assumes "SafeName raw = Inr n"
  shows "SafeName n = Inr n \<longleftrightarrow> \<not> reserved_name n \<and> space_width_rev (rev n) = 0"
  using assms
proof (rule SafeName_cases)
  fix name
  assume *: "name \<noteq> []" "clean name" "last name \<notin> set ''. ''" "n = fit_name name" "n \<noteq> []"
    "n = filepath_base n" "n \<noteq> ''.''" "n \<noteq> ''..''"
  then have len: "length n \<le> maxNameBytes" and cl: "clean n" and last: "last n \<notin> set ''. ''"
    using fit_name_props(1-3)[of name] by auto
  have fit: "fit_name n = n" using len by (simp add: fit_name_def)
  have pc: "plain_component n = Inr n" using *(5-8) by (simp add: plain_component_def)
  show ?thesis
  proof
    assume s: "SafeName n = Inr n"
    then have tr: "trim_right (trim_space n) ''. '' = n"
    proof (rule SafeName_cases)
      fix m assume m: "m = trim_right (trim_space n) ''. ''" "n = fit_name m" "m \<noteq> []"
      have "length m \<le> length (trim_space n)" unfolding m(1) using prefix_trim_right by (rule prefix_length_le)
      also have "\<dots> \<le> length (trim_space_left n)" by (rule prefix_length_le[OF prefix_trim_space])
      also have "trim_space_left n = n"
        using space_width_SafeName[OF assms] by (subst trim_space_left.simps) simp
      finally have "length m \<le> maxNameBytes" using len by simp
      then have "fit_name m = m" by (simp add: fit_name_def)
      with m show ?thesis by simp
    qed
    have "trim_space n = n"
    proof -
      have tl: "trim_space_left n = n"
        using space_width_SafeName[OF assms] by (subst trim_space_left.simps) simp
      have "prefix (trim_space n) n" using prefix_trim_space[of n] tl by simp
      moreover have "prefix n (trim_space n)" using tr prefix_trim_right by metis
      ultimately show ?thesis by (rule prefix_order.antisym)
    qed
    moreover have "\<not> reserved_name n"
      using s
    proof (rule SafeName_cases)
      fix m assume "m = trim_right (trim_space n) ''. ''" "\<not> reserved_name m"
      with tr show ?thesis by simp
    qed
    ultimately show "\<not> reserved_name n \<and> space_width_rev (rev n) = 0" by (simp add: trim_space_unfold)
  next
    assume "\<not> reserved_name n \<and> space_width_rev (rev n) = 0"
    then have "trim_space n = n" and r: "\<not> reserved_name n"
      using space_width_SafeName[OF assms] by (simp_all add: trim_space_unfold)
    moreover have "trim_right n ''. '' = n" using *(5) last by (rule trim_right_id)
    ultimately show "SafeName n = Inr n"
      using cl *(5) fit pc by (simp add: SafeName_def name_rejected_iff safe_stripped_def)
  qed
qed

lemma SafeName_stable_witness:
  "SafeName ''CON.txt'' \<noteq> Inr ''CON.txt'' \<and> reserved_name ''CON.txt''"
proof -
  have "reserved_name ''CON.txt''" by code_simp
  with SafeName_stable[OF SafeName_con(1)] show ?thesis by blast
qed

text \<open>A name of at most 200 bytes is never accepted when it is a reserved device name, so
  \<open>Create\<close>, which applies \<open>SafeName\<close> to an accepted name, never creates one.\<close>

theorem SafeName_twice_not_reserved:
  assumes "SafeName raw = Inr n" and "SafeName n = Inr m"
  shows "\<not> reserved_name m"
  using assms(2)
proof (rule SafeName_cases)
  fix name
  assume m: "name = trim_right (trim_space n) ''. ''" "\<not> reserved_name name" "m = fit_name name"
  have "length name \<le> length (trim_space_left n)"
    unfolding m(1) using prefix_trim_right prefix_trim_space by (metis prefix_length_le prefix_order.trans)
  also have "trim_space_left n = n"
    using space_width_SafeName[OF assms(1)] by (subst trim_space_left.simps) simp
  also have "length n \<le> maxNameBytes" by (rule SafeName_length[OF assms(1)])
  finally show ?thesis using m by (simp add: fit_name_def)
qed

lemma SafeName_twice_witness: "\<not> reserved_name ''a''"
  by (rule SafeName_twice_not_reserved[OF SafeName_nbsp(1) SafeName_nbsp(2)])

end
