(* ===== verification/Paths.thy ===== *)
theory Paths
  imports GoStrings
begin

text \<open>
  Package \<open>path/filepath\<close> in its slash-separated form: \<open>Clean\<close>, \<open>Join\<close>, \<open>Dir\<close> and \<open>Base\<close>, and the
  decimal rendering of \<open>fmt\<close>'s \<open>%d\<close>. The facts proved here are what the callers rely on: joining
  one plain component to a directory puts it directly below that directory.
\<close>

definition sep :: char where "sep = CHR ''/''"

text \<open>\<open>Clean\<close> on the elements of a path: \<open>acc\<close> holds the elements kept so far, last first.\<close>

fun clean_comps :: "bool \<Rightarrow> string list \<Rightarrow> string list \<Rightarrow> string list" where
  "clean_comps rooted acc [] = rev acc"
| "clean_comps rooted acc (c # cs) =
     (if c = [] \<or> c = ''.'' then clean_comps rooted acc cs
      else if c = ''..'' then
        (case acc of
           [] \<Rightarrow> if rooted then clean_comps rooted [] cs else clean_comps rooted [''..''] cs
         | a # as \<Rightarrow> if a = ''..'' then clean_comps rooted (''..'' # acc) cs else clean_comps rooted as cs)
      else clean_comps rooted (c # acc) cs)"

definition rooted :: "string \<Rightarrow> bool" where
  "rooted p \<longleftrightarrow> has_prefix p [sep]"

definition path_comps :: "string \<Rightarrow> string list" where
  "path_comps p = clean_comps (rooted p) [] (split_on sep p)"

definition path_clean :: "string \<Rightarrow> string" where
  "path_clean p =
     (let body = join_with [sep] (path_comps p)
      in if rooted p then sep # body else if body = [] then ''.'' else body)"

definition path_join :: "string \<Rightarrow> string \<Rightarrow> string" where
  "path_join a b =
     (if a = [] \<and> b = [] then []
      else if a = [] then path_clean b
      else if b = [] then path_clean a
      else path_clean (a @ sep # b))"

definition path_dir :: "string \<Rightarrow> string" where
  "path_dir p = path_clean (case last_index p sep of None \<Rightarrow> [] | Some i \<Rightarrow> take (Suc i) p)"

definition path_base :: "string \<Rightarrow> string" where
  "path_base p =
     (if p = [] then ''.''
      else let e = rev (takeWhile (\<lambda>c. c \<noteq> sep) (rev (trim_right p [sep])))
           in if e = [] then [sep] else e)"

fun dec_nat :: "nat \<Rightarrow> string" where
  "dec_nat n = (if n < 10 then [char_of (48 + n)] else dec_nat (n div 10) @ [char_of (48 + n mod 10)])"

declare dec_nat.simps [simp del]

section \<open>Plain components\<close>

definition plain_comp :: "string \<Rightarrow> bool" where
  "plain_comp c \<longleftrightarrow> c \<noteq> [] \<and> c \<noteq> ''.'' \<and> c \<noteq> ''..'' \<and> sep \<notin> set c"

lemma split_on_ne [simp]: "split_on c s \<noteq> []"
  by (induction s) (auto split: list.splits)

lemma split_on_plain: "c \<notin> set s \<Longrightarrow> split_on c s = [s]"
  by (induction s) auto

lemma split_on_append: "split_on c (s @ c # t) = split_on c s @ split_on c t"
proof (induction s)
  case (Cons x xs)
  then show ?case
    using split_on_ne[of c xs] by (auto split: list.splits simp: append_eq_Cons_conv)
qed simp

lemma clean_comps_snoc:
  "plain_comp c \<Longrightarrow> clean_comps r acc (cs @ [c]) = clean_comps r acc cs @ [c]"
  by (induction r acc cs rule: clean_comps.induct) (auto simp: plain_comp_def split: list.splits)

lemma rooted_append: "p \<noteq> [] \<Longrightarrow> rooted (p @ q) = rooted p"
  by (cases p) (auto simp: rooted_def has_prefix_def)

lemma join_with_snoc: "cs \<noteq> [] \<Longrightarrow> join_with s (cs @ [c]) = join_with s cs @ s @ c"
  by (induction s cs rule: join_with.induct) auto

lemma path_comps_snoc:
  "p \<noteq> [] \<Longrightarrow> plain_comp c \<Longrightarrow> path_comps (p @ sep # c) = path_comps p @ [c]"
  by (simp add: path_comps_def rooted_append split_on_append split_on_plain plain_comp_def clean_comps_snoc)

lemma plain_comp_ne: "plain_comp c \<Longrightarrow> c \<noteq> []"
  by (simp add: plain_comp_def)

text \<open>No element \<open>Clean\<close> keeps is empty.\<close>

lemma clean_comps_ne: "[] \<notin> set acc \<Longrightarrow> [] \<notin> set (clean_comps r acc cs)"
  by (induction r acc cs rule: clean_comps.induct) (auto split: list.splits)

lemma join_with_Nil_iff: "[] \<notin> set cs \<Longrightarrow> join_with s cs = [] \<longleftrightarrow> cs = []"
  by (induction s cs rule: join_with.induct) auto

text \<open>A directory with at least one element, such as any folder below a home directory.\<close>

definition has_comps :: "string \<Rightarrow> bool" where
  "has_comps p \<longleftrightarrow> p \<noteq> [] \<and> path_comps p \<noteq> []"

lemma path_clean_snoc:
  assumes "has_comps p" and "plain_comp c"
  shows "path_clean (p @ sep # c) = path_clean p @ sep # c"
proof -
  have p: "p \<noteq> []" "path_comps p \<noteq> []" using assms(1) by (auto simp: has_comps_def)
  have ne: "join_with [sep] (path_comps p) \<noteq> []"
    using p(2) join_with_Nil_iff[of "path_comps p"] clean_comps_ne[of "[]"] by (auto simp: path_comps_def)
  show ?thesis
    using p assms(2) ne
    by (simp add: path_clean_def path_comps_snoc rooted_append join_with_snoc Let_def)
qed

lemma path_join_plain:
  assumes "has_comps root" and "plain_comp c"
  shows "path_join root c = path_clean root @ sep # c"
  using assms path_clean_snoc[OF assms] by (simp add: path_join_def has_comps_def plain_comp_ne)

text \<open>A directory as \<open>Join\<close> returns it: already clean, with at least one element.\<close>

definition clean_dir :: "string \<Rightarrow> bool" where
  "clean_dir p \<longleftrightarrow> has_comps p \<and> path_clean p = p"

lemma path_join_clean_dir: "clean_dir root \<Longrightarrow> plain_comp c \<Longrightarrow> path_join root c = root @ sep # c"
  by (simp add: clean_dir_def path_join_plain)

lemma path_clean_join:
  "clean_dir root \<Longrightarrow> plain_comp c \<Longrightarrow> path_clean (path_join root c) = path_join root c"
  by (simp add: clean_dir_def path_join_plain path_clean_snoc)

section \<open>Dir gets shorter\<close>

definition weight :: "string list \<Rightarrow> nat" where
  "weight cs = sum_list (map (\<lambda>c. Suc (length c)) cs)"

lemma weight_simps [simp]:
  "weight [] = 0" "weight (c # cs) = Suc (length c) + weight cs" "weight (as @ bs) = weight as + weight bs"
  "weight (rev as) = weight as"
  by (simp_all add: weight_def rev_map[symmetric])

lemma weight_split_on: "weight (split_on c s) = Suc (length s)"
  by (induction s) (auto split: list.splits)

lemma weight_clean_comps: "weight (clean_comps r acc cs) \<le> weight acc + weight cs"
proof (induction r acc cs rule: clean_comps.induct)
  case (2 r acc c cs)
  then show ?case by (auto split: list.splits)
qed simp

lemma clean_comps_trail: "clean_comps r acc (cs @ [[]]) = clean_comps r acc cs"
  by (induction r acc cs rule: clean_comps.induct) (auto split: list.splits)

lemma length_join_with: "cs \<noteq> [] \<Longrightarrow> Suc (length (join_with [s] cs)) = weight cs"
proof (induction cs)
  case (Cons c cs)
  then show ?case by (cases cs) auto
qed simp

lemma length_path_clean_le:
  "length (path_clean p) \<le> max 1 ((if rooted p then 1 else 0) + weight (path_comps p) - 1)"
  using length_join_with[of "path_comps p" sep]
  by (cases "path_comps p = []") (auto simp: path_clean_def Let_def)

lemma weight_path_comps: "(if rooted p then 1 else 0) + weight (path_comps p) \<le> Suc (length p)"
proof (cases "rooted p")
  case True
  then obtain q where p: "p = sep # q" by (cases p) (auto simp: rooted_def has_prefix_def)
  then have "path_comps p = clean_comps True [] (split_on sep q)" using True by (simp add: path_comps_def)
  with weight_clean_comps[of True "[]" "split_on sep q"] p True show ?thesis by (simp add: weight_split_on)
next
  case False
  with weight_clean_comps[of False "[]" "split_on sep p"] show ?thesis
    by (simp add: path_comps_def weight_split_on)
qed

lemma path_dir_shorter: "2 \<le> length p \<Longrightarrow> length (path_dir p) < length p"
proof (cases "last_index p sep")
  case None
  assume "2 \<le> length p"
  with None show ?thesis by (simp add: path_dir_def path_clean_def path_comps_def rooted_def has_prefix_def)
next
  case (Some i)
  assume len: "2 \<le> length p"
  have i: "i < length p \<and> p ! i = sep"
    using Some by (induction p arbitrary: i) (auto split: option.splits if_splits)
  let ?q = "take i p"
  have q: "take (Suc i) p = ?q @ [sep]" using i by (simp add: take_Suc_conv_app_nth)
  show ?thesis
  proof (cases "?q = []")
    case True
    then have "take (Suc i) p = [sep]" using q by simp
    then show ?thesis
      using len Some by (simp add: path_dir_def path_clean_def path_comps_def rooted_def has_prefix_def)
  next
    case False
    have "path_comps (?q @ [sep]) = path_comps ?q"
      using False split_on_append[of sep ?q "[]"]
      by (simp add: path_comps_def rooted_append clean_comps_trail)
    with weight_path_comps[of ?q] length_path_clean_le[of "?q @ [sep]"] False
    have "length (path_clean (?q @ [sep])) \<le> max 1 (length ?q)"
      by (auto simp: rooted_append split: if_splits)
    then show ?thesis using len Some q i False by (simp add: path_dir_def)
  qed
qed

lemma path_dir_short: "length p \<le> 1 \<Longrightarrow> path_dir p = p \<or> path_dir p = ''.''"
proof -
  assume "length p \<le> 1"
  then consider "p = []" | c where "p = [c]" by (cases p) auto
  then show ?thesis
  proof cases
    case (2 c)
    then show ?thesis
      by (cases "c = sep") (auto simp: path_dir_def path_clean_def path_comps_def rooted_def has_prefix_def)
  qed (simp add: path_dir_def path_clean_def path_comps_def rooted_def has_prefix_def)
qed

lemma path_dir_dot [simp]: "path_dir ''.'' = ''.''"
  by (simp add: path_dir_def path_clean_def path_comps_def rooted_def has_prefix_def sep_def)

section \<open>Decimal numbers\<close>

lemma dec_nat_digits: "set (dec_nat n) \<subseteq> char_of ` {48..57::nat}"
proof (induction n rule: dec_nat.induct)
  case (1 n)
  have "48 + n mod 10 \<in> {48..57::nat}" by auto
  moreover have "n < 10 \<Longrightarrow> 48 + n \<in> {48..57::nat}" by auto
  ultimately show ?case using 1 by (subst dec_nat.simps) auto
qed

lemma dec_nat_ne [simp]: "dec_nat n \<noteq> []"
  by (subst dec_nat.simps) auto

lemma dec_nat_no_sep: "sep \<notin> set (dec_nat n)"
proof
  assume "sep \<in> set (dec_nat n)"
  with dec_nat_digits[of n] obtain k :: nat where "k \<in> {48..57}" and k: "sep = char_of k" by auto
  from k have "of_char sep = (of_char (char_of k :: char) :: nat)" by simp
  also have "of_char sep = (47::nat)" by (simp add: sep_def)
  also have "of_char (char_of k :: char) = k mod 256" by simp
  finally show False using \<open>k \<in> {48..57}\<close> by simp
qed

end
