(* ===== verification/Dest.thy ===== *)
theory Dest
  imports FileName Paths
begin

text \<open>
  \<open>transfer/dest.go\<close> and \<open>transfer/space.go\<close>: the folder accepted files are written to. The disk
  is a map from paths to nodes together with the set of paths that carry the download mark;
  failures of the operating system are arguments of the operations. A file being received is the
  node at its final path with the suffix \<open>.part\<close>; the open handle needs no state of its own.
\<close>

datatype node = File string | Folder | Link

record disk =
  dk_nodes :: "string \<Rightarrow> node option"
  dk_marked :: "string set"

text \<open>The errors the system may return from the calls \<open>Create\<close> makes, \<open>None\<close> for no failure.\<close>

record faults =
  ft_mkdir :: "os_err option"
  ft_lstat :: "string \<Rightarrow> os_err option"
  ft_open :: "string \<Rightarrow> os_err option"

definition no_faults :: faults where
  "no_faults = \<lparr>ft_mkdir = None, ft_lstat = (\<lambda>_. None), ft_open = (\<lambda>_. None)\<rparr>"

definition folderName :: string where "folderName = ''FreeDesk''"
definition partSuffix :: string where "partSuffix = ''.part''"
definition maxCollisions :: nat where "maxCollisions = 99"

section \<open>The system calls\<close>

definition ancestors :: "string \<Rightarrow> string list" where
  "ancestors p =
     map (\<lambda>k. (if rooted p then [sep] else []) @ join_with [sep] (take k (path_comps p)))
       [1..<Suc (length (path_comps p))]"

definition os_MkdirAll :: "faults \<Rightarrow> disk \<Rightarrow> string \<Rightarrow> os_err option \<times> disk" where
  "os_MkdirAll ft dk p =
     (case ft_mkdir ft of
        Some e \<Rightarrow> (Some e, dk)
      | None \<Rightarrow>
         if list_ex (\<lambda>a. case dk_nodes dk a of Some (File _) \<Rightarrow> True | _ \<Rightarrow> False) (ancestors p) then (Some ErrOther, dk)
         else (None, dk\<lparr>dk_nodes := (\<lambda>q. if dk_nodes dk q = None \<and> q \<in> set (ancestors p)
                                        then Some Folder else dk_nodes dk q)\<rparr>))"

definition os_Lstat :: "faults \<Rightarrow> disk \<Rightarrow> string \<Rightarrow> os_err option" where
  "os_Lstat ft dk p =
     (if ft_lstat ft p \<noteq> None \<and> ft_lstat ft p \<noteq> Some ErrNotExist then ft_lstat ft p
      else if dk_nodes dk p = None then Some ErrNotExist else None)"

text \<open>\<open>OpenFile\<close> with \<open>O_CREATE | O_EXCL | O_WRONLY\<close>: fails on anything that exists, a link included.\<close>

definition os_OpenExcl :: "faults \<Rightarrow> disk \<Rightarrow> string \<Rightarrow> os_err option \<times> disk" where
  "os_OpenExcl ft dk p =
     (if ft_open ft p \<noteq> None then (ft_open ft p, dk)
      else if dk_nodes dk p \<noteq> None then (Some ErrExist, dk)
      else (None, dk\<lparr>dk_nodes := (dk_nodes dk)(p \<mapsto> File [])\<rparr>))"

definition os_Remove :: "disk \<Rightarrow> string \<Rightarrow> disk" where
  "os_Remove dk p = dk\<lparr>dk_nodes := (dk_nodes dk)(p := None)\<rparr>"

text \<open>\<open>Rename\<close> replaces what the new name stood for.\<close>

definition os_Rename :: "disk \<Rightarrow> string \<Rightarrow> string \<Rightarrow> os_err option \<times> disk" where
  "os_Rename dk p q =
     (if dk_nodes dk p = None then (Some ErrNotExist, dk)
      else (None, dk\<lparr>dk_nodes := (dk_nodes dk)(q := dk_nodes dk p, p := None)\<rparr>))"

definition os_Write :: "disk \<Rightarrow> string \<Rightarrow> string \<Rightarrow> disk" where
  "os_Write dk p data =
     dk\<lparr>dk_nodes := (dk_nodes dk)(p := map_option (\<lambda>n. case n of File b \<Rightarrow> File (b @ data) | _ \<Rightarrow> n) (dk_nodes dk p))\<rparr>"

definition markDownloaded :: "disk \<Rightarrow> string \<Rightarrow> disk" where
  "markDownloaded dk p = dk\<lparr>dk_marked := insert p (dk_marked dk)\<rparr>"

section \<open>Space\<close>

definition spaceHeadroom :: int where "spaceHeadroom = 64 * 2 ^ 20"

definition hasRoom :: "int \<Rightarrow> bool \<Rightarrow> int \<Rightarrow> bool" where
  "hasRoom free known need =
     (if \<not> known then True
      else if need < 0 then False
      else u64 (u64 need + spaceHeadroom) \<le> free)"

text \<open>\<open>nearestExisting\<close> walks up until a path exists or is its own parent; the fuel bounds the walk.\<close>

fun nearestExisting :: "nat \<Rightarrow> disk \<Rightarrow> string \<Rightarrow> string option" where
  "nearestExisting 0 dk dir = None"
| "nearestExisting (Suc n) dk dir =
     (if dk_nodes dk dir \<noteq> None then Some dir
      else if path_dir dir = dir then Some dir
      else nearestExisting n dk (path_dir dir))"

record Dest =
  d_root :: string
  d_free :: "string \<Rightarrow> int \<times> bool"

definition Room :: "Dest \<Rightarrow> disk \<Rightarrow> int \<Rightarrow> bool" where
  "Room d dk need =
     (case nearestExisting (length (d_root d) + 3) dk (d_root d) of
        None \<Rightarrow> False
      | Some dir \<Rightarrow> (case d_free d dir of (bytes, known) \<Rightarrow> hasRoom bytes known need))"

section \<open>Create\<close>

definition within :: "Dest \<Rightarrow> string \<Rightarrow> bool" where
  "within d p \<longleftrightarrow> has_prefix (path_clean p) (path_clean (d_root d) @ [sep])"

definition candidate :: "string \<Rightarrow> nat \<Rightarrow> string" where
  "candidate safe i =
     (if i = 0 then safe
      else fst (splitExt safe) @ '' ('' @ dec_nat (i + 1) @ '')'' @ snd (splitExt safe))"

fun create_loop :: "Dest \<Rightarrow> faults \<Rightarrow> disk \<Rightarrow> string \<Rightarrow> nat list \<Rightarrow> (transfer_err + string) \<times> disk" where
  "create_loop d ft dk safe [] = (Inl ErrTooManyCollisions, dk)"
| "create_loop d ft dk safe (i # is) =
     (let final = path_join (d_root d) (candidate safe i) in
      if \<not> within d final then (Inl ErrBadName, dk)
      else (case os_Lstat ft dk final of
              None \<Rightarrow> create_loop d ft dk safe is
            | Some e \<Rightarrow>
                if e \<noteq> ErrNotExist then (Inl (ErrOS e), dk)
                else (case os_OpenExcl ft dk (final @ partSuffix) of
                        (Some e', _) \<Rightarrow> if e' = ErrExist then create_loop d ft dk safe is
                                       else (Inl (ErrOS e'), dk)
                      | (None, dk') \<Rightarrow> (Inr final, dk'))))"

definition Create :: "Dest \<Rightarrow> faults \<Rightarrow> disk \<Rightarrow> string \<Rightarrow> (transfer_err + string) \<times> disk" where
  "Create d ft dk name =
     (case SafeName name of
        Inl e \<Rightarrow> (Inl e, dk)
      | Inr safe \<Rightarrow>
         (case os_MkdirAll ft dk (d_root d) of
            (Some e, _) \<Rightarrow> (Inl (ErrOS e), dk)
          | (None, dk1) \<Rightarrow> create_loop d ft dk1 safe [0..<Suc maxCollisions]))"

section \<open>Finish, Abandon, SweepPartials\<close>

text \<open>\<open>Finish\<close>, with the errors \<open>Sync\<close>, \<open>Close\<close> and \<open>Rename\<close> may return.\<close>

definition Finish :: "os_err option \<Rightarrow> os_err option \<Rightarrow> os_err option \<Rightarrow> disk \<Rightarrow> string \<Rightarrow> os_err option \<times> disk" where
  "Finish esync eclose erename dk final =
     (if esync \<noteq> None then (esync, dk)
      else if eclose \<noteq> None then (eclose, dk)
      else if erename \<noteq> None then (erename, dk)
      else (case os_Rename dk (final @ partSuffix) final of
              (Some e, _) \<Rightarrow> (Some e, dk)
            | (None, dk') \<Rightarrow> (None, markDownloaded dk' final)))"

definition Abandon :: "disk \<Rightarrow> string \<Rightarrow> disk" where
  "Abandon dk final = (if final \<noteq> [] then os_Remove dk (final @ partSuffix) else dk)"

text \<open>\<open>SweepPartials\<close>, given what \<open>ReadDir\<close> returned.\<close>

definition sweep_entry :: "string \<Rightarrow> string \<Rightarrow> disk \<Rightarrow> disk" where
  "sweep_entry root e dk =
     (if dk_nodes dk (path_join root e) \<noteq> Some Folder \<and> has_suffix e partSuffix
      then os_Remove dk (path_join root e) else dk)"

definition SweepPartials :: "string \<Rightarrow> string list option \<Rightarrow> disk \<Rightarrow> disk" where
  "SweepPartials root entries dk =
     (case entries of None \<Rightarrow> dk | Some es \<Rightarrow> fold (sweep_entry root) es dk)"

section \<open>Walking up to an existing directory\<close>

definition walk_fuel :: "string \<Rightarrow> nat" where
  "walk_fuel dir = (if dir = ''.'' then 1 else if length dir \<le> 1 then 2 else length dir + 1)"

lemma walk_fuel_dir: "path_dir dir \<noteq> dir \<Longrightarrow> walk_fuel (path_dir dir) < walk_fuel dir"
  using path_dir_shorter[of dir] path_dir_short[of dir] by (cases "2 \<le> length dir") (auto simp: walk_fuel_def)

lemma nearestExisting_some:
  "walk_fuel dir \<le> n \<Longrightarrow>
   \<exists>r. nearestExisting n dk dir = Some r \<and> (dk_nodes dk r \<noteq> None \<or> path_dir r = r)"
proof (induction n dk dir rule: nearestExisting.induct)
  case (2 n dk dir)
  then show ?case using walk_fuel_dir[of dir] by (cases "dk_nodes dk dir \<noteq> None \<or> path_dir dir = dir") auto
qed (simp add: walk_fuel_def split: if_splits)

text \<open>The walk to the nearest existing directory ends within the fuel it is given, at a path
  that exists or at a root, so the answer of \<open>Room\<close> is \<open>hasRoom\<close> of what the system reports there.\<close>

theorem Room_answers:
  "\<exists>dir. nearestExisting (length (d_root d) + 3) dk (d_root d) = Some dir
     \<and> (path_dir dir = dir \<or> (\<exists>n. dk_nodes dk dir = Some n))
     \<and> Room d dk need = hasRoom (fst (d_free d dir)) (snd (d_free d dir)) need"
proof -
  have "walk_fuel (d_root d) \<le> length (d_root d) + 3" by (simp add: walk_fuel_def)
  from nearestExisting_some[OF this, of dk] obtain dir where
    "nearestExisting (length (d_root d) + 3) dk (d_root d) = Some dir"
    "dk_nodes dk dir \<noteq> None \<or> path_dir dir = dir" by blast
  then show ?thesis by (auto simp: Room_def split: prod.split)
qed

text \<open>The comparison in \<open>uint64\<close> is the one meant: for every \<open>int64\<close> need, a known amount of
  free space is enough exactly when it covers the need and 64 MiB more, and no sum wraps.\<close>

theorem hasRoom_exact:
  assumes "in_i64 need"
  shows "hasRoom free True need \<longleftrightarrow> 0 \<le> need \<and> need + 64 * 2 ^ 20 \<le> free"
  using assms by (auto simp: hasRoom_def spaceHeadroom_def u64_def in_i64_def)

lemma hasRoom_exact_witness: "hasRoom (2 ^ 27) True (2 ^ 26) \<and> \<not> hasRoom (2 ^ 27) True (2 ^ 26 + 1)"
proof -
  have "in_i64 (2 ^ 26)" and "in_i64 (2 ^ 26 + 1)" by (simp_all add: in_i64_def)
  from hasRoom_exact[OF this(1), of "2 ^ 27"] hasRoom_exact[OF this(2), of "2 ^ 27"] show ?thesis by simp
qed

section \<open>Create\<close>

lemma candidate_plain:
  assumes "SafeName name = Inr safe"
  shows "plain_comp (candidate safe i)"
proof -
  from SafeName_facts[OF assms] have safe: "plain_comp safe" by (simp add: plain_comp_def sep_def)
  show ?thesis
  proof (cases "i = 0")
    case True
    with safe show ?thesis by (simp add: candidate_def)
  next
    case False
    have "sep \<notin> set (fst (splitExt safe)) \<and> sep \<notin> set (snd (splitExt safe))"
      using safe by (metis splitExt_join Un_iff plain_comp_def set_append)
    moreover have "candidate safe i \<noteq> ''.''" "candidate safe i \<noteq> ''..''"
      using False by (auto simp: candidate_def append_eq_Cons_conv)
    moreover have "sep \<noteq> CHR '' ''" "sep \<noteq> CHR ''(''" "sep \<noteq> CHR '')''" by (simp_all add: sep_def)
    ultimately show ?thesis
      using False dec_nat_no_sep[of "i + 1"] by (simp add: plain_comp_def candidate_def)
  qed
qed

lemma within_plain: "clean_dir (d_root d) \<Longrightarrow> plain_comp c \<Longrightarrow> within d (path_join (d_root d) c)"
  unfolding within_def path_clean_join by (simp add: path_join_clean_dir has_prefix_def clean_dir_def)

text \<open>The path a candidate stands for, and the disk after it was opened.\<close>

definition free_name :: "disk \<Rightarrow> string \<Rightarrow> bool" where
  "free_name dk final \<longleftrightarrow> dk_nodes dk final = None \<and> dk_nodes dk (final @ partSuffix) = None"

definition with_part :: "disk \<Rightarrow> string \<Rightarrow> disk" where
  "with_part dk final = dk\<lparr>dk_nodes := (dk_nodes dk)(final @ partSuffix \<mapsto> File [])\<rparr>"

lemma Lstat_absent: "os_Lstat ft dk p = Some ErrNotExist \<Longrightarrow> dk_nodes dk p = None"
  by (auto simp: os_Lstat_def split: if_splits)

lemma OpenExcl_ok:
  "os_OpenExcl ft dk p = (None, dk') \<longleftrightarrow>
     ft_open ft p = None \<and> dk_nodes dk p = None \<and> dk' = dk\<lparr>dk_nodes := (dk_nodes dk)(p \<mapsto> File [])\<rparr>"
  by (auto simp: os_OpenExcl_def)

lemma create_loop_Inr:
  "create_loop d ft dk safe is = (Inr final, dk') \<Longrightarrow>
   \<exists>i \<in> set is. final = path_join (d_root d) (candidate safe i) \<and> free_name dk final \<and> dk' = with_part dk final"
  by (induction d ft dk safe "is" rule: create_loop.induct)
     (auto simp: Let_def OpenExcl_ok free_name_def with_part_def dest: Lstat_absent
           split: if_splits option.splits prod.splits)

lemma create_loop_Inl: "create_loop d ft dk safe is = (Inl e, dk') \<Longrightarrow> dk' = dk"
  by (induction d ft dk safe "is" rule: create_loop.induct)
     (auto simp: Let_def split: if_splits option.splits prod.splits)

lemma create_loop_not_bad:
  "clean_dir (d_root d) \<Longrightarrow> SafeName name = Inr safe \<Longrightarrow> create_loop d ft dk safe is \<noteq> (Inl ErrBadName, dk')"
  by (induction d ft dk safe "is" rule: create_loop.induct)
     (auto simp: Let_def within_plain candidate_plain split: if_splits option.splits prod.splits)

lemma create_loop_first_free:
  assumes "clean_dir (d_root d)" and "SafeName name = Inr safe"
    and "ft_lstat ft = (\<lambda>_. None)" and "ft_open ft = (\<lambda>_. None)"
  shows "create_loop d ft dk safe is =
    (case List.find (\<lambda>i. free_name dk (path_join (d_root d) (candidate safe i))) is of
       None \<Rightarrow> (Inl ErrTooManyCollisions, dk)
     | Some i \<Rightarrow> (Inr (path_join (d_root d) (candidate safe i)), with_part dk (path_join (d_root d) (candidate safe i))))"
  using assms
  by (induction d ft dk safe "is" rule: create_loop.induct)
     (auto simp: Let_def within_plain candidate_plain free_name_def with_part_def os_Lstat_def os_OpenExcl_def)

text \<open>Making the folder leaves every existing node alone.\<close>

lemma MkdirAll_ok:
  assumes "os_MkdirAll ft dk p = (None, dk1)"
  shows "dk_nodes dk q \<noteq> None \<Longrightarrow> dk_nodes dk1 q = dk_nodes dk q"
    and "dk_nodes dk q = None \<Longrightarrow> dk_nodes dk1 q = (if q \<in> set (ancestors p) then Some Folder else None)"
    and "dk_marked dk1 = dk_marked dk"
  using assms by (auto simp: os_MkdirAll_def split: option.splits if_splits)

lemma Create_Inr:
  assumes "Create d ft dk name = (Inr final, dk')"
  obtains safe i dk1 where "SafeName name = Inr safe" "i \<le> maxCollisions"
    "final = path_join (d_root d) (candidate safe i)" "os_MkdirAll ft dk (d_root d) = (None, dk1)"
    "free_name dk1 final" "dk' = with_part dk1 final"
proof -
  from assms obtain safe where safe: "SafeName name = Inr safe"
    by (auto simp: Create_def split: sum.splits)
  from assms safe obtain dk1 where dk1: "os_MkdirAll ft dk (d_root d) = (None, dk1)"
    by (auto simp: Create_def split: prod.splits option.splits)
  with assms safe have "create_loop d ft dk1 safe [0..<Suc maxCollisions] = (Inr final, dk')"
    by (simp add: Create_def)
  from create_loop_Inr[OF this] obtain i where "i \<in> set [0..<Suc maxCollisions]"
    and *: "final = path_join (d_root d) (candidate safe i)" "free_name dk1 final" "dk' = with_part dk1 final"
    by blast
  then have "i \<le> maxCollisions" by (simp only: set_upt atLeastLessThan_iff less_Suc_eq_le)
  from that[OF safe this *(1) dk1 *(2,3)] show thesis .
qed

text \<open>C12: \<open>Create\<close> never touches what is already there, under any failure of the system: the final
  path is directly below the root, neither it nor its \<open>.part\<close> existed, the \<open>.part\<close> is the only
  file added (besides the missing folders of the root), and every existing node is unchanged.\<close>

theorem Create_exclusive:
  assumes "clean_dir (d_root d)" and "Create d ft dk name = (Inr final, dk')"
  shows "(\<exists>c. plain_comp c \<and> final = d_root d @ ''/'' @ c)
     \<and> dk_nodes dk final = None \<and> dk_nodes dk (final @ ''.part'') = None
     \<and> dk_nodes dk' (final @ ''.part'') = Some (File [])
     \<and> (\<forall>q. dk_nodes dk q \<noteq> None \<longrightarrow> dk_nodes dk' q = dk_nodes dk q)
     \<and> (\<forall>q. q \<noteq> final @ ''.part'' \<and> q \<notin> set (ancestors (d_root d)) \<longrightarrow> dk_nodes dk' q = dk_nodes dk q)"
  using assms(2)
proof (rule Create_Inr)
  fix safe i dk1
  assume *: "SafeName name = Inr safe" "final = path_join (d_root d) (candidate safe i)"
    "os_MkdirAll ft dk (d_root d) = (None, dk1)" "free_name dk1 final" "dk' = with_part dk1 final"
  have plain: "plain_comp (candidate safe i)" using *(1) by (rule candidate_plain)
  then have "final = d_root d @ ''/'' @ candidate safe i"
    using assms(1) *(2) by (simp add: path_join_clean_dir sep_def)
  moreover have "dk_nodes dk final = None" "dk_nodes dk (final @ partSuffix) = None"
    using *(4) MkdirAll_ok(1)[OF *(3)] by (metis free_name_def option.distinct(1))+
  moreover have same: "dk_nodes dk q \<noteq> None \<or> q \<notin> set (ancestors (d_root d)) \<Longrightarrow> dk_nodes dk1 q = dk_nodes dk q" for q
    using MkdirAll_ok(1,2)[OF *(3), of q] by (cases "dk_nodes dk q") auto
  ultimately show ?thesis
    using plain *(4,5) same by (auto simp: with_part_def partSuffix_def)
qed

definition ex_dest :: Dest where
  "ex_dest = \<lparr>d_root = ''/h/FreeDesk'', d_free = (\<lambda>_. (0, False))\<rparr>"

definition ex_disk :: disk where
  "ex_disk = \<lparr>dk_nodes = [''/h'' \<mapsto> Folder, ''/h/FreeDesk'' \<mapsto> Folder, ''/h/FreeDesk/a.txt'' \<mapsto> File ''old''], dk_marked = {}\<rparr>"

lemma ex_dest_clean: "clean_dir (d_root ex_dest)"
  by code_simp

lemma ex_create: "fst (Create ex_dest no_faults ex_disk ''a.txt'') = Inr ''/h/FreeDesk/a (2).txt''"
  by code_simp

lemma Create_exclusive_witness:
  "dk_nodes (snd (Create ex_dest no_faults ex_disk ''a.txt'')) ''/h/FreeDesk/a.txt'' = Some (File ''old'')"
proof -
  have c: "Create ex_dest no_faults ex_disk ''a.txt'' =
    (Inr ''/h/FreeDesk/a (2).txt'', snd (Create ex_dest no_faults ex_disk ''a.txt''))"
    using ex_create by (metis prod.collapse)
  have "dk_nodes ex_disk ''/h/FreeDesk/a.txt'' = Some (File ''old'')" by (simp add: ex_disk_def)
  with Create_exclusive[OF ex_dest_clean c] show ?thesis by auto
qed

lemma MkdirAll_no_faults:
  "ft_mkdir ft = None \<Longrightarrow> \<forall>a \<in> set (ancestors p). dk_nodes dk a = None \<or> dk_nodes dk a = Some Folder \<Longrightarrow>
   fst (os_MkdirAll ft dk p) = None"
  by (auto simp: os_MkdirAll_def list_ex_iff split: option.splits node.splits)

text \<open>With a working disk, \<open>Create\<close> takes the first of the hundred candidates \<open>name\<close>, \<open>name (2)\<close>,
  ..., \<open>name (100)\<close> whose final path and \<open>.part\<close> are both free, and fails only when all are taken.\<close>

theorem Create_first_free:
  assumes "clean_dir (d_root d)" and "SafeName name = Inr safe"
    and "os_MkdirAll no_faults dk (d_root d) = (None, dk1)"
  shows "Create d no_faults dk name =
    (case List.find (\<lambda>i. dk_nodes dk1 (path_join (d_root d) (candidate safe i)) = None
                       \<and> dk_nodes dk1 (path_join (d_root d) (candidate safe i) @ ''.part'') = None) [0..<100] of
       None \<Rightarrow> (Inl ErrTooManyCollisions, dk1)
     | Some i \<Rightarrow> (Inr (path_join (d_root d) (candidate safe i)),
                  dk1\<lparr>dk_nodes := (dk_nodes dk1)(path_join (d_root d) (candidate safe i) @ ''.part'' \<mapsto> File [])\<rparr>))"
proof -
  have nf: "ft_lstat no_faults = (\<lambda>_. None)" "ft_open no_faults = (\<lambda>_. None)" by (simp_all add: no_faults_def)
  have n: "[0..<100] = [0..<Suc maxCollisions]" by (simp add: maxCollisions_def)
  show ?thesis
    unfolding n Create_def assms(2,3) sum.case prod.case option.case create_loop_first_free[OF assms(1,2) nf]
      free_name_def partSuffix_def with_part_def ..
qed

lemma Create_first_free_witness:
  "fst (Create ex_dest no_faults ex_disk ''a.txt'') = Inr (path_join ''/h/FreeDesk'' (candidate ''a.txt'' 1))"
proof -
  have s: "SafeName ''a.txt'' = Inr ''a.txt''" by code_simp
  have a: "ancestors (d_root ex_dest) = [''/h'', ''/h/FreeDesk'']" by code_simp
  have "fst (os_MkdirAll no_faults ex_disk (d_root ex_dest)) = None"
    by (rule MkdirAll_no_faults) (simp_all add: no_faults_def a ex_disk_def)
  then obtain dk1 where m: "os_MkdirAll no_faults ex_disk (d_root ex_dest) = (None, dk1)" by (metis prod.collapse)
  have p: "path_join (d_root ex_dest) (candidate ''a.txt'' 0) = ''/h/FreeDesk/a.txt''"
    "path_join (d_root ex_dest) (candidate ''a.txt'' 1) = ''/h/FreeDesk/a (2).txt''" by code_simp+
  have k: "dk_nodes dk1 ''/h/FreeDesk/a.txt'' \<noteq> None" "dk_nodes dk1 ''/h/FreeDesk/a (2).txt'' = None"
    "dk_nodes dk1 (''/h/FreeDesk/a (2).txt'' @ ''.part'') = None"
    using MkdirAll_ok(1,2)[OF m] by (simp_all add: a ex_disk_def)
  have u: "[0..<100] = 0 # 1 # [2..<100::nat]" by (simp add: upt_conv_Cons)
  have "List.find (\<lambda>i. dk_nodes dk1 (path_join (d_root ex_dest) (candidate ''a.txt'' i)) = None
      \<and> dk_nodes dk1 (path_join (d_root ex_dest) (candidate ''a.txt'' i) @ ''.part'') = None) [0..<100] = Some 1"
    unfolding u find.simps p using k by (simp only: simp_thms if_True if_False)
  from Create_first_free[OF ex_dest_clean s m, unfolded this option.case] show ?thesis
    by (simp add: ex_dest_def)
qed

text \<open>When \<open>Create\<close> fails, every existing node is unchanged, nothing but missing folders of the
  root was added, and the name was at fault exactly if \<open>SafeName\<close> refuses it: the second check,
  \<open>within\<close>, never fires.\<close>

theorem Create_fails_clean:
  assumes "clean_dir (d_root d)" and "Create d ft dk name = (Inl e, dk')"
  shows "(\<forall>q. dk_nodes dk' q = dk_nodes dk q
            \<or> dk_nodes dk q = None \<and> dk_nodes dk' q = Some Folder \<and> q \<in> set (ancestors (d_root d)))
     \<and> (e = ErrBadName \<longleftrightarrow> SafeName name = Inl ErrBadName)"
proof -
  have sn: "SafeName name = Inl x \<Longrightarrow> x = ErrBadName" for x
    by (auto simp: SafeName_def safe_stripped_def plain_component_def split: if_splits)
  show ?thesis
  proof (cases "SafeName name")
    case (Inl x)
    with assms(2) sn show ?thesis by (auto simp: Create_def)
  next
    case (Inr safe)
    show ?thesis
    proof (cases "fst (os_MkdirAll ft dk (d_root d))")
      case (Some x)
      with assms(2) Inr show ?thesis by (auto simp: Create_def split: prod.splits)
    next
      case None
      then obtain dk1 where m: "os_MkdirAll ft dk (d_root d) = (None, dk1)" by (metis prod.collapse)
      with assms(2) Inr have l: "create_loop d ft dk1 safe [0..<Suc maxCollisions] = (Inl e, dk')"
        by (simp add: Create_def)
      from create_loop_Inl[OF l] have "dk' = dk1" .
      moreover have "e \<noteq> ErrBadName" using create_loop_not_bad[OF assms(1) Inr] l by metis
      moreover have "dk_nodes dk1 q = dk_nodes dk q
            \<or> dk_nodes dk q = None \<and> dk_nodes dk1 q = Some Folder \<and> q \<in> set (ancestors (d_root d))" for q
        using MkdirAll_ok(1,2)[OF m, of q] by (cases "dk_nodes dk q") auto
      ultimately show ?thesis using Inr by simp
    qed
  qed
qed

lemma Create_fails_clean_witness:
  "fst (Create ex_dest no_faults ex_disk ''CON.txt'') = Inl ErrBadName"
proof -
  have c: "Create ex_dest no_faults ex_disk ''CON.txt'' = (Inl ErrBadName, ex_disk)"
    using SafeName_con(2) by (simp add: Create_def)
  from Create_fails_clean[OF ex_dest_clean c] SafeName_con(2) c show ?thesis by simp
qed

section \<open>From Create to Finish\<close>

lemma fold_os_Write:
  "dk_nodes dk p = Some (File b) \<Longrightarrow>
   fold (\<lambda>c dk. os_Write dk p c) cs dk = dk\<lparr>dk_nodes := (dk_nodes dk)(p \<mapsto> File (b @ concat cs))\<rparr>"
proof (induction cs arbitrary: dk b)
  case Nil
  then show ?case by (auto intro!: disk.equality)
next
  case (Cons c cs)
  have w: "os_Write dk p c = dk\<lparr>dk_nodes := (dk_nodes dk)(p \<mapsto> File (b @ c))\<rparr>"
    using Cons.prems by (simp add: os_Write_def)
  have "dk_nodes (os_Write dk p c) p = Some (File (b @ c))" by (simp add: w)
  from Cons.IH[OF this] show ?case by (simp add: w del: fun_upd_apply)
qed

lemma partSuffix_ne [simp]: "partSuffix \<noteq> []"
  by (simp add: partSuffix_def)

lemma Finish_ok:
  assumes "dk_nodes dk (final @ partSuffix) \<noteq> None"
  shows "Finish None None None dk final =
    (None, \<lparr>dk_nodes = (dk_nodes dk)(final := dk_nodes dk (final @ partSuffix), final @ partSuffix := None),
       dk_marked = insert final (dk_marked dk), \<dots> = disk.more dk\<rparr>)"
  using assms by (auto simp: Finish_def os_Rename_def markDownloaded_def intro!: disk.equality)

lemma Finish_err: "Finish es ec er dk final = (Some e, dk') \<Longrightarrow> dk' = dk"
  by (auto simp: Finish_def split: if_splits prod.splits option.splits)

lemma Finish_None:
  assumes "Finish es ec er dk final = (None, dk')"
  shows "es = None \<and> ec = None \<and> er = None \<and> dk_nodes dk (final @ partSuffix) \<noteq> None"
  using assms by (auto simp: Finish_def os_Rename_def split: if_splits prod.splits option.splits)

text \<open>C13: a file that is created, written in any chunks and finished on a working disk ends up under
  its final name with exactly those bytes and the download mark, and without its \<open>.part\<close>.\<close>

theorem receive_roundtrip:
  assumes "clean_dir (d_root d)" and "Create d ft dk name = (Inr final, dk1)"
    and "Finish None None None (fold (\<lambda>c dk. os_Write dk (final @ ''.part'') c) chunks dk1) final = (err, dk2)"
  shows "err = None \<and> dk_nodes dk2 final = Some (File (concat chunks)) \<and> dk_nodes dk2 (final @ ''.part'') = None
     \<and> final \<in> dk_marked dk2 \<and> (\<forall>q. dk_nodes dk q \<noteq> None \<longrightarrow> dk_nodes dk2 q = dk_nodes dk q)"
  using assms(2)
proof (rule Create_Inr)
  fix safe i dk0
  assume *: "final = path_join (d_root d) (candidate safe i)"
    "os_MkdirAll ft dk (d_root d) = (None, dk0)" "free_name dk0 final" "dk1 = with_part dk0 final"
  let ?p = "final @ partSuffix"
  have "dk_nodes dk1 ?p = Some (File [])" using *(4) by (simp add: with_part_def)
  from fold_os_Write[OF this, of chunks] have w: "fold (\<lambda>c dk. os_Write dk ?p c) chunks dk1 =
    dk1\<lparr>dk_nodes := (dk_nodes dk1)(?p \<mapsto> File (concat chunks))\<rparr>" by simp
  have keep: "dk_nodes dk q \<noteq> None \<Longrightarrow> dk_nodes dk0 q = dk_nodes dk q \<and> q \<noteq> final \<and> q \<noteq> ?p" for q
    using MkdirAll_ok(1)[OF *(2), of q] *(3) by (auto simp: free_name_def)
  from assms(3) show ?thesis
    unfolding partSuffix_def[symmetric] w
    using keep *(4) by (auto simp: Finish_ok with_part_def)
qed

lemma receive_roundtrip_witness:
  "dk_nodes (snd (Finish None None None (fold (\<lambda>c dk. os_Write dk (''/h/FreeDesk/a (2).txt'' @ ''.part'') c) [''ab'', ''c'']
     (snd (Create ex_dest no_faults ex_disk ''a.txt''))) ''/h/FreeDesk/a (2).txt'')) ''/h/FreeDesk/a (2).txt''
     = Some (File (concat [''ab'', ''c'']))"
proof -
  have c: "Create ex_dest no_faults ex_disk ''a.txt'' =
    (Inr ''/h/FreeDesk/a (2).txt'', snd (Create ex_dest no_faults ex_disk ''a.txt''))"
    using ex_create by (metis prod.collapse)
  from receive_roundtrip[OF ex_dest_clean c surjective_pairing] show ?thesis by blast
qed

section \<open>SweepPartials\<close>

lemma fold_sweep:
  assumes "clean_dir root" and "list_all plain_comp es"
  shows "dk_nodes (fold (sweep_entry root) es dk) q =
    (if \<exists>e \<in> set es. q = path_join root e \<and> has_suffix e partSuffix \<and> dk_nodes dk q \<noteq> Some Folder
     then None else dk_nodes dk q)"
  using assms(2)
proof (induction es arbitrary: dk)
  case (Cons e es)
  have step: "dk_nodes (sweep_entry root e dk) q =
      (if q = path_join root e \<and> has_suffix e partSuffix \<and> dk_nodes dk q \<noteq> Some Folder then None else dk_nodes dk q)" for dk q
    by (auto simp: sweep_entry_def os_Remove_def)
  show ?case
  proof (cases "q = path_join root e \<and> has_suffix e partSuffix \<and> dk_nodes dk q \<noteq> Some Folder")
    case True
    then have n: "dk_nodes (sweep_entry root e dk) q = None" unfolding step by (rule if_P)
    have "\<exists>e \<in> set (e # es). q = path_join root e \<and> has_suffix e partSuffix \<and> dk_nodes dk q \<noteq> Some Folder"
      using True by (intro bexI[of _ e]) (assumption, simp)
    with n Cons show ?thesis by simp
  next
    case False
    then have "dk_nodes (sweep_entry root e dk) q = dk_nodes dk q" by (simp only: step if_False)
    with False Cons show ?thesis by auto
  qed
qed simp

text \<open>\<open>SweepPartials\<close> removes exactly the files directly in the folder whose name ends in \<open>.part\<close>.
  It cannot tell an interrupted transfer from an accepted file of that name, which
  \<open>SafeName\<close> lets through: such a file is deleted although it was delivered completely.\<close>

theorem SweepPartials_exact:
  assumes "clean_dir root" and "list_all plain_comp es"
    and "\<forall>c. plain_comp c \<and> dk_nodes dk (path_join root c) \<noteq> None \<longrightarrow> c \<in> set es"
  shows "dk_nodes (SweepPartials root (Some es) dk) q =
    (if \<exists>c. plain_comp c \<and> q = path_join root c \<and> has_suffix c ''.part'' \<and> dk_nodes dk q \<noteq> Some Folder
     then None else dk_nodes dk q)"
proof -
  have "(\<exists>e \<in> set es. q = path_join root e \<and> has_suffix e partSuffix \<and> dk_nodes dk q \<noteq> Some Folder) \<or> dk_nodes dk q = None
    \<longleftrightarrow> (\<exists>c. plain_comp c \<and> q = path_join root c \<and> has_suffix c partSuffix \<and> dk_nodes dk q \<noteq> Some Folder) \<or> dk_nodes dk q = None"
    using assms(2,3) by (auto simp: list_all_iff)
  then show ?thesis
    by (auto simp: SweepPartials_def fold_sweep[OF assms(1,2)] partSuffix_def)
qed

lemma SweepPartials_exact_witness:
  "SafeName ''film.part'' = Inr ''film.part'' \<and>
   dk_nodes (SweepPartials ''/h/FreeDesk'' (Some [''film.part''])
     \<lparr>dk_nodes = [''/h/FreeDesk/film.part'' \<mapsto> File ''all of it''], dk_marked = {}\<rparr>) ''/h/FreeDesk/film.part'' = None"
proof -
  let ?dk = "\<lparr>dk_nodes = [''/h/FreeDesk/film.part'' \<mapsto> File ''all of it''], dk_marked = {}\<rparr>"
  have d: "clean_dir ''/h/FreeDesk''" and e: "list_all plain_comp [''film.part'']" by code_simp+
  have p: "path_join ''/h/FreeDesk'' ''film.part'' = ''/h/FreeDesk/film.part''" by code_simp
  have "\<forall>c. plain_comp c \<and> dk_nodes ?dk (path_join ''/h/FreeDesk'' c) \<noteq> None \<longrightarrow> c \<in> set [''film.part'']"
    using d by (auto simp: path_join_clean_dir sep_def split: if_splits)
  note r = SweepPartials_exact[OF d e this, of "''/h/FreeDesk/film.part''"]
  have "plain_comp ''film.part''" "has_suffix ''film.part'' ''.part''" by code_simp+
  with p have "\<exists>c. plain_comp c \<and> ''/h/FreeDesk/film.part'' = path_join ''/h/FreeDesk'' c \<and> has_suffix c ''.part''
     \<and> dk_nodes ?dk ''/h/FreeDesk/film.part'' \<noteq> Some Folder" by (intro exI[of _ "''film.part''"]) simp
  then have "dk_nodes (SweepPartials ''/h/FreeDesk'' (Some [''film.part'']) ?dk) ''/h/FreeDesk/film.part'' = None"
    unfolding r by (rule if_P)
  moreover have "SafeName ''film.part'' = Inr ''film.part''" by code_simp
  ultimately show ?thesis by blast
qed

end
