(* ===== verification/Store.thy ===== *)
theory Store
  imports Dest
begin

text \<open>
  The contract between the transfer session and the destination folder, as a locale: what
  \<open>Create\<close>, a write, \<open>Finish\<close> and \<open>Abandon\<close> promise about the disk. Inside it, the session's
  view of the disk is shown to be kept by each operation: nothing that was there before the
  session is changed, and everything new is a folder, a finished file carrying the download mark,
  or the one \<open>.part\<close> in progress. The model's operations interpret the locale.
\<close>

text \<open>\<open>store_inv D0 D marked cur\<close>: \<open>D0\<close> is the disk before the session, \<open>D\<close> the disk now, \<open>cur\<close> the
  final path of the file being received.\<close>

definition store_inv ::
  "(string \<Rightarrow> node option) \<Rightarrow> (string \<Rightarrow> node option) \<Rightarrow> string set \<Rightarrow> string option \<Rightarrow> bool" where
  "store_inv D0 D marked cur \<longleftrightarrow>
     (\<forall>q. D0 q \<noteq> None \<longrightarrow> D q = D0 q) \<and>
     (\<forall>q. D0 q = None \<longrightarrow> D q = None \<or> D q = Some Folder \<or> q \<in> marked \<or> (\<exists>p. cur = Some p \<and> q = p @ partSuffix)) \<and>
     (\<forall>p. cur = Some p \<longrightarrow> D p = None \<and> D0 (p @ partSuffix) = None \<and> (\<exists>b. D (p @ partSuffix) = Some (File b)))"

lemma store_invI:
  assumes "\<And>q. D0 q \<noteq> None \<Longrightarrow> D q = D0 q"
    and "\<And>q. D0 q = None \<Longrightarrow> D q = None \<or> D q = Some Folder \<or> q \<in> marked \<or> (\<exists>p. cur = Some p \<and> q = p @ partSuffix)"
    and "\<And>p. cur = Some p \<Longrightarrow> D p = None \<and> D0 (p @ partSuffix) = None \<and> (\<exists>b. D (p @ partSuffix) = Some (File b))"
  shows "store_inv D0 D marked cur"
  using assms unfolding store_inv_def by blast

lemma store_old: "store_inv D0 D marked cur \<Longrightarrow> D0 q \<noteq> None \<Longrightarrow> D q = D0 q"
  unfolding store_inv_def by blast

lemma store_new: "store_inv D0 D marked cur \<Longrightarrow> D0 q = None \<Longrightarrow>
    D q = None \<or> D q = Some Folder \<or> q \<in> marked \<or> (\<exists>p. cur = Some p \<and> q = p @ partSuffix)"
  unfolding store_inv_def by blast

lemma store_cur:
  assumes "store_inv D0 D marked (Some p)"
  obtains b where "D p = None" "D0 p = None" "D0 (p @ partSuffix) = None" "D (p @ partSuffix) = Some (File b)"
  using assms store_old[OF assms, of p] unfolding store_inv_def by metis

lemma store_inv_change:
  assumes inv: "store_inv D0 D M (Some p)"
    and same: "\<And>q. q \<noteq> p \<Longrightarrow> q \<noteq> p @ partSuffix \<Longrightarrow> D' q = D q"
    and M: "M \<subseteq> M'" and p: "D' p = None \<or> p \<in> M'"
    and cur: "D' (p @ partSuffix) = None \<and> cur = None
      \<or> cur = Some p \<and> D' p = None \<and> (\<exists>b. D' (p @ partSuffix) = Some (File b))"
  shows "store_inv D0 D' M' cur"
proof -
  from inv obtain b where b: "D0 p = None" "D0 (p @ partSuffix) = None" by (rule store_cur)
  show ?thesis
  proof (rule store_invI)
    fix q assume q: "D0 q \<noteq> None"
    with b have "q \<noteq> p" "q \<noteq> p @ partSuffix" by auto
    with same store_old[OF inv q] show "D' q = D0 q" by simp
  next
    fix q assume q: "D0 q = None"
    show "D' q = None \<or> D' q = Some Folder \<or> q \<in> M' \<or> (\<exists>p. cur = Some p \<and> q = p @ partSuffix)"
    proof (cases "q = p \<or> q = p @ partSuffix")
      case True
      with p cur show ?thesis by auto
    next
      case False
      with same[of q] store_new[OF inv q] M show ?thesis by auto
    qed
  next
    fix p' assume "cur = Some p'"
    with cur b show "D' p' = None \<and> D0 (p' @ partSuffix) = None \<and> (\<exists>b. D' (p' @ partSuffix) = Some (File b))" by auto
  qed
qed

lemma part_neq: "p @ partSuffix \<noteq> p" "p \<noteq> p @ partSuffix"
  by (simp_all add: partSuffix_def)

locale part_store =
  fixes create :: "Dest \<Rightarrow> faults \<Rightarrow> 'd \<Rightarrow> string \<Rightarrow> (transfer_err + string) \<times> 'd"
    and add_bytes :: "'d \<Rightarrow> string \<Rightarrow> string \<Rightarrow> 'd"
    and finish :: "os_err option \<Rightarrow> os_err option \<Rightarrow> os_err option \<Rightarrow> 'd \<Rightarrow> string \<Rightarrow> os_err option \<times> 'd"
    and abandon :: "'d \<Rightarrow> string \<Rightarrow> 'd"
    and nodes :: "'d \<Rightarrow> string \<Rightarrow> node option"
    and marks :: "'d \<Rightarrow> string set"
  assumes create_ok: "create d ft dk n = (Inr p, dk') \<Longrightarrow>
      p \<noteq> [] \<and> nodes dk p = None \<and> nodes dk (p @ partSuffix) = None \<and> nodes dk' p = None
      \<and> nodes dk' (p @ partSuffix) = Some (File []) \<and> marks dk' = marks dk
      \<and> (\<forall>q. q \<noteq> p @ partSuffix \<longrightarrow> nodes dk' q = nodes dk q \<or> nodes dk q = None \<and> nodes dk' q = Some Folder)"
    and create_fail: "create d ft dk n = (Inl e, dk') \<Longrightarrow> marks dk' = marks dk
      \<and> (\<forall>q. nodes dk' q = nodes dk q \<or> nodes dk q = None \<and> nodes dk' q = Some Folder)"
    and append_ok: "nodes dk (p @ partSuffix) = Some (File b) \<Longrightarrow>
      nodes (add_bytes dk (p @ partSuffix) data) = (nodes dk)(p @ partSuffix \<mapsto> File (b @ data))"
    and append_marks: "marks (add_bytes dk q data) = marks dk"
    and finish_ok: "finish es ec er dk p = (None, dk') \<Longrightarrow>
      nodes dk (p @ partSuffix) \<noteq> None \<and> nodes dk' = (nodes dk)(p := nodes dk (p @ partSuffix), p @ partSuffix := None)
      \<and> marks dk' = insert p (marks dk)"
    and finish_err: "finish es ec er dk p = (Some x, dk') \<Longrightarrow> dk' = dk"
    and abandon_ok: "p \<noteq> [] \<Longrightarrow> nodes (abandon dk p) = (nodes dk)(p @ partSuffix := None) \<and> marks (abandon dk p) = marks dk"
begin

lemma create_inv:
  assumes "store_inv D0 (nodes dk) (marks dk) None" and "create d ft dk n = (Inr p, dk')"
  shows "store_inv D0 (nodes dk') (marks dk') (Some p)"
proof -
  note c = create_ok[OF assms(2)] and old = store_old[OF assms(1)]
  have part: "D0 (p @ partSuffix) = None" using c old[of "p @ partSuffix"] by (metis option.distinct(1))
  show ?thesis
  proof (rule store_invI)
    fix q assume q: "D0 q \<noteq> None"
    with part have "q \<noteq> p @ partSuffix" by auto
    with c old[OF q] q show "nodes dk' q = D0 q" by metis
  next
    fix q assume "D0 q = None"
    from store_new[OF assms(1) this] c
    show "nodes dk' q = None \<or> nodes dk' q = Some Folder \<or> q \<in> marks dk' \<or> (\<exists>pa. Some p = Some pa \<and> q = pa @ partSuffix)"
      by (cases "q = p @ partSuffix") (simp, metis option.distinct(1))
  qed (use c part in auto)
qed

lemma create_fail_inv:
  assumes "store_inv D0 (nodes dk) (marks dk) None" and "create d ft dk n = (Inl e, dk')"
  shows "store_inv D0 (nodes dk') (marks dk') None"
proof (rule store_invI)
  note c = create_fail[OF assms(2)]
  fix q
  show "D0 q \<noteq> None \<Longrightarrow> nodes dk' q = D0 q" using c store_old[OF assms(1), of q] by metis
  assume "D0 q = None"
  from store_new[OF assms(1) this] c
  show "nodes dk' q = None \<or> nodes dk' q = Some Folder \<or> q \<in> marks dk' \<or> (\<exists>p. None = Some p \<and> q = p @ partSuffix)"
    by (metis option.distinct(1))
qed simp

lemma append_inv:
  assumes "store_inv D0 (nodes dk) (marks dk) (Some p)"
  shows "store_inv D0 (nodes (add_bytes dk (p @ partSuffix) data)) (marks (add_bytes dk (p @ partSuffix) data)) (Some p)"
proof -
  from assms obtain b where b: "nodes dk p = None" "nodes dk (p @ partSuffix) = Some (File b)"
    by (rule store_cur)
  show ?thesis
    by (rule store_inv_change[OF assms]) (use b in \<open>auto simp: append_ok[OF b(2)] append_marks part_neq\<close>)
qed

lemma finish_inv:
  assumes "store_inv D0 (nodes dk) (marks dk) (Some p)" and "finish es ec er dk p = (None, dk')"
  shows "store_inv D0 (nodes dk') (marks dk') None"
  by (rule store_inv_change[OF assms(1)]) (use finish_ok[OF assms(2)] in \<open>auto simp: part_neq\<close>)

lemma abandon_inv:
  assumes "store_inv D0 (nodes dk) (marks dk) (Some p)" and "p \<noteq> []"
  shows "store_inv D0 (nodes (abandon dk p)) (marks (abandon dk p)) None"
proof -
  from assms obtain b where b: "nodes dk p = None" by (auto elim: store_cur)
  show ?thesis
    by (rule store_inv_change[OF assms(1)]) (use b abandon_ok[OF assms(2)] in \<open>auto simp: part_neq\<close>)
qed

lemma abandon_gone: "p \<noteq> [] \<Longrightarrow> nodes (abandon dk p) (p @ partSuffix) = None"
  using abandon_ok by simp

end

section \<open>The model's disk keeps the contract\<close>

lemma path_clean_ne: "path_clean p \<noteq> []"
  by (simp add: path_clean_def Let_def)

lemma path_join_ne: "a \<noteq> [] \<or> b \<noteq> [] \<Longrightarrow> path_join a b \<noteq> []"
  by (simp add: path_join_def path_clean_ne)

lemma Create_Inr_law:
  assumes "Create d ft dk n = (Inr p, dk')"
  shows "p \<noteq> [] \<and> dk_nodes dk p = None \<and> dk_nodes dk (p @ partSuffix) = None \<and> dk_nodes dk' p = None
      \<and> dk_nodes dk' (p @ partSuffix) = Some (File []) \<and> dk_marked dk' = dk_marked dk
      \<and> (\<forall>q. q \<noteq> p @ partSuffix \<longrightarrow> dk_nodes dk' q = dk_nodes dk q \<or> dk_nodes dk q = None \<and> dk_nodes dk' q = Some Folder)"
  using assms
proof (rule Create_Inr)
  fix safe i dk1
  assume *: "SafeName n = Inr safe" "p = path_join (d_root d) (candidate safe i)"
    "os_MkdirAll ft dk (d_root d) = (None, dk1)" "free_name dk1 p" "dk' = with_part dk1 p"
  have "candidate safe i \<noteq> []" using candidate_plain[OF *(1)] by (simp add: plain_comp_def)
  then have "p \<noteq> []" using *(2) by (simp add: path_join_ne)
  moreover have "dk_nodes dk1 q = None \<Longrightarrow> dk_nodes dk q = None" for q
    using MkdirAll_ok(1)[OF *(3), of q] by (cases "dk_nodes dk q") auto
  moreover have "dk_nodes dk1 q = dk_nodes dk q \<or> dk_nodes dk q = None \<and> dk_nodes dk1 q = Some Folder" for q
    using MkdirAll_ok(1,2)[OF *(3), of q] by (cases "dk_nodes dk q") auto
  ultimately show ?thesis
    using *(4,5) MkdirAll_ok(3)[OF *(3)] by (simp add: free_name_def with_part_def)
qed

lemma Create_Inl_law:
  assumes "Create d ft dk n = (Inl e, dk')"
  shows "dk_marked dk' = dk_marked dk
      \<and> (\<forall>q. dk_nodes dk' q = dk_nodes dk q \<or> dk_nodes dk q = None \<and> dk_nodes dk' q = Some Folder)"
proof -
  from assms consider "dk' = dk"
    | safe dk1 where "os_MkdirAll ft dk (d_root d) = (None, dk1)"
        "create_loop d ft dk1 safe [0..<Suc maxCollisions] = (Inl e, dk')"
    by (auto simp: Create_def simp del: upt_Suc split: sum.splits prod.splits option.splits)
  then show ?thesis
  proof cases
    case 2
    from create_loop_Inl[OF 2(2)] have "dk' = dk1" .
    moreover have "dk_nodes dk1 q = dk_nodes dk q \<or> dk_nodes dk q = None \<and> dk_nodes dk1 q = Some Folder" for q
      using MkdirAll_ok(1,2)[OF 2(1), of q] by (cases "dk_nodes dk q") auto
    ultimately show ?thesis using MkdirAll_ok(3)[OF 2(1)] by simp
  qed simp
qed

interpretation folder: part_store Create os_Write Finish Abandon dk_nodes dk_marked
proof unfold_locales
  show "Finish es ec er dk p = (None, dk') \<Longrightarrow>
      dk_nodes dk (p @ partSuffix) \<noteq> None \<and> dk_nodes dk' = (dk_nodes dk)(p := dk_nodes dk (p @ partSuffix), p @ partSuffix := None)
      \<and> dk_marked dk' = insert p (dk_marked dk)" for es ec er dk p dk'
    using Finish_None[of es ec er dk p dk'] Finish_ok[of dk p] by auto
qed (auto simp: Create_Inr_law Create_Inl_law os_Write_def Abandon_def os_Remove_def dest: Finish_err dest!: Create_Inr_law Create_Inl_law)

end
