(* ===== verification/Json.thy ===== *)
theory Json
  imports GoStrings Complex_Main
begin

text \<open>
  Package \<open>encoding/json\<close>, as the agent's message types use it: JSON values, and how a value
  is decoded into a Go struct. A key selects the field with exactly its name, or else the first
  one that matches it case-insensitively; unknown keys are ignored; a later duplicate is decoded
  on top of an earlier one; \<open>null\<close> leaves a scalar alone and clears a slice; a value of the
  wrong kind makes the whole call fail. The decoders start from the value the text stands for:
  \<open>None\<close> is a syntax error.
\<close>

datatype jval =
    JNull
  | JBool bool
  | JInt int            \<comment> \<open>a literal without fraction or exponent\<close>
  | JReal rat           \<comment> \<open>any other number\<close>
  | JStr string
  | JArr "jval list"
  | JObj "(string \<times> jval) list"

text \<open>The folding of field names: ASCII letters, and the two letters outside ASCII that fold
  into them (U+017F to s, U+212A to k).\<close>

fun fold_name :: "string \<Rightarrow> string" where
  "fold_name [] = []"
| "fold_name [a] = [ascii_lower_char a]"
| "fold_name [a, b] =
     (if a = CHR 0xC5 \<and> b = CHR 0xBF then ''s'' else [ascii_lower_char a, ascii_lower_char b])"
| "fold_name (a # b # c # s) =
     (if a = CHR 0xC5 \<and> b = CHR 0xBF then CHR ''s'' # fold_name (c # s)
      else if a = CHR 0xE2 \<and> b = CHR 0x84 \<and> c = CHR 0xAA then CHR ''k'' # fold_name s
      else ascii_lower_char a # fold_name (b # c # s))"

definition pick_field :: "string list \<Rightarrow> string \<Rightarrow> string option" where
  "pick_field names key =
     (if key \<in> set names then Some key
      else List.find (\<lambda>n. fold_name n = fold_name key) names)"

text \<open>One struct: \<open>put name v r\<close> decodes \<open>v\<close> into the field \<open>name\<close> of \<open>r\<close>, or fails.\<close>

fun decode_fields :: "string list \<Rightarrow> (string \<Rightarrow> jval \<Rightarrow> 'r \<Rightarrow> 'r option) \<Rightarrow> (string \<times> jval) list \<Rightarrow> 'r \<Rightarrow> 'r option" where
  "decode_fields names put [] r = Some r"
| "decode_fields names put ((k, v) # kvs) r =
     (case pick_field names k of
        None \<Rightarrow> decode_fields names put kvs r
      | Some n \<Rightarrow> (case put n v r of
                     None \<Rightarrow> None
                   | Some r' \<Rightarrow> decode_fields names put kvs r'))"

fun decode_struct :: "string list \<Rightarrow> (string \<Rightarrow> jval \<Rightarrow> 'r \<Rightarrow> 'r option) \<Rightarrow> jval \<Rightarrow> 'r \<Rightarrow> 'r option" where
  "decode_struct names put JNull r = Some r"
| "decode_struct names put (JObj kvs) r = decode_fields names put kvs r"
| "decode_struct names put _ r = None"

fun decode_str :: "jval \<Rightarrow> string \<Rightarrow> string option" where
  "decode_str JNull s = Some s"
| "decode_str (JStr t) s = Some t"
| "decode_str _ s = None"

fun decode_bool :: "jval \<Rightarrow> bool \<Rightarrow> bool option" where
  "decode_bool JNull b = Some b"
| "decode_bool (JBool c) b = Some c"
| "decode_bool _ b = None"

text \<open>\<open>int\<close> and \<open>int64\<close> fields accept an integer literal that fits.\<close>

fun decode_i64 :: "jval \<Rightarrow> int \<Rightarrow> int option" where
  "decode_i64 JNull n = Some n"
| "decode_i64 (JInt m) n = (if in_i64 m then Some m else None)"
| "decode_i64 _ n = None"

text \<open>\<open>float64\<close> fields, as exact numbers.\<close>

fun decode_f64 :: "jval \<Rightarrow> rat \<Rightarrow> rat option" where
  "decode_f64 JNull x = Some x"
| "decode_f64 (JInt m) x = Some (of_int m)"
| "decode_f64 (JReal y) x = Some y"
| "decode_f64 _ x = None"

text \<open>A slice: element \<open>i\<close> is decoded on top of the element \<open>i\<close> that was there.\<close>

fun decode_elems :: "(jval \<Rightarrow> 'a \<Rightarrow> 'a option) \<Rightarrow> 'a \<Rightarrow> jval list \<Rightarrow> 'a list \<Rightarrow> 'a list option" where
  "decode_elems dec z [] olds = Some []"
| "decode_elems dec z (v # vs) olds =
     (case dec v (case olds of [] \<Rightarrow> z | x # _ \<Rightarrow> x) of
        None \<Rightarrow> None
      | Some y \<Rightarrow> map_option (Cons y) (decode_elems dec z vs (case olds of [] \<Rightarrow> [] | _ # xs \<Rightarrow> xs)))"

fun decode_slice :: "(jval \<Rightarrow> 'a \<Rightarrow> 'a option) \<Rightarrow> 'a \<Rightarrow> jval \<Rightarrow> 'a list \<Rightarrow> 'a list option" where
  "decode_slice dec z JNull xs = Some []"
| "decode_slice dec z (JArr vs) xs = decode_elems dec z vs xs"
| "decode_slice dec z _ xs = None"

lemma decode_fields_append:
  "decode_fields names put (xs @ ys) r =
     (case decode_fields names put xs r of None \<Rightarrow> None | Some r' \<Rightarrow> decode_fields names put ys r')"
  by (induction xs arbitrary: r) (auto split: option.splits)

lemma pick_field_exact [simp]: "key \<in> set names \<Longrightarrow> pick_field names key = Some key"
  by (simp add: pick_field_def)

lemma decode_elems_fresh:
  "(\<And>x. x \<in> set xs \<Longrightarrow> dec (enc x) z = Some x) \<Longrightarrow> decode_elems dec z (map enc xs) [] = Some xs"
  by (induction xs) auto

end
