(* ===== verification/TransferMsg.thy ===== *)
theory TransferMsg
  imports Json
begin

text \<open>
  \<open>transfer/message.go\<close>: the control frames of the file channel, their limits, validation and
  encoding. A frame is decoded into a zero \<open>Msg\<close> and accepted only if \<open>validate\<close> passes; an
  unknown type passes so that the caller can ignore it.
\<close>

definition TypeRequest :: string where "TypeRequest = ''f-request''"
definition TypeOffer :: string where "TypeOffer = ''f-offer''"
definition TypeAccept :: string where "TypeAccept = ''f-accept''"
definition TypeReject :: string where "TypeReject = ''f-reject''"
definition TypeComplete :: string where "TypeComplete = ''f-complete''"
definition TypeDone :: string where "TypeDone = ''f-done''"
definition TypeProgress :: string where "TypeProgress = ''f-progress''"
definition TypeCancel :: string where "TypeCancel = ''f-cancel''"
definition TypeError :: string where "TypeError = ''f-error''"

lemmas msg_types =
  TypeRequest_def TypeOffer_def TypeAccept_def TypeReject_def TypeComplete_def TypeDone_def
  TypeProgress_def TypeCancel_def TypeError_def

definition ReasonDenied :: string where "ReasonDenied = ''denied''"
definition ReasonBusy :: string where "ReasonBusy = ''busy''"
definition ReasonTooLarge :: string where "ReasonTooLarge = ''too-large''"
definition ReasonBadName :: string where "ReasonBadName = ''bad-name''"
definition ReasonNoSpace :: string where "ReasonNoSpace = ''no-space''"
definition ReasonIO :: string where "ReasonIO = ''io''"
definition ReasonGone :: string where "ReasonGone = ''gone''"

definition DirUp :: string where "DirUp = ''up''"
definition DirDown :: string where "DirDown = ''down''"

definition MaxFileBytes :: int where "MaxFileBytes = 512 * 2 ^ 20"
definition MaxBatchFiles :: int where "MaxBatchFiles = 32"
definition MaxBatchBytes :: int where "MaxBatchBytes = 2 ^ 30"
definition MaxSessionFiles :: int where "MaxSessionFiles = 200"
definition MaxSessionBytes :: int where "MaxSessionBytes = 4 * 2 ^ 30"
definition ChunkBytes :: int where "ChunkBytes = 32 * 2 ^ 10"

lemmas transfer_limits =
  MaxFileBytes_def MaxBatchFiles_def MaxBatchBytes_def MaxSessionFiles_def MaxSessionBytes_def
  ChunkBytes_def

record FileMeta =
  fm_name :: string
  fm_size :: int

record Msg =
  msg_t :: string
  msg_id :: string
  msg_files :: "FileMeta list"
  msg_index :: int
  msg_size :: int
  msg_sent :: int
  msg_offset :: int
  msg_dir :: string
  msg_reason :: string
  msg_clip :: bool

definition zero_FileMeta :: FileMeta where
  "zero_FileMeta = \<lparr>fm_name = [], fm_size = 0\<rparr>"

definition zero_Msg :: Msg where
  "zero_Msg = \<lparr>msg_t = [], msg_id = [], msg_files = [], msg_index = 0, msg_size = 0, msg_sent = 0,
     msg_offset = 0, msg_dir = [], msg_reason = [], msg_clip = False\<rparr>"

text \<open>\<open>TotalSize\<close>: a sum in \<open>int64\<close>, wrapping at each step.\<close>

definition sum_i64 :: "int list \<Rightarrow> int" where
  "sum_i64 xs = foldl (\<lambda>total x. i64 (total + x)) 0 xs"

definition TotalSize :: "Msg \<Rightarrow> int" where
  "TotalSize m = sum_i64 (map fm_size (msg_files m))"

section \<open>Decoding and validation\<close>

definition file_field :: "string \<Rightarrow> jval \<Rightarrow> FileMeta \<Rightarrow> FileMeta option" where
  "file_field n v f =
     (if n = ''name'' then map_option (\<lambda>s. f\<lparr>fm_name := s\<rparr>) (decode_str v (fm_name f))
      else map_option (\<lambda>k. f\<lparr>fm_size := k\<rparr>) (decode_i64 v (fm_size f)))"

definition decode_FileMeta :: "jval \<Rightarrow> FileMeta \<Rightarrow> FileMeta option" where
  "decode_FileMeta = decode_struct [''name'', ''size''] file_field"

definition msg_names :: "string list" where
  "msg_names = [''t'', ''id'', ''files'', ''index'', ''size'', ''sent'', ''offset'', ''dir'', ''reason'', ''clip'']"

definition msg_field :: "string \<Rightarrow> jval \<Rightarrow> Msg \<Rightarrow> Msg option" where
  "msg_field n v m =
     (if n = ''t'' then map_option (\<lambda>s. m\<lparr>msg_t := s\<rparr>) (decode_str v (msg_t m))
      else if n = ''id'' then map_option (\<lambda>s. m\<lparr>msg_id := s\<rparr>) (decode_str v (msg_id m))
      else if n = ''files''
        then map_option (\<lambda>fs. m\<lparr>msg_files := fs\<rparr>) (decode_slice decode_FileMeta zero_FileMeta v (msg_files m))
      else if n = ''index'' then map_option (\<lambda>k. m\<lparr>msg_index := k\<rparr>) (decode_i64 v (msg_index m))
      else if n = ''size'' then map_option (\<lambda>k. m\<lparr>msg_size := k\<rparr>) (decode_i64 v (msg_size m))
      else if n = ''sent'' then map_option (\<lambda>k. m\<lparr>msg_sent := k\<rparr>) (decode_i64 v (msg_sent m))
      else if n = ''offset'' then map_option (\<lambda>k. m\<lparr>msg_offset := k\<rparr>) (decode_i64 v (msg_offset m))
      else if n = ''dir'' then map_option (\<lambda>s. m\<lparr>msg_dir := s\<rparr>) (decode_str v (msg_dir m))
      else if n = ''reason'' then map_option (\<lambda>s. m\<lparr>msg_reason := s\<rparr>) (decode_str v (msg_reason m))
      else map_option (\<lambda>b. m\<lparr>msg_clip := b\<rparr>) (decode_bool v (msg_clip m)))"

definition decode_Msg :: "jval \<Rightarrow> Msg option" where
  "decode_Msg v = decode_struct msg_names msg_field v zero_Msg"

datatype msg_err = ErrSyntax | ErrBadMessage

text \<open>The checks of one file of an offer, and of the message. \<open>None\<close> is no error.\<close>

definition file_bad :: "FileMeta \<Rightarrow> bool" where
  "file_bad f \<longleftrightarrow> fm_name f = [] \<or> fm_size f \<le> 0 \<or> MaxFileBytes < fm_size f"

definition counted_types :: "string list" where
  "counted_types =
     [TypeRequest, TypeAccept, TypeReject, TypeComplete, TypeDone, TypeProgress, TypeCancel, TypeError]"

definition validate :: "Msg \<Rightarrow> msg_err option" where
  "validate m =
     (if msg_t m = [] then Some ErrBadMessage
      else if msg_t m = TypeOffer then
        (if msg_id m = [] \<or> msg_offset m \<noteq> 0 then Some ErrBadMessage
         else if msg_dir m \<noteq> DirUp \<and> msg_dir m \<noteq> DirDown then Some ErrBadMessage
         else if length (msg_files m) = 0 \<or> MaxBatchFiles < int (length (msg_files m)) then Some ErrBadMessage
         else if list_ex file_bad (msg_files m) then Some ErrBadMessage
         else if MaxBatchBytes < TotalSize m then Some ErrBadMessage
         else None)
      else if msg_t m \<in> set counted_types then
        (if msg_id m = [] then Some ErrBadMessage
         else if msg_size m < 0 \<or> msg_sent m < 0 \<or> msg_index m < 0 then Some ErrBadMessage
         else None)
      else None)"

definition ParseMsg :: "jval option \<Rightarrow> msg_err + Msg" where
  "ParseMsg data =
     (case data of
        None \<Rightarrow> Inl ErrSyntax
      | Some v \<Rightarrow>
         (case decode_Msg v of
            None \<Rightarrow> Inl ErrSyntax
          | Some m \<Rightarrow> (case validate m of Some e \<Rightarrow> Inl e | None \<Rightarrow> Inr m)))"

section \<open>Encoding\<close>

definition omit :: "bool \<Rightarrow> string \<Rightarrow> jval \<Rightarrow> (string \<times> jval) list" where
  "omit z key v = (if z then [] else [(key, v)])"

definition encode_FileMeta :: "FileMeta \<Rightarrow> jval" where
  "encode_FileMeta f = JObj [(''name'', JStr (fm_name f)), (''size'', JInt (fm_size f))]"

definition Encode :: "Msg \<Rightarrow> jval" where
  "Encode m = JObj (
     [(''t'', JStr (msg_t m))]
     @ omit (msg_id m = []) ''id'' (JStr (msg_id m))
     @ omit (msg_files m = []) ''files'' (JArr (map encode_FileMeta (msg_files m)))
     @ omit (msg_index m = 0) ''index'' (JInt (msg_index m))
     @ omit (msg_size m = 0) ''size'' (JInt (msg_size m))
     @ omit (msg_sent m = 0) ''sent'' (JInt (msg_sent m))
     @ omit (msg_offset m = 0) ''offset'' (JInt (msg_offset m))
     @ omit (msg_dir m = []) ''dir'' (JStr (msg_dir m))
     @ omit (msg_reason m = []) ''reason'' (JStr (msg_reason m))
     @ omit (\<not> msg_clip m) ''clip'' (JBool (msg_clip m)))"

definition Reject :: "string \<Rightarrow> string \<Rightarrow> Msg" where
  "Reject i reason = zero_Msg\<lparr>msg_t := TypeReject, msg_id := i, msg_reason := reason\<rparr>"

definition Fail :: "string \<Rightarrow> string \<Rightarrow> Msg" where
  "Fail i reason = zero_Msg\<lparr>msg_t := TypeError, msg_id := i, msg_reason := reason\<rparr>"

text \<open>The field types of \<open>Msg\<close>: every integer is an \<open>int64\<close>.\<close>

definition Msg_typed :: "Msg \<Rightarrow> bool" where
  "Msg_typed m \<longleftrightarrow> in_i64 (msg_index m) \<and> in_i64 (msg_size m) \<and> in_i64 (msg_sent m) \<and> in_i64 (msg_offset m)
     \<and> list_all (\<lambda>f. in_i64 (fm_size f)) (msg_files m)"

section \<open>Totals\<close>

lemma sum_i64_step: "foldl (\<lambda>total x. i64 (total + x)) a (x # xs) = foldl (\<lambda>total x. i64 (total + x)) (i64 (a + x)) xs"
  by simp

lemma foldl_i64_exact:
  assumes "\<And>x. x \<in> set xs \<Longrightarrow> 0 \<le> x" and "0 \<le> a" and "a + sum_list xs < 2 ^ 63"
  shows "foldl (\<lambda>total x. i64 (total + x)) a xs = a + sum_list xs"
  using assms
proof (induction xs arbitrary: a)
  case (Cons x xs)
  have "0 \<le> sum_list xs" using Cons.prems(1) by (intro sum_list_nonneg_int) auto
  moreover have "0 \<le> x" using Cons.prems(1) by simp
  ultimately have "in_i64 (a + x)" using Cons.prems(2,3) by (simp add: in_i64_def)
  then show ?case using Cons by auto
qed simp

lemma sum_i64_exact:
  "(\<And>x. x \<in> set xs \<Longrightarrow> 0 \<le> x) \<Longrightarrow> sum_list xs < 2 ^ 63 \<Longrightarrow> sum_i64 xs = sum_list xs"
  unfolding sum_i64_def using foldl_i64_exact[of xs 0] by simp

definition batch_ok :: "FileMeta list \<Rightarrow> bool" where
  "batch_ok fs \<longleftrightarrow> fs \<noteq> [] \<and> int (length fs) \<le> MaxBatchFiles \<and> list_all (\<lambda>f. \<not> file_bad f) fs
     \<and> sum_list (map fm_size fs) \<le> MaxBatchBytes"

lemma files_total_exact:
  assumes "\<not> list_ex file_bad fs" and "int (length fs) \<le> MaxBatchFiles"
  shows "sum_i64 (map fm_size fs) = sum_list (map fm_size fs)"
    and "sum_list (map fm_size fs) \<le> MaxBatchFiles * MaxFileBytes" and "0 \<le> sum_list (map fm_size fs)"
proof -
  have pos: "\<And>x. x \<in> set (map fm_size fs) \<Longrightarrow> 0 \<le> x \<and> x \<le> MaxFileBytes"
    using assms(1) by (auto simp: list_ex_iff file_bad_def)
  then have "sum_list (map fm_size fs) \<le> int (length fs) * MaxFileBytes"
    using sum_list_bound[of "map fm_size fs" MaxFileBytes] by simp
  also have "\<dots> \<le> MaxBatchFiles * MaxFileBytes"
    using assms(2) by (intro mult_right_mono) (simp_all add: transfer_limits)
  finally show le: "sum_list (map fm_size fs) \<le> MaxBatchFiles * MaxFileBytes" .
  show "0 \<le> sum_list (map fm_size fs)" using pos by (intro sum_list_nonneg_int) blast
  show "sum_i64 (map fm_size fs) = sum_list (map fm_size fs)"
    using pos le by (intro sum_i64_exact) (auto simp: transfer_limits)
qed

lemma ParseMsg_Inr:
  "ParseMsg data = Inr m \<longleftrightarrow> (\<exists>v. data = Some v \<and> decode_Msg v = Some m \<and> validate m = None)"
  by (auto simp: ParseMsg_def split: option.splits)

lemma validate_offer:
  assumes "validate m = None" and "msg_t m = TypeOffer"
  shows "msg_id m \<noteq> [] \<and> (msg_dir m = DirUp \<or> msg_dir m = DirDown) \<and> msg_offset m = 0
     \<and> batch_ok (msg_files m) \<and> TotalSize m = sum_list (map fm_size (msg_files m))"
proof -
  have ne: "TypeOffer \<noteq> []" by (simp add: TypeOffer_def)
  from assms ne have files: "\<not> list_ex file_bad (msg_files m)" "int (length (msg_files m)) \<le> MaxBatchFiles"
    by (auto simp: validate_def split: if_splits)
  then have tot: "TotalSize m = sum_list (map fm_size (msg_files m))"
    unfolding TotalSize_def by (rule files_total_exact(1))
  with assms ne files show ?thesis
    by (auto simp: validate_def batch_ok_def list_all_iff list_ex_iff split: if_splits)
qed

text \<open>An offer that parses is one the rest of the package can rely on: it has an id and a
  direction, between 1 and 32 named files of 1 byte to 512 MiB each, at most 1 GiB together, and the
  \<open>int64\<close> sum the code compares did not wrap.\<close>

theorem ParseMsg_offer:
  assumes "ParseMsg data = Inr m" and "msg_t m = TypeOffer"
  shows "msg_id m \<noteq> [] \<and> (msg_dir m = DirUp \<or> msg_dir m = DirDown) \<and> msg_offset m = 0
     \<and> 1 \<le> length (msg_files m) \<and> length (msg_files m) \<le> 32
     \<and> (\<forall>f \<in> set (msg_files m). fm_name f \<noteq> [] \<and> 1 \<le> fm_size f \<and> fm_size f \<le> 512 * 2 ^ 20)
     \<and> TotalSize m = (\<Sum>f\<leftarrow>msg_files m. fm_size f) \<and> TotalSize m \<le> 2 ^ 30"
proof -
  from assms(1) have "validate m = None" by (auto simp: ParseMsg_Inr)
  from validate_offer[OF this assms(2)] show ?thesis
    by (auto simp: batch_ok_def list_all_iff file_bad_def transfer_limits Suc_le_eq)
qed

definition ex_offer :: jval where
  "ex_offer = JObj [(''t'', JStr ''f-offer''), (''id'', JStr ''b1''), (''DIR'', JStr ''up''),
     (''files'', JArr [JObj [(''name'', JStr ''a.txt''), (''size'', JInt 5)]])]"

definition ex_offer_msg :: Msg where
  "ex_offer_msg = zero_Msg\<lparr>msg_t := ''f-offer'', msg_id := ''b1'', msg_dir := ''up'',
     msg_files := [\<lparr>fm_name = ''a.txt'', fm_size = 5\<rparr>]\<rparr>"

lemma ex_offer_parses: "ParseMsg (Some ex_offer) = Inr ex_offer_msg"
  by code_simp

lemma ParseMsg_offer_witness: "TotalSize ex_offer_msg \<le> 2 ^ 30"
proof -
  have "msg_t ex_offer_msg = TypeOffer" by code_simp
  from ParseMsg_offer[OF ex_offer_parses this] show ?thesis by blast
qed

section \<open>Round trip\<close>

lemma decode_FileMeta_encode: "in_i64 (fm_size f) \<Longrightarrow> decode_FileMeta (encode_FileMeta f) zero_FileMeta = Some f"
  by (simp add: decode_FileMeta_def encode_FileMeta_def file_field_def pick_field_def zero_FileMeta_def)

lemma decode_files_encode:
  "list_all (\<lambda>f. in_i64 (fm_size f)) fs \<Longrightarrow>
   decode_elems decode_FileMeta zero_FileMeta (map encode_FileMeta fs) [] = Some fs"
  by (rule decode_elems_fresh) (auto simp: list_all_iff decode_FileMeta_encode)

text \<open>Decoding a key that is left out when its value is zero, on top of a message whose field is
  still zero.\<close>

lemma decode_omit:
  "msg_id r = [] \<Longrightarrow> decode_fields msg_names msg_field (omit (x = []) ''id'' (JStr x) @ kvs) r
     = decode_fields msg_names msg_field kvs (r\<lparr>msg_id := x\<rparr>)"
  "msg_files r = [] \<Longrightarrow> list_all (\<lambda>f. in_i64 (fm_size f)) fs \<Longrightarrow>
     decode_fields msg_names msg_field (omit (fs = []) ''files'' (JArr (map encode_FileMeta fs)) @ kvs) r
     = decode_fields msg_names msg_field kvs (r\<lparr>msg_files := fs\<rparr>)"
  "msg_index r = 0 \<Longrightarrow> in_i64 n \<Longrightarrow> decode_fields msg_names msg_field (omit (n = 0) ''index'' (JInt n) @ kvs) r
     = decode_fields msg_names msg_field kvs (r\<lparr>msg_index := n\<rparr>)"
  "msg_size r = 0 \<Longrightarrow> in_i64 n \<Longrightarrow> decode_fields msg_names msg_field (omit (n = 0) ''size'' (JInt n) @ kvs) r
     = decode_fields msg_names msg_field kvs (r\<lparr>msg_size := n\<rparr>)"
  "msg_sent r = 0 \<Longrightarrow> in_i64 n \<Longrightarrow> decode_fields msg_names msg_field (omit (n = 0) ''sent'' (JInt n) @ kvs) r
     = decode_fields msg_names msg_field kvs (r\<lparr>msg_sent := n\<rparr>)"
  "msg_offset r = 0 \<Longrightarrow> in_i64 n \<Longrightarrow> decode_fields msg_names msg_field (omit (n = 0) ''offset'' (JInt n) @ kvs) r
     = decode_fields msg_names msg_field kvs (r\<lparr>msg_offset := n\<rparr>)"
  "msg_dir r = [] \<Longrightarrow> decode_fields msg_names msg_field (omit (x = []) ''dir'' (JStr x) @ kvs) r
     = decode_fields msg_names msg_field kvs (r\<lparr>msg_dir := x\<rparr>)"
  "msg_reason r = [] \<Longrightarrow> decode_fields msg_names msg_field (omit (x = []) ''reason'' (JStr x) @ kvs) r
     = decode_fields msg_names msg_field kvs (r\<lparr>msg_reason := x\<rparr>)"
  "\<not> msg_clip r \<Longrightarrow> decode_fields msg_names msg_field (omit (\<not> c) ''clip'' (JBool c)) r
     = Some (r\<lparr>msg_clip := c\<rparr>)"
  by (cases r; simp add: omit_def msg_field_def msg_names_def decode_files_encode)+

lemma Encode_decode:
  assumes "Msg_typed m"
  shows "decode_Msg (Encode m) = Some m"
proof -
  have t: "decode_fields msg_names msg_field ([(''t'', JStr t)] @ kvs) zero_Msg
      = decode_fields msg_names msg_field kvs (zero_Msg\<lparr>msg_t := t\<rparr>)" for t kvs
    by (simp add: msg_field_def msg_names_def)
  note t = t[unfolded zero_Msg_def]
  show ?thesis
    using assms
    by (cases m) (simp add: decode_Msg_def Encode_def t decode_omit Msg_typed_def zero_Msg_def
      del: append_Cons append_Nil)
qed



end
