(* ===== verification/TransferSession.thy ===== *)
theory TransferSession
  imports Dest TransferMsg
begin

text \<open>
  \<open>transfer/session.go\<close> and the outbound slot of \<open>transfer/send.go\<close>: the state of one session's file
  channel. Every operation is the code between taking and releasing \<open>s.mu\<close>, as a function on the
  state, with the frames it sends once the lock is released appended to \<open>ss_out\<close>. What the
  operating system answers (the faults of \<open>Create\<close>, the errors of \<open>Write\<close>, \<open>Sync\<close>, \<open>Close\<close> and
  \<open>Rename\<close>) and the clock are arguments.
\<close>

record receiving =
  rx_id :: string
  rx_names :: "string list"
  rx_sizes :: "int list"
  rx_clip :: bool
  rx_saved :: "string list"
  rx_index :: nat
  rx_file :: bool
  rx_path :: string
  rx_written :: int
  rx_reported :: instant

record sending =
  tx_id :: string
  tx_paths :: "string list"
  tx_names :: "string list"
  tx_sizes :: "int list"
  tx_cancel :: nat

text \<open>\<open>ss_chan\<close>: a channel is attached; \<open>ss_cancelled\<close>: the cancel channels closed so far, of which
  \<open>ss_next\<close> were made; \<open>ss_done\<close>: the session's context is cancelled; \<open>ss_pasted\<close>: the calls of
  \<open>onPasted\<close>.\<close>

record Session =
  ss_dest :: Dest
  ss_disk :: disk
  ss_chan :: bool
  ss_out :: "Msg list"
  ss_rx :: "receiving option"
  ss_tx :: "sending option"
  ss_pending :: bool
  ss_failed :: "Msg option"
  ss_files :: int
  ss_bytes :: int
  ss_closed :: bool
  ss_done :: bool
  ss_next :: nat
  ss_cancelled :: "nat list"
  ss_pasted :: "string list list"

definition progressEvery :: duration where "progressEvery = 250 * millisecond"

definition NewSession :: "Dest \<Rightarrow> disk \<Rightarrow> Session" where
  "NewSession d dk = \<lparr>ss_dest = d, ss_disk = dk, ss_chan = False, ss_out = [], ss_rx = None, ss_tx = None,
     ss_pending = False, ss_failed = None, ss_files = 0, ss_bytes = 0, ss_closed = False, ss_done = False,
     ss_next = 0, ss_cancelled = [], ss_pasted = []\<rparr>"

definition Attach :: "Session \<Rightarrow> Session" where
  "Attach s = s\<lparr>ss_chan := True\<rparr>"

definition send_msg :: "Msg \<Rightarrow> Session \<Rightarrow> Session" where
  "send_msg m s = (if ss_chan s then s\<lparr>ss_out := ss_out s @ [m]\<rparr> else s)"

section \<open>Receiving\<close>

definition claimPending :: "string \<Rightarrow> Session \<Rightarrow> bool \<times> Session" where
  "claimPending i s =
     (if ss_closed s \<or> ss_pending s \<or> ss_rx s \<noteq> None then (False, send_msg (Reject i ReasonBusy) s)
      else (True, s\<lparr>ss_pending := True\<rparr>))"

definition releasePending :: "Session \<Rightarrow> Session" where
  "releasePending s = s\<lparr>ss_pending := False\<rparr>"

definition takeFailure :: "Msg \<Rightarrow> Session \<Rightarrow> Msg \<times> Session" where
  "takeFailure fallback s =
     (case ss_failed s of
        Some m \<Rightarrow> (m, s\<lparr>ss_failed := None\<rparr>)
      | None \<Rightarrow> (fallback, s))"

definition withinSessionLimits :: "int \<Rightarrow> int \<Rightarrow> Session \<Rightarrow> bool" where
  "withinSessionLimits count bytes s \<longleftrightarrow>
     i64 (ss_files s + count) \<le> MaxSessionFiles \<and> i64 (ss_bytes s + bytes) \<le> MaxSessionBytes"

definition openLocked :: "faults \<Rightarrow> Session \<Rightarrow> Msg option \<times> Session" where
  "openLocked ft s =
     (case ss_rx s of
        None \<Rightarrow> (None, s)
      | Some rx \<Rightarrow>
         (case Create (ss_dest s) ft (ss_disk s) (rx_names rx ! rx_index rx) of
            (Inl e, dk) \<Rightarrow>
              (Some (Fail (rx_id rx) (if e = ErrBadName then ReasonBadName else ReasonIO)),
               s\<lparr>ss_disk := dk, ss_rx := None\<rparr>)
          | (Inr path, dk) \<Rightarrow>
              (None, s\<lparr>ss_disk := dk, ss_rx := Some (rx\<lparr>rx_file := True, rx_path := path, rx_written := 0\<rparr>)\<rparr>)))"

definition new_receiving :: "string \<Rightarrow> string list \<Rightarrow> int list \<Rightarrow> bool \<Rightarrow> receiving" where
  "new_receiving i names sizes clip =
     \<lparr>rx_id = i, rx_names = names, rx_sizes = sizes, rx_clip = clip, rx_saved = [], rx_index = 0,
      rx_file = False, rx_path = [], rx_written = 0, rx_reported = 0\<rparr>"

definition beginBatch :: "faults \<Rightarrow> string \<Rightarrow> string list \<Rightarrow> int list \<Rightarrow> bool \<Rightarrow> Session \<Rightarrow> bool \<times> Session" where
  "beginBatch ft i names sizes clip s =
     (if ss_closed s \<or> ss_rx s \<noteq> None then (False, s)
      else (case openLocked ft (s\<lparr>ss_rx := Some (new_receiving i names sizes clip)\<rparr>) of
              (Some fail, s') \<Rightarrow> (False, s'\<lparr>ss_failed := Some fail\<rparr>)
            | (None, s') \<Rightarrow> (True, s')))"

definition diskFull :: "os_err \<Rightarrow> bool" where
  "diskFull e \<longleftrightarrow> e = ENOSPC \<or> e = EDQUOT"

definition writeReason :: "os_err \<Rightarrow> string" where
  "writeReason e = (if diskFull e then ReasonNoSpace else ReasonIO)"

definition abortLocked :: "Session \<Rightarrow> Session" where
  "abortLocked s =
     (case ss_rx s of
        None \<Rightarrow> s
      | Some rx \<Rightarrow> s\<lparr>ss_disk := Abandon (ss_disk s) (rx_path rx), ss_rx := None\<rparr>)"

definition abort :: "string \<Rightarrow> Session \<Rightarrow> Session" where
  "abort i s =
     (case ss_rx s of
        None \<Rightarrow> s
      | Some rx \<Rightarrow> if i = [] \<or> rx_id rx = i then abortLocked s else s)"

text \<open>\<open>handleChunk\<close> up to the call of \<open>finishFile\<close>: the result says whether the file is complete.\<close>

definition handleChunk :: "os_err option \<Rightarrow> instant \<Rightarrow> string \<Rightarrow> Session \<Rightarrow> bool \<times> Session" where
  "handleChunk werr now data s =
     (case ss_rx s of
        None \<Rightarrow> (False, s)
      | Some rx \<Rightarrow>
         if \<not> rx_file rx then (False, s)
         else if rx_sizes rx ! rx_index rx < i64 (rx_written rx + int (length data)) then
           (False, send_msg (Fail (rx_id rx) ReasonTooLarge) (abortLocked s))
         else (case werr of
             Some e \<Rightarrow> (False, send_msg (Fail (rx_id rx) (writeReason e)) (abortLocked s))
           | None \<Rightarrow>
               let written = i64 (rx_written rx + int (length data));
                   tell = progressEvery \<le> now - rx_reported rx;
                   rx' = rx\<lparr>rx_written := written, rx_reported := (if tell then now else rx_reported rx)\<rparr>;
                   s' = s\<lparr>ss_disk := os_Write (ss_disk s) (rx_path rx @ partSuffix) data, ss_rx := Some rx'\<rparr>;
                   s'' = (if tell then send_msg (zero_Msg\<lparr>msg_t := TypeProgress, msg_id := rx_id rx,
                                         msg_index := int (rx_index rx), msg_sent := written\<rparr>) s' else s')
               in (written = rx_sizes rx ! rx_index rx, s'')))"

text \<open>The errors \<open>Finish\<close> meets, and the faults of opening the next file.\<close>

record finish_faults =
  ff_sync :: "os_err option"
  ff_close :: "os_err option"
  ff_rename :: "os_err option"
  ff_next :: faults

definition finishFile :: "finish_faults \<Rightarrow> Session \<Rightarrow> Session" where
  "finishFile ff s =
     (case ss_rx s of
        None \<Rightarrow> s
      | Some rx \<Rightarrow>
         if \<not> rx_file rx then s
         else (case Finish (ff_sync ff) (ff_close ff) (ff_rename ff) (ss_disk s) (rx_path rx) of
             (Some e, dk) \<Rightarrow> send_msg (Fail (rx_id rx) (writeReason e)) (abortLocked (s\<lparr>ss_disk := dk\<rparr>))
           | (None, dk) \<Rightarrow>
               let rx1 = rx\<lparr>rx_file := False, rx_saved := rx_saved rx @ [rx_path rx]\<rparr>;
                   s1 = s\<lparr>ss_disk := dk, ss_files := i64 (ss_files s + 1), ss_bytes := i64 (ss_bytes s + rx_written rx)\<rparr>;
                   done_msg = zero_Msg\<lparr>msg_t := TypeDone, msg_id := rx_id rx, msg_index := int (rx_index rx)\<rparr>
               in if length (rx_names rx) \<le> rx_index rx + 1 then
                    let s2 = send_msg done_msg (s1\<lparr>ss_rx := None\<rparr>)
                    in if rx_clip rx \<and> rx_saved rx1 \<noteq> [] then s2\<lparr>ss_pasted := ss_pasted s2 @ [rx_saved rx1]\<rparr> else s2
                  else
                    (case openLocked (ff_next ff) (s1\<lparr>ss_rx := Some (rx1\<lparr>rx_index := rx_index rx + 1\<rparr>)\<rparr>) of
                       (None, s2) \<Rightarrow> send_msg done_msg s2
                     | (Some fail, s2) \<Rightarrow> send_msg fail (send_msg done_msg s2))))"

section \<open>The outbound slot\<close>

definition claimSend :: "string \<Rightarrow> Session \<Rightarrow> bool \<times> Session" where
  "claimSend i s =
     (if ss_closed s \<or> ss_tx s \<noteq> None then (False, send_msg (Reject i ReasonBusy) s)
      else (True, s\<lparr>ss_tx := Some \<lparr>tx_id = i, tx_paths = [], tx_names = [], tx_sizes = [], tx_cancel = ss_next s\<rparr>,
                    ss_next := ss_next s + 1\<rparr>))"

definition abortSendLocked :: "Session \<Rightarrow> Session" where
  "abortSendLocked s =
     (case ss_tx s of
        None \<Rightarrow> s
      | Some tx \<Rightarrow> s\<lparr>ss_cancelled := tx_cancel tx # ss_cancelled s, ss_tx := None\<rparr>)"

definition cancelSend :: "string \<Rightarrow> Session \<Rightarrow> Session" where
  "cancelSend i s =
     (case ss_tx s of
        None \<Rightarrow> s
      | Some tx \<Rightarrow> if i = [] \<or> tx_id tx = i then abortSendLocked s else s)"

definition clearSend :: "Session \<Rightarrow> Session" where
  "clearSend = abortSendLocked"

text \<open>The lock region of \<open>offerPaths\<close>: the offer is filled in if the slot is still this batch's.\<close>

definition set_offer :: "string \<Rightarrow> string list \<Rightarrow> string list \<Rightarrow> int list \<Rightarrow> Session \<Rightarrow> Session" where
  "set_offer i keep names sizes s =
     (case ss_tx s of
        None \<Rightarrow> s
      | Some tx \<Rightarrow> if tx_id tx = i
          then s\<lparr>ss_tx := Some (tx\<lparr>tx_paths := keep, tx_names := names, tx_sizes := sizes\<rparr>)\<rparr> else s)"

section \<open>Ending the session\<close>

definition CloseSession :: "Session \<Rightarrow> Session" where
  "CloseSession s =
     (if ss_closed s then s
      else (abortSendLocked (abortLocked (s\<lparr>ss_closed := True\<rparr>)))\<lparr>ss_done := True\<rparr>)"

section \<open>Deciding an offer\<close>

text \<open>The loop over the names of an offer: every one made safe, or none.\<close>

fun safe_names :: "FileMeta list \<Rightarrow> string list option" where
  "safe_names [] = Some []"
| "safe_names (f # fs) =
     (case SafeName (fm_name f) of
        Inl _ \<Rightarrow> None
      | Inr safe \<Rightarrow> map_option (Cons safe) (safe_names fs))"

text \<open>What is asked before the operator: \<open>Some reason\<close> refuses the batch.\<close>

definition vet_offer :: "Msg \<Rightarrow> Session \<Rightarrow> string + string list" where
  "vet_offer m s =
     (case safe_names (msg_files m) of
        None \<Rightarrow> Inl ReasonBadName
      | Some names \<Rightarrow>
          if \<not> withinSessionLimits (int (length (msg_files m))) (TotalSize m) s then Inl ReasonTooLarge
          else if \<not> Room (ss_dest s) (ss_disk s) (TotalSize m) then Inl ReasonNoSpace
          else Inr names)"

text \<open>The dispatch of a control frame: the operations on the state, and the goroutines started.\<close>

datatype channel_job = JOffered Msg | JRequested string | JAccepted string int

definition handleControl :: "jval option \<Rightarrow> Session \<Rightarrow> channel_job list \<times> Session" where
  "handleControl data s =
     (case ParseMsg data of
        Inl _ \<Rightarrow> ([], s)
      | Inr m \<Rightarrow>
          if msg_t m = TypeOffer then (if msg_dir m = DirUp then [JOffered m] else [], s)
          else if msg_t m = TypeRequest then ([JRequested (msg_id m)], s)
          else if msg_t m = TypeAccept then ([JAccepted (msg_id m) (msg_index m)], s)
          else if msg_t m = TypeCancel \<or> msg_t m = TypeError then ([], cancelSend (msg_id m) (abort (msg_id m) s))
          else ([], s))"

end
