(* ===== verification/TransferSafety.thy ===== *)
theory TransferSafety
  imports Store TransferSession
begin

text \<open>
  The file channel as a concurrent system: the goroutine that handles frames, one goroutine per
  offer, and the outbound slot interleave, each step being the code of one lock region. The
  invariants proved here hold in every reachable state, whatever the operating system, the
  operator and the viewer do.
\<close>

section \<open>The session's invariant\<close>

text \<open>A batch whose current file is not open yet.\<close>

definition rx_plan :: "Session \<Rightarrow> receiving \<Rightarrow> bool" where
  "rx_plan s r \<longleftrightarrow>
     rx_index r < length (rx_names r) \<and> length (rx_sizes r) = length (rx_names r)
     \<and> (\<forall>x \<in> set (rx_sizes r). 1 \<le> x \<and> x \<le> MaxFileBytes)
     \<and> ss_files s + (int (length (rx_names r)) - int (rx_index r)) \<le> MaxSessionFiles
     \<and> ss_bytes s + sum_list (drop (rx_index r) (rx_sizes r)) \<le> MaxSessionBytes"

definition rx_open :: "Session \<Rightarrow> receiving \<Rightarrow> bool" where
  "rx_open s r \<longleftrightarrow>
     rx_file r \<and> rx_path r \<noteq> [] \<and> 0 \<le> rx_written r \<and> rx_written r \<le> rx_sizes r ! rx_index r
     \<and> (\<exists>b. dk_nodes (ss_disk s) (rx_path r @ partSuffix) = Some (File b) \<and> int (length b) = rx_written r)"

definition counts_ok :: "Session \<Rightarrow> bool" where
  "counts_ok s \<longleftrightarrow> 0 \<le> ss_files s \<and> ss_files s \<le> MaxSessionFiles \<and> 0 \<le> ss_bytes s \<and> ss_bytes s \<le> MaxSessionBytes"

definition disk_ok :: "(string \<Rightarrow> node option) \<Rightarrow> Session \<Rightarrow> bool" where
  "disk_ok D0 s \<longleftrightarrow>
     store_inv D0 (dk_nodes (ss_disk s)) (dk_marked (ss_disk s)) (map_option rx_path (ss_rx s))"

definition sess_inv :: "(string \<Rightarrow> node option) \<Rightarrow> Session \<Rightarrow> bool" where
  "sess_inv D0 s \<longleftrightarrow>
     disk_ok D0 s \<and> counts_ok s \<and> (\<forall>r. ss_rx s = Some r \<longrightarrow> rx_plan s r \<and> rx_open s r)
     \<and> (ss_closed s \<longrightarrow> ss_rx s = None \<and> ss_tx s = None)"

lemmas sess_defs = rx_plan_def rx_open_def counts_ok_def disk_ok_def

lemma rx_plan_size:
  assumes "rx_plan s r"
  shows "1 \<le> rx_sizes r ! rx_index r \<and> rx_sizes r ! rx_index r \<le> MaxFileBytes"
proof -
  from assms have "rx_sizes r ! rx_index r \<in> set (rx_sizes r)" by (simp add: rx_plan_def)
  with assms show ?thesis by (auto simp: rx_plan_def)
qed

text \<open>Sending a frame changes nothing but what was sent.\<close>

lemma send_msg_sel [simp]:
  "ss_dest (send_msg m s) = ss_dest s" "ss_disk (send_msg m s) = ss_disk s" "ss_rx (send_msg m s) = ss_rx s"
  "ss_tx (send_msg m s) = ss_tx s" "ss_pending (send_msg m s) = ss_pending s" "ss_failed (send_msg m s) = ss_failed s"
  "ss_files (send_msg m s) = ss_files s" "ss_bytes (send_msg m s) = ss_bytes s" "ss_closed (send_msg m s) = ss_closed s"
  "ss_done (send_msg m s) = ss_done s" "ss_next (send_msg m s) = ss_next s" "ss_cancelled (send_msg m s) = ss_cancelled s"
  "ss_chan (send_msg m s) = ss_chan s" "ss_pasted (send_msg m s) = ss_pasted s"
  by (simp_all add: send_msg_def)

text \<open>The invariant looks at the disk, the inbound state and the counters only.\<close>

definition same_rx :: "Session \<Rightarrow> Session \<Rightarrow> bool" where
  "same_rx s s' \<longleftrightarrow> ss_disk s' = ss_disk s \<and> ss_rx s' = ss_rx s \<and> ss_files s' = ss_files s \<and> ss_bytes s' = ss_bytes s"

lemma same_rx_plan: "same_rx s s' \<Longrightarrow> rx_plan s' r = rx_plan s r"
  by (simp add: same_rx_def rx_plan_def)

lemma same_rx_open: "same_rx s s' \<Longrightarrow> rx_open s' r = rx_open s r"
  by (simp add: same_rx_def rx_open_def)

lemma same_rx_inv:
  assumes "same_rx s s'" and "sess_inv D0 s" and "ss_closed s' \<longrightarrow> ss_rx s' = None \<and> ss_tx s' = None"
  shows "sess_inv D0 s'"
  using assms same_rx_plan[OF assms(1)] same_rx_open[OF assms(1)]
  by (simp add: sess_inv_def same_rx_def disk_ok_def counts_ok_def)

lemma pasted_inv: "sess_inv D0 (s\<lparr>ss_pasted := x\<rparr>) = sess_inv D0 s"
  by (simp add: sess_inv_def disk_ok_def counts_ok_def rx_plan_def rx_open_def)

lemma same_rx_send [simp]: "same_rx s (send_msg m s)"
  by (simp add: same_rx_def)

lemma send_msg_inv [fd_inv]: "sess_inv D0 (send_msg m s) = sess_inv D0 s"
  by (auto simp: sess_inv_def disk_ok_def counts_ok_def same_rx_plan[OF same_rx_send] same_rx_open[OF same_rx_send])

section \<open>Every operation keeps it\<close>

lemma abortLocked_inv [fd_inv]:
  assumes "sess_inv D0 s"
  shows "sess_inv D0 (abortLocked s)"
proof (cases "ss_rx s")
  case (Some r)
  with assms have "store_inv D0 (dk_nodes (ss_disk s)) (dk_marked (ss_disk s)) (Some (rx_path r))" "rx_path r \<noteq> []"
    by (auto simp: sess_inv_def disk_ok_def rx_open_def)
  from folder.abandon_inv[OF this] Some assms show ?thesis
    by (simp add: abortLocked_def sess_inv_def disk_ok_def counts_ok_def)
qed (use assms in \<open>simp add: abortLocked_def\<close>)

lemma abortLocked_rx [simp]: "ss_rx (abortLocked s) = None"
  by (simp add: abortLocked_def split: option.split)

lemma abort_inv [fd_inv]: "sess_inv D0 s \<Longrightarrow> sess_inv D0 (abort i s)"
  by (auto simp: abort_def abortLocked_inv split: option.split)

lemma abortSend_inv [fd_inv]: "sess_inv D0 s \<Longrightarrow> sess_inv D0 (abortSendLocked s)"
  by (rule same_rx_inv[of s]) (auto simp: same_rx_def abortSendLocked_def sess_inv_def split: option.splits)

lemma cancelSend_inv [fd_inv]: "sess_inv D0 s \<Longrightarrow> sess_inv D0 (cancelSend i s)"
  by (auto simp: cancelSend_def abortSend_inv split: option.split)

lemma clearSend_inv [fd_inv]: "sess_inv D0 s \<Longrightarrow> sess_inv D0 (clearSend s)"
  by (simp add: clearSend_def abortSend_inv)

lemma claimSend_inv [fd_inv]: "sess_inv D0 s \<Longrightarrow> claimSend i s = (ok, s') \<Longrightarrow> sess_inv D0 s'"
  by (rule same_rx_inv[of s]) (auto simp: same_rx_def claimSend_def sess_inv_def split: if_splits)

lemma set_offer_inv [fd_inv]: "sess_inv D0 s \<Longrightarrow> sess_inv D0 (set_offer i ps ns zs s)"
  by (rule same_rx_inv[of s]) (auto simp: same_rx_def set_offer_def sess_inv_def split: option.splits)

lemma abortSend_tx [simp]: "ss_tx (abortSendLocked s) = None"
  by (simp add: abortSendLocked_def split: option.split)

lemma abortSend_rx [simp]:
  "ss_rx (abortSendLocked s) = ss_rx s" "ss_disk (abortSendLocked s) = ss_disk s"
  "ss_files (abortSendLocked s) = ss_files s" "ss_bytes (abortSendLocked s) = ss_bytes s"
  "ss_closed (abortSendLocked s) = ss_closed s" "ss_pending (abortSendLocked s) = ss_pending s"
  by (simp_all add: abortSendLocked_def split: option.split)

lemma Close_inv [fd_inv]:
  assumes "sess_inv D0 s"
  shows "sess_inv D0 (CloseSession s)"
proof (cases "ss_closed s")
  case False
  have a: "abortLocked (s\<lparr>ss_closed := True\<rparr>) = (abortLocked s)\<lparr>ss_closed := True\<rparr>"
    by (simp add: abortLocked_def split: option.split)
  show ?thesis
    by (rule same_rx_inv[OF _ abortLocked_inv[OF assms]])
       (use False in \<open>simp_all add: CloseSession_def a same_rx_def\<close>)
qed (use assms in \<open>simp add: CloseSession_def\<close>)

text \<open>Opening the next file of a batch.\<close>

lemma openLocked_inv:
  assumes "ss_rx s = Some rx" and "disk_ok D0 (s\<lparr>ss_rx := None\<rparr>)" and "counts_ok s" and "rx_plan s rx"
    and "\<not> ss_closed s" and "openLocked ft s = (fail, s')"
  shows "sess_inv D0 s'"
    and "fail = None \<Longrightarrow> \<exists>p. ss_rx s' = Some (rx\<lparr>rx_file := True, rx_path := p, rx_written := 0\<rparr>)"
    and "fail \<noteq> None \<Longrightarrow> ss_rx s' = None"
    and "ss_closed s' = ss_closed s" and "ss_pending s' = ss_pending s" and "ss_files s' = ss_files s"
    and "ss_bytes s' = ss_bytes s"
proof -
  have inv: "store_inv D0 (dk_nodes (ss_disk s)) (dk_marked (ss_disk s)) None"
    using assms(2) by (simp add: disk_ok_def)
  define cr where "cr = Create (ss_dest s) ft (ss_disk s) (rx_names rx ! rx_index rx)"
  have "sess_inv D0 s' \<and> (fail = None \<longrightarrow> (\<exists>p. ss_rx s' = Some (rx\<lparr>rx_file := True, rx_path := p, rx_written := 0\<rparr>)))
    \<and> (fail \<noteq> None \<longrightarrow> ss_rx s' = None) \<and> ss_closed s' = ss_closed s \<and> ss_pending s' = ss_pending s
    \<and> ss_files s' = ss_files s \<and> ss_bytes s' = ss_bytes s"
  proof (cases "fst cr")
    case (Inl e)
    then have c: "Create (ss_dest s) ft (ss_disk s) (rx_names rx ! rx_index rx) = (Inl e, snd cr)"
      by (simp add: cr_def prod_eq_iff)
    from folder.create_fail_inv[OF inv c] c assms show ?thesis
      by (auto simp: openLocked_def sess_inv_def disk_ok_def counts_ok_def)
  next
    case (Inr p)
    then have c: "Create (ss_dest s) ft (ss_disk s) (rx_names rx ! rx_index rx) = (Inr p, snd cr)"
      by (simp add: cr_def prod_eq_iff)
    have sz: "0 \<le> rx_sizes rx ! rx_index rx" using rx_plan_size[OF assms(4)] by simp
    from folder.create_inv[OF inv c] folder.create_ok[OF c] c assms sz show ?thesis
      by (auto simp: openLocked_def sess_inv_def disk_ok_def counts_ok_def rx_plan_def rx_open_def)
  qed
  then show "sess_inv D0 s'" "fail = None \<Longrightarrow> \<exists>p. ss_rx s' = Some (rx\<lparr>rx_file := True, rx_path := p, rx_written := 0\<rparr>)"
    "fail \<noteq> None \<Longrightarrow> ss_rx s' = None" "ss_closed s' = ss_closed s" "ss_pending s' = ss_pending s"
    "ss_files s' = ss_files s" "ss_bytes s' = ss_bytes s" by auto
qed

lemma beginBatch_inv:
  assumes "sess_inv D0 s" and "beginBatch ft i names sizes clip s = (ok, s')"
    and "\<not> ss_closed s \<Longrightarrow> ss_rx s = None \<Longrightarrow> rx_plan s (new_receiving i names sizes clip)"
  shows "sess_inv D0 s'" and "ss_closed s' = ss_closed s" and "ss_pending s' = ss_pending s"
    and "ok \<Longrightarrow> \<exists>r. ss_rx s' = Some r \<and> rx_written r = 0 \<and> rx_plan s' r"
    and "\<not> ok \<Longrightarrow> ss_rx s' = ss_rx s"
proof -
  let ?r = "new_receiving i names sizes clip"
  let ?s = "s\<lparr>ss_rx := Some ?r\<rparr>"
  have "sess_inv D0 s' \<and> ss_closed s' = ss_closed s \<and> ss_pending s' = ss_pending s
    \<and> (ok \<longrightarrow> (\<exists>r. ss_rx s' = Some r \<and> rx_written r = 0 \<and> rx_plan s' r)) \<and> (\<not> ok \<longrightarrow> ss_rx s' = ss_rx s)"
  proof (cases "ss_closed s \<or> ss_rx s \<noteq> None")
    case True
    with assms(1,2) show ?thesis by (auto simp: beginBatch_def)
  next
    case False
    obtain fail s2 where o: "openLocked ft ?s = (fail, s2)" by fastforce
    have pre: "ss_rx ?s = Some ?r" "disk_ok D0 (?s\<lparr>ss_rx := None\<rparr>)" "counts_ok ?s" "rx_plan ?s ?r" "\<not> ss_closed ?s"
      using assms(1,3) False by (auto simp: sess_inv_def disk_ok_def counts_ok_def rx_plan_def)
    note r = openLocked_inv[OF pre o]
    show ?thesis
    proof (cases fail)
      case None
      with assms(2) False o have "s' = s2" "ok" by (auto simp: beginBatch_def)
      moreover from r(1,2) None obtain q where "ss_rx s2 = Some q" "rx_written q = 0" "rx_plan s2 q"
        unfolding sess_inv_def by fastforce
      ultimately show ?thesis using r(1,4,5) by auto
    next
      case (Some f)
      with assms(2) False o have s': "s' = s2\<lparr>ss_failed := Some f\<rparr>" "\<not> ok" by (auto simp: beginBatch_def)
      have "sess_inv D0 s'"
      proof (rule same_rx_inv[of s2])
        show "same_rx s2 s'" by (simp add: same_rx_def s'(1))
        show "sess_inv D0 s2" by (rule r(1))
        show "ss_closed s' \<longrightarrow> ss_rx s' = None \<and> ss_tx s' = None"
          using r(1) unfolding sess_inv_def s'(1) by simp
      qed
      then show ?thesis using r(3-5) Some s' False by simp
    qed
  qed
  then show "sess_inv D0 s'" "ss_closed s' = ss_closed s" "ss_pending s' = ss_pending s"
    "ok \<Longrightarrow> \<exists>r. ss_rx s' = Some r \<and> rx_written r = 0 \<and> rx_plan s' r" "\<not> ok \<Longrightarrow> ss_rx s' = ss_rx s" by auto
qed

text \<open>No slice is longer than the address space, so the byte count does not wrap.\<close>

definition slice_ok :: "string \<Rightarrow> bool" where
  "slice_ok data \<longleftrightarrow> int (length data) < 2 ^ 48"

lemma written_exact:
  assumes "rx_plan s r" and "rx_open s r" and "slice_ok data"
  shows "i64 (rx_written r + int (length data)) = rx_written r + int (length data)"
  using assms rx_plan_size[OF assms(1)] by (simp add: rx_open_def slice_ok_def in_i64_def MaxFileBytes_def)

lemma handleChunk_cases:
  assumes "sess_inv D0 s" and "ss_rx s = Some r" and "slice_ok data"
  shows "handleChunk werr now data s =
    (if rx_sizes r ! rx_index r < rx_written r + int (length data)
     then (False, send_msg (Fail (rx_id r) ReasonTooLarge) (abortLocked s))
     else (case werr of
         Some e \<Rightarrow> (False, send_msg (Fail (rx_id r) (writeReason e)) (abortLocked s))
       | None \<Rightarrow>
           let written = rx_written r + int (length data);
               tell = progressEvery \<le> now - rx_reported r;
               r' = r\<lparr>rx_written := written, rx_reported := (if tell then now else rx_reported r)\<rparr>;
               s' = s\<lparr>ss_disk := os_Write (ss_disk s) (rx_path r @ partSuffix) data, ss_rx := Some r'\<rparr>
           in (written = rx_sizes r ! rx_index r,
               if tell then send_msg (zero_Msg\<lparr>msg_t := TypeProgress, msg_id := rx_id r,
                                        msg_index := int (rx_index r), msg_sent := written\<rparr>) s' else s')))"
proof -
  from assms have "rx_plan s r" "rx_open s r" by (auto simp: sess_inv_def)
  with written_exact[OF this assms(3)] assms(2) show ?thesis
    by (simp add: handleChunk_def rx_open_def Let_def split: option.split)
qed

lemma handleChunk_inv:
  assumes "sess_inv D0 s" and "slice_ok data" and "handleChunk werr now data s = (full, s')"
  shows "sess_inv D0 s'" and "ss_closed s' = ss_closed s" and "ss_pending s' = ss_pending s"
    and "full \<Longrightarrow> \<exists>r. ss_rx s' = Some r \<and> rx_written r = rx_sizes r ! rx_index r"
    and "\<not> full \<Longrightarrow> ss_rx s' = Some r \<Longrightarrow> rx_written r < rx_sizes r ! rx_index r"
    and "ss_rx s = None \<Longrightarrow> ss_rx s' = None"
proof -
  have "sess_inv D0 s' \<and> ss_closed s' = ss_closed s \<and> ss_pending s' = ss_pending s
    \<and> (full \<longrightarrow> (\<exists>r. ss_rx s' = Some r \<and> rx_written r = rx_sizes r ! rx_index r))
    \<and> (\<not> full \<longrightarrow> (\<forall>r. ss_rx s' = Some r \<longrightarrow> rx_written r < rx_sizes r ! rx_index r))
    \<and> (ss_rx s = None \<longrightarrow> ss_rx s' = None)"
  proof (cases "ss_rx s")
    case None
    with assms show ?thesis by (auto simp: handleChunk_def)
  next
    case (Some r)
    have ab: "ss_closed (abortLocked s) = ss_closed s" "ss_pending (abortLocked s) = ss_pending s"
      by (simp_all add: abortLocked_def split: option.split)
    note h = assms(3)[unfolded handleChunk_cases[OF assms(1) Some assms(2)]]
    show ?thesis
    proof (cases "rx_sizes r ! rx_index r < rx_written r + int (length data) \<or> werr \<noteq> None")
      case True
      with h assms(1) ab show ?thesis by (auto simp: send_msg_inv abortLocked_inv split: if_splits)
    next
      case False
      define w where "w = rx_written r + int (length data)"
      define r' where "r' = r\<lparr>rx_written := w, rx_reported := (if progressEvery \<le> now - rx_reported r then now else rx_reported r)\<rparr>"
      define s1 where "s1 = s\<lparr>ss_disk := os_Write (ss_disk s) (rx_path r @ partSuffix) data, ss_rx := Some r'\<rparr>"
      from h False have c: "full = (w = rx_sizes r ! rx_index r)" and s': "s' = s1 \<or> (\<exists>m. s' = send_msg m s1)"
        by (auto simp: w_def r'_def s1_def Let_def split: if_splits)
      from assms(1) Some have inv: "store_inv D0 (dk_nodes (ss_disk s)) (dk_marked (ss_disk s)) (Some (rx_path r))"
        and pl: "rx_plan s r" and op: "rx_open s r" and cl: "\<not> ss_closed s"
        by (auto simp: sess_inv_def disk_ok_def)
      from op obtain b where b: "dk_nodes (ss_disk s) (rx_path r @ partSuffix) = Some (File b)"
        "int (length b) = rx_written r" by (auto simp: rx_open_def)
      have "rx_open s1 r'"
        using op b False folder.append_ok[OF b(1), of data] by (simp add: rx_open_def r'_def s1_def w_def)
      moreover have "rx_plan s1 r'" using pl by (simp add: rx_plan_def r'_def s1_def)
      moreover have "disk_ok D0 s1"
        using folder.append_inv[OF inv, of data] by (simp add: disk_ok_def s1_def r'_def)
      ultimately have "sess_inv D0 s1"
        using assms(1) cl by (simp add: sess_inv_def counts_ok_def s1_def)
      then have "sess_inv D0 s'" using s' by (auto simp: send_msg_inv)
      moreover have "ss_rx s' = Some r'" "ss_closed s' = ss_closed s" "ss_pending s' = ss_pending s"
        using s' by (auto simp: s1_def)
      ultimately show ?thesis using Some c False by (auto simp: r'_def w_def)
    qed
  qed
  then show "sess_inv D0 s'" "ss_closed s' = ss_closed s" "ss_pending s' = ss_pending s"
    "full \<Longrightarrow> \<exists>r. ss_rx s' = Some r \<and> rx_written r = rx_sizes r ! rx_index r"
    "\<not> full \<Longrightarrow> ss_rx s' = Some r \<Longrightarrow> rx_written r < rx_sizes r ! rx_index r"
    "ss_rx s = None \<Longrightarrow> ss_rx s' = None" by auto
qed

text \<open>\<open>finishFile\<close>, when the current file is complete.\<close>

lemma sum_list_drop_Suc: "i < length xs \<Longrightarrow> sum_list (drop i xs) = xs ! i + sum_list (drop (Suc i) (xs :: int list))"
  by (simp add: Cons_nth_drop_Suc[symmetric])

lemma finishFile_inv:
  assumes "sess_inv D0 s" and "\<And>r. ss_rx s = Some r \<Longrightarrow> rx_written r = rx_sizes r ! rx_index r"
  shows "sess_inv D0 (finishFile ff s)" and "ss_closed (finishFile ff s) = ss_closed s"
    and "ss_pending (finishFile ff s) = ss_pending s"
    and "ss_rx (finishFile ff s) = Some q \<Longrightarrow> rx_written q = 0"
    and "ss_rx s = None \<Longrightarrow> ss_rx (finishFile ff s) = None"
proof -
  let ?f = "finishFile ff s"
  have "sess_inv D0 ?f \<and> ss_closed ?f = ss_closed s \<and> ss_pending ?f = ss_pending s
    \<and> (\<forall>q. ss_rx ?f = Some q \<longrightarrow> rx_written q = 0) \<and> (ss_rx s = None \<longrightarrow> ss_rx ?f = None)"
  proof (cases "ss_rx s")
    case None
    with assms(1) show ?thesis by (simp add: finishFile_def)
  next
    case (Some r)
    from assms(1) Some have inv: "store_inv D0 (dk_nodes (ss_disk s)) (dk_marked (ss_disk s)) (Some (rx_path r))"
      and pl: "rx_plan s r" and op: "rx_open s r" and cl: "\<not> ss_closed s" and ct: "counts_ok s"
      by (auto simp: sess_inv_def disk_ok_def)
    from op have opened: "rx_file r" by (simp add: rx_open_def)
    define fin where "fin = Finish (ff_sync ff) (ff_close ff) (ff_rename ff) (ss_disk s) (rx_path r)"
    show ?thesis
    proof (cases "fst fin")
      case (Some e)
      then have fe: "Finish (ff_sync ff) (ff_close ff) (ff_rename ff) (ss_disk s) (rx_path r) = (Some e, snd fin)"
        by (simp add: fin_def prod_eq_iff)
      from folder.finish_err[OF fe] have "snd fin = ss_disk s" .
      with fe opened \<open>ss_rx s = Some r\<close>
      have f: "?f = send_msg (Fail (rx_id r) (writeReason e)) (abortLocked s)" by (simp add: finishFile_def)
      show ?thesis unfolding f
        using abortLocked_inv[OF assms(1)] \<open>ss_rx s = Some r\<close> by (simp add: send_msg_inv abortLocked_def)
    next
      case None
      then have fo: "Finish (ff_sync ff) (ff_close ff) (ff_rename ff) (ss_disk s) (rx_path r) = (None, snd fin)"
        by (simp add: fin_def prod_eq_iff)
      note inv' = folder.finish_inv[OF inv fo]
      define r1 where "r1 = r\<lparr>rx_file := False, rx_saved := rx_saved r @ [rx_path r]\<rparr>"
      define s1 where "s1 = s\<lparr>ss_disk := snd fin, ss_files := i64 (ss_files s + 1), ss_bytes := i64 (ss_bytes s + rx_written r)\<rparr>"
      from pl rx_plan_size[OF pl] have idx: "rx_index r < length (rx_names r)" "rx_index r < length (rx_sizes r)"
        by (auto simp: rx_plan_def)
      have rest: "0 \<le> sum_list (drop (Suc (rx_index r)) (rx_sizes r))"
        using pl by (intro sum_list_nonneg_int) (auto simp: rx_plan_def dest!: in_set_dropD)
      have w: "rx_written r = rx_sizes r ! rx_index r" using assms(2) \<open>ss_rx s = Some r\<close> .
      have le: "ss_files s + 1 \<le> MaxSessionFiles" "ss_bytes s + rx_written r + sum_list (drop (Suc (rx_index r)) (rx_sizes r)) \<le> MaxSessionBytes"
        using pl idx w sum_list_drop_Suc[OF idx(2)] by (auto simp: rx_plan_def)
      have pos: "0 \<le> ss_files s" "0 \<le> ss_bytes s" "1 \<le> rx_written r"
        using ct w rx_plan_size[OF pl] by (auto simp: counts_ok_def)
      have cnt: "ss_files s1 = ss_files s + 1" "ss_bytes s1 = ss_bytes s + rx_written r"
        using le rest pos by (simp_all add: s1_def in_i64_def transfer_limits)
      have ct1: "counts_ok s1" using le rest pos by (simp add: counts_ok_def cnt)
      have d1: "disk_ok D0 (s1\<lparr>ss_rx := None\<rparr>)" using inv' by (simp add: disk_ok_def s1_def)
      show ?thesis
      proof (cases "length (rx_names r) \<le> rx_index r + 1")
        case True
        let ?t = "s1\<lparr>ss_rx := None\<rparr>"
        have t: "sess_inv D0 ?t" using ct1 d1 cl by (simp add: sess_inv_def counts_ok_def s1_def)
        define m where "m = zero_Msg\<lparr>msg_t := TypeDone, msg_id := rx_id r, msg_index := int (rx_index r)\<rparr>"
        have "?f = send_msg m ?t \<or> (\<exists>x. ?f = (send_msg m ?t)\<lparr>ss_pasted := x\<rparr>)"
          using True fo opened \<open>ss_rx s = Some r\<close>
          by (cases "rx_clip r") (auto simp: finishFile_def s1_def m_def Let_def)
        then show ?thesis using t \<open>ss_rx s = Some r\<close> by (auto simp: send_msg_inv pasted_inv s1_def)
      next
        case False
        let ?r2 = "r1\<lparr>rx_index := rx_index r + 1\<rparr>"
        let ?t = "s1\<lparr>ss_rx := Some ?r2\<rparr>"
        obtain fail s2 where o: "openLocked (ff_next ff) ?t = (fail, s2)" by fastforce
        have pl2: "rx_plan ?t ?r2"
          using pl le False by (simp add: rx_plan_def cnt r1_def)
        have pre: "ss_rx ?t = Some ?r2" "disk_ok D0 (?t\<lparr>ss_rx := None\<rparr>)" "counts_ok ?t" "rx_plan ?t ?r2" "\<not> ss_closed ?t"
          using d1 ct1 pl2 cl by (simp_all add: disk_ok_def counts_ok_def s1_def)
        note op2 = openLocked_inv[OF pre o]
        obtain m where f: "?f = (case fail of None \<Rightarrow> send_msg m s2 | Some fl \<Rightarrow> send_msg fl (send_msg m s2))"
          using False fo opened \<open>ss_rx s = Some r\<close> o by (auto simp: finishFile_def s1_def r1_def Let_def split: option.split)
        have "\<forall>q. ss_rx s2 = Some q \<longrightarrow> rx_written q = 0"
          using op2(2,3) by (cases fail) auto
        then show ?thesis
          using op2(1,4,5) \<open>ss_rx s = Some r\<close> unfolding f by (cases fail) (simp_all add: send_msg_inv s1_def)
      qed
    qed
  qed
  then show "sess_inv D0 ?f" "ss_closed ?f = ss_closed s" "ss_pending ?f = ss_pending s"
    "ss_rx ?f = Some q \<Longrightarrow> rx_written q = 0" "ss_rx s = None \<Longrightarrow> ss_rx ?f = None" by auto
qed

section \<open>The interleaving system\<close>

text \<open>The goroutine of an offer, by what it does next: claim the slot, vet the batch, wait for the
  operator, begin the batch, send the failure of the open, release the slot.\<close>

datatype offer_job =
    OStart Msg
  | OVet Msg
  | OAsk Msg "string list"
  | OBegin Msg "string list"
  | OTake Msg
  | ORelease

text \<open>\<open>sy_finish\<close>: the frame goroutine is between \<open>handleChunk\<close> and \<open>finishFile\<close>.\<close>

record sys =
  sy_s :: Session
  sy_finish :: bool
  sy_jobs :: "offer_job list"

definition start_jobs :: "channel_job list \<Rightarrow> offer_job list" where
  "start_jobs js = concat (map (\<lambda>j. case j of JOffered m \<Rightarrow> [OStart m] | _ \<Rightarrow> []) js)"

text \<open>One step of the offer goroutine, with the operator's answer and the faults of opening the first
  file: the session after it, and what the goroutine does next.\<close>

definition offer_step :: "bool \<Rightarrow> faults \<Rightarrow> offer_job \<Rightarrow> Session \<Rightarrow> Session \<times> offer_job list" where
  "offer_step answer ft j s =
     (case j of
        OStart m \<Rightarrow> (case claimPending (msg_id m) s of (ok, s') \<Rightarrow> (s', if ok then [OVet m] else []))
      | OVet m \<Rightarrow>
          (case vet_offer m s of
             Inl reason \<Rightarrow> (send_msg (Reject (msg_id m) reason) s, [ORelease])
           | Inr names \<Rightarrow> (s, [OAsk m names]))
      | OAsk m names \<Rightarrow>
          if answer then (s, [OBegin m names]) else (send_msg (Reject (msg_id m) ReasonDenied) s, [ORelease])
      | OBegin m names \<Rightarrow>
          (case beginBatch ft (msg_id m) names (map fm_size (msg_files m)) (msg_clip m) s of
             (True, s') \<Rightarrow> (send_msg (zero_Msg\<lparr>msg_t := TypeAccept, msg_id := msg_id m\<rparr>) s', [ORelease])
           | (False, s') \<Rightarrow> (s', [OTake m]))
      | OTake m \<Rightarrow> (case takeFailure (Reject (msg_id m) ReasonBusy) s of (f, s') \<Rightarrow> (send_msg f s', [ORelease]))
      | ORelease \<Rightarrow> (releasePending s, []))"

inductive tstep :: "sys \<Rightarrow> sys \<Rightarrow> bool" where
  control: "\<not> sy_finish y \<Longrightarrow> handleControl data (sy_s y) = (js, s') \<Longrightarrow>
     tstep y (y\<lparr>sy_s := s', sy_jobs := sy_jobs y @ start_jobs js\<rparr>)"
| chunk: "\<not> sy_finish y \<Longrightarrow> slice_ok data \<Longrightarrow> handleChunk werr now data (sy_s y) = (full, s') \<Longrightarrow>
     tstep y (y\<lparr>sy_s := s', sy_finish := full\<rparr>)"
| finish: "sy_finish y \<Longrightarrow> tstep y (y\<lparr>sy_s := finishFile ff (sy_s y), sy_finish := False\<rparr>)"
| offer: "sy_jobs y = xs @ j # ys \<Longrightarrow> offer_step answer ft j (sy_s y) = (s', js) \<Longrightarrow>
     tstep y (y\<lparr>sy_s := s', sy_jobs := xs @ js @ ys\<rparr>)"
| claim_out: "claimSend i (sy_s y) = (ok, s') \<Longrightarrow> tstep y (y\<lparr>sy_s := s'\<rparr>)"
| clear_out: "tstep y (y\<lparr>sy_s := clearSend (sy_s y)\<rparr>)"
| set_out: "tstep y (y\<lparr>sy_s := set_offer i keep names sizes (sy_s y)\<rparr>)"
| send_out: "tstep y (y\<lparr>sy_s := send_msg m (sy_s y)\<rparr>)"
| attach: "tstep y (y\<lparr>sy_s := Attach (sy_s y)\<rparr>)"
| close: "tstep y (y\<lparr>sy_s := CloseSession (sy_s y)\<rparr>)"

definition sys_init :: "Dest \<Rightarrow> disk \<Rightarrow> sys" where
  "sys_init d dk = \<lparr>sy_s = NewSession d dk, sy_finish = False, sy_jobs = []\<rparr>"

definition t_reach :: "Dest \<Rightarrow> disk \<Rightarrow> sys \<Rightarrow> bool" where
  "t_reach d dk y \<longleftrightarrow> tstep\<^sup>*\<^sup>* (sys_init d dk) y"

section \<open>The invariant of the system\<close>

definition msg_ok :: "Msg \<Rightarrow> bool" where
  "msg_ok m \<longleftrightarrow> batch_ok (msg_files m) \<and> TotalSize m = sum_list (map fm_size (msg_files m))"

definition room_left :: "Session \<Rightarrow> Msg \<Rightarrow> bool" where
  "room_left s m \<longleftrightarrow> ss_files s + int (length (msg_files m)) \<le> MaxSessionFiles
     \<and> ss_bytes s + TotalSize m \<le> MaxSessionBytes"

fun job_ok :: "Session \<Rightarrow> offer_job \<Rightarrow> bool" where
  "job_ok s (OStart m) = msg_ok m"
| "job_ok s (OVet m) = (msg_ok m \<and> ss_rx s = None)"
| "job_ok s (OAsk m ns) = (msg_ok m \<and> ss_rx s = None \<and> length ns = length (msg_files m) \<and> room_left s m)"
| "job_ok s (OBegin m ns) = (msg_ok m \<and> ss_rx s = None \<and> length ns = length (msg_files m) \<and> room_left s m)"
| "job_ok s _ = True"

fun claimed :: "offer_job \<Rightarrow> bool" where
  "claimed (OStart m) = False"
| "claimed _ = True"

definition frame_ok :: "bool \<Rightarrow> Session \<Rightarrow> bool" where
  "frame_ok fin s \<longleftrightarrow>
     (case ss_rx s of
        None \<Rightarrow> fin \<longrightarrow> ss_closed s
      | Some r \<Rightarrow> if fin then rx_written r = rx_sizes r ! rx_index r else rx_written r < rx_sizes r ! rx_index r)"

definition sys_inv :: "(string \<Rightarrow> node option) \<Rightarrow> sys \<Rightarrow> bool" where
  "sys_inv D0 y \<longleftrightarrow>
     sess_inv D0 (sy_s y) \<and> frame_ok (sy_finish y) (sy_s y) \<and> list_all (job_ok (sy_s y)) (sy_jobs y)
     \<and> length (filter claimed (sy_jobs y)) = (if ss_pending (sy_s y) then 1 else 0)"

lemma start_jobs_claimed [simp]: "filter claimed (start_jobs js) = []"
  by (auto simp: start_jobs_def filter_concat filter_empty_conv split: channel_job.splits)

text \<open>The state of the inbound side a waiting job depends on.\<close>

lemma job_ok_mono:
  assumes "ss_rx s = None \<Longrightarrow> ss_rx s' = None \<and> ss_files s' = ss_files s \<and> ss_bytes s' = ss_bytes s"
    and "job_ok s j"
  shows "job_ok s' j"
  using assms by (cases j) (auto simp: room_left_def)

lemma jobs_ok_mono:
  assumes "ss_rx s = None \<Longrightarrow> ss_rx s' = None \<and> ss_files s' = ss_files s \<and> ss_bytes s' = ss_bytes s"
    and "list_all (job_ok s) js"
  shows "list_all (job_ok s') js"
  using assms(2) job_ok_mono[OF assms(1)] unfolding list_all_iff by blast

lemma vet_offer_ok:
  assumes "vet_offer m s = Inr names" and "msg_ok m" and "counts_ok s"
  shows "length names = length (msg_files m) \<and> room_left s m"
proof -
  have len: "safe_names fs = Some ns \<Longrightarrow> length ns = length fs" for fs ns
    by (induction fs arbitrary: ns) (auto split: sum.splits)
  from assms(1) have n: "safe_names (msg_files m) = Some names"
    and w: "withinSessionLimits (int (length (msg_files m))) (TotalSize m) s"
    by (auto simp: vet_offer_def split: option.splits if_splits)
  have b: "int (length (msg_files m)) \<le> MaxBatchFiles" "TotalSize m \<le> MaxBatchBytes" "0 \<le> TotalSize m"
    using assms(2) files_total_exact(3)[of "msg_files m"]
    by (auto simp: msg_ok_def batch_ok_def list_ex_iff list_all_iff)
  have "in_i64 (ss_files s + int (length (msg_files m)))" "in_i64 (ss_bytes s + TotalSize m)"
    using b assms(3) by (auto simp: in_i64_def counts_ok_def transfer_limits)
  with w len[OF n] show ?thesis by (simp add: withinSessionLimits_def room_left_def)
qed

lemma begin_plan:
  assumes "job_ok s (OBegin m ns)"
  shows "rx_plan s (new_receiving i ns (map fm_size (msg_files m)) clip)"
  using assms
  by (auto simp: rx_plan_def new_receiving_def msg_ok_def batch_ok_def room_left_def list_all_iff file_bad_def
      length_greater_0_conv)

lemma sys_invI:
  assumes "sess_inv D0 s'" and "sy_s y' = s'" and "sy_finish y' = fin" and "sy_jobs y' = js"
    and "frame_ok fin s'" and "list_all (job_ok s') js"
    and "length (filter claimed js) = (if ss_pending s' then 1 else 0)"
  shows "sys_inv D0 y'"
  using assms by (simp add: sys_inv_def)

text \<open>Steps of the outbound side.\<close>

lemma out_keeps:
  assumes "sys_inv D0 y" and "sess_inv D0 s'" and "ss_rx s' = ss_rx (sy_s y)" and "ss_files s' = ss_files (sy_s y)"
    and "ss_bytes s' = ss_bytes (sy_s y)" and "ss_closed s' = ss_closed (sy_s y)" and "ss_pending s' = ss_pending (sy_s y)"
  shows "sys_inv D0 (y\<lparr>sy_s := s'\<rparr>)"
proof -
  from assms(1) have inv: "frame_ok (sy_finish y) (sy_s y)" "list_all (job_ok (sy_s y)) (sy_jobs y)"
    "length (filter claimed (sy_jobs y)) = (if ss_pending (sy_s y) then 1 else 0)"
    by (auto simp: sys_inv_def)
  show ?thesis
  proof (rule sys_invI[OF assms(2), where fin = "sy_finish y" and js = "sy_jobs y"])
    show "frame_ok (sy_finish y) s'"
      using inv(1) assms(3,6) by (cases "ss_rx (sy_s y)") (simp_all add: frame_ok_def)
    show "list_all (job_ok s') (sy_jobs y)" by (rule jobs_ok_mono[OF _ inv(2)]) (use assms(3-5) in auto)
    show "length (filter claimed (sy_jobs y)) = (if ss_pending s' then 1 else 0)" using inv(3) assms(7) by simp
  qed simp_all
qed

lemma frame_ok_none: "ss_rx s = None \<Longrightarrow> (fin \<Longrightarrow> ss_closed s) \<Longrightarrow> frame_ok fin s"
  by (simp add: frame_ok_def)

lemma abort_keeps:
  "ss_closed (abort i s) = ss_closed s" "ss_pending (abort i s) = ss_pending s"
  "ss_files (abort i s) = ss_files s" "ss_bytes (abort i s) = ss_bytes s"
  "ss_rx (abort i s) = None \<or> abort i s = s"
  by (auto simp: abort_def abortLocked_def split: option.split)

lemma cancelSend_keeps [simp]:
  "ss_closed (cancelSend i s) = ss_closed s" "ss_pending (cancelSend i s) = ss_pending s"
  "ss_files (cancelSend i s) = ss_files s" "ss_bytes (cancelSend i s) = ss_bytes s" "ss_rx (cancelSend i s) = ss_rx s"
  by (auto simp: cancelSend_def split: option.split)

lemma control_cases:
  assumes "handleControl data s = (js, s')"
  shows "s' = s \<or> (\<exists>i. s' = cancelSend i (abort i s))"
    and "list_all (job_ok t) (start_jobs js)"
proof -
  show "s' = s \<or> (\<exists>i. s' = cancelSend i (abort i s))"
    using assms by (auto simp: handleControl_def split: sum.splits if_splits)
  have "list_all (job_ok t) (start_jobs js)"
  proof (cases "ParseMsg data")
    case (Inr m)
    show ?thesis
    proof (cases "msg_t m = TypeOffer \<and> msg_dir m = DirUp")
      case True
      from Inr have "validate m = None" by (auto simp: ParseMsg_Inr)
      from validate_offer[OF this] True have "msg_ok m" by (simp add: msg_ok_def)
      with assms Inr True show ?thesis by (auto simp: handleControl_def start_jobs_def)
    next
      case False
      with assms Inr show ?thesis by (auto simp: handleControl_def start_jobs_def split: if_splits)
    qed
  qed (use assms in \<open>auto simp: handleControl_def start_jobs_def\<close>)
  then show "list_all (job_ok t) (start_jobs js)" .
qed

lemma control_keeps:
  assumes inv: "sys_inv D0 y" and fin: "\<not> sy_finish y" and h: "handleControl data (sy_s y) = (js, s')"
  shows "sys_inv D0 (y\<lparr>sy_s := s', sy_jobs := sy_jobs y @ start_jobs js\<rparr>)"
proof -
  let ?s = "sy_s y"
  have si: "sess_inv D0 ?s" using inv by (simp add: sys_inv_def)
  have s': "sess_inv D0 s'" "ss_pending s' = ss_pending ?s" "ss_rx s' = None \<or> ss_rx s' = ss_rx ?s"
    "ss_files s' = ss_files ?s" "ss_bytes s' = ss_bytes ?s"
    using control_cases(1)[OF h] si abort_keeps[of _ ?s] by (auto simp: fd_inv, metis)
  show ?thesis
  proof (rule sys_invI[OF s'(1), where fin = "sy_finish y" and js = "sy_jobs y @ start_jobs js"])
    show "frame_ok (sy_finish y) s'"
      using inv fin s'(3) by (cases "ss_rx (sy_s y)") (auto simp: sys_inv_def frame_ok_def)
    have "list_all (job_ok s') (sy_jobs y)"
      by (rule jobs_ok_mono[of ?s]) (use inv s' in \<open>auto simp: sys_inv_def\<close>)
    with control_cases(2)[OF h] show "list_all (job_ok s') (sy_jobs y @ start_jobs js)" by simp
    show "length (filter claimed (sy_jobs y @ start_jobs js)) = (if ss_pending s' then 1 else 0)"
      using inv s'(2) by (simp add: sys_inv_def)
  qed simp_all
qed

lemma chunk_keeps:
  assumes inv: "sys_inv D0 y" and fin: "\<not> sy_finish y" and d: "slice_ok data"
    and h: "handleChunk werr now data (sy_s y) = (full, s')"
  shows "sys_inv D0 (y\<lparr>sy_s := s', sy_finish := full\<rparr>)"
proof -
  let ?s = "sy_s y"
  have si: "sess_inv D0 ?s" using inv by (simp add: sys_inv_def)
  note c = handleChunk_inv[OF si d h]
  show ?thesis
  proof (rule sys_invI[OF c(1), where fin = full and js = "sy_jobs y"])
    show "frame_ok full s'" using c(4,5) by (cases "ss_rx s'") (auto simp: frame_ok_def)
    have "s' = ?s" if "ss_rx ?s = None" using h that by (simp add: handleChunk_def)
    note none = this
    show "list_all (job_ok s') (sy_jobs y)"
      by (rule jobs_ok_mono[of ?s]) (use inv none in \<open>auto simp: sys_inv_def\<close>)
    show "length (filter claimed (sy_jobs y)) = (if ss_pending s' then 1 else 0)"
      using inv c(3) by (simp add: sys_inv_def)
  qed simp_all
qed

lemma finish_keeps:
  assumes inv: "sys_inv D0 y" and fin: "sy_finish y"
  shows "sys_inv D0 (y\<lparr>sy_s := finishFile ff (sy_s y), sy_finish := False\<rparr>)"
proof -
  let ?s = "sy_s y"
  have si: "sess_inv D0 ?s" using inv by (simp add: sys_inv_def)
  have w: "ss_rx ?s = Some r \<Longrightarrow> rx_written r = rx_sizes r ! rx_index r" for r
    using inv fin by (auto simp: sys_inv_def frame_ok_def)
  note f = finishFile_inv[OF si w]
  show ?thesis
  proof (rule sys_invI[OF f(1), where fin = False and js = "sy_jobs y"])
    show "frame_ok False (finishFile ff ?s)"
    proof (cases "ss_rx (finishFile ff ?s)")
      case (Some q)
      with f(1) have "rx_plan (finishFile ff ?s) q" by (simp add: sess_inv_def)
      from rx_plan_size[OF this] f(4)[OF _ Some] Some show ?thesis by (simp add: frame_ok_def)
    qed (simp add: frame_ok_def)
    have "finishFile ff ?s = ?s" if "ss_rx ?s = None" using that by (simp add: finishFile_def)
    note none = this
    show "list_all (job_ok (finishFile ff ?s)) (sy_jobs y)"
      by (rule jobs_ok_mono[of ?s]) (use inv none in \<open>auto simp: sys_inv_def\<close>)
    show "length (filter claimed (sy_jobs y)) = (if ss_pending (finishFile ff ?s) then 1 else 0)"
      using inv f(3) by (simp add: sys_inv_def)
  qed simp_all
qed

text \<open>Steps of an offer: the stepping job is the only one that can hold the slot.\<close>

lemma others_unclaimed:
  assumes "length (filter claimed (xs @ j # ys)) = (if p then 1 else 0)" and "claimed j"
  shows "p" and "filter claimed xs = []" and "filter claimed ys = []"
  using assms by (auto split: if_splits)

lemma job_ok_unclaimed: "job_ok s j \<Longrightarrow> \<not> claimed j \<Longrightarrow> job_ok s' j"
  by (cases j) auto

lemma jobs_ok_unclaimed: "list_all (job_ok s) js \<Longrightarrow> filter claimed js = [] \<Longrightarrow> list_all (job_ok s') js"
  by (auto simp: list_all_iff filter_empty_conv intro: job_ok_unclaimed)

lemma pending_inv: "sess_inv D0 (s\<lparr>ss_pending := b\<rparr>) = sess_inv D0 s"
  by (simp add: sess_inv_def disk_ok_def counts_ok_def rx_plan_def rx_open_def)

lemma failed_inv: "sess_inv D0 (s\<lparr>ss_failed := b\<rparr>) = sess_inv D0 s"
  by (simp add: sess_inv_def disk_ok_def counts_ok_def rx_plan_def rx_open_def)

lemma frame_ok_cong: "ss_rx s' = ss_rx s \<Longrightarrow> ss_closed s' = ss_closed s \<Longrightarrow> frame_ok fin s' = frame_ok fin s"
  by (cases "ss_rx s") (simp_all add: frame_ok_def)

text \<open>What a step of an offer does to the session: nothing the inbound invariant looks at, except when
  it begins the batch.\<close>

lemma offer_step_quiet:
  assumes "offer_step answer ft j s = (s', js)" and "\<forall>m ns. j \<noteq> OBegin m ns"
  shows "sess_inv D0 s' = sess_inv D0 s" and "ss_rx s' = ss_rx s" and "ss_files s' = ss_files s"
    and "ss_bytes s' = ss_bytes s" and "ss_closed s' = ss_closed s"
  using assms
  by (auto simp: offer_step_def claimPending_def takeFailure_def releasePending_def send_msg_inv pending_inv failed_inv
      split: offer_job.splits sum.splits prod.splits option.splits if_splits)

lemma offer_step_jobs:
  assumes "offer_step answer ft j s = (s', js)" and "\<forall>m ns. j \<noteq> OBegin m ns" and "job_ok s j" and "counts_ok s"
  shows "list_all (job_ok s') js"
proof (cases j)
  case (OStart m)
  with assms show ?thesis by (auto simp: offer_step_def claimPending_def split: if_splits)
next
  case (OVet m)
  show ?thesis
  proof (cases "vet_offer m s")
    case (Inr names)
    with vet_offer_ok[OF Inr _ assms(4)] OVet assms(1,3) show ?thesis by (auto simp: offer_step_def)
  qed (use OVet assms in \<open>auto simp: offer_step_def\<close>)
qed (use assms in \<open>auto simp: offer_step_def split: if_splits prod.splits\<close>)

lemma offer_step_claims:
  assumes "offer_step answer ft j s = (s', js)"
    and "length (filter claimed (xs @ j # ys)) = (if ss_pending s then 1 else 0)"
    and "\<forall>m ns. j \<noteq> OBegin m ns"
  shows "length (filter claimed (xs @ js @ ys)) = (if ss_pending s' then 1 else 0)"
  using assms
  by (cases j) (auto simp: offer_step_def claimPending_def takeFailure_def releasePending_def
      split: sum.splits prod.splits option.splits if_splits)

lemma begin_keeps:
  assumes inv: "sys_inv D0 y" and y: "sy_jobs y = xs @ OBegin m ns # ys"
    and o: "offer_step answer ft (OBegin m ns) (sy_s y) = (s', js)"
  shows "sys_inv D0 (y\<lparr>sy_s := s', sy_jobs := xs @ js @ ys\<rparr>)"
proof -
  let ?s = "sy_s y"
  obtain ok s1 where b: "beginBatch ft (msg_id m) ns (map fm_size (msg_files m)) (msg_clip m) ?s = (ok, s1)" by fastforce
  have si: "sess_inv D0 ?s" and jb: "job_ok ?s (OBegin m ns)" and fr: "frame_ok (sy_finish y) ?s"
    using inv y by (auto simp: sys_inv_def)
  note bb = beginBatch_inv[OF si b begin_plan[OF jb]]
  have cnt: "length (filter claimed (xs @ OBegin m ns # ys)) = (if ss_pending ?s then 1 else 0)"
    using inv y by (simp add: sys_inv_def)
  have oth: "ss_pending ?s" "filter claimed xs = []" "filter claimed ys = []"
    using others_unclaimed[OF cnt] by simp_all
  have rest: "list_all (job_ok t) xs" "list_all (job_ok t) ys" for t
    using inv y oth by (auto simp: sys_inv_def intro: jobs_ok_unclaimed)
  have s': "sess_inv D0 s'" "ss_rx s' = ss_rx s1" "ss_closed s' = ss_closed s1" "ss_pending s' = ss_pending s1"
    "js = [ORelease] \<or> js = [OTake m]"
    using o b bb(1) by (cases ok; auto simp: offer_step_def send_msg_inv)+
  have fin: "frame_ok (sy_finish y) s'"
  proof (cases ok)
    case True
    with bb(4) obtain r where r: "ss_rx s1 = Some r" "rx_written r = 0" "rx_plan s1 r" by blast
    from True b have "\<not> ss_closed ?s" "ss_rx ?s = None" by (auto simp: beginBatch_def split: if_splits)
    with fr have "\<not> sy_finish y" by (simp add: frame_ok_def)
    with r rx_plan_size[OF r(3)] s'(2) show ?thesis by (simp add: frame_ok_def)
  next
    case False
    with bb(5) s'(2,3) bb(2) fr frame_ok_cong[of s' ?s] show ?thesis by simp
  qed
  show ?thesis
    by (rule sys_invI[OF s'(1), where fin = "sy_finish y" and js = "xs @ js @ ys"])
       (use fin rest oth bb(3) s'(4,5) in auto)
qed

lemma offer_keeps:
  assumes inv: "sys_inv D0 y" and y: "sy_jobs y = xs @ j # ys" and o: "offer_step answer ft j (sy_s y) = (s', js)"
  shows "sys_inv D0 (y\<lparr>sy_s := s', sy_jobs := xs @ js @ ys\<rparr>)"
proof (cases "\<exists>m ns. j = OBegin m ns")
  case True
  with begin_keeps[OF inv] y o show ?thesis by blast
next
  case False
  then have nb: "\<forall>m ns. j \<noteq> OBegin m ns" by simp
  let ?s = "sy_s y"
  note q = offer_step_quiet[OF o nb]
  have si: "sess_inv D0 ?s" using inv by (simp add: sys_inv_def)
  have jo: "list_all (job_ok ?s) (xs @ ys)" "job_ok ?s j" using inv y by (auto simp: sys_inv_def)
  have xy: "list_all (job_ok s') (xs @ ys)" by (rule jobs_ok_mono[OF _ jo(1)]) (use q in auto)
  have new: "list_all (job_ok s') js"
    using offer_step_jobs[OF o nb jo(2)] si by (simp add: sess_inv_def)
  have cl: "length (filter claimed (xs @ js @ ys)) = (if ss_pending s' then 1 else 0)"
    using inv y by (intro offer_step_claims[OF o _ nb]) (simp add: sys_inv_def)
  have fr: "frame_ok (sy_finish y) s'" using inv q(2,5) frame_ok_cong[of s' ?s] by (simp add: sys_inv_def)
  show ?thesis
    by (rule sys_invI[where s' = s' and fin = "sy_finish y" and js = "xs @ js @ ys"])
       (use q(1)[of D0] si fr xy new cl in auto)
qed

lemma Close_keeps:
  assumes inv: "sys_inv D0 y"
  shows "sys_inv D0 (y\<lparr>sy_s := CloseSession (sy_s y)\<rparr>)"
proof -
  let ?s = "sy_s y"
  have si: "sess_inv D0 ?s" using inv by (simp add: sys_inv_def)
  have c: "ss_pending (CloseSession ?s) = ss_pending ?s" "ss_files (CloseSession ?s) = ss_files ?s"
    "ss_bytes (CloseSession ?s) = ss_bytes ?s" "ss_closed (CloseSession ?s)"
    by (auto simp: CloseSession_def abortLocked_def split: option.split)
  have "ss_rx (CloseSession ?s) = None"
    using Close_inv[OF si] c(4) by (simp add: sess_inv_def)
  note none = this
  have j: "list_all (job_ok (CloseSession ?s)) (sy_jobs y)"
    by (rule jobs_ok_mono[of ?s]) (use inv c none in \<open>auto simp: sys_inv_def\<close>)
  show ?thesis
    by (rule sys_invI[OF Close_inv[OF si], where fin = "sy_finish y" and js = "sy_jobs y"])
       (use inv c j \<open>ss_rx (CloseSession ?s) = None\<close> in \<open>auto simp: sys_inv_def frame_ok_def\<close>)
qed

lemma tstep_keeps: "tstep y y' \<Longrightarrow> sys_inv D0 y \<Longrightarrow> sys_inv D0 y'"
proof (induction rule: tstep.induct)
  case (claim_out i y ok s')
  then have "sess_inv D0 s'" by (auto simp: sys_inv_def intro: claimSend_inv)
  with claim_out show ?case by (intro out_keeps) (auto simp: claimSend_def split: if_splits)
next
  case (clear_out y)
  then show ?case by (intro out_keeps) (auto simp: sys_inv_def clearSend_def abortSend_inv)
next
  case (set_out y i keep names sizes)
  have "sess_inv D0 (set_offer i keep names sizes (sy_s y))"
    using set_out by (auto simp: sys_inv_def intro: set_offer_inv)
  with set_out show ?case by (intro out_keeps) (auto simp: set_offer_def split: option.split)
next
  case (send_out y m)
  then show ?case by (intro out_keeps) (auto simp: sys_inv_def send_msg_inv)
next
  case (attach y)
  have "sess_inv D0 (Attach (sy_s y)) = sess_inv D0 (sy_s y)"
    by (simp add: Attach_def sess_inv_def disk_ok_def counts_ok_def rx_plan_def rx_open_def)
  with attach show ?case by (intro out_keeps) (auto simp: sys_inv_def Attach_def)
qed (simp_all add: control_keeps chunk_keeps finish_keeps offer_keeps Close_keeps)

lemma sys_init_inv: "sys_inv (dk_nodes dk) (sys_init d dk)"
  by (simp add: sys_inv_def sys_init_def NewSession_def sess_inv_def disk_ok_def counts_ok_def frame_ok_def
      store_inv_def transfer_limits)

lemma t_reach_inv: "t_reach d dk y \<Longrightarrow> sys_inv (dk_nodes dk) y"
  unfolding t_reach_def
  by (induction rule: rtranclp_induct) (auto intro: sys_init_inv tstep_keeps)

section \<open>Running the system\<close>

datatype event =
    EControl "jval option"
  | EChunk "os_err option" instant string
  | EFinish finish_faults
  | EOffer nat bool faults
  | EClose

fun exec1 :: "event \<Rightarrow> sys \<Rightarrow> sys option" where
  "exec1 (EControl data) y =
     (if sy_finish y then None
      else (case handleControl data (sy_s y) of (js, s') \<Rightarrow>
              Some (y\<lparr>sy_s := s', sy_jobs := sy_jobs y @ start_jobs js\<rparr>)))"
| "exec1 (EChunk werr now data) y =
     (if sy_finish y \<or> \<not> slice_ok data then None
      else (case handleChunk werr now data (sy_s y) of (full, s') \<Rightarrow> Some (y\<lparr>sy_s := s', sy_finish := full\<rparr>)))"
| "exec1 (EFinish ff) y =
     (if sy_finish y then Some (y\<lparr>sy_s := finishFile ff (sy_s y), sy_finish := False\<rparr>) else None)"
| "exec1 (EOffer k answer ft) y =
     (if k < length (sy_jobs y)
      then (case offer_step answer ft (sy_jobs y ! k) (sy_s y) of (s', js) \<Rightarrow>
              Some (y\<lparr>sy_s := s', sy_jobs := take k (sy_jobs y) @ js @ drop (Suc k) (sy_jobs y)\<rparr>))
      else None)"
| "exec1 EClose y = Some (y\<lparr>sy_s := CloseSession (sy_s y)\<rparr>)"

fun exec :: "event list \<Rightarrow> sys \<Rightarrow> sys option" where
  "exec [] y = Some y"
| "exec (e # es) y = (case exec1 e y of None \<Rightarrow> None | Some y' \<Rightarrow> exec es y')"

lemma exec1_step: "exec1 e y = Some y' \<Longrightarrow> tstep y y'"
proof (cases e)
  case (EOffer k answer ft)
  assume h: "exec1 e y = Some y'"
  with EOffer have k: "k < length (sy_jobs y)" by (auto split: if_splits)
  then have "sy_jobs y = take k (sy_jobs y) @ sy_jobs y ! k # drop (Suc k) (sy_jobs y)"
    by (simp add: Cons_nth_drop_Suc)
  moreover obtain s' js where "offer_step answer ft (sy_jobs y ! k) (sy_s y) = (s', js)" by fastforce
  ultimately show ?thesis using h EOffer k by (auto intro: tstep.offer)
qed (auto intro: tstep.intros split: if_splits prod.splits)

lemma exec_reach: "exec es y = Some y' \<Longrightarrow> tstep\<^sup>*\<^sup>* y y'"
  by (induction es arbitrary: y) (auto split: option.splits intro: exec1_step converse_rtranclp_into_rtranclp)

lemma exec_t_reach: "exec es (sys_init d dk) = Some y \<Longrightarrow> t_reach d dk y"
  unfolding t_reach_def by (rule exec_reach)

text \<open>An offer of one file of five bytes is accepted, and the file arrives in two chunks.\<close>

definition ff_none :: finish_faults where
  "ff_none = \<lparr>ff_sync = None, ff_close = None, ff_rename = None, ff_next = no_faults\<rparr>"

definition ex_accept :: "event list" where
  "ex_accept = [EControl (Some ex_offer), EOffer 0 True no_faults, EOffer 0 True no_faults, EOffer 0 True no_faults,
     EOffer 0 True no_faults, EOffer 0 True no_faults]"

definition ex_arrive :: "event list" where
  "ex_arrive = ex_accept @ [EChunk None 0 ''abc'', EChunk None 0 ''de'']"

definition ex_run :: "event list \<Rightarrow> sys" where
  "ex_run es = the (exec es (sys_init ex_dest ex_disk))"

lemma ex_run_reach: "exec es (sys_init ex_dest ex_disk) \<noteq> None \<Longrightarrow> t_reach ex_dest ex_disk (ex_run es)"
  by (auto simp: ex_run_def intro: exec_t_reach)

lemma ex_arrive_reach: "t_reach ex_dest ex_disk (ex_run ex_arrive)"
proof (rule ex_run_reach)
  have "(exec ex_arrive (sys_init ex_dest ex_disk) \<noteq> None) = True" by code_simp
  then show "exec ex_arrive (sys_init ex_dest ex_disk) \<noteq> None" by simp
qed

lemma ex_arrive_state:
  "sy_finish (ex_run ex_arrive)" "map_option rx_path (ss_rx (sy_s (ex_run ex_arrive))) = Some ''/h/FreeDesk/a (2).txt''"
  by code_simp+

section \<open>What holds in every reachable state\<close>

lemma t_reach_sess: "t_reach d dk y \<Longrightarrow> sess_inv (dk_nodes dk) (sy_s y)"
  using t_reach_inv by (simp add: sys_inv_def)



text \<open>C8: the limits of a session hold at every moment: at most 200 files and 4 GiB finished, and
  together with what the batch being received still declares no more than that; the bytes
  written to the current file never exceed its declared size.\<close>

theorem transfer_limits_hold:
  assumes "t_reach d dk y"
  shows "ss_files (sy_s y) \<le> 200 \<and> ss_bytes (sy_s y) \<le> 4 * 2 ^ 30
     \<and> (\<forall>r. ss_rx (sy_s y) = Some r \<longrightarrow>
           0 \<le> rx_written r \<and> rx_written r \<le> rx_sizes r ! rx_index r
           \<and> ss_files (sy_s y) + (int (length (rx_names r)) - int (rx_index r)) \<le> 200
           \<and> ss_bytes (sy_s y) + (\<Sum>x\<leftarrow>drop (rx_index r) (rx_sizes r). x) \<le> 4 * 2 ^ 30)"
  using t_reach_sess[OF assms]
  by (simp add: sess_inv_def counts_ok_def rx_plan_def rx_open_def MaxSessionFiles_def MaxSessionBytes_def)

lemma transfer_limits_hold_witness: "ss_files (sy_s (ex_run ex_arrive)) \<le> 200"
  using transfer_limits_hold[OF ex_arrive_reach] by blast

text \<open>C2: a file gets its final name only when it is complete: whenever the frame goroutine is about
  to finish a file, the \<open>.part\<close> holds exactly as many bytes as were declared, and the final name is
  still free.\<close>

theorem finish_complete_only:
  assumes "t_reach d dk y" and "sy_finish y" and "ss_rx (sy_s y) = Some r"
  shows "\<exists>b. dk_nodes (ss_disk (sy_s y)) (rx_path r @ ''.part'') = Some (File b)
     \<and> int (length b) = rx_sizes r ! rx_index r \<and> dk_nodes (ss_disk (sy_s y)) (rx_path r) = None"
  using t_reach_inv[OF assms(1)] assms(2,3)
  by (auto simp: sys_inv_def sess_inv_def frame_ok_def rx_open_def disk_ok_def store_inv_def partSuffix_def)

lemma finish_complete_only_witness:
  "\<exists>r. ss_rx (sy_s (ex_run ex_arrive)) = Some r \<and> dk_nodes (ss_disk (sy_s (ex_run ex_arrive))) (rx_path r) = None"
proof -
  from ex_arrive_state(2) obtain r where r: "ss_rx (sy_s (ex_run ex_arrive)) = Some r" by auto
  from finish_complete_only[OF ex_arrive_reach ex_arrive_state(1) r] r show ?thesis by blast
qed

text \<open>One question at a time: at most one offer holds the slot, and while an offer is being vetted,
  is in front of the operator or is about to begin, no batch is being received.\<close>

theorem one_offer_at_a_time:
  assumes "t_reach d dk y"
  shows "length (filter claimed (sy_jobs y)) \<le> 1
     \<and> ((\<exists>m ns. OVet m \<in> set (sy_jobs y) \<or> OAsk m ns \<in> set (sy_jobs y) \<or> OBegin m ns \<in> set (sy_jobs y)) \<longrightarrow>
          ss_rx (sy_s y) = None)
     \<and> (ss_pending (sy_s y) \<longleftrightarrow> (\<exists>j \<in> set (sy_jobs y). claimed j))"
proof -
  from t_reach_inv[OF assms] have j: "list_all (job_ok (sy_s y)) (sy_jobs y)"
    and n: "length (filter claimed (sy_jobs y)) = (if ss_pending (sy_s y) then 1 else 0)"
    by (auto simp: sys_inv_def)
  from j have "\<forall>j \<in> set (sy_jobs y). job_ok (sy_s y) j" by (simp add: list_all_iff)
  then have "(\<exists>m ns. OVet m \<in> set (sy_jobs y) \<or> OAsk m ns \<in> set (sy_jobs y) \<or> OBegin m ns \<in> set (sy_jobs y)) \<longrightarrow>
          ss_rx (sy_s y) = None" by fastforce
  moreover have "ss_pending (sy_s y) \<longleftrightarrow> filter claimed (sy_jobs y) \<noteq> []" using n by (auto split: if_splits)
  ultimately show ?thesis using n by (auto simp: filter_empty_conv split: if_splits)
qed

lemma one_offer_at_a_time_witness:
  "length (filter claimed (sy_jobs (ex_run ex_arrive))) \<le> 1"
  using one_offer_at_a_time[OF ex_arrive_reach] by blast


lemma ex_closed_reach: "t_reach ex_dest ex_disk (ex_run (ex_accept @ [EChunk None 0 ''abc'', EClose]))"
proof (rule ex_run_reach)
  have "(exec (ex_accept @ [EChunk None 0 ''abc'', EClose]) (sys_init ex_dest ex_disk) \<noteq> None) = True" by code_simp
  then show "exec (ex_accept @ [EChunk None 0 ''abc'', EClose]) (sys_init ex_dest ex_disk) \<noteq> None" by simp
qed


section \<open>What a viewer cannot end\<close>

text \<open>A viewer's \<open>f-cancel\<close> of an offer that is still in front of the operator changes nothing: the
  state is what it was, so the question stays, and a yes to it begins the batch the viewer
  withdrew.\<close>

theorem cancel_while_asking_is_lost:
  assumes "t_reach d dk y" and "OAsk m ns \<in> set (sy_jobs y)" and "ss_tx (sy_s y) = None"
    and "ParseMsg data = Inr c" and "msg_t c = TypeCancel"
  shows "handleControl data (sy_s y) = ([], sy_s y)"
proof -
  from t_reach_inv[OF assms(1)] assms(2) have "ss_rx (sy_s y) = None"
    by (auto simp: sys_inv_def list_all_iff)
  with assms(3-5) show ?thesis
    by (simp add: handleControl_def cancelSend_def abort_def msg_types)
qed

definition ex_cancel :: jval where
  "ex_cancel = JObj [(''t'', JStr ''f-cancel''), (''id'', JStr ''b1'')]"

definition ex_withdrawn :: "event list" where
  "ex_withdrawn = [EControl (Some ex_offer), EOffer 0 True no_faults, EOffer 0 True no_faults]"

lemma cancel_while_asking_witness:
  "handleControl (Some ex_cancel) (sy_s (ex_run ex_withdrawn)) = ([], sy_s (ex_run ex_withdrawn))"
proof -
  have "(exec ex_withdrawn (sys_init ex_dest ex_disk) \<noteq> None) = True" by code_simp
  then have r: "t_reach ex_dest ex_disk (ex_run ex_withdrawn)" by (intro ex_run_reach) simp
  have j: "OAsk ex_offer_msg [''a.txt''] \<in> set (sy_jobs (ex_run ex_withdrawn))" by code_simp
  have t: "(ss_tx (sy_s (ex_run ex_withdrawn)) = None) = True" by code_simp
  have p: "ParseMsg (Some ex_cancel) = Inr (zero_Msg\<lparr>msg_t := ''f-cancel'', msg_id := ''b1''\<rparr>)" by code_simp
  show ?thesis
    by (rule cancel_while_asking_is_lost[OF r j _ p]) (use t in \<open>simp_all add: msg_types\<close>)
qed

end
