(* ===== verification/TransferSend.thy ===== *)
theory TransferSend
  imports TransferSafety
begin

text \<open>
  \<open>transfer/send.go\<close>: offering files of this machine and streaming them to the viewer. What the
  picker, \<open>os.Stat\<close>, the reads and the channel answer are arguments. The streaming loop runs over
  the list of what each of its passes meets, so a run that does not return is a list that is used
  up.
\<close>

definition highWater :: int where "highWater = 2 ^ 20"
definition lowWater :: int where "lowWater = 2 ^ 18"
definition stallTimeout :: duration where "stallTimeout = 30 * second"
definition MaxDownloadBytes :: int where "MaxDownloadBytes = 256 * 2 ^ 20"

datatype stream_err = errCancelled | errStalled | errGone | errRead | errSend | errChanged

section \<open>Offering\<close>

text \<open>\<open>stat\<close> answers whether a path is a directory and how long the file is, or an error.\<close>

type_synonym stat_fn = "string \<Rightarrow> (bool \<times> int) option"

definition offerable :: "stat_fn \<Rightarrow> string \<Rightarrow> int option" where
  "offerable stat p =
     (case stat p of
        None \<Rightarrow> None
      | Some (dir, n) \<Rightarrow> if dir \<or> n \<le> 0 \<or> MaxDownloadBytes < n then None else Some n)"

fun offered_files :: "stat_fn \<Rightarrow> string list \<Rightarrow> (string \<times> FileMeta) list" where
  "offered_files stat [] = []"
| "offered_files stat (p # ps) =
     (case offerable stat p of
        None \<Rightarrow> offered_files stat ps
      | Some n \<Rightarrow> (p, \<lparr>fm_name = path_base p, fm_size = n\<rparr>) # offered_files stat ps)"

definition offer_msg :: "string \<Rightarrow> FileMeta list \<Rightarrow> Msg" where
  "offer_msg i files = zero_Msg\<lparr>msg_t := TypeOffer, msg_id := i, msg_dir := DirDown, msg_files := files\<rparr>"

definition offerPaths :: "string \<Rightarrow> stat_fn \<Rightarrow> string list \<Rightarrow> Session \<Rightarrow> Session" where
  "offerPaths i stat paths s =
     (let fs = offered_files stat paths in
      if fs = [] then send_msg (Reject i ReasonTooLarge) (clearSend s)
      else send_msg (offer_msg i (map snd fs))
             (set_offer i (map fst fs) (map (fm_name \<circ> snd) fs) (map (fm_size \<circ> snd) fs) s))"

text \<open>\<open>requested\<close>, with the picker's answer (\<open>None\<close> is a cancelled dialog).\<close>

definition requested :: "bool \<Rightarrow> string list option \<Rightarrow> stat_fn \<Rightarrow> string \<Rightarrow> Session \<Rightarrow> Session" where
  "requested available picked stat i s =
     (if \<not> available then send_msg (Reject i ReasonBusy) s
      else (case claimSend i s of
              (False, s') \<Rightarrow> s'
            | (True, s') \<Rightarrow>
                (case picked of
                   None \<Rightarrow> send_msg (Reject i ReasonDenied) (clearSend s')
                 | Some paths \<Rightarrow>
                     if paths = [] then send_msg (Reject i ReasonDenied) (clearSend s')
                     else offerPaths i stat paths s')))"

definition OfferFiles :: "stat_fn \<Rightarrow> string \<Rightarrow> string list \<Rightarrow> Session \<Rightarrow> Session" where
  "OfferFiles stat i paths s =
     (if paths = [] then s
      else (case claimSend i s of (False, s') \<Rightarrow> s' | (True, s') \<Rightarrow> offerPaths i stat paths s'))"

section \<open>Pacing\<close>

text \<open>What a pass of \<open>waitForDrain\<close> meets: the buffered amount, and the event the select takes when
  that is too much.\<close>

datatype drain_event = DLow | DCancel | DDone | DTimeout

fun waitForDrain :: "(int option \<times> drain_event) list \<Rightarrow> stream_err option option" where
  "waitForDrain [] = None"
| "waitForDrain ((amount, ev) # rest) =
     (case amount of
        None \<Rightarrow> Some (Some errGone)
      | Some n \<Rightarrow>
          if n < highWater then Some None
          else (case ev of
                  DLow \<Rightarrow> waitForDrain rest
                | DCancel \<Rightarrow> Some (Some errCancelled)
                | DDone \<Rightarrow> Some (Some errCancelled)
                | DTimeout \<Rightarrow> Some (Some errStalled)))"

section \<open>Streaming\<close>

datatype read_end = ReadOK | ReadEOF | ReadErr

text \<open>One pass of \<open>streamFile\<close>: the result of \<open>waitForDrain\<close>, what \<open>Read\<close> returned, whether the
  channel is still there, whether \<open>Send\<close> failed.\<close>

record pass =
  ps_drain :: "stream_err option"
  ps_data :: string
  ps_end :: read_end
  ps_gone :: bool
  ps_send_fails :: bool

text \<open>The result: the chunks sent, and how the loop returned (\<open>None\<close>: it has not).\<close>

fun stream_loop :: "int \<Rightarrow> int \<Rightarrow> pass list \<Rightarrow> string list \<times> stream_err option option" where
  "stream_loop want sent [] =
     (if sent < want then ([], None)
      else ([], Some (if sent \<noteq> want then Some errChanged else None)))"
| "stream_loop want sent (p # rest) =
     (if \<not> sent < want then ([], Some (if sent \<noteq> want then Some errChanged else None))
      else if ps_drain p \<noteq> None then ([], Some (ps_drain p))
      else if ps_data p \<noteq> [] \<and> ps_gone p then ([], Some (Some errGone))
      else if ps_data p \<noteq> [] \<and> ps_send_fails p then ([], Some (Some errSend))
      else
        let chunk = (if ps_data p \<noteq> [] then [ps_data p] else []);
            sent' = i64 (sent + int (length (ps_data p)))
        in (case ps_end p of
              ReadEOF \<Rightarrow> (chunk, Some (if sent' \<noteq> want then Some errChanged else None))
            | ReadErr \<Rightarrow> (chunk, Some (Some errRead))
            | ReadOK \<Rightarrow> (case stream_loop want sent' rest of (cs, r) \<Rightarrow> (chunk @ cs, r))))"

definition streamFile :: "bool \<Rightarrow> int \<Rightarrow> pass list \<Rightarrow> string list \<times> stream_err option option" where
  "streamFile open_fails want passes = (if open_fails then ([], Some (Some errRead)) else stream_loop want 0 passes)"

text \<open>\<open>accepted\<close>: the part under the lock, and the frame sent at the end.\<close>

definition accepted_lookup :: "string \<Rightarrow> int \<Rightarrow> Session \<Rightarrow> (string \<times> int \<times> nat) option" where
  "accepted_lookup i index s =
     (case ss_tx s of
        None \<Rightarrow> None
      | Some tx \<Rightarrow>
          if tx_id tx \<noteq> i \<or> index < 0 \<or> int (length (tx_paths tx)) \<le> index then None
          else Some (tx_paths tx ! nat index, tx_sizes tx ! nat index, tx_cancel tx))"

definition accepted_end :: "string \<Rightarrow> int \<Rightarrow> int \<Rightarrow> stream_err option \<Rightarrow> Session \<Rightarrow> Session" where
  "accepted_end i index want result s =
     (case result of
        Some e \<Rightarrow> if e = errCancelled then s else send_msg (Fail i ReasonIO) s
      | None \<Rightarrow> send_msg (zero_Msg\<lparr>msg_t := TypeComplete, msg_id := i, msg_index := index, msg_size := want\<rparr>) s)"

definition accepted :: "bool \<Rightarrow> pass list \<Rightarrow> string \<Rightarrow> int \<Rightarrow> Session \<Rightarrow> Session" where
  "accepted open_fails passes i index s =
     (case accepted_lookup i index s of
        None \<Rightarrow> s
      | Some (path, want, _) \<Rightarrow>
          (case snd (streamFile open_fails want passes) of
             None \<Rightarrow> s
           | Some r \<Rightarrow> accepted_end i index want r s))"

section \<open>What the viewer is told\<close>

lemma path_base_no_sep: "sep \<in> set (path_base p) \<Longrightarrow> path_base p = [sep]"
proof -
  have "c \<in> set (takeWhile P xs) \<Longrightarrow> P c" for P and c :: char and xs by (induction xs) (auto split: if_splits)
  then show "sep \<in> set (path_base p) \<Longrightarrow> path_base p = [sep]"
    by (auto simp: path_base_def Let_def sep_def split: if_splits)
qed

lemma offered_files_ok:
  "(p, f) \<in> set (offered_files stat ps) \<Longrightarrow>
     p \<in> set ps \<and> fm_name f = path_base p \<and> stat p = Some (False, fm_size f) \<and> 1 \<le> fm_size f \<and> fm_size f \<le> MaxDownloadBytes"
  by (induction ps) (auto simp: offerable_def split: option.splits if_splits)

text \<open>An offer to the viewer carries no path: every name in the frame is the last element of a
  path the operator chose, of a readable file within the limit, with its want.\<close>

theorem offerPaths_no_path:
  assumes "f \<in> set (msg_files (offer_msg i (map snd (offered_files stat paths))))"
  shows "(sep \<in> set (fm_name f) \<longrightarrow> fm_name f = [sep])
     \<and> (\<exists>p \<in> set paths. fm_name f = path_base p \<and> stat p = Some (False, fm_size f))
     \<and> 1 \<le> fm_size f \<and> fm_size f \<le> 256 * 2 ^ 20"
proof -
  from assms obtain p where "(p, f) \<in> set (offered_files stat paths)" by (auto simp: offer_msg_def)
  from offered_files_ok[OF this] path_base_no_sep show ?thesis by (auto simp: MaxDownloadBytes_def)
qed

lemma offerPaths_no_path_witness:
  "\<exists>p \<in> set [''/home/ann/b.txt'']. ''b.txt'' = path_base p"
proof -
  let ?st = "\<lambda>p. Some (False, 7 :: int)"
  have "offered_files ?st [''/home/ann/b.txt''] = [(''/home/ann/b.txt'', \<lparr>fm_name = ''b.txt'', fm_size = 7\<rparr>)]"
    by code_simp
  then have "\<lparr>fm_name = ''b.txt'', fm_size = 7\<rparr> \<in> set (msg_files (offer_msg ''x'' (map snd (offered_files ?st [''/home/ann/b.txt'']))))"
    by (simp add: offer_msg_def)
  from offerPaths_no_path[OF this] show ?thesis by auto
qed

section \<open>Streaming\<close>

lemma stream_loop_spec:
  assumes "stream_loop want sent ps = (cs, r)" and "0 \<le> sent" and "want \<le> MaxDownloadBytes"
    and "\<forall>p \<in> set ps. int (length (ps_data p)) \<le> ChunkBytes" and "sent < want + ChunkBytes"
  shows "r = Some None \<Longrightarrow> sent + int (length (concat cs)) = want"
    and "sent + int (length (concat cs)) < want + ChunkBytes"
    and "\<forall>c \<in> set cs. c \<noteq> [] \<and> int (length c) \<le> ChunkBytes"
    and "\<exists>k. concat cs = concat (map ps_data (take k ps))"
proof -
  have "(r = Some None \<longrightarrow> sent + int (length (concat cs)) = want)
    \<and> sent + int (length (concat cs)) < want + ChunkBytes
    \<and> (\<forall>c \<in> set cs. c \<noteq> [] \<and> int (length c) \<le> ChunkBytes)
    \<and> (\<exists>k. concat cs = concat (map ps_data (take k ps)))"
    using assms
  proof (induction want sent ps arbitrary: cs r rule: stream_loop.induct)
    case (1 want sent)
    then show ?case by (auto split: if_splits)
  next
    case (2 want sent p rest)
    show ?case
    proof (cases "sent < want \<and> ps_drain p = None \<and> \<not> (ps_data p \<noteq> [] \<and> (ps_gone p \<or> ps_send_fails p))")
      case False
      have "\<exists>k. concat [] = concat (map ps_data (take k (p # rest)))" by (intro exI[of _ 0]) simp
      with False "2.prems" show ?thesis by (auto split: if_splits)
    next
      case True
      define chunk where "chunk = (if ps_data p \<noteq> [] then [ps_data p] else [])"
      have cc: "concat chunk = ps_data p" by (simp add: chunk_def)
      have one: "\<forall>c \<in> set chunk. c \<noteq> [] \<and> int (length c) \<le> ChunkBytes"
        using "2.prems"(4) by (simp add: chunk_def)
      define sent' where "sent' = sent + int (length (ps_data p))"
      have len: "int (length (ps_data p)) \<le> ChunkBytes" using "2.prems"(4) by simp
      have "in_i64 sent'"
        using True len "2.prems"(2,3) by (simp add: sent'_def in_i64_def MaxDownloadBytes_def ChunkBytes_def)
      then have i: "i64 (sent + int (length (ps_data p))) = sent'" by (simp add: sent'_def)
      have pre: "0 \<le> sent'" "sent' < want + ChunkBytes" using True len "2.prems"(2) by (auto simp: sent'_def)
      have k1: "\<exists>k. concat chunk = concat (map ps_data (take k (p # rest)))"
        by (intro exI[of _ 1]) (simp add: cc)
      show ?thesis
      proof (cases "ps_end p")
        case ReadOK
        obtain cs' where l: "stream_loop want sent' rest = (cs', r)" and cs: "cs = chunk @ cs'"
          using True ReadOK "2.prems"(1) i by (auto simp: chunk_def Let_def split: prod.splits if_splits)
        have "(r = Some None \<longrightarrow> sent' + int (length (concat cs')) = want)
            \<and> sent' + int (length (concat cs')) < want + ChunkBytes
            \<and> (\<forall>c \<in> set cs'. c \<noteq> [] \<and> int (length c) \<le> ChunkBytes)
            \<and> (\<exists>k. concat cs' = concat (map ps_data (take k rest)))"
          using True ReadOK "2.prems"(3,4) pre l i
          by (intro "2.IH"[of chunk sent']) (auto simp: chunk_def)
        moreover then obtain k where "concat cs' = concat (map ps_data (take k rest))" by blast
        then have "\<exists>k. concat cs = concat (map ps_data (take k (p # rest)))"
          by (intro exI[of _ "Suc k"]) (simp add: cs cc)
        ultimately show ?thesis using one cs cc by (auto simp: sent'_def)
      next
        case ReadEOF
        with True "2.prems"(1) i have "cs = chunk" "r = Some (if sent' \<noteq> want then Some errChanged else None)"
          by (auto simp: chunk_def Let_def)
        with one cc k1 pre show ?thesis by (auto simp: sent'_def split: if_splits)
      next
        case ReadErr
        with True "2.prems"(1) i have "cs = chunk" "r = Some (Some errRead)"
          by (auto simp: chunk_def Let_def)
        with one cc k1 pre show ?thesis by (auto simp: sent'_def)
      qed
    qed
  qed
  then show "r = Some None \<Longrightarrow> sent + int (length (concat cs)) = want"
    "sent + int (length (concat cs)) < want + ChunkBytes"
    "\<forall>c \<in> set cs. c \<noteq> [] \<and> int (length c) \<le> ChunkBytes"
    "\<exists>k. concat cs = concat (map ps_data (take k ps))" by auto
qed

lemma stream_loop_returns:
  assumes "\<forall>p \<in> set ps. ps_data p \<noteq> [] \<or> ps_end p \<noteq> ReadOK \<or> ps_drain p \<noteq> None"
    and "\<forall>p \<in> set ps. int (length (ps_data p)) \<le> ChunkBytes" and "want \<le> MaxDownloadBytes" and "0 \<le> sent"
    and "sent < want + ChunkBytes" and "want - sent \<le> int (length ps)"
  shows "snd (stream_loop want sent ps) \<noteq> None"
  using assms
proof (induction want sent ps rule: stream_loop.induct)
  case (2 want sent p rest)
  show ?case
  proof (cases "sent < want \<and> ps_drain p = None \<and> \<not> (ps_data p \<noteq> [] \<and> (ps_gone p \<or> ps_send_fails p)) \<and> ps_end p = ReadOK")
    case False
    then show ?thesis by (cases "ps_end p") (auto simp: Let_def)
  next
    case True
    let ?sent = "sent + int (length (ps_data p))"
    have len: "int (length (ps_data p)) \<le> ChunkBytes" "ps_data p \<noteq> []" using "2.prems"(1,2) True by auto
    then have "1 \<le> length (ps_data p)" by (cases "ps_data p") auto
    with "2.prems"(6) have room: "want - ?sent \<le> int (length rest)" by simp
    have pre: "0 \<le> ?sent" "?sent < want + ChunkBytes" using True len "2.prems"(4) by auto
    have "in_i64 ?sent"
      using pre "2.prems"(3) by (simp add: in_i64_def MaxDownloadBytes_def ChunkBytes_def)
    then have i: "i64 ?sent = ?sent" by simp
    have "snd (stream_loop want ?sent rest) \<noteq> None"
    proof (rule "2.IH"[where x = "if ps_data p \<noteq> [] then [ps_data p] else []", OF _ _ _ _ _ _ True[THEN conjunct2, THEN conjunct2, THEN conjunct2], unfolded i])
    qed (use True "2.prems"(1-3) pre room i in auto)
    with True i show ?thesis by (auto simp: Let_def split: prod.splits)
  qed
qed simp

text \<open>C16: when \<open>streamFile\<close> succeeds, exactly the offered number of bytes went out, in order, as the
  file was read; whatever happens, no frame is longer than 32 KiB and less than one frame more
  than the offered size is ever sent.\<close>

theorem streamFile_exact:
  assumes "streamFile open_fails want ps = (cs, r)" and "0 < want" and "want \<le> MaxDownloadBytes"
    and "\<forall>p \<in> set ps. int (length (ps_data p)) \<le> ChunkBytes"
  shows "(r = Some None \<longrightarrow> int (length (concat cs)) = want)
     \<and> int (length (concat cs)) < want + 32768 \<and> (\<forall>c \<in> set cs. c \<noteq> [] \<and> length c \<le> 32768)
     \<and> (\<exists>k. concat cs = concat (map ps_data (take k ps)))"
proof (cases open_fails)
  case True
  with assms(1,2) show ?thesis by (auto simp: streamFile_def intro!: exI[of _ 0])
next
  case False
  with assms(1) have l: "stream_loop want 0 ps = (cs, r)" by (simp add: streamFile_def)
  have c: "0 < want + ChunkBytes" using assms(2) by (simp add: ChunkBytes_def)
  note s = stream_loop_spec[OF l order_refl assms(3,4) c]
  have "ChunkBytes = 32768" by (simp add: ChunkBytes_def)
  with s(1-3) have "(r = Some None \<longrightarrow> int (length (concat cs)) = want)
     \<and> int (length (concat cs)) < want + 32768 \<and> (\<forall>c \<in> set cs. c \<noteq> [] \<and> length c \<le> 32768)" by auto
  with s(4) show ?thesis by blast
qed

definition ex_pass :: "string \<Rightarrow> read_end \<Rightarrow> pass" where
  "ex_pass d e = \<lparr>ps_drain = None, ps_data = d, ps_end = e, ps_gone = False, ps_send_fails = False\<rparr>"

lemma streamFile_exact_witness: "int (length (concat [''abc'', ''de''])) = 5"
proof -
  have s: "streamFile False 5 [ex_pass ''abc'' ReadOK, ex_pass ''de'' ReadOK] = ([''abc'', ''de''], Some None)"
    by code_simp
  have b: "\<forall>p \<in> set [ex_pass ''abc'' ReadOK, ex_pass ''de'' ReadOK]. int (length (ps_data p)) \<le> ChunkBytes"
    by (simp add: ex_pass_def ChunkBytes_def)
  from streamFile_exact[OF s _ _ b] show ?thesis by (simp add: MaxDownloadBytes_def)
qed



section \<open>The outbound slot is never freed by finishing\<close>

lemma accepted_tx [simp]: "ss_tx (accepted f ps i ix s) = ss_tx s"
  by (simp add: accepted_def accepted_end_def split: option.split prod.split)

lemma handleControl_tx:
  assumes "ParseMsg data = Inr m" and "msg_t m \<noteq> TypeCancel" and "msg_t m \<noteq> TypeError"
  shows "ss_tx (snd (handleControl data s)) = ss_tx s"
  using assms by (simp add: handleControl_def)

text \<open>Once an offer to the viewer is out, nothing that belongs to its normal end frees the slot:
  neither sending a file nor the viewer's \<open>f-done\<close> (nor any frame but \<open>f-cancel\<close> and \<open>f-error\<close>)
  changes it, and while it is taken every further request of the viewer is refused as busy.\<close>

theorem outbound_slot_kept:
  assumes "ss_tx s = Some tx" and "ParseMsg data = Inr m" and "msg_t m \<noteq> TypeCancel" and "msg_t m \<noteq> TypeError"
  shows "ss_tx (snd (handleControl data (accepted open_fails passes i index s))) = Some tx
     \<and> requested True picked stat j (snd (handleControl data (accepted open_fails passes i index s)))
        = send_msg (Reject j ReasonBusy) (snd (handleControl data (accepted open_fails passes i index s)))"
proof -
  let ?s = "snd (handleControl data (accepted open_fails passes i index s))"
  have t: "ss_tx ?s = Some tx" using handleControl_tx[OF assms(2-4)] assms(1) by simp
  then show ?thesis by (simp add: requested_def claimSend_def)
qed

definition ex_done :: jval where
  "ex_done = JObj [(''t'', JStr ''f-done''), (''id'', JStr ''r1''), (''index'', JInt 0)]"

lemma outbound_slot_kept_witness:
  "\<exists>s. ss_tx s \<noteq> None \<and> requested True (Some [''/b'']) (\<lambda>_. Some (False, 1)) ''r2'' s = send_msg (Reject ''r2'' ReasonBusy) s"
proof -
  define s0 where "s0 = requested True (Some [''/a'']) (\<lambda>_. Some (False, 1)) ''r1'' (NewSession ex_dest ex_disk)"
  have "(ss_tx s0 = None) = False" unfolding s0_def by code_simp
  then obtain tx where tx: "ss_tx s0 = Some tx" by auto
  have p: "ParseMsg (Some ex_done) = Inr (zero_Msg\<lparr>msg_t := ''f-done'', msg_id := ''r1''\<rparr>)" by code_simp
  show ?thesis
    using outbound_slot_kept[OF tx p, of False "[ex_pass ''x'' ReadOK]" "''r1''" 0 "Some [''/b'']" "\<lambda>_. Some (False, 1)" "''r2''"]
    by (intro exI) (auto simp: msg_types)
qed

end
