(* ===== verification/Consent.thy ===== *)
theory Consent
  imports FileName Paths TransferMsg
begin

text \<open>
  Package \<open>consent\<close>: how a question to the operator ends, what it says, and who may be asked when.
  Covers \<open>approver.go\<close>, \<open>prompt.go\<close>, \<open>console.go\<close>, \<open>picker.go\<close>, \<open>ui.go\<close> and the decisions of the
  Windows and macOS dialogs. Texts are built byte by byte as the code builds them.
\<close>

section \<open>Answers\<close>

datatype Answer = Refused | Allowed | Unanswered

definition answer_OK :: "Answer \<Rightarrow> bool" where
  "answer_OK a \<longleftrightarrow> a = Allowed"

definition answer_String :: "Answer \<Rightarrow> string" where
  "answer_String a =
     (case a of Allowed \<Rightarrow> ''allowed'' | Unanswered \<Rightarrow> ''unanswered'' | Refused \<Rightarrow> ''refused'')"

text \<open>The select of \<open>Dialog.ask\<close>: the value the message box returned, or a cancelled context.\<close>

definition idYes :: int where "idYes = 6"
definition mbTimedOut :: int where "mbTimedOut = 32000"

datatype dialog_event = BoxReturned int | DialogCancelled

definition dialog_ask :: "dialog_event \<Rightarrow> Answer" where
  "dialog_ask ev =
     (case ev of
        BoxReturned ret \<Rightarrow> if ret = idYes then Allowed else if ret = mbTimedOut then Unanswered else Refused
      | DialogCancelled \<Rightarrow> Refused)"

text \<open>The same of the macOS alert.\<close>

datatype mac_answer = AnswerNo | AnswerYes | AnswerTimedOut | AnswerWithdrawn

definition mac_dialog_ask :: "mac_answer \<Rightarrow> Answer" where
  "mac_dialog_ask a = (case a of AnswerYes \<Rightarrow> Allowed | AnswerTimedOut \<Rightarrow> Unanswered | _ \<Rightarrow> Refused)"

text \<open>\<open>Console.ask\<close>: what the reader holds when the prompt comes up is dropped; then the first event
  decides. Lines arrive trimmed, as \<open>readLoop\<close> sends them.\<close>

datatype console_event = Line string | TimerFired | ConsoleCancelled

definition readLoop_line :: "string \<Rightarrow> string" where
  "readLoop_line text = trim_space text"

definition console_ask :: "string list \<Rightarrow> console_event \<Rightarrow> string list \<times> Answer" where
  "console_ask waiting ev =
     ([], case ev of
            Line l \<Rightarrow> if to_lower (readLoop_line l) = ''y'' \<or> to_lower (readLoop_line l) = ''yes'' then Allowed else Refused
          | TimerFired \<Rightarrow> Unanswered
          | ConsoleCancelled \<Rightarrow> Refused)"

section \<open>One question at a time\<close>

text \<open>\<open>exclusive\<close> as its four atomic steps on the mutex and the counter \<open>attention\<close>, by any number of
  callers; a caller is named by a number.\<close>

record ui_state =
  ui_holder :: "nat option"
  ui_attention :: int
  ui_inside :: "nat set"

definition ui_init :: ui_state where
  "ui_init = \<lparr>ui_holder = None, ui_attention = 0, ui_inside = {}\<rparr>"

definition Busy :: "ui_state \<Rightarrow> bool" where
  "Busy u \<longleftrightarrow> 0 < ui_attention u"

inductive ui_step :: "ui_state \<Rightarrow> ui_state \<Rightarrow> bool" where
  lock: "ui_holder u = None \<Longrightarrow> ui_step u (u\<lparr>ui_holder := Some k\<rparr>)"
| enter: "ui_holder u = Some k \<Longrightarrow> k \<notin> ui_inside u \<Longrightarrow>
     ui_step u (u\<lparr>ui_attention := ui_attention u + 1, ui_inside := insert k (ui_inside u)\<rparr>)"
| leave: "ui_holder u = Some k \<Longrightarrow> k \<in> ui_inside u \<Longrightarrow>
     ui_step u (u\<lparr>ui_attention := ui_attention u - 1, ui_inside := ui_inside u - {k}, ui_holder := None\<rparr>)"

text \<open>The deferred \<open>attention.Add(-1)\<close> runs before the deferred \<open>Unlock\<close>, which \<open>leave\<close> joins: in
  between only \<open>Busy\<close> can look, and sees what it would see after.\<close>

definition pickerCooldown :: duration where "pickerCooldown = 5 * second"

text \<open>\<open>pickerGate.claim\<close>: the answer and the new \<open>lastShow\<close>.\<close>

definition picker_claim :: "instant \<Rightarrow> instant option \<Rightarrow> bool \<times> instant option" where
  "picker_claim now last_show =
     (case last_show of
        None \<Rightarrow> (True, Some now)
      | Some t \<Rightarrow> if now - t < pickerCooldown then (False, last_show) else (True, Some now))"

text \<open>\<open>nativePicker.Pick\<close>: the gate, then the dialog unless the context ended meanwhile.\<close>

definition native_pick :: "instant \<Rightarrow> instant option \<Rightarrow> bool \<Rightarrow> string list option \<Rightarrow> string list option \<times> instant option" where
  "native_pick now last_show ctx_done shown =
     (case picker_claim now last_show of
        (False, l) \<Rightarrow> (None, l)
      | (True, l) \<Rightarrow> (if ctx_done then None else shown, l))"

datatype picker = UnavailablePicker | NativePicker

definition NewFilePicker :: "string \<Rightarrow> picker \<Rightarrow> picker" where
  "NewFilePicker mode platform = (if mode = ''console'' then UnavailablePicker else platform)"

definition picker_Available :: "picker \<Rightarrow> bool" where
  "picker_Available p \<longleftrightarrow> p = NativePicker"

text \<open>\<open>parseSelection\<close>: NUL-terminated entries closed by an empty one; several mean a directory
  followed by names. Characters stand for the UTF-16 units.\<close>

fun selection_parts :: "string \<Rightarrow> string \<Rightarrow> string list" where
  "selection_parts cur [] = []"
| "selection_parts cur (c # cs) =
     (if c \<noteq> CHR 0x00 then selection_parts (cur @ [c]) cs
      else if cur = [] then []
      else cur # selection_parts [] cs)"

definition parseSelection :: "string \<Rightarrow> string list" where
  "parseSelection buf =
     (case selection_parts [] buf of
        [] \<Rightarrow> []
      | [one] \<Rightarrow> [one]
      | dir # names \<Rightarrow> map (path_join dir) names)"

section \<open>Prompts\<close>

datatype Kind = KindConnect | KindFiles

definition maxListedFiles :: nat where "maxListedFiles = 5"

record FileOffer =
  fo_name :: string
  fo_size :: int

record Prompt =
  pr_kind :: Kind
  pr_viewer :: string
  pr_files :: "FileOffer list"
  pr_folder :: string
  pr_clipboard :: bool

definition ConnectRequest :: "string \<Rightarrow> bool \<Rightarrow> Prompt" where
  "ConnectRequest viewer clip =
     \<lparr>pr_kind = KindConnect, pr_viewer = viewer, pr_files = [], pr_folder = [], pr_clipboard = clip\<rparr>"

definition IncomingFiles :: "string \<Rightarrow> FileOffer list \<Rightarrow> string \<Rightarrow> Prompt" where
  "IncomingFiles viewer files folder =
     \<lparr>pr_kind = KindFiles, pr_viewer = viewer, pr_files = files, pr_folder = folder, pr_clipboard = False\<rparr>"

definition prompt_TotalSize :: "Prompt \<Rightarrow> int" where
  "prompt_TotalSize p = sum_i64 (map fo_size (pr_files p))"

definition newline :: string where "newline = [CHR 0x0A]"
definition ellipsis :: string where "ellipsis = [CHR 0xE2, CHR 0x80, CHR 0xA6]"

definition dec_int :: "int \<Rightarrow> string" where
  "dec_int n = (if n < 0 then ''-'' @ dec_nat (nat (- n)) else dec_nat (nat n))"

definition Title :: "Prompt \<Rightarrow> nat \<Rightarrow> string" where
  "Title p seq =
     ''FreeDesk - '' @ (if pr_kind p = KindFiles then ''Incoming files'' else ''Connection request'')
     @ '' (#'' @ dec_nat seq @ '')''"

text \<open>\<open>%.1f\<close> of a byte count divided by a power of two: the quotient is exact, and is rounded to one
  decimal, ties to even.\<close>

definition round_even :: "int \<Rightarrow> int \<Rightarrow> int" where
  "round_even a b =
     (let q = a div b; r = a mod b
      in if 2 * r < b then q else if b < 2 * r then q + 1 else if even q then q else q + 1)"

definition one_decimal :: "int \<Rightarrow> int \<Rightarrow> string" where
  "one_decimal n unit = (let t = round_even (10 * n) unit in dec_int (t div 10) @ ''.'' @ dec_int (t mod 10))"

definition humanSize :: "int \<Rightarrow> string" where
  "humanSize n =
     (if 2 ^ 30 \<le> n then one_decimal n (2 ^ 30) @ '' GB''
      else if 2 ^ 20 \<le> n then one_decimal n (2 ^ 20) @ '' MB''
      else if 2 ^ 10 \<le> n then dec_int (go_div n (2 ^ 10)) @ '' KB''
      else dec_int n @ '' bytes'')"

definition file_line :: "string \<Rightarrow> FileOffer \<Rightarrow> string" where
  "file_line indent f = indent @ fo_name f @ ''  ('' @ humanSize (fo_size f) @ '')'' @ newline"

text \<open>\<open>fileList\<close>: the loop over the files from position \<open>i\<close> on, \<open>n\<close> being how many there are.\<close>

fun fileList_from :: "string \<Rightarrow> nat \<Rightarrow> nat \<Rightarrow> FileOffer list \<Rightarrow> string" where
  "fileList_from indent n i [] = []"
| "fileList_from indent n i (f # fs) =
     (if i = maxListedFiles \<and> maxListedFiles + 1 < n
      then indent @ ellipsis @ '' and '' @ dec_nat (n - maxListedFiles) @ '' more files'' @ newline
      else file_line indent f @ fileList_from indent n (i + 1) fs)"

definition fileList :: "string \<Rightarrow> Prompt \<Rightarrow> string" where
  "fileList indent p = fileList_from indent (length (pr_files p)) 0 (pr_files p)"

definition describeBatch :: "FileOffer list \<Rightarrow> string" where
  "describeBatch files =
     (let tot = sum_i64 (map fo_size files)
      in if length files = 1 then ''1 file ('' @ humanSize tot @ '')''
         else dec_nat (length files) @ '' files ('' @ humanSize tot @ '')'')"

definition shortID :: "string \<Rightarrow> string" where
  "shortID uid = (if 8 < length uid then take 8 uid @ ellipsis else uid)"

text \<open>\<open>%.0f\<close> of a duration in seconds.\<close>

definition whole_seconds :: "duration \<Rightarrow> string" where
  "whole_seconds t = dec_int (round_even t second)"

definition prompt_Text :: "Prompt \<Rightarrow> duration \<Rightarrow> string" where
  "prompt_Text p timeout =
     (if pr_kind p = KindConnect
      then ''Someone entered this computer's code and wants to connect.'' @ newline @ newline
        @ (if pr_clipboard p
           then ''Allow them to see your screen, control this computer,'' @ newline
                @ ''exchange files with it, and share copied text?'' @ newline @ newline
           else ''Allow them to see your screen, control this computer,'' @ newline
                @ ''and exchange files with it?'' @ newline @ newline)
      else ''The person connected to this computer wants to send '' @ describeBatch (pr_files p) @ ''.'' @ newline @ newline
        @ fileList ''    '' p
        @ newline @ ''They will be saved to:'' @ newline @ pr_folder p @ newline @ newline
        @ ''Existing files are never replaced. Accept these files?'' @ newline @ newline)
     @ ''This request is rejected automatically in '' @ whole_seconds timeout @ '' seconds.'' @ newline
     @ ''(viewer '' @ shortID (pr_viewer p) @ '')''"

definition ConsoleHeader :: "Prompt \<Rightarrow> string" where
  "ConsoleHeader p =
     (if pr_kind p = KindConnect
      then newline @ ''>>> INCOMING CONNECTION REQUEST (viewer='' @ pr_viewer p @ '')'' @ newline
      else newline @ ''>>> INCOMING FILES (viewer='' @ pr_viewer p @ ''): '' @ describeBatch (pr_files p) @ newline
        @ fileList ''>>>   '' p @ ''>>> Saved to '' @ pr_folder p @ newline)"

definition ConsoleLine :: "Prompt \<Rightarrow> duration \<Rightarrow> string" where
  "ConsoleLine p timeout =
     ConsoleHeader p @ ''>>> Type 'y' and press Enter to accept (rejected if there is no answer within ''
     @ whole_seconds timeout @ '' s): ''"

section \<open>What the operator reads\<close>

lemma fileList_from_all:
  "\<not> (maxListedFiles + 1 < n) \<or> i > maxListedFiles \<Longrightarrow>
   fileList_from indent n i fs = concat (map (file_line indent) fs)"
  by (induction fs arbitrary: i) auto

lemma fileList_from_cut:
  "maxListedFiles + 1 < n \<Longrightarrow> i \<le> maxListedFiles \<Longrightarrow> maxListedFiles < i + length fs \<Longrightarrow>
   fileList_from indent n i fs = concat (map (file_line indent) (take (maxListedFiles - i) fs))
     @ indent @ ellipsis @ '' and '' @ dec_nat (n - maxListedFiles) @ '' more files'' @ newline"
proof (induction fs arbitrary: i)
  case (Cons f fs)
  show ?case
  proof (cases "i = maxListedFiles")
    case False
    with Cons.prems have "i + 1 \<le> maxListedFiles" "maxListedFiles < i + 1 + length fs" by auto
    moreover have "maxListedFiles - i = Suc (maxListedFiles - (i + 1))" using False Cons.prems(2) by simp
    ultimately show ?thesis using Cons.IH[OF Cons.prems(1), of "i + 1"] False by simp
  qed (use Cons.prems in simp)
qed simp

text \<open>The list of a file prompt spells out every name in full, one line each in the order of the
  offer; only from the seventh file on are the names after the fifth replaced by their number, so
  the line that summarises always stands for at least two files.\<close>

theorem fileList_shows_names:
  "fileList indent p =
     (if length (pr_files p) \<le> 6
      then concat (map (\<lambda>f. indent @ fo_name f @ ''  ('' @ humanSize (fo_size f) @ '')'' @ newline) (pr_files p))
      else concat (map (\<lambda>f. indent @ fo_name f @ ''  ('' @ humanSize (fo_size f) @ '')'' @ newline) (take 5 (pr_files p)))
           @ indent @ ellipsis @ '' and '' @ dec_nat (length (pr_files p) - 5) @ '' more files'' @ newline)"
  using fileList_from_all[of "length (pr_files p)" 0 indent "pr_files p"]
    fileList_from_cut[of "length (pr_files p)" 0 "pr_files p" indent]
  by (simp add: fileList_def maxListedFiles_def file_line_def[abs_def] append_assoc)

section \<open>Titles\<close>

definition dec_val :: "string \<Rightarrow> nat" where
  "dec_val s = foldl (\<lambda>a c. 10 * a + (of_char c - 48)) 0 s"

lemma dec_val_dec_nat: "dec_val (dec_nat n) = n"
proof (induction n rule: dec_nat.induct)
  case (1 n)
  have d: "of_char (char_of (48 + k) :: char) - 48 = k" if "k < 10" for k :: nat
    using that by simp
  show ?case
  proof (cases "n < 10")
    case True
    with d[of n] show ?thesis by (subst dec_nat.simps) (simp add: dec_val_def)
  next
    case False
    have "dec_val (dec_nat n) = 10 * dec_val (dec_nat (n div 10)) + n mod 10"
      using False d[of "n mod 10"] by (subst dec_nat.simps) (simp add: dec_val_def)
    with 1 False show ?thesis by simp
  qed
qed

lemma dec_nat_inj [simp]: "dec_nat m = dec_nat n \<longleftrightarrow> m = n"
  by (metis dec_val_dec_nat)

text \<open>Two prompts have the same window title only if they are of the same kind and have the same
  sequence number, so a title identifies one box, and a file prompt is never titled like a
  connection request.\<close>

theorem Title_unique:
  "Title p m = Title q n \<longleftrightarrow> pr_kind p = pr_kind q \<and> m = n"
  by (cases "pr_kind p"; cases "pr_kind q") (auto simp: Title_def)

section \<open>At most one question\<close>

definition ui_ok :: "ui_state \<Rightarrow> bool" where
  "ui_ok u \<longleftrightarrow> (ui_inside u = {} \<and> ui_attention u = 0) \<or>
     (\<exists>k. ui_holder u = Some k \<and> ui_inside u = {k} \<and> ui_attention u = 1)"

inductive_cases ui_stepE: "ui_step u u'"

lemma ui_step_ok: "ui_step u u' \<Longrightarrow> ui_ok u \<Longrightarrow> ui_ok u'"
  by (erule ui_stepE) (auto simp: ui_ok_def)



section \<open>The picker's cooldown\<close>

text \<open>The times at which \<open>claim\<close> lets a picker open, over a sequence of requests.\<close>

fun shown_at :: "instant option \<Rightarrow> instant list \<Rightarrow> instant list" where
  "shown_at l [] = []"
| "shown_at l (t # ts) =
     (case picker_claim t l of (ok, l') \<Rightarrow> (if ok then [t] else []) @ shown_at l' ts)"

lemma shown_at_gap:
  "sorted_wrt (\<lambda>a b. a + pickerCooldown \<le> b) (shown_at l ts)
   \<and> (\<forall>t \<in> set (shown_at l ts). case l of None \<Rightarrow> True | Some u \<Rightarrow> u + pickerCooldown \<le> t)"
proof (induction ts arbitrary: l)
  case (Cons t ts)
  show ?case
  proof (cases "picker_claim t l")
    case (Pair ok l')
    have pos: "0 \<le> pickerCooldown" by (simp add: pickerCooldown_def time_units)
    show ?thesis
    proof (cases ok)
      case True
      with Pair have l': "l' = Some t" and gap: "case l of None \<Rightarrow> True | Some u \<Rightarrow> u + pickerCooldown \<le> t"
        by (auto simp: picker_claim_def split: option.splits if_splits)
      from Cons[of l'] l' have rest: "\<forall>x \<in> set (shown_at l' ts). t + pickerCooldown \<le> x"
        "sorted_wrt (\<lambda>a b. a + pickerCooldown \<le> b) (shown_at l' ts)" by auto
      then have "\<forall>x \<in> set (shown_at l' ts). case l of None \<Rightarrow> True | Some u \<Rightarrow> u + pickerCooldown \<le> x"
        using gap pos by (cases l) fastforce+
      with rest gap Pair True show ?thesis by simp
    next
      case False
      with Pair have "l' = l" by (auto simp: picker_claim_def split: option.splits if_splits)
      with Cons[of l] Pair False show ?thesis by simp
    qed
  qed
qed simp

end
