(* ===== verification/Approval.thy ===== *)
theory Approval
  imports Consent TransferSession
begin

text \<open>
  The policies of \<open>session/coordinator.go\<close> that protect the operator's attention: \<open>fileApprover\<close>
  (when a file question may be shown at all) and \<open>noteConnectOutcome\<close> (when a run of refused
  connections is reported), with the greeting of \<open>protocol/hello.go\<close> and the advice for a failed
  connection.
\<close>

section \<open>fileApprover\<close>

definition maxUnansweredPrompts :: int where "maxUnansweredPrompts = 3"
definition refusalBackoffMin :: duration where "refusalBackoffMin = 10 * second"
definition refusalBackoffMax :: duration where "refusalBackoffMax = 5 * minute"

text \<open>\<open>fa_quietUntil\<close> is \<open>None\<close> for the zero time, which every clock is past.\<close>

record fileApprover =
  fa_viewerUID :: string
  fa_unanswered :: int
  fa_quietUntil :: "instant option"
  fa_backoff :: duration

definition new_fileApprover :: "string \<Rightarrow> fileApprover" where
  "new_fileApprover uid = \<lparr>fa_viewerUID = uid, fa_unanswered = 0, fa_quietUntil = None, fa_backoff = 0\<rparr>"

definition fa_quiet :: "instant \<Rightarrow> fileApprover \<Rightarrow> bool" where
  "fa_quiet now a \<longleftrightarrow>
     maxUnansweredPrompts \<le> fa_unanswered a \<or> (case fa_quietUntil a of None \<Rightarrow> False | Some t \<Rightarrow> now < t)"

definition fa_prompt :: "fileApprover \<Rightarrow> FileOffer list \<Rightarrow> string \<Rightarrow> Prompt" where
  "fa_prompt a files folder = IncomingFiles (fa_viewerUID a) files folder"

definition fa_answered :: "Answer \<Rightarrow> instant \<Rightarrow> fileApprover \<Rightarrow> fileApprover" where
  "fa_answered answer now a =
     (let a1 = (if answer = Unanswered then a\<lparr>fa_unanswered := fa_unanswered a + 1\<rparr> else a\<lparr>fa_unanswered := 0\<rparr>)
      in if answer_OK answer then a1\<lparr>fa_backoff := 0, fa_quietUntil := None\<rparr>
         else let b = min (max (2 * fa_backoff a1) refusalBackoffMin) refusalBackoffMax
              in a1\<lparr>fa_backoff := b, fa_quietUntil := Some (now + b)\<rparr>)"

text \<open>\<open>AskFiles\<close>: the times the clock shows before and after the question, and the answer it would get.
  The result: the prompt shown, if any, and what the caller is told.\<close>

definition AskFiles ::
  "instant \<Rightarrow> Answer \<Rightarrow> instant \<Rightarrow> FileOffer list \<Rightarrow> string \<Rightarrow> fileApprover \<Rightarrow> Prompt option \<times> bool \<times> fileApprover" where
  "AskFiles now answer later files folder a =
     (if fa_quiet now a then (None, False, a)
      else (Some (fa_prompt a files folder), answer_OK answer, fa_answered answer later a))"

text \<open>A run of requests: the questions that were shown, newest first, with their answers and the times
  they were answered, and the approver's state.\<close>

record ask_req =
  rq_now :: instant
  rq_answer :: Answer
  rq_later :: instant
  rq_files :: "FileOffer list"
  rq_folder :: string

fun ask_run :: "ask_req list \<Rightarrow> (Answer \<times> instant) list \<times> fileApprover \<Rightarrow> (Answer \<times> instant) list \<times> fileApprover" where
  "ask_run [] st = st"
| "ask_run (q # qs) (h, a) =
     (case AskFiles (rq_now q) (rq_answer q) (rq_later q) (rq_files q) (rq_folder q) a of
        (shown, _, a') \<Rightarrow> ask_run qs ((if shown = None then h else (rq_answer q, rq_later q) # h), a'))"

section \<open>The policy as a specification\<close>

text \<open>The gap after \<open>k\<close> questions in a row without a yes, and when a question may be shown given the
  questions shown before.\<close>

definition refusal_gap :: "nat \<Rightarrow> duration" where
  "refusal_gap k = (if k = 0 then 0 else min (10 * second * 2 ^ (k - 1)) (5 * minute))"

definition streak :: "(Answer \<Rightarrow> bool) \<Rightarrow> (Answer \<times> instant) list \<Rightarrow> nat" where
  "streak P h = length (takeWhile (\<lambda>x. P (fst x)) h)"

definition may_ask :: "(Answer \<times> instant) list \<Rightarrow> instant \<Rightarrow> bool" where
  "may_ask h now \<longleftrightarrow>
     streak (\<lambda>x. x = Unanswered) h < 3
     \<and> (case h of [] \<Rightarrow> True
        | (ans, t) # _ \<Rightarrow> ans = Allowed \<or> t + refusal_gap (streak (\<lambda>x. x \<noteq> Allowed) h) \<le> now)"

definition fa_rep :: "(Answer \<times> instant) list \<Rightarrow> fileApprover \<Rightarrow> bool" where
  "fa_rep h a \<longleftrightarrow>
     fa_unanswered a = int (streak (\<lambda>x. x = Unanswered) h)
     \<and> fa_backoff a = refusal_gap (streak (\<lambda>x. x \<noteq> Allowed) h)
     \<and> fa_quietUntil a = (case h of [] \<Rightarrow> None
          | (ans, t) # _ \<Rightarrow> if ans = Allowed then None else Some (t + refusal_gap (streak (\<lambda>x. x \<noteq> Allowed) h)))"

lemma streak_Nil [simp]: "streak P [] = 0"
  by (simp add: streak_def)

lemma streak_Cons [simp]: "streak P ((a, t) # h) = (if P a then Suc (streak P h) else 0)"
  by (simp add: streak_def)

lemma refusal_gap_Suc: "refusal_gap (Suc k) = min (max (2 * refusal_gap k) refusalBackoffMin) refusalBackoffMax"
proof (cases k)
  case 0
  then show ?thesis by (simp add: refusal_gap_def refusalBackoffMin_def refusalBackoffMax_def time_units)
next
  case (Suc j)
  define x :: int where "x = 2 ^ j"
  have "1 \<le> x" by (simp add: x_def)
  then have "min (20000000000 * x) 300000000000 =
     min (max (2 * min (10000000000 * x) 300000000000) 10000000000) 300000000000" by (simp add: min_def max_def)
  with Suc show ?thesis
    by (simp add: refusal_gap_def refusalBackoffMin_def refusalBackoffMax_def time_units x_def)
qed

lemma fa_quiet_rep: "fa_rep h a \<Longrightarrow> fa_quiet now a \<longleftrightarrow> \<not> may_ask h now"
  by (auto simp: fa_rep_def fa_quiet_def may_ask_def maxUnansweredPrompts_def split: list.splits if_splits)

lemma fa_answered_rep:
  assumes "fa_rep h a"
  shows "fa_rep ((answer, t) # h) (fa_answered answer t a)"
  using assms
  by (auto simp: fa_rep_def fa_answered_def answer_OK_def Let_def refusal_gap_Suc) (simp_all add: refusal_gap_def)

lemma AskFiles_rep:
  assumes "fa_rep h a"
  shows "AskFiles now answer later files folder a =
    (if may_ask h now
     then (Some (IncomingFiles (fa_viewerUID a) files folder), answer = Allowed, fa_answered answer later a)
     else (None, False, a))"
  using fa_quiet_rep[OF assms] by (simp add: AskFiles_def fa_prompt_def answer_OK_def)

lemma fa_rep_new: "fa_rep [] (new_fileApprover uid)"
  by (simp add: fa_rep_def new_fileApprover_def refusal_gap_def)

lemma ask_run_rep: "fa_rep h a \<Longrightarrow> fa_rep (fst (ask_run qs (h, a))) (snd (ask_run qs (h, a)))"
proof (induction qs arbitrary: h a)
  case (Cons q qs)
  show ?case
    using Cons.IH Cons.prems fa_answered_rep[OF Cons.prems, of "rq_answer q" "rq_later q"]
    by (simp add: AskFiles_rep[OF Cons.prems])
qed simp

text \<open>C15: over any sequence of offers the approver shows a question exactly when the policy allows it:
  fewer than three questions in a row went unanswered, and since the last question that did not
  get a yes, 10 seconds have passed, doubled with each further one up to five minutes. The
  caller is told yes exactly when a question was shown and answered yes.\<close>

theorem AskFiles_policy:
  "case ask_run qs ([], new_fileApprover uid) of (h, a) \<Rightarrow>
     (\<forall>now answer later files folder.
        (fst (AskFiles now answer later files folder a) \<noteq> None) = may_ask h now
        \<and> fst (snd (AskFiles now answer later files folder a)) = (may_ask h now \<and> answer = Allowed))"
proof -
  obtain h a where r: "ask_run qs ([], new_fileApprover uid) = (h, a)" by fastforce
  have "fa_rep h a" using ask_run_rep[OF fa_rep_new, of qs uid] by (simp add: r)
  from AskFiles_rep[OF this] r show ?thesis by simp
qed

section \<open>Repeated refusals of a connection\<close>

definition maxUnapprovedConnects :: int where "maxUnapprovedConnects = 3"

definition noteConnectOutcome :: "bool \<Rightarrow> int \<Rightarrow> bool \<times> int" where
  "noteConnectOutcome approved unapproved =
     (if approved then (False, 0)
      else if unapproved + 1 < maxUnapprovedConnects then (False, unapproved + 1)
      else (True, 0))"

text \<open>The reports over a sequence of outcomes.\<close>

fun connect_reports :: "int \<Rightarrow> bool list \<Rightarrow> bool list" where
  "connect_reports k [] = []"
| "connect_reports k (b # bs) = (case noteConnectOutcome b k of (r, k') \<Rightarrow> r # connect_reports k' bs)"

fun connect_count :: "int \<Rightarrow> bool list \<Rightarrow> int" where
  "connect_count k [] = k"
| "connect_count k (b # bs) = connect_count (snd (noteConnectOutcome b k)) bs"

definition refused_run :: "bool list \<Rightarrow> nat" where
  "refused_run bs = length (takeWhile Not (rev bs))"

lemma connect_count_snoc: "connect_count k (bs @ [b]) = snd (noteConnectOutcome b (connect_count k bs))"
  by (induction bs arbitrary: k) auto

lemma connect_reports_snoc:
  "connect_reports k (bs @ [b]) = connect_reports k bs @ [fst (noteConnectOutcome b (connect_count k bs))]"
  by (induction bs arbitrary: k) (auto split: prod.splits)

lemma refused_run_snoc [simp]: "refused_run (bs @ [b]) = (if b then 0 else Suc (refused_run bs))"
  by (simp add: refused_run_def)

lemma connect_count_mod: "connect_count 0 bs = int (refused_run bs mod 3)"
proof (induction bs rule: rev_induct)
  case (snoc b bs)
  have "Suc (refused_run bs) mod 3 = (if refused_run bs mod 3 = 2 then 0 else Suc (refused_run bs mod 3))"
    by (simp add: mod_Suc)
  moreover have "refused_run bs mod 3 < 3" by simp
  ultimately show ?case
    using snoc by (auto simp: connect_count_snoc noteConnectOutcome_def maxUnapprovedConnects_def)
qed (simp add: refused_run_def)

text \<open>The coordinator reports a run of refusals exactly after every third connection prompt in a
  row that ended without a yes.\<close>

theorem connect_report_every_third:
  "connect_reports 0 (bs @ [b]) =
     connect_reports 0 bs @ [\<not> b \<and> 3 dvd refused_run (bs @ [b])]"
proof -
  have "refused_run bs mod 3 < 3" by simp
  then have "Suc (refused_run bs) mod 3 = 0 \<longleftrightarrow> refused_run bs mod 3 = 2" by (simp add: mod_Suc)
  with \<open>refused_run bs mod 3 < 3\<close> show ?thesis
    by (auto simp: connect_reports_snoc connect_count_mod noteConnectOutcome_def maxUnapprovedConnects_def dvd_eq_mod_eq_0)
qed

section \<open>The greeting and the advice\<close>

definition protocol_Version :: int where "protocol_Version = 2"
definition CapFileSend :: string where "CapFileSend = ''file.send''"
definition CapFileRecv :: string where "CapFileRecv = ''file.recv''"
definition CapClipText :: string where "CapClipText = ''clip.text''"

record Hello =
  he_T :: string
  he_V :: int
  he_Caps :: "string list"
  he_Agent :: string

definition NewHello :: "string \<Rightarrow> string list \<Rightarrow> Hello" where
  "NewHello agent caps = \<lparr>he_T = ''hello'', he_V = protocol_Version, he_Caps = caps, he_Agent = agent\<rparr>"

definition Hello_Encode :: "Hello \<Rightarrow> jval" where
  "Hello_Encode h = JObj [(''t'', JStr (he_T h)), (''v'', JInt (he_V h)), (''caps'', JArr (map JStr (he_Caps h))),
     (''agent'', JStr (he_Agent h))]"

text \<open>\<open>capabilities\<close>: \<open>None\<close> is a coordinator without a picker.\<close>

definition capabilities :: "picker option \<Rightarrow> string \<Rightarrow> string list" where
  "capabilities pick clipboardMode =
     [CapFileSend]
     @ (case pick of Some p \<Rightarrow> if picker_Available p then [CapFileRecv] else [] | None \<Rightarrow> [])
     @ (if clipboardMode = ''text'' then [CapClipText] else [])"

definition effective_clipboard :: "bool \<Rightarrow> string \<Rightarrow> string" where
  "effective_clipboard supported mode = (if \<not> supported then ''off'' else mode)"

text \<open>\<open>failureAdvice\<close>, with the advice of the firewall package and the platform as arguments.\<close>

definition failureAdvice :: "string \<Rightarrow> string \<Rightarrow> string \<Rightarrow> bool \<Rightarrow> string \<Rightarrow> string list" where
  "failureAdvice ifAsked localNetwork sessionID session_gone product =
     (if session_gone then [sessionID @ '': the other side gave up before the connection was made'']
      else [sessionID @ '': the other computer could not reach this one.'']
        @ (if product \<noteq> []
           then [''  '' @ product @ '' runs this computer's firewall instead of Windows. If it asked about FreeDesk, allow it.'',
                 ''  Just after a download it may still be checking FreeDesk: close FreeDesk, start it again, and connect with the new code it shows.'']
           else [''  '' @ ifAsked])
        @ (if localNetwork \<noteq> [] then [''  '' @ localNetwork] else [])
        @ [''  On some networks (mobile data, shared or corporate Wi-Fi) a direct connection is not possible.''])"

end
