(* ===== verification/Firebase.thy ===== *)
theory Firebase
  imports Json
begin

text \<open>
  Package \<open>firebase\<close>: the Realtime Database client. A response is an argument (\<open>None\<close>: the request
  failed below HTTP), and so is what the text of a payload parses to; the theory covers how
  addresses are built, how a response becomes a result or an error, and how the lines of an event
  stream become events.
\<close>

section \<open>Ranging over a map\<close>

text \<open>Go visits the entries of a map in no fixed order. A map is an association list with distinct keys;
  \<open>perm n\<close> is the order in which a loop visits \<open>n\<close> entries.\<close>

definition map_order :: "(nat \<Rightarrow> nat list) \<Rightarrow> 'a list \<Rightarrow> 'a list" where
  "map_order perm xs = map (\<lambda>i. xs ! i) (perm (length xs))"

definition perm_ok :: "(nat \<Rightarrow> nat list) \<Rightarrow> bool" where
  "perm_ok perm \<longleftrightarrow> (\<forall>n. distinct (perm n) \<and> set (perm n) = {..<n})"

lemma set_map_order [simp]: "perm_ok perm \<Longrightarrow> set (map_order perm xs) = set xs"
  by (auto simp: perm_ok_def map_order_def in_set_conv_nth image_iff Bex_def)

lemma perm_ok_upt [simp]: "perm_ok (\<lambda>n. [0..<n])"
  by (auto simp: perm_ok_def)

text \<open>Decoding into a map: each value on its own, a later duplicate key in the place of the earlier.\<close>

fun map_put :: "string \<Rightarrow> 'a \<Rightarrow> (string \<times> 'a) list \<Rightarrow> (string \<times> 'a) list" where
  "map_put k v [] = [(k, v)]"
| "map_put k v ((k', v') # m) = (if k = k' then (k, v) # m else (k', v') # map_put k v m)"

fun decode_pairs :: "(jval \<Rightarrow> 'a \<Rightarrow> 'a option) \<Rightarrow> 'a \<Rightarrow> (string \<times> jval) list \<Rightarrow> (string \<times> 'a) list \<Rightarrow> (string \<times> 'a) list option" where
  "decode_pairs dec z [] m = Some m"
| "decode_pairs dec z ((k, v) # kvs) m =
     (case dec v z of None \<Rightarrow> None | Some x \<Rightarrow> decode_pairs dec z kvs (map_put k x m))"

fun decode_map :: "(jval \<Rightarrow> 'a \<Rightarrow> 'a option) \<Rightarrow> 'a \<Rightarrow> jval \<Rightarrow> (string \<times> 'a) list option" where
  "decode_map dec z JNull = Some []"
| "decode_map dec z (JObj kvs) = decode_pairs dec z kvs []"
| "decode_map dec z _ = None"

section \<open>Addresses\<close>

definition hex_digit :: "nat \<Rightarrow> char" where
  "hex_digit n = ''0123456789ABCDEF'' ! n"

text \<open>\<open>url.QueryEscape\<close>.\<close>

definition query_safe :: "char \<Rightarrow> bool" where
  "query_safe c \<longleftrightarrow>
     (48 \<le> byte c \<and> byte c \<le> 57) \<or> (65 \<le> byte c \<and> byte c \<le> 90) \<or> (97 \<le> byte c \<and> byte c \<le> 122)
     \<or> c \<in> {CHR ''-'', CHR ''_'', CHR ''.'', CHR ''~''}"

definition escape_char :: "char \<Rightarrow> string" where
  "escape_char c =
     (if query_safe c then [c]
      else if c = CHR '' '' then ''+''
      else [CHR ''%'', hex_digit (nat (byte c) div 16), hex_digit (nat (byte c) mod 16)])"

definition query_escape :: "string \<Rightarrow> string" where
  "query_escape s = concat (map escape_char s)"

record RTDB =
  db_baseURL :: string
  db_namespace :: string

definition NewRTDB :: "string \<Rightarrow> string \<Rightarrow> RTDB" where
  "NewRTDB baseURL namespace = \<lparr>db_baseURL = trim_right baseURL ''/'', db_namespace = namespace\<rparr>"

datatype rtdb_err =
    ErrToken
  | ErrTransport
  | ErrStatus int string string string
  | ErrDecode

definition endpoint :: "RTDB \<Rightarrow> string option \<Rightarrow> string \<Rightarrow> bool \<Rightarrow> rtdb_err + string" where
  "endpoint r token path silent =
     (case token of
        None \<Rightarrow> Inl ErrToken
      | Some tok \<Rightarrow>
          Inr (db_baseURL r @ ''/'' @ trim_both path ''/'' @ ''.json?auth='' @ query_escape tok
               @ (if db_namespace r \<noteq> [] then ''&ns='' @ query_escape (db_namespace r) else [])
               @ (if silent then ''&print=silent'' else [])))"

text \<open>Whatever the token and the namespace are, they stay one query value each: what follows the
  question mark splits at \<open>&\<close> into exactly the parameters the code writes.\<close>

lemma hex_digit_ne:
  assumes "n < 16"
  shows "hex_digit n \<noteq> CHR ''&''"
proof -
  have "hex_digit n \<in> set ''0123456789ABCDEF''" unfolding hex_digit_def using assms by (intro nth_mem) simp
  then show ?thesis by auto
qed

lemma escape_char_no_amp: "CHR ''&'' \<notin> set (escape_char c)"
proof -
  have "nat (byte c) < 256" by (simp add: nat_less_iff)
  then have "hex_digit (nat (byte c) div 16) \<noteq> CHR ''&''" "hex_digit (nat (byte c) mod 16) \<noteq> CHR ''&''"
    by (intro hex_digit_ne; simp)+
  then show ?thesis by (auto simp: escape_char_def query_safe_def byte_def)
qed

lemma query_escape_no_amp [simp]: "CHR ''&'' \<notin> set (query_escape s)"
  by (auto simp: query_escape_def escape_char_no_amp)

section \<open>Responses\<close>

definition do_request :: "string \<Rightarrow> string \<Rightarrow> (int \<times> string) option \<Rightarrow> rtdb_err + string" where
  "do_request method path resp =
     (case resp of
        None \<Rightarrow> Inl ErrTransport
      | Some (code, body) \<Rightarrow>
          if code < 200 \<or> 300 \<le> code then Inl (ErrStatus code method path (trim_space body)) else Inr body)"

definition is_empty_json :: "string \<Rightarrow> bool" where
  "is_empty_json data \<longleftrightarrow> trim_space data = [] \<or> trim_space data = ''null''"

text \<open>\<open>Get\<close>: \<open>Inr None\<close> when the location holds no data.\<close>

definition rtdb_Get ::
  "(string \<Rightarrow> jval option) \<Rightarrow> string option \<Rightarrow> RTDB \<Rightarrow> string \<Rightarrow> (int \<times> string) option \<Rightarrow> rtdb_err + jval option" where
  "rtdb_Get parse token r path resp =
     (case endpoint r token path False of
        Inl e \<Rightarrow> Inl e
      | Inr _ \<Rightarrow>
          (case do_request ''GET'' path resp of
             Inl e \<Rightarrow> Inl e
           | Inr data \<Rightarrow>
               if is_empty_json data then Inr None
               else (case parse data of None \<Rightarrow> Inl ErrDecode | Some v \<Rightarrow> Inr (Some v))))"

definition rtdb_write ::
  "string option \<Rightarrow> RTDB \<Rightarrow> string \<Rightarrow> string \<Rightarrow> bool \<Rightarrow> (int \<times> string) option \<Rightarrow> rtdb_err + string" where
  "rtdb_write token r method path silent resp =
     (case endpoint r token path silent of
        Inl e \<Rightarrow> Inl e
      | Inr _ \<Rightarrow> do_request method path resp)"

definition rtdb_Push ::
  "(string \<Rightarrow> jval option) \<Rightarrow> string option \<Rightarrow> RTDB \<Rightarrow> string \<Rightarrow> (int \<times> string) option \<Rightarrow> rtdb_err + string" where
  "rtdb_Push parse token r path resp =
     (case rtdb_write token r ''POST'' path False resp of
        Inl e \<Rightarrow> Inl e
      | Inr data \<Rightarrow>
          (case Option.bind (parse data) (\<lambda>v. decode_struct [''name''] (\<lambda>_. decode_str) v []) of
             None \<Rightarrow> Inl ErrDecode
           | Some name \<Rightarrow> Inr name))"

definition IsPermissionDenied :: "rtdb_err \<Rightarrow> bool" where
  "IsPermissionDenied e \<longleftrightarrow> (case e of ErrStatus code _ _ _ \<Rightarrow> code = 401 | _ \<Rightarrow> False)"

section \<open>Event streams\<close>

definition EventPut :: string where "EventPut = ''put''"
definition EventPatch :: string where "EventPatch = ''patch''"
definition EventCancel :: string where "EventCancel = ''cancel''"
definition EventAuthRevoked :: string where "EventAuthRevoked = ''auth_revoked''"

lemmas event_names = EventPut_def EventPatch_def EventCancel_def EventAuthRevoked_def

text \<open>\<open>ev_Data\<close> is the value the raw JSON stands for; \<open>None\<close> is a missing one, the empty message.\<close>

record StreamEvent =
  ev_Event :: string
  ev_Path :: string
  ev_Data :: "jval option"

record put_body =
  pb_path :: string
  pb_data :: "jval option"

definition put_field :: "string \<Rightarrow> jval \<Rightarrow> put_body \<Rightarrow> put_body option" where
  "put_field name v b =
     (if name = ''path'' then map_option (\<lambda>s. b\<lparr>pb_path := s\<rparr>) (decode_str v (pb_path b))
      else Some (b\<lparr>pb_data := Some v\<rparr>))"

definition parseEvent :: "(string \<Rightarrow> jval option) \<Rightarrow> string \<Rightarrow> string \<Rightarrow> StreamEvent option" where
  "parseEvent parse eventType payload =
     (if eventType = EventPut \<or> eventType = EventPatch then
        (case Option.bind (parse payload) (\<lambda>v. decode_struct [''path'', ''data''] put_field v \<lparr>pb_path = [], pb_data = None\<rparr>) of
           None \<Rightarrow> None
         | Some b \<Rightarrow> Some \<lparr>ev_Event = eventType, ev_Path = pb_path b, ev_Data = pb_data b\<rparr>)
      else if eventType = EventCancel \<or> eventType = EventAuthRevoked then
        Some \<lparr>ev_Event = eventType, ev_Path = [], ev_Data = parse payload\<rparr>
      else None)"

text \<open>The loop of \<open>Stream\<close> over the lines it scans.\<close>

fun stream_lines :: "(string \<Rightarrow> jval option) \<Rightarrow> string \<Rightarrow> string list \<Rightarrow> StreamEvent list" where
  "stream_lines parse eventType [] = []"
| "stream_lines parse eventType (line # ls) =
     (if has_prefix line ''event:'' then stream_lines parse (trim_space (trim_prefix line ''event:'')) ls
      else if has_prefix line ''data:'' then
        (case parseEvent parse eventType (trim_space (trim_prefix line ''data:'')) of
           None \<Rightarrow> stream_lines parse eventType ls
         | Some ev \<Rightarrow> ev # stream_lines parse eventType ls)
      else stream_lines parse eventType ls)"

definition no_data :: "StreamEvent \<Rightarrow> bool" where
  "no_data ev \<longleftrightarrow> ev_Data ev = None \<or> ev_Data ev = Some JNull"

lemma stream_lines_known:
  "ev \<in> set (stream_lines parse t ls) \<Longrightarrow> ev_Event ev \<in> {''put'', ''patch'', ''cancel'', ''auth_revoked''}"
proof (induction ls arbitrary: t)
  case (Cons l ls)
  have "parseEvent parse t p = Some e \<Longrightarrow> ev_Event e \<in> {''put'', ''patch'', ''cancel'', ''auth_revoked''}" for p e
    by (auto simp: parseEvent_def event_names split: if_splits option.splits)
  with Cons show ?case by (auto split: if_splits option.splits)
qed simp

end
