(* ===== verification/Inbox.thy ===== *)
theory Inbox
  imports Firebase
begin

text \<open>
  \<open>session/inbox.go\<close> and \<open>session/router.go\<close>: the stream of connection requests. The clock is an argument of
  every dispatch; what the inbox does is a list of actions, each with the clock it was done at.
\<close>

definition staleRequestAge :: duration where "staleRequestAge = 5 * minute"
definition reconnectMinDelay :: duration where "reconnectMinDelay = second"
definition reconnectMaxDelay :: duration where "reconnectMaxDelay = 30 * second"

record Request =
  req_ID :: string
  req_ViewerUID :: string
  req_Code :: string
  req_CreatedAt :: int

record inboxEntry =
  ie_ViewerUID :: string
  ie_Code :: string
  ie_CreatedAt :: int

definition no_entry :: inboxEntry where
  "no_entry = \<lparr>ie_ViewerUID = [], ie_Code = [], ie_CreatedAt = 0\<rparr>"

definition put_entry :: "string \<Rightarrow> jval \<Rightarrow> inboxEntry \<Rightarrow> inboxEntry option" where
  "put_entry name v e =
     (if name = ''viewerUid'' then map_option (\<lambda>s. e\<lparr>ie_ViewerUID := s\<rparr>) (decode_str v (ie_ViewerUID e))
      else if name = ''code'' then map_option (\<lambda>s. e\<lparr>ie_Code := s\<rparr>) (decode_str v (ie_Code e))
      else map_option (\<lambda>n. e\<lparr>ie_CreatedAt := n\<rparr>) (decode_i64 v (ie_CreatedAt e)))"

definition decode_inboxEntry :: "jval \<Rightarrow> inboxEntry \<Rightarrow> inboxEntry option" where
  "decode_inboxEntry = decode_struct [''viewerUid'', ''code'', ''createdAt''] put_entry"

text \<open>\<open>peekType\<close>: only the type of a control frame.\<close>

definition peekType :: "jval option \<Rightarrow> string" where
  "peekType data =
     (case Option.bind data (\<lambda>v. decode_struct [''t''] (\<lambda>_. decode_str) v []) of None \<Rightarrow> [] | Some t \<Rightarrow> t)"

section \<open>Dispatching\<close>

datatype inbox_action = Remove string | Handle Request

text \<open>\<open>Time.Sub\<close>: the difference, clamped to what a \<open>Duration\<close> holds.\<close>

definition time_sub :: "instant \<Rightarrow> instant \<Rightarrow> duration" where
  "time_sub t u = max (- (2 ^ 63)) (min (2 ^ 63 - 1) (t - u))"

definition unix_milli :: "int \<Rightarrow> instant" where
  "unix_milli ms = ms * millisecond"

type_synonym seen_map = "string \<Rightarrow> instant option"

definition forget :: "instant \<Rightarrow> seen_map \<Rightarrow> seen_map" where
  "forget now seen rid =
     (case seen rid of None \<Rightarrow> None | Some t \<Rightarrow> if staleRequestAge < time_sub now t then None else Some t)"

definition entry_age :: "instant \<Rightarrow> inboxEntry \<Rightarrow> duration" where
  "entry_age now e = time_sub now (unix_milli (ie_CreatedAt e))"

definition dispatch :: "instant \<Rightarrow> string \<Rightarrow> inboxEntry \<Rightarrow> seen_map \<Rightarrow> inbox_action list \<times> seen_map" where
  "dispatch now rid e seen =
     (let seen1 = forget now seen
      in if seen1 rid \<noteq> None then ([], seen1)
         else ([Remove rid]
               @ (if ie_ViewerUID e = [] \<or> staleRequestAge < entry_age now e then []
                  else [Handle \<lparr>req_ID = rid, req_ViewerUID = ie_ViewerUID e, req_Code = ie_Code e, req_CreatedAt = ie_CreatedAt e\<rparr>]),
               seen1(rid \<mapsto> now)))"

text \<open>A list of dispatches, each at its own time.\<close>

fun dispatch_all :: "(instant \<times> string \<times> inboxEntry) list \<Rightarrow> seen_map \<Rightarrow> inbox_action list \<times> seen_map" where
  "dispatch_all [] seen = ([], seen)"
| "dispatch_all ((now, rid, e) # ds) seen =
     (case dispatch now rid e seen of
        (as, seen1) \<Rightarrow> (case dispatch_all ds seen1 of (bs, seen2) \<Rightarrow> (as @ bs, seen2)))"

text \<open>\<open>handleData\<close>: the dispatches an event asks for.\<close>

definition data_entries :: "(nat \<Rightarrow> nat list) \<Rightarrow> StreamEvent \<Rightarrow> (string \<times> inboxEntry) list" where
  "data_entries perm ev =
     (case ev_Data ev of
        None \<Rightarrow> []
      | Some v \<Rightarrow>
          if v = JNull then []
          else if ev_Path ev = ''/'' then
            (case decode_map decode_inboxEntry no_entry v of None \<Rightarrow> [] | Some es \<Rightarrow> map_order perm es)
          else (let rid = trim_both (ev_Path ev) ''/''
                in if rid = [] \<or> CHR ''/'' \<in> set rid then []
                   else case decode_inboxEntry v no_entry of None \<Rightarrow> [] | Some e \<Rightarrow> [(rid, e)]))"

definition handleData :: "(nat \<Rightarrow> nat list) \<Rightarrow> (nat \<Rightarrow> instant) \<Rightarrow> StreamEvent \<Rightarrow> seen_map \<Rightarrow> inbox_action list \<times> seen_map" where
  "handleData perm clock ev seen =
     (let es = data_entries perm ev in dispatch_all (zip (map clock [0..<length es]) es) seen)"

lemma fst_dispatch_all_Cons:
  "dispatch now rid e seen = (as, seen1) \<Longrightarrow> fst (dispatch_all ((now, rid, e) # ds) seen) = as @ fst (dispatch_all ds seen1)"
  by (simp split: prod.split)

section \<open>Listening\<close>

datatype inbox_event = InOpened | InOpenFailed | InEv "nat \<Rightarrow> instant" StreamEvent | InEnd | InDone

text \<open>\<open>LWait d\<close>: a pause of \<open>d\<close>, then an attempt to open the stream.\<close>

datatype listen_pc = LWait duration | LOpen | LStopped

record listener =
  li_pc :: listen_pc
  li_delay :: duration
  li_seen :: seen_map
  li_log :: "inbox_action list"

definition listen_init :: listener where
  "listen_init = \<lparr>li_pc = LWait 0, li_delay = reconnectMinDelay, li_seen = (\<lambda>_. None), li_log = []\<rparr>"

definition listen_step :: "(nat \<Rightarrow> nat list) \<Rightarrow> inbox_event \<Rightarrow> listener \<Rightarrow> listener" where
  "listen_step perm ev l =
     (case li_pc l of
        LStopped \<Rightarrow> l
      | LWait d \<Rightarrow>
          (case ev of
             InOpened \<Rightarrow> l\<lparr>li_pc := LOpen, li_delay := reconnectMinDelay\<rparr>
           | InOpenFailed \<Rightarrow> l\<lparr>li_pc := LWait (li_delay l), li_delay := min (li_delay l * 2) reconnectMaxDelay\<rparr>
           | InDone \<Rightarrow> l\<lparr>li_pc := LStopped\<rparr>
           | _ \<Rightarrow> l)
      | LOpen \<Rightarrow>
          (case ev of
             InEv clock e \<Rightarrow>
               if ev_Event e = EventPut \<or> ev_Event e = EventPatch then
                 (case handleData perm clock e (li_seen l) of (as, seen) \<Rightarrow> l\<lparr>li_seen := seen, li_log := li_log l @ as\<rparr>)
               else if ev_Event e = EventAuthRevoked \<or> ev_Event e = EventCancel then l\<lparr>li_pc := LWait reconnectMinDelay\<rparr>
               else l
           | InEnd \<Rightarrow> l\<lparr>li_pc := LWait reconnectMinDelay\<rparr>
           | InDone \<Rightarrow> l\<lparr>li_pc := LStopped\<rparr>
           | _ \<Rightarrow> l))"

definition listen_run :: "(nat \<Rightarrow> nat list) \<Rightarrow> inbox_event list \<Rightarrow> listener \<Rightarrow> listener" where
  "listen_run perm evs l = foldl (\<lambda>l ev. listen_step perm ev l) l evs"

section \<open>At most once\<close>

definition handled :: "string \<Rightarrow> inbox_action list \<Rightarrow> nat" where
  "handled rid as = length (filter (\<lambda>a. case a of Handle r \<Rightarrow> req_ID r = rid | _ \<Rightarrow> False) as)"

lemma handled_append [simp]: "handled rid (as @ bs) = handled rid as + handled rid bs"
  by (simp add: handled_def)

text \<open>Dispatches with a clock that does not go back and no entry from the future; every entry of one id
  carries one creation time.\<close>

definition honest :: "(string \<Rightarrow> int) \<Rightarrow> (instant \<times> string \<times> inboxEntry) list \<Rightarrow> bool" where
  "honest created ds \<longleftrightarrow>
     sorted (map fst ds)
     \<and> (\<forall>(now, rid, e) \<in> set ds. ie_CreatedAt e = created rid \<and> unix_milli (created rid) \<le> now)"

text \<open>An id that was handled is remembered, or was handled so long ago that it is stale.\<close>

definition remembered :: "(string \<Rightarrow> int) \<Rightarrow> instant \<Rightarrow> string \<Rightarrow> seen_map \<Rightarrow> bool" where
  "remembered created now rid seen \<longleftrightarrow>
     (case seen rid of None \<Rightarrow> staleRequestAge < now - unix_milli (created rid) | Some t \<Rightarrow> unix_milli (created rid) \<le> t \<and> t \<le> now)"

lemma time_sub_gt: "staleRequestAge < time_sub t u \<longleftrightarrow> staleRequestAge < t - u"
  by (auto simp: time_sub_def staleRequestAge_def time_units)

lemma remembered_later: "remembered created now rid seen \<Longrightarrow> now \<le> now' \<Longrightarrow> remembered created now' rid seen"
  by (auto simp: remembered_def split: option.splits)

lemma remembered_forget: "remembered created now rid seen \<Longrightarrow> remembered created now rid (forget now seen)"
  by (auto simp: remembered_def forget_def time_sub_gt split: option.splits)

lemma dispatch_remembered:
  assumes "remembered created now0 rid seen" and "now0 \<le> now" and "ie_CreatedAt e = created rid'"
    and "unix_milli (created rid') \<le> now" and d: "dispatch now rid' e seen = (as, seen')"
  shows "handled rid as = 0" and "remembered created now rid seen'"
proof -
  from remembered_forget[OF remembered_later[OF assms(1,2)]]
  have r: "remembered created now rid (forget now seen)" .
  show "handled rid as = 0"
  proof (cases "rid' = rid \<and> forget now seen rid = None")
    case True
    with r have "staleRequestAge < now - unix_milli (created rid)" by (simp add: remembered_def)
    with True d assms(3) show ?thesis
      by (auto simp: dispatch_def Let_def handled_def entry_age_def time_sub_gt)
  next
    case False
    with d show ?thesis by (auto simp: dispatch_def Let_def handled_def split: if_splits)
  qed
  from r d assms(4) show "remembered created now rid seen'"
    by (auto simp: dispatch_def Let_def remembered_def split: if_splits option.splits)
qed

lemma dispatch_first:
  assumes "ie_CreatedAt e = created rid'" and "unix_milli (created rid') \<le> now" and "dispatch now rid' e seen = (as, seen')"
  shows "handled rid as \<le> 1" and "handled rid as \<noteq> 0 \<Longrightarrow> remembered created now rid seen'"
  using assms by (auto simp: dispatch_def Let_def handled_def remembered_def split: if_splits)

lemma honest_Cons:
  "honest created ((now, rid, e) # ds) \<longleftrightarrow>
     (\<forall>d \<in> set ds. now \<le> fst d) \<and> ie_CreatedAt e = created rid \<and> unix_milli (created rid) \<le> now \<and> honest created ds"
  by (auto simp: honest_def)

lemma dispatch_all_remembered:
  "honest created ds \<Longrightarrow> remembered created now0 rid seen \<Longrightarrow> \<forall>d \<in> set ds. now0 \<le> fst d \<Longrightarrow>
   handled rid (fst (dispatch_all ds seen)) = 0"
proof (induction ds arbitrary: seen now0)
  case (Cons d ds)
  obtain now rid' e where d: "d = (now, rid', e)" by (metis prod_cases3)
  obtain as seen1 where s: "dispatch now rid' e seen = (as, seen1)" by fastforce
  from Cons.prems have h: "honest created ds" "\<forall>d \<in> set ds. now \<le> fst d" "now0 \<le> now"
    "ie_CreatedAt e = created rid'" "unix_milli (created rid') \<le> now"
    by (auto simp: d honest_Cons)
  note r = dispatch_remembered[OF Cons.prems(2) h(3,4,5) s]
  from Cons.IH[OF h(1) r(2) h(2)] r(1) show ?case by (simp add: d fst_dispatch_all_Cons[OF s] del: dispatch_all.simps)
qed (simp add: handled_def)


definition ex_entry :: inboxEntry where
  "ex_entry = \<lparr>ie_ViewerUID = ''v'', ie_Code = ''123456'', ie_CreatedAt = 100000\<rparr>"


text \<open>Without the hypothesis on the clock it fails: 60 seconds behind the server, the request is handled
  at second 40 of the agent's clock and again when it is replayed at second 341.\<close>

lemma dispatch_new:
  assumes "forget now seen rid = None"
  shows "dispatch now rid e seen =
    ([Remove rid]
     @ (if ie_ViewerUID e = [] \<or> staleRequestAge < entry_age now e then []
        else [Handle \<lparr>req_ID = rid, req_ViewerUID = ie_ViewerUID e, req_Code = ie_Code e, req_CreatedAt = ie_CreatedAt e\<rparr>]),
     (forget now seen)(rid \<mapsto> now))"
  using assms by (simp add: dispatch_def)

lemma handled_twice_when_behind:
  "handled ''s'' (fst (dispatch_all [(40 * second, ''s'', ex_entry), (341 * second, ''s'', ex_entry)] (\<lambda>_. None))) = 2"
proof -
  define s1 where "s1 = (forget (40 * second) (\<lambda>_. None))(''s'' \<mapsto> 40 * second)"
  have "forget (40 * second) (\<lambda>_. None) ''s'' = None" by (simp add: forget_def)
  note d1 = dispatch_new[OF this, of ex_entry, folded s1_def]
  have "forget (341 * second) s1 ''s'' = None"
    by (simp add: forget_def s1_def time_sub_def staleRequestAge_def time_units)
  note d2 = dispatch_new[OF this, of ex_entry]
  have "\<not> staleRequestAge < entry_age (40 * second) ex_entry" "\<not> staleRequestAge < entry_age (341 * second) ex_entry"
    by (simp_all add: entry_age_def time_sub_def ex_entry_def unix_milli_def staleRequestAge_def time_units)
  moreover have "ie_ViewerUID ex_entry \<noteq> []" by (simp add: ex_entry_def)
  ultimately show ?thesis by (simp add: d1 d2 handled_def)
qed

section \<open>Always listening\<close>

lemma listen_step_alive:
  assumes "ev \<noteq> InDone" and "li_pc l \<noteq> LStopped"
  shows "li_pc (listen_step perm ev l) \<noteq> LStopped"
  using assms by (cases "li_pc l"; cases ev) (simp_all add: listen_step_def split: prod.split)

lemma listen_run_alive:
  "InDone \<notin> set evs \<Longrightarrow> li_pc l \<noteq> LStopped \<Longrightarrow> li_pc (listen_run perm evs l) \<noteq> LStopped"
  unfolding listen_run_def
proof (induction evs arbitrary: l)
  case (Cons ev evs)
  from Cons.prems listen_step_alive[of ev l perm] have "li_pc (listen_step perm ev l) \<noteq> LStopped" by auto
  from Cons.IH[OF _ this] Cons.prems show ?case by simp
qed simp

definition delay_ok :: "listener \<Rightarrow> bool" where
  "delay_ok l \<longleftrightarrow> reconnectMinDelay \<le> li_delay l \<and> li_delay l \<le> reconnectMaxDelay
     \<and> (case li_pc l of LWait d \<Rightarrow> 0 \<le> d \<and> d \<le> reconnectMaxDelay | _ \<Rightarrow> True)"

lemma listen_step_delay: "delay_ok l \<Longrightarrow> delay_ok (listen_step perm ev l)"
  by (cases "li_pc l"; cases ev)
    (auto simp: delay_ok_def listen_step_def reconnectMinDelay_def reconnectMaxDelay_def time_units split: prod.split)

lemma listen_run_delay: "delay_ok l \<Longrightarrow> delay_ok (listen_run perm evs l)"
  unfolding listen_run_def by (induction evs arbitrary: l) (auto simp: listen_step_delay)

lemma handleData_single:
  assumes "ev_Data ev = Some v" and "v \<noteq> JNull" and "ev_Path ev = ''/'' @ rid" and "rid \<noteq> []" and "CHR ''/'' \<notin> set rid"
    and "decode_inboxEntry v no_entry = Some e"
  shows "handleData perm clock ev seen = dispatch (clock 0) rid e seen"
proof -
  have t: "trim_both (ev_Path ev) ''/'' = rid"
  proof -
    obtain c s where rid: "rid = c # s" using assms(4) by (cases rid) auto
    have "dropWhile (\<lambda>x. x = CHR ''/'') (rev rid) = rev rid"
    proof -
      have "last rid \<noteq> CHR ''/''" using assms(4,5) by (metis last_in_set)
      then show ?thesis using assms(4) by (cases "rev rid") (auto simp: last_rev[symmetric] dest: arg_cong[of _ _ rev])
    qed
    moreover have "dropWhile (\<lambda>x. x = CHR ''/'') (ev_Path ev) = rid" using assms(3,5) rid by auto
    ultimately show ?thesis by (simp add: trim_both_def trim_right_def)
  qed
  have "ev_Path ev \<noteq> ''/''" using assms(3,4) by simp
  with assms t show ?thesis
    by (simp add: handleData_def data_entries_def Let_def split: prod.split)
qed


definition ex_put :: StreamEvent where
  "ex_put = \<lparr>ev_Event = ''put'', ev_Path = ''/s'', ev_Data = Some (JObj [(''viewerUid'', JStr ''v''), (''code'', JStr ''123456''), (''createdAt'', JInt 100000)])\<rparr>"


end
