(* ===== verification/Signaling.thy ===== *)
theory Signaling
  imports Firebase
begin

text \<open>
  Package \<open>signaling\<close>: the session node as a stream of events, taken apart into the remote description,
  the remote candidates, the status and the end of the node. A channel is the list of what was put
  into it and not read yet; a channel that is sent to at most once, and the candidates, keep what they
  were ever sent. The reader of the status channel is the step \<open>read_status\<close>.
\<close>

datatype Role = Host | Viewer

record Description =
  de_Type :: string
  de_SDP :: string

record ICECandidate =
  ic_Candidate :: string
  ic_SDPMid :: "string option"
  ic_SDPMLineIndex :: "int option"
  ic_UsernameFragment :: "string option"

record Snapshot =
  snap_ViewerUID :: string
  snap_OwnerUID :: string
  snap_Status :: string

record sessionNode =
  sn_ViewerUID :: string
  sn_OwnerUID :: string
  sn_Status :: string
  sn_Offer :: "Description option"
  sn_Answer :: "Description option"
  sn_HostCandidates :: "(string \<times> ICECandidate) list"
  sn_ViewerCandidates :: "(string \<times> ICECandidate) list"

section \<open>Decoding\<close>

text \<open>A pointer field: \<open>null\<close> clears it, another value is decoded on top of what it points to.\<close>

definition decode_ptr :: "(jval \<Rightarrow> 'a \<Rightarrow> 'a option) \<Rightarrow> 'a \<Rightarrow> jval \<Rightarrow> 'a option \<Rightarrow> 'a option option" where
  "decode_ptr dec z v old =
     (if v = JNull then Some None
      else map_option Some (dec v (case old of None \<Rightarrow> z | Some x \<Rightarrow> x)))"

fun decode_u16 :: "jval \<Rightarrow> int \<Rightarrow> int option" where
  "decode_u16 JNull n = Some n"
| "decode_u16 (JInt m) n = (if 0 \<le> m \<and> m < 2 ^ 16 then Some m else None)"
| "decode_u16 _ n = None"

definition no_description :: Description where
  "no_description = \<lparr>de_Type = [], de_SDP = []\<rparr>"

definition no_candidate :: ICECandidate where
  "no_candidate = \<lparr>ic_Candidate = [], ic_SDPMid = None, ic_SDPMLineIndex = None, ic_UsernameFragment = None\<rparr>"

definition no_node :: sessionNode where
  "no_node = \<lparr>sn_ViewerUID = [], sn_OwnerUID = [], sn_Status = [], sn_Offer = None, sn_Answer = None,
     sn_HostCandidates = [], sn_ViewerCandidates = []\<rparr>"

definition put_description :: "string \<Rightarrow> jval \<Rightarrow> Description \<Rightarrow> Description option" where
  "put_description name v d =
     (if name = ''type'' then map_option (\<lambda>s. d\<lparr>de_Type := s\<rparr>) (decode_str v (de_Type d))
      else map_option (\<lambda>s. d\<lparr>de_SDP := s\<rparr>) (decode_str v (de_SDP d)))"

definition decode_Description :: "jval \<Rightarrow> Description \<Rightarrow> Description option" where
  "decode_Description = decode_struct [''type'', ''sdp''] put_description"

definition put_candidate :: "string \<Rightarrow> jval \<Rightarrow> ICECandidate \<Rightarrow> ICECandidate option" where
  "put_candidate name v c =
     (if name = ''candidate'' then map_option (\<lambda>s. c\<lparr>ic_Candidate := s\<rparr>) (decode_str v (ic_Candidate c))
      else if name = ''sdpMid'' then map_option (\<lambda>x. c\<lparr>ic_SDPMid := x\<rparr>) (decode_ptr decode_str [] v (ic_SDPMid c))
      else if name = ''sdpMLineIndex'' then map_option (\<lambda>x. c\<lparr>ic_SDPMLineIndex := x\<rparr>) (decode_ptr decode_u16 0 v (ic_SDPMLineIndex c))
      else map_option (\<lambda>x. c\<lparr>ic_UsernameFragment := x\<rparr>) (decode_ptr decode_str [] v (ic_UsernameFragment c)))"

definition decode_ICECandidate :: "jval \<Rightarrow> ICECandidate \<Rightarrow> ICECandidate option" where
  "decode_ICECandidate = decode_struct [''candidate'', ''sdpMid'', ''sdpMLineIndex'', ''usernameFragment''] put_candidate"

definition decode_candidates :: "jval \<Rightarrow> (string \<times> ICECandidate) list option" where
  "decode_candidates = decode_map decode_ICECandidate no_candidate"

text \<open>A map field keeps what an earlier duplicate of it had, and \<open>null\<close> clears it.\<close>

definition decode_onto :: "jval \<Rightarrow> (string \<times> ICECandidate) list \<Rightarrow> (string \<times> ICECandidate) list option" where
  "decode_onto v old =
     (case v of JNull \<Rightarrow> Some [] | JObj kvs \<Rightarrow> decode_pairs decode_ICECandidate no_candidate kvs old | _ \<Rightarrow> None)"

definition put_node :: "string \<Rightarrow> jval \<Rightarrow> sessionNode \<Rightarrow> sessionNode option" where
  "put_node name v n =
     (if name = ''viewerUid'' then map_option (\<lambda>s. n\<lparr>sn_ViewerUID := s\<rparr>) (decode_str v (sn_ViewerUID n))
      else if name = ''ownerUid'' then map_option (\<lambda>s. n\<lparr>sn_OwnerUID := s\<rparr>) (decode_str v (sn_OwnerUID n))
      else if name = ''status'' then map_option (\<lambda>s. n\<lparr>sn_Status := s\<rparr>) (decode_str v (sn_Status n))
      else if name = ''offer'' then map_option (\<lambda>x. n\<lparr>sn_Offer := x\<rparr>) (decode_ptr decode_Description no_description v (sn_Offer n))
      else if name = ''answer'' then map_option (\<lambda>x. n\<lparr>sn_Answer := x\<rparr>) (decode_ptr decode_Description no_description v (sn_Answer n))
      else if name = ''hostCandidates'' then map_option (\<lambda>m. n\<lparr>sn_HostCandidates := m\<rparr>) (decode_onto v (sn_HostCandidates n))
      else map_option (\<lambda>m. n\<lparr>sn_ViewerCandidates := m\<rparr>) (decode_onto v (sn_ViewerCandidates n)))"

definition decode_sessionNode :: "jval \<Rightarrow> sessionNode option" where
  "decode_sessionNode v =
     decode_struct [''viewerUid'', ''ownerUid'', ''status'', ''offer'', ''answer'', ''hostCandidates'', ''viewerCandidates''] put_node v no_node"

section \<open>The transport\<close>

record transport =
  tr_role :: Role
  tr_basePath :: string
  tr_snapshot :: "Snapshot option"
  tr_status :: "string list"
  tr_remoteDesc :: "Description option"
  tr_remoteCand :: "ICECandidate list"
  tr_gone :: bool
  tr_seenCand :: "string set"

definition NewRTDBTransport :: "string \<Rightarrow> Role \<Rightarrow> transport" where
  "NewRTDBTransport sessionID role =
     \<lparr>tr_role = role, tr_basePath = ''sessions/'' @ sessionID, tr_snapshot = None, tr_status = [],
      tr_remoteDesc = None, tr_remoteCand = [], tr_gone = False, tr_seenCand = {}\<rparr>"

definition localDescKey :: "transport \<Rightarrow> string" where
  "localDescKey t = (if tr_role t = Host then ''offer'' else ''answer'')"
definition remoteDescKey :: "transport \<Rightarrow> string" where
  "remoteDescKey t = (if tr_role t = Host then ''answer'' else ''offer'')"
definition localCandKey :: "transport \<Rightarrow> string" where
  "localCandKey t = (if tr_role t = Host then ''hostCandidates'' else ''viewerCandidates'')"
definition remoteCandKey :: "transport \<Rightarrow> string" where
  "remoteCandKey t = (if tr_role t = Host then ''viewerCandidates'' else ''hostCandidates'')"

definition markGone :: "transport \<Rightarrow> transport" where
  "markGone t = t\<lparr>tr_gone := True\<rparr>"

text \<open>The status channel holds 16 values; when it is full the oldest makes room.\<close>

definition status_cap :: nat where "status_cap = 16"

definition emitStatus :: "string \<Rightarrow> transport \<Rightarrow> transport" where
  "emitStatus status t =
     (if length (tr_status t) < status_cap then t\<lparr>tr_status := tr_status t @ [status]\<rparr>
      else t\<lparr>tr_status := tl (tr_status t) @ [status]\<rparr>)"

definition read_status :: "transport \<Rightarrow> transport" where
  "read_status t = t\<lparr>tr_status := tl (tr_status t)\<rparr>"

definition emitDescription :: "Description \<Rightarrow> transport \<Rightarrow> transport" where
  "emitDescription d t =
     (if de_Type d = [] \<or> de_SDP d = [] then t
      else if tr_remoteDesc t \<noteq> None then t
      else t\<lparr>tr_remoteDesc := Some d\<rparr>)"

text \<open>The send waits for room or for the end of the context; \<open>ended\<close>: the context ends first.\<close>

definition emitCandidate :: "bool \<Rightarrow> string \<Rightarrow> ICECandidate \<Rightarrow> transport \<Rightarrow> transport" where
  "emitCandidate ended key c t =
     (if ic_Candidate c = [] then t
      else if key \<in> tr_seenCand t then t
      else let t1 = t\<lparr>tr_seenCand := insert key (tr_seenCand t)\<rparr>
           in if ended then t1 else t1\<lparr>tr_remoteCand := tr_remoteCand t1 @ [c]\<rparr>)"

fun emitCandidates :: "bool \<Rightarrow> (string \<times> ICECandidate) list \<Rightarrow> transport \<Rightarrow> transport" where
  "emitCandidates ended [] t = t"
| "emitCandidates ended ((key, c) # cs) t = emitCandidates ended cs (emitCandidate ended key c t)"

definition pickRemote :: "transport \<Rightarrow> sessionNode \<Rightarrow> Description option" where
  "pickRemote t node = (if tr_role t = Host then sn_Answer node else sn_Offer node)"

definition pickRemoteCandidates :: "transport \<Rightarrow> sessionNode \<Rightarrow> (string \<times> ICECandidate) list" where
  "pickRemoteCandidates t node = (if tr_role t = Host then sn_ViewerCandidates node else sn_HostCandidates node)"

text \<open>The case \<open>path == "/"\<close> of \<open>route\<close>.\<close>

definition route_node :: "(nat \<Rightarrow> nat list) \<Rightarrow> bool \<Rightarrow> sessionNode \<Rightarrow> transport \<Rightarrow> transport" where
  "route_node perm ended node t =
     (let t1 = (if (sn_ViewerUID node \<noteq> [] \<or> sn_OwnerUID node \<noteq> []) \<and> tr_snapshot t = None
                then t\<lparr>tr_snapshot := Some \<lparr>snap_ViewerUID = sn_ViewerUID node, snap_OwnerUID = sn_OwnerUID node,
                        snap_Status = sn_Status node\<rparr>\<rparr>
                else t);
          t2 = (if sn_Status node \<noteq> [] then emitStatus (sn_Status node) t1 else t1);
          t3 = (case pickRemote t node of Some d \<Rightarrow> emitDescription d t2 | None \<Rightarrow> t2)
      in emitCandidates ended (map_order perm (pickRemoteCandidates t node)) t3)"

definition route :: "(nat \<Rightarrow> nat list) \<Rightarrow> bool \<Rightarrow> string \<Rightarrow> jval \<Rightarrow> transport \<Rightarrow> transport" where
  "route perm ended path data t =
     (let remoteDesc = ''/'' @ remoteDescKey t; remoteCand = ''/'' @ remoteCandKey t
      in if path = ''/'' then
           (case decode_sessionNode data of None \<Rightarrow> t | Some node \<Rightarrow> route_node perm ended node t)
         else if path = ''/status'' then
           (case decode_str data [] of Some s \<Rightarrow> if s \<noteq> [] then emitStatus s t else t | None \<Rightarrow> t)
         else if path = remoteDesc then
           (case decode_Description data no_description of Some d \<Rightarrow> emitDescription d t | None \<Rightarrow> t)
         else if path = remoteCand then
           (case decode_candidates data of Some cs \<Rightarrow> emitCandidates ended (map_order perm cs) t | None \<Rightarrow> t)
         else if has_prefix path (remoteCand @ ''/'') then
           (let key = trim_prefix path (remoteCand @ ''/'')
            in if CHR ''/'' \<in> set key then t
               else case decode_ICECandidate data no_candidate of Some c \<Rightarrow> emitCandidate ended key c t | None \<Rightarrow> t)
         else t)"

fun route_all :: "(nat \<Rightarrow> nat list) \<Rightarrow> bool \<Rightarrow> (string \<times> jval) list \<Rightarrow> transport \<Rightarrow> transport" where
  "route_all perm ended [] t = t"
| "route_all perm ended ((key, data) # kvs) t =
     route_all perm ended kvs (route perm ended (''/'' @ trim_both key ''/'') data t)"

text \<open>A patch decodes into raw messages, which any value is.\<close>

definition demux :: "(nat \<Rightarrow> nat list) \<Rightarrow> bool \<Rightarrow> StreamEvent \<Rightarrow> transport \<Rightarrow> transport" where
  "demux perm ended ev t =
     (case ev_Data ev of
        None \<Rightarrow> if ev_Path ev = ''/'' then markGone t else t
      | Some v \<Rightarrow>
          if v = JNull then (if ev_Path ev = ''/'' then markGone t else t)
          else if ev_Event ev = EventPatch \<and> ev_Path ev = ''/'' then
            (case decode_map (\<lambda>x _. Some x) JNull v of
               None \<Rightarrow> t
             | Some children \<Rightarrow> route_all perm ended (map_order perm children) t)
          else route perm ended (ev_Path ev) v t)"

section \<open>The reading loop\<close>

text \<open>What \<open>run\<close> meets: an event, the end of the stream, an attempt to reopen it, the end of the context.\<close>

datatype net_event = Ev StreamEvent | StreamEnd | Reopened | ReopenFailed rtdb_err | CtxDone

datatype loop_pc = Consuming | Reopening duration | Stopped

definition signal_minDelay :: duration where "signal_minDelay = 1 * second"
definition signal_maxDelay :: duration where "signal_maxDelay = 30 * second"

record loop =
  lp_pc :: loop_pc
  lp_delay :: duration
  lp_tr :: transport

text \<open>While reopening, each attempt is preceded by a pause of \<open>lp_delay\<close>.\<close>

definition loop_step :: "(nat \<Rightarrow> nat list) \<Rightarrow> net_event \<Rightarrow> loop \<Rightarrow> loop" where
  "loop_step perm ev l =
     (case lp_pc l of
        Stopped \<Rightarrow> l
      | Consuming \<Rightarrow>
          (case ev of
             Ev e \<Rightarrow>
               if ev_Event e = EventPut \<or> ev_Event e = EventPatch then l\<lparr>lp_tr := demux perm False e (lp_tr l)\<rparr>
               else if ev_Event e = EventAuthRevoked then l\<lparr>lp_pc := Reopening (lp_delay l)\<rparr>
               else if ev_Event e = EventCancel then l\<lparr>lp_pc := Stopped, lp_tr := markGone (lp_tr l)\<rparr>
               else l
           | StreamEnd \<Rightarrow> l\<lparr>lp_pc := Reopening (lp_delay l)\<rparr>
           | CtxDone \<Rightarrow> l\<lparr>lp_pc := Stopped\<rparr>
           | _ \<Rightarrow> l)
      | Reopening d \<Rightarrow>
          (case ev of
             Reopened \<Rightarrow> l\<lparr>lp_pc := Consuming, lp_delay := signal_minDelay\<rparr>
           | ReopenFailed e \<Rightarrow>
               if IsPermissionDenied e then l\<lparr>lp_pc := Stopped, lp_tr := markGone (lp_tr l)\<rparr>
               else let d' = min (lp_delay l * 2) signal_maxDelay in l\<lparr>lp_delay := d', lp_pc := Reopening d'\<rparr>
           | CtxDone \<Rightarrow> l\<lparr>lp_pc := Stopped\<rparr>
           | _ \<Rightarrow> l))"

section \<open>What is never undone\<close>

text \<open>\<open>later t u\<close>: \<open>u\<close> keeps everything \<open>t\<close> has done once and for all.\<close>

definition later :: "transport \<Rightarrow> transport \<Rightarrow> bool" where
  "later t u \<longleftrightarrow>
     tr_role u = tr_role t \<and> tr_seenCand t \<subseteq> tr_seenCand u
     \<and> (tr_snapshot t \<noteq> None \<longrightarrow> tr_snapshot u = tr_snapshot t)
     \<and> (tr_remoteDesc t \<noteq> None \<longrightarrow> tr_remoteDesc u = tr_remoteDesc t)
     \<and> (tr_gone t \<longrightarrow> tr_gone u)
     \<and> (\<exists>cs. tr_remoteCand u = tr_remoteCand t @ cs)"

lemma later_refl [simp, intro]: "later t t"
  by (simp add: later_def)

lemma later_trans: "later t u \<Longrightarrow> later u w \<Longrightarrow> later t w"
  by (auto simp: later_def)

lemma later_steps [intro, simp]:
  "later t (markGone t)" "later t (emitStatus s t)" "later t (emitDescription d t)" "later t (emitCandidate ended k c t)"
  by (auto simp: later_def markGone_def emitStatus_def emitDescription_def emitCandidate_def Let_def)

lemma later_emitCandidates: "later t (emitCandidates ended cs t)"
  by (induction ended cs t rule: emitCandidates.induct) (auto intro: later_trans)

lemma later_route_node: "later t (route_node perm ended node t)"
proof -
  let ?t1 = "if (sn_ViewerUID node \<noteq> [] \<or> sn_OwnerUID node \<noteq> []) \<and> tr_snapshot t = None
    then t\<lparr>tr_snapshot := Some \<lparr>snap_ViewerUID = sn_ViewerUID node, snap_OwnerUID = sn_OwnerUID node, snap_Status = sn_Status node\<rparr>\<rparr>
    else t"
  let ?t2 = "if sn_Status node \<noteq> [] then emitStatus (sn_Status node) ?t1 else ?t1"
  let ?t3 = "case pickRemote t node of Some d \<Rightarrow> emitDescription d ?t2 | None \<Rightarrow> ?t2"
  have "later t ?t1" by (simp add: later_def)
  moreover have "later ?t1 ?t2" by (cases "sn_Status node = []") simp_all
  moreover have "later ?t2 ?t3" by (cases "pickRemote t node") simp_all
  ultimately have "later t (emitCandidates ended (map_order perm (pickRemoteCandidates t node)) ?t3)"
    using later_emitCandidates later_trans by meson
  then show ?thesis by (simp only: route_node_def Let_def)
qed

lemma later_route: "later t (route perm ended path data t)"
  unfolding route_def Let_def
  by (intro later_refl later_steps later_emitCandidates later_route_node
      | simp split: option.split if_split add: later_route_node later_emitCandidates)+

lemma later_route_all: "later t (route_all perm ended kvs t)"
  by (induction perm ended kvs t rule: route_all.induct) (auto intro: later_trans later_route)

lemma later_demux: "later t (demux perm ended ev t)"
  by (auto simp: demux_def later_route later_route_all split: option.split)

lemma later_loop: "later (lp_tr l) (lp_tr (loop_step perm ev l))"
  by (auto simp: loop_step_def Let_def later_demux split: loop_pc.split net_event.split)

definition loop_run :: "(nat \<Rightarrow> nat list) \<Rightarrow> net_event list \<Rightarrow> loop \<Rightarrow> loop" where
  "loop_run perm evs l = foldl (\<lambda>l ev. loop_step perm ev l) l evs"

lemma later_run: "later (lp_tr l) (lp_tr (loop_run perm evs l))"
  unfolding loop_run_def
  by (induction evs arbitrary: l) (auto intro: later_trans later_loop)

section \<open>What a node delivers\<close>

lemma emitCandidates_seen:
  "tr_seenCand (emitCandidates ended cs t) = tr_seenCand t \<union> {k. \<exists>c. (k, c) \<in> set cs \<and> ic_Candidate c \<noteq> []}"
  by (induction ended cs t rule: emitCandidates.induct) (auto simp: emitCandidate_def Let_def)

lemma emitCandidates_old:
  "\<forall>(k, c) \<in> set cs. ic_Candidate c = [] \<or> k \<in> tr_seenCand t \<Longrightarrow> emitCandidates ended cs t = t"
proof (induction ended cs t rule: emitCandidates.induct)
  case (2 ended key c cs t)
  from 2(2) have "emitCandidate ended key c t = t" by (auto simp: emitCandidate_def)
  with 2 show ?case by simp
qed simp

lemma emit_status_frame:
  "tr_seenCand (emitStatus s t) = tr_seenCand t" "tr_remoteDesc (emitStatus s t) = tr_remoteDesc t"
  "tr_snapshot (emitStatus s t) = tr_snapshot t" "tr_remoteCand (emitStatus s t) = tr_remoteCand t"
  "tr_role (emitStatus s t) = tr_role t" "tr_gone (emitStatus s t) = tr_gone t"
  "tr_seenCand (emitDescription d t) = tr_seenCand t" "tr_snapshot (emitDescription d t) = tr_snapshot t"
  "tr_remoteCand (emitDescription d t) = tr_remoteCand t" "tr_gone (emitDescription d t) = tr_gone t"
  by (simp_all add: emitStatus_def emitDescription_def)

text \<open>The once-only parts, and the queue's newest value.\<close>

lemma emitStatus_newest: "last (tr_status (emitStatus s t)) = s" "tr_status t = [] \<Longrightarrow> tr_status (emitStatus s t) = [s]"
  by (simp_all add: emitStatus_def status_cap_def)

lemma emitStatus_bound: "length (tr_status t) \<le> status_cap \<Longrightarrow> length (tr_status (emitStatus s t)) \<le> status_cap"
  by (auto simp: emitStatus_def status_cap_def)

lemma route_node_frame:
  assumes "perm_ok perm"
  shows "tr_seenCand (route_node perm ended node t)
       = tr_seenCand t \<union> {k. \<exists>c. (k, c) \<in> set (pickRemoteCandidates t node) \<and> ic_Candidate c \<noteq> []}"
  using assms
  by (simp add: route_node_def Let_def emitCandidates_seen emit_status_frame split: option.split)

lemma emitCandidates_frame:
  "tr_snapshot (emitCandidates ended cs t) = tr_snapshot t" "tr_remoteDesc (emitCandidates ended cs t) = tr_remoteDesc t"
  "tr_gone (emitCandidates ended cs t) = tr_gone t"
  by (induction ended cs t rule: emitCandidates.induct) (simp_all add: emitCandidate_def Let_def)

lemma route_node_once:
  shows "sn_ViewerUID node \<noteq> [] \<or> sn_OwnerUID node \<noteq> [] \<Longrightarrow> tr_snapshot (route_node perm ended node t) \<noteq> None"
    and "pickRemote t node = Some d \<Longrightarrow> de_Type d \<noteq> [] \<Longrightarrow> de_SDP d \<noteq> [] \<Longrightarrow> tr_remoteDesc (route_node perm ended node t) \<noteq> None"
  by (simp_all add: route_node_def Let_def emitCandidates_frame emit_status_frame emitDescription_def split: option.split)

lemma route_node_again:
  assumes "perm_ok p" and "perm_ok q" and l: "later (route_node p ended node t) u"
  shows "tr_snapshot (route_node q ended' node u) = tr_snapshot u
       \<and> tr_remoteDesc (route_node q ended' node u) = tr_remoteDesc u
       \<and> tr_remoteCand (route_node q ended' node u) = tr_remoteCand u
       \<and> tr_gone (route_node q ended' node u) = tr_gone u"
proof -
  from later_route_node[of t p ended node] l have role: "tr_role u = tr_role t" by (simp add: later_def)
  then have pc: "pickRemoteCandidates u node = pickRemoteCandidates t node" and pr: "pickRemote u node = pickRemote t node"
    by (simp_all add: pickRemoteCandidates_def pickRemote_def)
  from l route_node_frame[OF assms(1), of ended node t]
  have seen: "\<forall>(k, c) \<in> set (map_order q (pickRemoteCandidates u node)). ic_Candidate c = [] \<or> k \<in> tr_seenCand u"
    using assms(2) by (auto simp: later_def pc)
  have snap: "sn_ViewerUID node = [] \<and> sn_OwnerUID node = [] \<or> tr_snapshot u \<noteq> None"
    using route_node_once(1)[of node p ended t] l by (fastforce simp: later_def)
  have desc: "case pickRemote t node of None \<Rightarrow> True | Some d \<Rightarrow> de_Type d = [] \<or> de_SDP d = [] \<or> tr_remoteDesc u \<noteq> None"
    using route_node_once(2)[of t node _ p ended] l by (fastforce simp: later_def split: option.split)
  define u2 where "u2 = (if sn_Status node \<noteq> [] then emitStatus (sn_Status node) u else u)"
  have u2: "tr_seenCand u2 = tr_seenCand u" "tr_remoteDesc u2 = tr_remoteDesc u" "tr_snapshot u2 = tr_snapshot u"
    "tr_remoteCand u2 = tr_remoteCand u" "tr_gone u2 = tr_gone u"
    by (simp_all add: u2_def emit_status_frame)
  have "(case pickRemote u node of Some d \<Rightarrow> emitDescription d u2 | None \<Rightarrow> u2) = u2"
    using desc by (auto simp: pr emitDescription_def u2 split: option.splits)
  moreover have "emitCandidates ended' (map_order q (pickRemoteCandidates u node)) u2 = u2"
    by (rule emitCandidates_old) (use seen in \<open>simp add: u2\<close>)
  moreover have "((sn_ViewerUID node \<noteq> [] \<or> sn_OwnerUID node \<noteq> []) \<and> tr_snapshot u = None) = False"
    using snap by auto
  then have "route_node q ended' node u = emitCandidates ended' (map_order q (pickRemoteCandidates u node))
      (case pickRemote u node of Some d \<Rightarrow> emitDescription d u2 | None \<Rightarrow> u2)"
    by (simp only: route_node_def Let_def if_False u2_def)
  ultimately have "route_node q ended' node u = u2" by simp
  with u2 show ?thesis by simp
qed

text \<open>A reconnect repeats nothing: whatever happened on the stream after the session node was read
  once, reading the same node again delivers no second snapshot, no second description and no
  candidate, in whatever order the entries are visited; and everything valid in the node had been
  marked as delivered the first time.\<close>

theorem resync_absorbed:
  assumes "perm_ok p" and "perm_ok q"
    and "u = lp_tr (loop_run r evs (l\<lparr>lp_tr := route p False ''/'' v t\<rparr>))"
  shows "tr_snapshot (route q False ''/'' v u) = tr_snapshot u
       \<and> tr_remoteDesc (route q False ''/'' v u) = tr_remoteDesc u
       \<and> tr_remoteCand (route q False ''/'' v u) = tr_remoteCand u
       \<and> tr_gone (route q False ''/'' v u) = tr_gone u"
proof -
  have l: "later (route p False ''/'' v t) u" using later_run[of "l\<lparr>lp_tr := route p False ''/'' v t\<rparr>" r evs] assms(3) by simp
  show ?thesis
  proof (cases "decode_sessionNode v")
    case None
    then show ?thesis by (simp add: route_def)
  next
    case (Some node)
    then have r: "route x False ''/'' v w = route_node x False node w" for x w by (simp add: route_def)
    from route_node_again[OF assms(1,2) l[unfolded r]] show ?thesis by (simp add: r)
  qed
qed

definition ex_node :: jval where
  "ex_node = JObj [(''viewerUid'', JStr ''v''), (''ownerUid'', JStr ''o''), (''status'', JStr ''waiting''),
     (''viewerCandidates'', JObj [(''k'', JObj [(''candidate'', JStr ''udp'')])])]"

lemma resync_absorbed_witness:
  "tr_remoteCand (route (\<lambda>n. [0..<n]) False ''/'' ex_node (route (\<lambda>n. [0..<n]) False ''/'' ex_node (NewRTDBTransport ''s'' Host)))
     = [\<lparr>ic_Candidate = ''udp'', ic_SDPMid = None, ic_SDPMLineIndex = None, ic_UsernameFragment = None\<rparr>]"
proof -
  let ?t = "NewRTDBTransport ''s'' Host" and ?p = "\<lambda>n. [0..<n]"
  have "tr_remoteCand (route ?p False ''/'' ex_node ?t)
      = [\<lparr>ic_Candidate = ''udp'', ic_SDPMid = None, ic_SDPMLineIndex = None, ic_UsernameFragment = None\<rparr>]"
    by code_simp
  moreover have "route ?p False ''/'' ex_node ?t =
      lp_tr (loop_run ?p [] (\<lparr>lp_pc = Consuming, lp_delay = 0, lp_tr = ?t\<rparr>\<lparr>lp_tr := route ?p False ''/'' ex_node ?t\<rparr>))"
    by (simp add: loop_run_def)
  ultimately show ?thesis using resync_absorbed[OF perm_ok_upt perm_ok_upt] by metis
qed

text \<open>From a new transport every key that was seen delivered one candidate.\<close>

lemma candidates_counted:
  "length (tr_remoteCand t) = card (tr_seenCand t) \<Longrightarrow> finite (tr_seenCand t) \<Longrightarrow>
   length (tr_remoteCand (emitCandidates False cs t)) = card (tr_seenCand (emitCandidates False cs t))"
proof (induction cs arbitrary: t)
  case (Cons kc cs)
  obtain k c where kc: "kc = (k, c)" by fastforce
  have "length (tr_remoteCand (emitCandidate False k c t)) = card (tr_seenCand (emitCandidate False k c t))"
    "finite (tr_seenCand (emitCandidate False k c t))"
    using Cons.prems by (auto simp: emitCandidate_def Let_def)
  from Cons.IH[OF this] show ?case by (simp add: kc)
qed simp

end
