(* ===== verification/Coordinator.thy ===== *)
theory Coordinator
  imports Approval Inbox Signaling
begin

text \<open>
  \<open>session/coordinator.go\<close>: the life of connection requests. Each request runs in its own goroutine,
  from the session node's snapshot to the cleanup; the goroutines share the one session slot and
  the count of refusals. A run's program counter stands between the points where it looks at what
  others may change; what the environment answers there (the transport, the operator, the peer)
  is an argument. What a run does to the outside is its trace.
\<close>

definition statusWaiting :: string where "statusWaiting = ''waiting''"
definition statusConnecting :: string where "statusConnecting = ''connecting''"
definition statusConnected :: string where "statusConnected = ''connected''"
definition statusEnded :: string where "statusEnded = ''ended''"

datatype action =
    AStatus string
  | ADeleteSession
  | ADeleteInbox
  | APrepare
  | APrompt Prompt
  | AAnswer Answer
  | AReport
  | AClipStart
  | ANegotiate
  | AStream
  | AReleaseInput
  | ACloseTransfers
  | AStopClip
  | AClosePeer

datatype snap_event = SnapArrived Snapshot | SnapGone | SnapTimeout | SnapCancelled

datatype pc = PStart | PSnap | PAcquire | PPrepare | PAsk | PRun | PLive | PFinish | PDefer | PEnd

text \<open>\<open>rn_clip\<close> and \<open>rn_released\<close> are the parts of \<open>live\<close> that \<open>release\<close> looks at.\<close>

record run =
  rn_req :: Request
  rn_pc :: pc
  rn_holds :: bool
  rn_clip :: bool
  rn_released :: bool
  rn_trace :: "action list"

record coordinator =
  co_ownerUID :: string
  co_clipboardMode :: string
  co_active :: bool
  co_unapproved :: int

text \<open>What the environment answers at the points a run may be at.\<close>

record answers =
  an_start_fails :: bool
  an_snap :: snap_event
  an_prepare_fails :: bool
  an_answer :: Answer
  an_withdrawn :: bool
  an_clip_fails :: bool
  an_negotiate_fails :: bool

definition new_run :: "Request \<Rightarrow> run" where
  "new_run req = \<lparr>rn_req = req, rn_pc = PStart, rn_holds = False, rn_clip = False, rn_released = False, rn_trace = []\<rparr>"

definition emit :: "action list \<Rightarrow> run \<Rightarrow> run" where
  "emit as r = r\<lparr>rn_trace := rn_trace r @ as\<rparr>"

definition goto :: "pc \<Rightarrow> run \<Rightarrow> run" where
  "goto p r = r\<lparr>rn_pc := p\<rparr>"

definition finish_actions :: "action list" where
  "finish_actions = [AStatus statusEnded, ADeleteSession, ADeleteInbox]"

text \<open>\<open>live.release\<close>, once.\<close>

definition live_release :: "run \<Rightarrow> run" where
  "live_release r =
     (if rn_released r then r
      else emit ([ACloseTransfers] @ (if rn_clip r then [AStopClip] else []) @ [AClosePeer]) (r\<lparr>rn_released := True\<rparr>))"

definition snap_matches :: "coordinator \<Rightarrow> Request \<Rightarrow> Snapshot \<Rightarrow> bool" where
  "snap_matches c req s \<longleftrightarrow>
     snap_ViewerUID s = req_ViewerUID req \<and> snap_OwnerUID s = co_ownerUID c \<and> snap_Status s = statusWaiting"

definition acquire :: "coordinator \<Rightarrow> bool \<times> coordinator" where
  "acquire c = (if co_active c then (False, c) else (True, c\<lparr>co_active := True\<rparr>))"

definition release_slot :: "coordinator \<Rightarrow> coordinator" where
  "release_slot c = c\<lparr>co_active := False\<rparr>"

text \<open>The question and what follows from it, up to the branch on the answer.\<close>

definition ask_operator :: "answers \<Rightarrow> coordinator \<Rightarrow> run \<Rightarrow> coordinator \<times> run" where
  "ask_operator an c r =
     (let approved = answer_OK (an_answer an);
          (limit, k) = noteConnectOutcome approved (co_unapproved c)
      in (c\<lparr>co_unapproved := k\<rparr>,
          emit ([APrompt (ConnectRequest (req_ViewerUID (rn_req r)) (co_clipboardMode c = ''text'')), AAnswer (an_answer an)]
                @ (if limit then [AReport] else [])) r))"

text \<open>\<open>Coordinator.run\<close>: the clipboard and the negotiation, and what follows once the connection is over.\<close>

definition session_connect :: "answers \<Rightarrow> coordinator \<Rightarrow> run \<Rightarrow> run" where
  "session_connect an c r =
     (let r1 = (if co_clipboardMode c = ''text'' \<and> \<not> an_clip_fails an then emit [AClipStart] (r\<lparr>rn_clip := True\<rparr>) else r);
          r2 = emit [ANegotiate] r1
      in if an_negotiate_fails an then goto PFinish (live_release r2)
         else goto PLive (emit [AStatus statusConnected, AStream] r2))"

definition session_over :: "run \<Rightarrow> run" where
  "session_over r = goto PFinish (live_release (emit [AReleaseInput] r))"

definition run_step :: "answers \<Rightarrow> coordinator \<Rightarrow> run \<Rightarrow> coordinator \<times> run" where
  "run_step an c r =
     (case rn_pc r of
        PStart \<Rightarrow> (c, goto (if an_start_fails an then PEnd else PSnap) r)
      | PSnap \<Rightarrow>
          (c, case an_snap an of
                SnapArrived s \<Rightarrow> goto (if snap_matches c (rn_req r) s then PAcquire else PEnd) r
              | _ \<Rightarrow> goto PEnd r)
      | PAcquire \<Rightarrow>
          (case acquire c of
             (False, c') \<Rightarrow> (c', goto PEnd (emit finish_actions r))
           | (True, c') \<Rightarrow> (c', goto PPrepare (emit [AStatus statusConnecting] (r\<lparr>rn_holds := True\<rparr>))))
      | PPrepare \<Rightarrow>
          (if an_prepare_fails an
           then (release_slot c, goto PEnd ((emit finish_actions r)\<lparr>rn_holds := False\<rparr>))
           else (c, goto PAsk (emit [APrepare] r)))
      | PAsk \<Rightarrow>
          (case ask_operator an c r of
             (c', r') \<Rightarrow>
               (c', if an_withdrawn an then goto PFinish r'
                    else if \<not> answer_OK (an_answer an) then goto PFinish r'
                    else goto PRun r'))
      | PRun \<Rightarrow> (c, session_connect an c r)
      | PLive \<Rightarrow> (c, session_over r)
      | PFinish \<Rightarrow> (c, goto PDefer (emit finish_actions r))
      | PDefer \<Rightarrow> (release_slot c, goto PEnd ((live_release r)\<lparr>rn_holds := False\<rparr>))
      | PEnd \<Rightarrow> (c, r))"

inductive co_step :: "coordinator \<times> run list \<Rightarrow> coordinator \<times> run list \<Rightarrow> bool" where
  arrive: "co_step (c, rs) (c, rs @ [new_run req])"
| advance: "run_step an c r = (c', r') \<Longrightarrow> co_step (c, xs @ r # ys) (c', xs @ r' # ys)"

inductive_cases co_stepE: "co_step (c, rs) st'"

definition co_init :: "string \<Rightarrow> string \<Rightarrow> coordinator" where
  "co_init owner clip = \<lparr>co_ownerUID = owner, co_clipboardMode = clip, co_active = False, co_unapproved = 0\<rparr>"

definition co_reach :: "string \<Rightarrow> string \<Rightarrow> coordinator \<Rightarrow> run list \<Rightarrow> bool" where
  "co_reach owner clip c rs \<longleftrightarrow> co_step\<^sup>*\<^sup>* (co_init owner clip, []) (c, rs)"

section \<open>Traces\<close>

text \<open>What must not happen before a yes.\<close>

definition needs_yes :: "action \<Rightarrow> bool" where
  "needs_yes a \<longleftrightarrow> a = ANegotiate \<or> a = AClipStart \<or> a = AStream \<or> a = AStatus statusConnected"

fun guarded :: "bool \<Rightarrow> action list \<Rightarrow> bool" where
  "guarded ok [] = True"
| "guarded ok (a # as) = ((needs_yes a \<longrightarrow> ok) \<and> guarded (ok \<or> a = AAnswer Allowed) as)"

lemma guarded_append: "guarded ok (xs @ ys) \<longleftrightarrow> guarded ok xs \<and> guarded (ok \<or> AAnswer Allowed \<in> set xs) ys"
proof (induction xs arbitrary: ok)
  case (Cons x xs)
  show ?case by (cases "x = AAnswer Allowed"; cases ok) (auto simp: Cons)
qed simp

lemma guarded_nth:
  "guarded ok xs \<Longrightarrow> k < length xs \<Longrightarrow> needs_yes (xs ! k) \<Longrightarrow> ok \<or> AAnswer Allowed \<in> set (take k xs)"
proof (induction xs arbitrary: ok k)
  case (Cons x xs)
  show ?case
  proof (cases k)
    case 0
    with Cons.prems show ?thesis by simp
  next
    case (Suc j)
    with Cons.prems Cons.IH[of "ok \<or> x = AAnswer Allowed" j] show ?thesis by auto
  qed
qed simp

definition holding :: "pc \<Rightarrow> bool" where
  "holding p \<longleftrightarrow> p \<in> {PPrepare, PAsk, PRun, PLive, PFinish, PDefer}"

definition run_ok :: "run \<Rightarrow> bool" where
  "run_ok r \<longleftrightarrow>
     guarded False (rn_trace r)
     \<and> (rn_pc r \<in> {PRun, PLive} \<longrightarrow> AAnswer Allowed \<in> set (rn_trace r))
     \<and> rn_holds r = holding (rn_pc r)
     \<and> count_list (rn_trace r) AClosePeer = (if rn_released r then 1 else 0)
     \<and> count_list (rn_trace r) APrepare \<le> 1
     \<and> (rn_pc r \<in> {PStart, PSnap, PAcquire} \<longrightarrow> rn_trace r = [])
     \<and> (rn_released r \<longrightarrow> rn_pc r \<in> {PFinish, PDefer, PEnd})
     \<and> (rn_released r \<longrightarrow> APrepare \<in> set (rn_trace r))
     \<and> (rn_pc r \<in> {PAsk, PRun, PLive, PFinish, PDefer} \<longrightarrow> APrepare \<in> set (rn_trace r))
     \<and> (rn_pc r = PPrepare \<longrightarrow> APrepare \<notin> set (rn_trace r))
     \<and> (rn_pc r = PEnd \<longrightarrow> (APrepare \<in> set (rn_trace r) \<longleftrightarrow> rn_released r))
     \<and> count_list (rn_trace r) ADeleteSession = (if rn_pc r = PDefer \<or> rn_pc r = PEnd \<and> rn_trace r \<noteq> [] then 1 else 0)"

lemmas run_unfold =
  run_step_def emit_def goto_def finish_actions_def live_release_def acquire_def release_slot_def ask_operator_def

lemma count_list_append' [simp]: "count_list (xs @ ys) a = count_list xs a + count_list ys a"
  by (induction xs) auto

lemma count_zero [simp]: "a \<notin> set xs \<Longrightarrow> count_list xs a = 0"
  by (induction xs) auto

lemma statuses_differ [simp]: "statusConnecting \<noteq> statusConnected" "statusEnded \<noteq> statusConnected"
  by (simp_all add: statusConnecting_def statusConnected_def statusEnded_def)

text \<open>Emitting actions, and releasing, in terms of the invariant's parts.\<close>

lemma run_sel [simp]:
  "rn_trace (emit as r) = rn_trace r @ as" "rn_pc (emit as r) = rn_pc r" "rn_holds (emit as r) = rn_holds r"
  "rn_clip (emit as r) = rn_clip r" "rn_released (emit as r) = rn_released r" "rn_req (emit as r) = rn_req r"
  "rn_trace (goto p r) = rn_trace r" "rn_pc (goto p r) = p" "rn_holds (goto p r) = rn_holds r"
  "rn_clip (goto p r) = rn_clip r" "rn_released (goto p r) = rn_released r" "rn_req (goto p r) = rn_req r"
  by (simp_all add: emit_def goto_def)

lemma live_release_sel [simp]:
  "rn_pc (live_release r) = rn_pc r" "rn_holds (live_release r) = rn_holds r" "rn_released (live_release r)"
  "rn_trace (live_release r) = rn_trace r @ (if rn_released r then []
     else ACloseTransfers # (if rn_clip r then [AStopClip] else []) @ [AClosePeer])"
  by (simp_all add: live_release_def)

lemma needs_yes_simps [simp]:
  "needs_yes ANegotiate" "needs_yes AClipStart" "needs_yes AStream" "needs_yes (AStatus statusConnected)"
  "\<not> needs_yes (AStatus statusConnecting)" "\<not> needs_yes (AStatus statusEnded)" "\<not> needs_yes ADeleteSession"
  "\<not> needs_yes ADeleteInbox" "\<not> needs_yes APrepare" "\<not> needs_yes (APrompt p)" "\<not> needs_yes (AAnswer a)"
  "\<not> needs_yes AReport" "\<not> needs_yes AReleaseInput" "\<not> needs_yes ACloseTransfers" "\<not> needs_yes AStopClip"
  "\<not> needs_yes AClosePeer"
  by (simp_all add: needs_yes_def)

lemma ask_operator_cases:
  assumes "ask_operator an c r = (c', r')"
  shows "co_active c' = co_active c" and "rn_pc r' = rn_pc r" and "rn_holds r' = rn_holds r"
    and "rn_released r' = rn_released r" and "rn_clip r' = rn_clip r"
    and "\<exists>p rep. rn_trace r' = rn_trace r @ APrompt p # AAnswer (an_answer an) # rep \<and> set rep \<subseteq> {AReport}"
  using assms by (auto simp: ask_operator_def Let_def split: prod.splits)

lemma guarded_report: "set rep \<subseteq> {AReport} \<Longrightarrow> guarded ok rep"
  by (induction rep arbitrary: ok) auto

lemma run_step_ask:
  assumes ok: "run_ok r" and pc: "rn_pc r = PAsk" and st: "run_step an c r = (c', r')"
  shows "run_ok r'"
proof -
  obtain c1 r1 where a: "ask_operator an c r = (c1, r1)" by fastforce
  from ask_operator_cases(6)[OF a] obtain p rep where
    t: "rn_trace r1 = rn_trace r @ APrompt p # AAnswer (an_answer an) # rep" and rep: "set rep \<subseteq> {AReport}" by blast
  have rr: "guarded k rep" "AClosePeer \<notin> set rep" "APrepare \<notin> set rep" "ADeleteSession \<notin> set rep" for k
    using rep guarded_report by auto
  from st pc a have r': "r' = goto (if an_withdrawn an \<or> \<not> answer_OK (an_answer an) then PFinish else PRun) r1"
    by (auto simp: run_step_def split: if_splits)
  from ok pc ask_operator_cases(3-5)[OF a] rr show ?thesis
    by (auto simp: run_ok_def r' t guarded_append holding_def answer_OK_def)
qed

lemma run_step_run:
  assumes ok: "run_ok r" and pc: "rn_pc r = PRun" and st: "run_step an c r = (c', r')"
  shows "run_ok r'"
proof -
  define clip where "clip = (co_clipboardMode c = ''text'' \<and> \<not> an_clip_fails an)"
  define r1 where "r1 = (if clip then emit [AClipStart] (r\<lparr>rn_clip := True\<rparr>) else r)"
  have r1: "rn_trace r1 = rn_trace r @ (if clip then [AClipStart] else [])" "rn_holds r1 = rn_holds r"
    "rn_released r1 = rn_released r"
    by (simp_all add: r1_def)
  have yes: "AAnswer Allowed \<in> set (rn_trace r)" "\<not> rn_released r" "rn_holds r" "APrepare \<in> set (rn_trace r)"
    "guarded False (rn_trace r)" "count_list (rn_trace r) AClosePeer = 0" "count_list (rn_trace r) APrepare \<le> 1"
    "count_list (rn_trace r) ADeleteSession = 0"
    using ok pc by (auto simp: run_ok_def holding_def)
  have "r' = (if an_negotiate_fails an then goto PFinish (live_release (emit [ANegotiate] r1))
      else goto PLive (emit [AStatus statusConnected, AStream] (emit [ANegotiate] r1)))"
  proof -
    have "run_step an c r = (c, if an_negotiate_fails an then goto PFinish (live_release (emit [ANegotiate] r1))
      else goto PLive (emit [AStatus statusConnected, AStream] (emit [ANegotiate] r1)))"
      unfolding run_step_def session_connect_def pc r1_def clip_def Let_def by (simp del: run_sel live_release_sel)
    with st show ?thesis by simp
  qed
  then show ?thesis
    using yes by (cases "an_negotiate_fails an") (simp_all add: run_ok_def r1 guarded_append holding_def)
qed

lemma run_step_ok:
  assumes ok: "run_ok r" and st: "run_step an c r = (c', r')"
  shows "run_ok r'"
proof (cases "rn_pc r")
  case PStart
  with st have "r' = goto (if an_start_fails an then PEnd else PSnap) r" by (simp add: run_step_def)
  with ok PStart show ?thesis by (simp add: run_ok_def holding_def)
next
  case PSnap
  with st have "r' = goto PAcquire r \<or> r' = goto PEnd r"
    by (auto simp: run_step_def split: snap_event.splits if_split_asm)
  with ok PSnap show ?thesis by (elim disjE) (simp_all add: run_ok_def holding_def)
next
  case PAcquire
  with st have "r' = goto PEnd (emit finish_actions r)
      \<or> r' = goto PPrepare (emit [AStatus statusConnecting] (r\<lparr>rn_holds := True\<rparr>))"
    by (auto simp: run_step_def acquire_def split: if_split_asm)
  with ok PAcquire show ?thesis
    by (elim disjE) (simp_all add: run_ok_def holding_def finish_actions_def)
next
  case PPrepare
  with st have "r' = goto PEnd ((emit finish_actions r)\<lparr>rn_holds := False\<rparr>) \<or> r' = goto PAsk (emit [APrepare] r)"
    by (auto simp: run_step_def split: if_split_asm)
  with ok PPrepare show ?thesis
    by (elim disjE) (simp_all add: run_ok_def holding_def finish_actions_def guarded_append)
next
  case PAsk
  from run_step_ask[OF ok this st] show ?thesis .
next
  case PRun
  from run_step_run[OF ok this st] show ?thesis .
next
  case PLive
  with st have "r' = goto PFinish (live_release (emit [AReleaseInput] r))" by (simp add: run_step_def session_over_def)
  with ok PLive show ?thesis by (simp add: run_ok_def holding_def guarded_append)
next
  case PFinish
  with st have "r' = goto PDefer (emit finish_actions r)" by (simp add: run_step_def)
  with ok PFinish show ?thesis by (simp add: run_ok_def holding_def finish_actions_def guarded_append)
next
  case PDefer
  with st have "r' = goto PEnd ((live_release r)\<lparr>rn_holds := False\<rparr>)" by (simp add: run_step_def)
  moreover have "rn_trace r \<noteq> []" using ok PDefer by (auto simp: run_ok_def)
  ultimately show ?thesis using ok PDefer by (simp add: run_ok_def holding_def guarded_append)
next
  case PEnd
  with assms show ?thesis by (simp add: run_step_def)
qed

lemma run_step_slot:
  assumes "run_ok r" and "run_step an c r = (c', r')"
  shows "rn_holds r' = rn_holds r \<and> co_active c' = co_active c
     \<or> \<not> rn_holds r \<and> rn_holds r' \<and> \<not> co_active c \<and> co_active c'
     \<or> rn_holds r \<and> \<not> rn_holds r' \<and> \<not> co_active c'"
proof -
  from assms(1) have h: "rn_holds r = holding (rn_pc r)" by (simp add: run_ok_def)
  from assms(2) show ?thesis
  proof (cases "rn_pc r")
    case PAsk
    obtain c1 r1 where a: "ask_operator an c r = (c1, r1)" by fastforce
    with assms(2) PAsk ask_operator_cases(1,3)[OF a] show ?thesis by (auto simp: run_step_def split: if_splits)
  next
    case PSnap
    with assms(2) show ?thesis by (auto simp: run_step_def goto_def split: snap_event.splits if_splits)
  next
    case PAcquire
    with assms(2) h show ?thesis by (auto simp: run_step_def acquire_def holding_def split: if_splits)
  next
    case PRun
    with assms(2) have "rn_holds r' = rn_holds r" "c' = c"
      by (auto simp: run_step_def session_connect_def Let_def split: if_split_asm)
    then show ?thesis by simp
  qed (use h in \<open>auto simp: run_step_def session_over_def holding_def release_slot_def split: if_splits\<close>)
qed

definition co_inv :: "coordinator \<times> run list \<Rightarrow> bool" where
  "co_inv st \<longleftrightarrow> list_all run_ok (snd st) \<and> length (filter rn_holds (snd st)) = (if co_active (fst st) then 1 else 0)"

lemma co_step_inv: "co_step st st' \<Longrightarrow> co_inv st \<Longrightarrow> co_inv st'"
proof (induction rule: co_step.induct)
  case (arrive c rs req)
  have "run_ok (new_run req)" by (simp add: run_ok_def new_run_def holding_def)
  with arrive show ?case by (simp add: co_inv_def new_run_def)
next
  case (advance an c r c' r' xs ys)
  from advance.prems have ok: "run_ok r" by (simp add: co_inv_def)
  with advance show ?case
    using run_step_ok[OF ok advance.hyps] run_step_slot[OF ok advance.hyps]
    by (auto simp: co_inv_def split: if_splits)
qed

lemma co_reach_inv: "co_reach owner clip c rs \<Longrightarrow> co_inv (c, rs)"
  unfolding co_reach_def
proof (induction "(c, rs)" arbitrary: c rs rule: rtranclp_induct)
  case base
  then show ?case by (simp add: co_inv_def co_init_def)
next
  case (step y c rs)
  then show ?case by (cases y) (auto intro: co_step_inv)
qed

section \<open>What holds of every request\<close>

text \<open>C4: nothing of a session reaches the viewer, and nothing of the clipboard is read, before the
  operator's yes to this request: publishing candidates and negotiating, starting the clipboard,
  streaming the screen and announcing \<open>connected\<close> all come after an answer \<open>Allowed\<close> in the run's
  trace, in every interleaving of requests.\<close>

theorem nothing_before_yes:
  assumes "co_reach owner clip c rs" and "r \<in> set rs" and "k < length (rn_trace r)"
    and "rn_trace r ! k \<in> {ANegotiate, AClipStart, AStream, AStatus ''connected''}"
  shows "AAnswer Allowed \<in> set (take k (rn_trace r))"
proof -
  from co_reach_inv[OF assms(1)] assms(2) have "guarded False (rn_trace r)"
    by (auto simp: co_inv_def list_all_iff run_ok_def)
  from guarded_nth[OF this assms(3)] assms(4) show ?thesis by (auto simp: needs_yes_def statusConnected_def)
qed

text \<open>C5: one session at a time: in every reachable state at most one request holds the session slot,
  and the slot is marked taken exactly while one does, so it is always given back.\<close>

theorem one_session:
  assumes "co_reach owner clip c rs"
  shows "length (filter rn_holds rs) = (if co_active c then 1 else 0)
     \<and> (\<forall>r \<in> set rs. rn_holds r \<longleftrightarrow> rn_pc r \<in> {PPrepare, PAsk, PRun, PLive, PFinish, PDefer})"
  using co_reach_inv[OF assms] by (auto simp: co_inv_def list_all_iff run_ok_def holding_def)

text \<open>A request that is over has released its peer connection exactly once if it ever prepared
  one, and never otherwise, and has removed its session node exactly once if it did anything
  at all.\<close>

theorem released_once:
  assumes "co_reach owner clip c rs" and "r \<in> set rs" and "rn_pc r = PEnd"
  shows "count_list (rn_trace r) AClosePeer = count_list (rn_trace r) APrepare
     \<and> count_list (rn_trace r) ADeleteSession = (if rn_trace r = [] then 0 else 1)"
proof -
  from co_reach_inv[OF assms(1)] assms(2) have ok: "run_ok r" by (auto simp: co_inv_def list_all_iff)
  have "APrepare \<in> set (rn_trace r) \<longleftrightarrow> count_list (rn_trace r) APrepare \<noteq> 0"
    by (simp add: count_list_0_iff)
  moreover from ok assms(3) have "count_list (rn_trace r) AClosePeer = (if rn_released r then 1 else 0)"
    "count_list (rn_trace r) APrepare \<le> 1" "APrepare \<in> set (rn_trace r) \<longleftrightarrow> rn_released r"
    "count_list (rn_trace r) ADeleteSession = (if rn_trace r = [] then 0 else 1)"
    unfolding run_ok_def by simp_all
  ultimately show ?thesis by (cases "rn_released r") auto
qed

text \<open>A request that is approved and one that arrives meanwhile.\<close>

definition ex_answers :: answers where
  "ex_answers = \<lparr>an_start_fails = False, an_snap = SnapArrived \<lparr>snap_ViewerUID = ''v'', snap_OwnerUID = ''o'', snap_Status = ''waiting''\<rparr>,
     an_prepare_fails = False, an_answer = Allowed, an_withdrawn = False, an_clip_fails = False, an_negotiate_fails = False\<rparr>"

fun run_steps :: "answers \<Rightarrow> nat list \<Rightarrow> coordinator \<times> run list \<Rightarrow> coordinator \<times> run list" where
  "run_steps an [] st = st"
| "run_steps an (i # is) (c, rs) =
     (if i < length rs then
        (case run_step an c (rs ! i) of (c', r') \<Rightarrow> run_steps an is (c', take i rs @ r' # drop (Suc i) rs))
      else run_steps an is (c, rs @ [new_run \<lparr>req_ID = ''s'', req_ViewerUID = ''v'', req_Code = ''123456'', req_CreatedAt = 0\<rparr>]))"

lemma run_steps_reach: "co_step\<^sup>*\<^sup>* st (run_steps an is st)"
proof (induction an "is" st rule: run_steps.induct)
  case (2 an i "is" c rs)
  show ?case
  proof (cases "i < length rs")
    case True
    obtain c' r' where st: "run_step an c (rs ! i) = (c', r')" by fastforce
    have "co_step (c, take i rs @ rs ! i # drop (Suc i) rs) (c', take i rs @ r' # drop (Suc i) rs)"
      by (rule co_step.advance[OF st])
    then have "co_step (c, rs) (c', take i rs @ r' # drop (Suc i) rs)" using True by (simp add: id_take_nth_drop[symmetric])
    with "2.IH"(1)[OF True st[symmetric]] True st show ?thesis by (simp add: converse_rtranclp_into_rtranclp)
  next
    case False
    let ?new = "new_run \<lparr>req_ID = ''s'', req_ViewerUID = ''v'', req_Code = ''123456'', req_CreatedAt = 0\<rparr>"
    from False have "run_steps an (i # is) (c, rs) = run_steps an is (c, rs @ [?new])" by simp
    with "2.IH"(2)[OF False] co_step.arrive[of c rs "\<lparr>req_ID = ''s'', req_ViewerUID = ''v'', req_Code = ''123456'', req_CreatedAt = 0\<rparr>"]
    show ?thesis by (metis converse_rtranclp_into_rtranclp)
  qed
qed simp

definition ex_co :: "coordinator \<times> run list" where
  "ex_co = run_steps ex_answers [0, 0, 0, 0, 1, 0, 1, 1, 1, 0, 0, 0, 0, 0] (co_init ''o'' ''text'', [])"

lemma ex_co_reach: "co_reach ''o'' ''text'' (fst ex_co) (snd ex_co)"
  unfolding co_reach_def ex_co_def using run_steps_reach[of "(co_init ''o'' ''text'', [])"] by (simp only: prod.collapse)

lemma ex_co_run:
  "length (snd ex_co) = 2" "rn_trace (snd ex_co ! 0) ! 6 = AStatus ''connected''" "length (rn_trace (snd ex_co ! 0)) = 15"
  "rn_pc (snd ex_co ! 0) = PEnd" "rn_trace (snd ex_co ! 1) = finish_actions"
  by code_simp+

lemma nothing_before_yes_witness:
  "AAnswer Allowed \<in> set (take 6 (rn_trace (snd ex_co ! 0)))"
  by (rule nothing_before_yes[OF ex_co_reach]) (simp_all add: ex_co_run)

lemma one_session_witness: "length (filter rn_holds (snd ex_co)) \<le> 1"
  using one_session[OF ex_co_reach] by simp

lemma released_once_witness:
  "count_list (rn_trace (snd ex_co ! 0)) AClosePeer = count_list (rn_trace (snd ex_co ! 0)) APrepare"
  using released_once[OF ex_co_reach, of "snd ex_co ! 0"] by (simp add: ex_co_run)

section \<open>Streaming the screen\<close>

definition captureGapCap :: duration where "captureGapCap = 5 * second"
definition captureRetryBackoff :: duration where "captureRetryBackoff = 1 * second"

text \<open>A sample written to the track: an empty one that moves the media clock, or a frame.\<close>

datatype sample = Advance duration | FrameData string

text \<open>One pass of \<open>pumpFrames\<close>: the frame, the clock when it is taken and when it is written, and whether
  the two writes succeed.\<close>

record frame_in =
  fi_elapsed :: duration
  fi_data :: string
  fi_now :: instant
  fi_done :: instant
  fi_advance_ok :: bool
  fi_write_ok :: bool

definition frame_gap :: "bool \<Rightarrow> instant option \<Rightarrow> frame_in \<Rightarrow> duration" where
  "frame_gap first lastFrameAt f =
     (if first then (case lastFrameAt of None \<Rightarrow> fi_elapsed f | Some t \<Rightarrow> min (fi_now f - t) captureGapCap)
      else fi_elapsed f)"

text \<open>The samples written, the time of the last frame, and whether a write failed.\<close>

fun pumpFrames :: "bool \<Rightarrow> instant option \<Rightarrow> frame_in list \<Rightarrow> sample list \<times> instant option \<times> bool" where
  "pumpFrames first lastFrameAt [] = ([], lastFrameAt, False)"
| "pumpFrames first lastFrameAt (f # fs) =
     (let elapsed = frame_gap first lastFrameAt f;
          adv = (if 0 < elapsed then [Advance elapsed] else [])
      in if 0 < elapsed \<and> \<not> fi_advance_ok f then ([], lastFrameAt, True)
         else if \<not> fi_write_ok f then (adv, lastFrameAt, True)
         else (case pumpFrames False (Some (fi_done f)) fs of
                 (ss, l, failed) \<Rightarrow> (adv @ [FrameData (fi_data f)] @ ss, l, failed)))"

text \<open>\<open>streamScreen\<close>: each attempt is a capture that does not start (and whether the context ends during
  the pause), or one that runs (its frames, and whether the context has ended when it stops or
  during the pause). The result: the samples of the session, and whether it gave up.\<close>

datatype attempt = StartFails bool | Runs "frame_in list" bool

datatype stream_end = GaveUp | WriteFailed | ContextEnded | StillRunning

fun streamScreen :: "bool \<Rightarrow> instant option \<Rightarrow> attempt list \<Rightarrow> sample list \<times> stream_end" where
  "streamScreen started lastFrameAt [] = ([], StillRunning)"
| "streamScreen started lastFrameAt (StartFails ended # rest) =
     (if \<not> started then ([], GaveUp)
      else if ended then ([], ContextEnded)
      else streamScreen started lastFrameAt rest)"
| "streamScreen started lastFrameAt (Runs frames ended # rest) =
     (case pumpFrames True lastFrameAt frames of
        (ss, l, failed) \<Rightarrow>
          if failed then (ss, WriteFailed)
          else if ended then (ss, ContextEnded)
          else (case streamScreen True l rest of (ss', e) \<Rightarrow> (ss @ ss', e)))"

definition sample_time :: "sample \<Rightarrow> duration" where
  "sample_time s = (case s of Advance d \<Rightarrow> d | FrameData _ \<Rightarrow> 0)"

fun frame_data :: "sample list \<Rightarrow> string list" where
  "frame_data [] = []"
| "frame_data (FrameData d # ss) = d # frame_data ss"
| "frame_data (Advance _ # ss) = frame_data ss"

lemma frame_data_append [simp]: "frame_data (xs @ ys) = frame_data xs @ frame_data ys"
  by (induction xs rule: frame_data.induct) auto

text \<open>While no write fails, every frame is written once, in order, and the media clock advances by the
  frames' own gaps, the first by the time since the last frame of the capture before it, capped.\<close>

lemma pumpFrames_clock:
  assumes "pumpFrames first l fs = (ss, l', False)" and "\<forall>f \<in> set fs. 0 \<le> fi_elapsed f"
    and "case l of None \<Rightarrow> True | Some t \<Rightarrow> \<forall>f \<in> set fs. t \<le> fi_now f"
  shows "frame_data ss = map fi_data fs"
    and "sum_list (map sample_time ss) =
      (case fs of [] \<Rightarrow> 0 | f # rest \<Rightarrow> frame_gap first l f + sum_list (map fi_elapsed rest))"
proof -
  have nf: "pumpFrames False l fs = (ss, l', False) \<Longrightarrow> \<forall>f \<in> set fs. 0 \<le> fi_elapsed f \<Longrightarrow>
      frame_data ss = map fi_data fs \<and> sum_list (map sample_time ss) = sum_list (map fi_elapsed fs)" for l fs ss l'
    by (induction fs arbitrary: l ss)
       (auto simp: Let_def frame_gap_def sample_time_def split: if_splits prod.splits)
  have "frame_data ss = map fi_data fs \<and> sum_list (map sample_time ss) =
      (case fs of [] \<Rightarrow> 0 | f # rest \<Rightarrow> frame_gap first l f + sum_list (map fi_elapsed rest))"
  proof (cases fs)
    case Nil
    with assms(1) show ?thesis by simp
  next
    case (Cons f rest)
    obtain ss1 l1 where r: "pumpFrames False (Some (fi_done f)) rest = (ss1, l1, False)"
      and ss: "ss = (if 0 < frame_gap first l f then [Advance (frame_gap first l f)] else []) @ [FrameData (fi_data f)] @ ss1"
      using assms(1) Cons by (auto simp: Let_def split: if_splits prod.splits)
    have g: "0 \<le> frame_gap first l f"
      using assms(2,3) Cons by (auto simp: frame_gap_def captureGapCap_def time_units split: option.splits)
    from nf[OF r] assms(2) Cons ss g show ?thesis by (auto simp: sample_time_def)
  qed
  then show "frame_data ss = map fi_data fs" "sum_list (map sample_time ss) =
      (case fs of [] \<Rightarrow> 0 | f # rest \<Rightarrow> frame_gap first l f + sum_list (map fi_elapsed rest))" by auto
qed

text \<open>The stream is given up only when the very first capture cannot start.\<close>

lemma streamScreen_keeps_trying:
  "snd (streamScreen True l as) \<noteq> GaveUp"
proof (induction as arbitrary: l)
  case (Cons a as)
  show ?case
  proof (cases a)
    case (Runs frames ended)
    obtain ss l' failed where p: "pumpFrames True l frames = (ss, l', failed)" by (metis prod_cases3)
    with Cons[of l'] Runs show ?thesis by (auto split: prod.splits)
  qed (use Cons in auto)
qed simp

end
