(* ===== verification/Floats.thy ===== *)
theory Floats
  imports Prelude Complex_Main "HOL-Library.Log_Nat"
begin

text \<open>
  The \<open>float64\<close> arithmetic the source does: values are rationals, and an operation's result is
  rounded to 53 significant bits, ties to even. Overflow, subnormal results and NaN do not arise
  in the places modelled: the operands are screen sizes, fractions of them and small counts.
\<close>

definition rat_round_even :: "rat \<Rightarrow> int" where
  "rat_round_even y =
     (let q = \<lfloor>y\<rfloor>; r = y - of_int q
      in if r < 1 / 2 then q else if 1 / 2 < r then q + 1 else if even q then q else q + 1)"

definition rat_pow2 :: "int \<Rightarrow> rat" where
  "rat_pow2 e = (if 0 \<le> e then 2 ^ nat e else 1 / 2 ^ nat (- e))"

text \<open>The weight of the last bit of a positive number \<open>x = a / b\<close>: the difference of the bit lengths is
  one more than the exponent of \<open>x\<close>, or equal to it.\<close>

definition f64_ulp_exp :: "rat \<Rightarrow> int" where
  "f64_ulp_exp x =
     (case quotient_of x of
        (a, b) \<Rightarrow>
          let k = bitlen a - bitlen b
          in (if rat_pow2 k \<le> x then k else k - 1) - 52)"

definition f64_round :: "rat \<Rightarrow> rat" where
  "f64_round x =
     (if x = 0 then 0
      else let u = rat_pow2 (f64_ulp_exp \<bar>x\<bar>) in sgn x * (of_int (rat_round_even (\<bar>x\<bar> / u)) * u))"

lemma rat_round_even_le: "y \<le> of_int n \<Longrightarrow> rat_round_even y \<le> n"
proof -
  assume y: "y \<le> of_int n"
  then have "\<lfloor>y\<rfloor> \<le> n" by (simp add: floor_le_iff)
  show ?thesis
  proof (cases "\<lfloor>y\<rfloor> = n")
    case True
    with y have "y = of_int n" by linarith
    then show ?thesis by (simp add: rat_round_even_def)
  next
    case False
    with \<open>\<lfloor>y\<rfloor> \<le> n\<close> show ?thesis by (simp add: rat_round_even_def Let_def)
  qed
qed

lemma rat_round_even_ge: "of_int n \<le> y \<Longrightarrow> n \<le> rat_round_even y"
  by (simp add: rat_round_even_def Let_def le_floor_iff) linarith

lemma rat_pow2_pos [simp]: "0 < rat_pow2 e"
  by (simp add: rat_pow2_def)

lemma rat_pow2_inverse_int: "e \<le> 0 \<Longrightarrow> 1 / rat_pow2 e = of_int (2 ^ nat (- e))"
  by (cases "e = 0") (simp_all add: rat_pow2_def)

lemma f64_ulp_exp_le:
  assumes "0 < x" and "x \<le> 2 ^ m"
  shows "f64_ulp_exp x \<le> int m - 51"
proof -
  obtain a b where q: "quotient_of x = (a, b)" by fastforce
  then have b: "0 < b" by (rule quotient_of_denom_pos)
  have x: "x = of_int a / of_int b" using q by (rule quotient_of_div)
  with assms(1) b have a: "0 < a" by (simp add: zero_less_divide_iff)
  from assms(2) x b have "of_int a \<le> (of_int (2 ^ m * b) :: rat)" by (simp add: field_simps)
  then have "a \<le> 2 ^ m * b" by (simp only: of_int_le_iff)
  then have "nat a \<le> nat (2 ^ m * b)" by simp
  also have "\<dots> = nat b * 2 ^ m" using b by (simp add: nat_mult_distrib nat_power_eq)
  finally have "floorlog 2 (nat a) \<le> floorlog 2 (nat b * 2 ^ m)" by (rule floorlog_mono)
  also have "\<dots> = floorlog 2 (nat b) + m" using b by (subst floorlog_power) auto
  finally show ?thesis using q by (simp add: f64_ulp_exp_def bitlen_def Let_def)
qed

text \<open>Rounding keeps a number within whole bounds.\<close>

lemma f64_round_nonneg: "0 \<le> x \<Longrightarrow> 0 \<le> f64_round x"
proof -
  assume "0 \<le> x"
  have "0 \<le> rat_round_even (\<bar>x\<bar> / rat_pow2 (f64_ulp_exp \<bar>x\<bar>))"
    by (rule rat_round_even_ge) (simp add: less_imp_le)
  with \<open>0 \<le> x\<close> show ?thesis by (simp add: f64_round_def Let_def sgn_if less_imp_le)
qed

lemma f64_round_le:
  assumes "0 \<le> x" and "x \<le> of_int n" and "n \<le> 2 ^ 51"
  shows "f64_round x \<le> of_int n"
proof (cases "x = 0")
  case True
  with assms show ?thesis by (simp add: f64_round_def)
next
  case False
  with assms(1) have x: "0 < x" by simp
  define e where "e = f64_ulp_exp x"
  have "(of_int n :: rat) \<le> of_int (2 ^ 51)" using assms(3) by (simp only: of_int_le_iff)
  with assms(2) have "x \<le> of_int (2 ^ 51)" by (rule order_trans)
  then have "x \<le> 2 ^ 51" by simp
  from f64_ulp_exp_le[OF x \<open>x \<le> 2 ^ 51\<close>] have e: "e \<le> 0" by (simp add: e_def)
  have u: "of_int n / rat_pow2 e = of_int (n * 2 ^ nat (- e))"
  proof -
    have "of_int n / rat_pow2 e = of_int n * (1 / rat_pow2 e)" by simp
    also have "\<dots> = of_int (n * 2 ^ nat (- e))" by (simp only: rat_pow2_inverse_int[OF e] of_int_mult)
    finally show ?thesis .
  qed
  have "x / rat_pow2 e \<le> of_int n / rat_pow2 e" using assms(2) by (simp add: divide_right_mono less_imp_le)
  then have "rat_round_even (x / rat_pow2 e) \<le> n * 2 ^ nat (- e)" by (intro rat_round_even_le) (simp only: u)
  then have "of_int (rat_round_even (x / rat_pow2 e)) \<le> of_int n / rat_pow2 e" by (simp only: u of_int_le_iff)
  then have "of_int (rat_round_even (x / rat_pow2 e)) * rat_pow2 e \<le> of_int n" by (simp add: pos_le_divide_eq)
  with x show ?thesis by (simp add: f64_round_def Let_def e_def)
qed

end
