(* ===== verification/InputHandler.thy ===== *)
theory InputHandler
  imports Json Floats
begin

text \<open>
  \<open>input/message.go\<close>, \<open>input/handler.go\<close> and \<open>session/inputgate.go\<close>: what a frame of the input channel does.
  The handler's effect on the system is the list of calls it makes on its \<open>injector\<close>; the locale
  \<open>injector\<close> says what the handler relies on there, and the platform theories interpret it.
\<close>

section \<open>Messages\<close>

record Message =
  im_T :: string
  im_X :: rat
  im_Y :: rat
  im_B :: int
  im_DX :: int
  im_DY :: int
  im_Code :: string

definition no_message :: Message where
  "no_message = \<lparr>im_T = [], im_X = 0, im_Y = 0, im_B = 0, im_DX = 0, im_DY = 0, im_Code = []\<rparr>"

definition put_message :: "string \<Rightarrow> jval \<Rightarrow> Message \<Rightarrow> Message option" where
  "put_message name v m =
     (if name = ''t'' then map_option (\<lambda>s. m\<lparr>im_T := s\<rparr>) (decode_str v (im_T m))
      else if name = ''x'' then map_option (\<lambda>x. m\<lparr>im_X := x\<rparr>) (decode_f64 v (im_X m))
      else if name = ''y'' then map_option (\<lambda>y. m\<lparr>im_Y := y\<rparr>) (decode_f64 v (im_Y m))
      else if name = ''b'' then map_option (\<lambda>b. m\<lparr>im_B := b\<rparr>) (decode_i64 v (im_B m))
      else if name = ''dx'' then map_option (\<lambda>d. m\<lparr>im_DX := d\<rparr>) (decode_i64 v (im_DX m))
      else if name = ''dy'' then map_option (\<lambda>d. m\<lparr>im_DY := d\<rparr>) (decode_i64 v (im_DY m))
      else map_option (\<lambda>s. m\<lparr>im_Code := s\<rparr>) (decode_str v (im_Code m)))"

definition input_Parse :: "jval option \<Rightarrow> Message option" where
  "input_Parse data =
     Option.bind data (\<lambda>v. decode_struct [''t'', ''x'', ''y'', ''b'', ''dx'', ''dy'', ''code''] put_message v no_message)"

section \<open>The handler\<close>

datatype inj_call =
    MoveMouse rat rat
  | ClickMouse int bool rat rat
  | ScrollWheel int int
  | PressKey string bool

text \<open>The three buttons by protocol number: 0 left, 1 right, 2 middle.\<close>

record Handler =
  hd_keys :: "string list"
  hd_keySet :: "string set"
  hd_buttons :: "bool list"
  hd_lastX :: rat
  hd_lastY :: rat

definition newHandler :: Handler where
  "newHandler = \<lparr>hd_keys = [], hd_keySet = {}, hd_buttons = [False, False, False], hd_lastX = 0, hd_lastY = 0\<rparr>"

definition validButton :: "int \<Rightarrow> bool" where
  "validButton b \<longleftrightarrow> 0 \<le> b \<and> b < 3"

definition forgetKey :: "string \<Rightarrow> Handler \<Rightarrow> Handler" where
  "forgetKey code h =
     (if code \<notin> hd_keySet h then h
      else h\<lparr>hd_keySet := hd_keySet h - {code}, hd_keys := remove1 code (hd_keys h)\<rparr>)"

text \<open>One message, after parsing; the calls, in order, and the new state.\<close>

definition handle_message :: "Message \<Rightarrow> Handler \<Rightarrow> inj_call list \<times> Handler" where
  "handle_message m h =
     (if im_T m = ''m'' then ([MoveMouse (im_X m) (im_Y m)], h\<lparr>hd_lastX := im_X m, hd_lastY := im_Y m\<rparr>)
      else if im_T m = ''md'' then
        (if \<not> validButton (im_B m) then ([], h)
         else ([ClickMouse (im_B m) True (im_X m) (im_Y m)],
               h\<lparr>hd_lastX := im_X m, hd_lastY := im_Y m, hd_buttons := (hd_buttons h)[nat (im_B m) := True]\<rparr>))
      else if im_T m = ''mu'' then
        (if \<not> validButton (im_B m) then ([], h)
         else ([ClickMouse (im_B m) False (im_X m) (im_Y m)],
               h\<lparr>hd_lastX := im_X m, hd_lastY := im_Y m, hd_buttons := (hd_buttons h)[nat (im_B m) := False]\<rparr>))
      else if im_T m = ''w'' then ([ScrollWheel (im_DX m) (im_DY m)], h)
      else if im_T m = ''kd'' then
        ([PressKey (im_Code m) True],
         if im_Code m \<in> hd_keySet h then h
         else h\<lparr>hd_keySet := insert (im_Code m) (hd_keySet h), hd_keys := hd_keys h @ [im_Code m]\<rparr>)
      else if im_T m = ''ku'' then ([PressKey (im_Code m) False], forgetKey (im_Code m) h)
      else ([], h))"

definition input_Handle :: "jval option \<Rightarrow> Handler \<Rightarrow> inj_call list \<times> Handler" where
  "input_Handle data h = (case input_Parse data of None \<Rightarrow> ([], h) | Some m \<Rightarrow> handle_message m h)"

fun release_buttons :: "nat \<Rightarrow> bool list \<Rightarrow> rat \<Rightarrow> rat \<Rightarrow> inj_call list" where
  "release_buttons b [] x y = []"
| "release_buttons b (down # bs) x y =
     (if down then [ClickMouse (int b) False x y] else []) @ release_buttons (Suc b) bs x y"

definition ReleaseAll :: "Handler \<Rightarrow> inj_call list \<times> Handler" where
  "ReleaseAll h =
     (map (\<lambda>code. PressKey code False) (rev (hd_keys h)) @ release_buttons 0 (hd_buttons h) (hd_lastX h) (hd_lastY h),
      h\<lparr>hd_keys := [], hd_keySet := {}, hd_buttons := map (\<lambda>_. False) (hd_buttons h)\<rparr>)"

section \<open>The gate\<close>

text \<open>\<open>applyInput\<close>: \<open>busy\<close> is what \<open>consent.Busy\<close> says when the frame arrives.\<close>

definition applyInput :: "bool \<Rightarrow> jval option \<Rightarrow> Handler \<Rightarrow> inj_call list \<times> Handler" where
  "applyInput busy data h = (if busy then ReleaseAll h else input_Handle data h)"

text \<open>A session's input: frames, each with the gate's answer, and the releases at its end (the channel
  closes, the connection is over).\<close>

datatype input_event = Frame bool "jval option" | Release

definition input_event :: "input_event \<Rightarrow> Handler \<Rightarrow> inj_call list \<times> Handler" where
  "input_event ev h = (case ev of Frame busy data \<Rightarrow> applyInput busy data h | Release \<Rightarrow> ReleaseAll h)"

fun input_run :: "input_event list \<Rightarrow> Handler \<Rightarrow> inj_call list \<times> Handler" where
  "input_run [] h = ([], h)"
| "input_run (ev # evs) h =
     (case input_event ev h of (cs, h1) \<Rightarrow> (case input_run evs h1 of (ds, h2) \<Rightarrow> (cs @ ds, h2)))"

section \<open>What is held\<close>

text \<open>The keys and buttons whose last call was a press, from the calls alone.\<close>

fun call_keys :: "inj_call \<Rightarrow> string set \<Rightarrow> string set" where
  "call_keys (PressKey code down) K = (if down then insert code K else K - {code})"
| "call_keys _ K = K"

fun call_buttons :: "inj_call \<Rightarrow> int set \<Rightarrow> int set" where
  "call_buttons (ClickMouse b down x y) B = (if down then insert b B else B - {b})"
| "call_buttons _ B = B"

definition pressed_keys :: "inj_call list \<Rightarrow> string set" where
  "pressed_keys cs = fold call_keys cs {}"

definition pressed_buttons :: "inj_call list \<Rightarrow> int set" where
  "pressed_buttons cs = fold call_buttons cs {}"

definition held_buttons :: "Handler \<Rightarrow> int set" where
  "held_buttons h = {int b | b. b < length (hd_buttons h) \<and> hd_buttons h ! b}"

definition hd_ok :: "Handler \<Rightarrow> bool" where
  "hd_ok h \<longleftrightarrow> distinct (hd_keys h) \<and> set (hd_keys h) = hd_keySet h \<and> length (hd_buttons h) = 3"

text \<open>What an event does to the sets: the calls and the handler's memory agree.\<close>

definition agrees :: "inj_call list \<times> Handler \<Rightarrow> Handler \<Rightarrow> bool" where
  "agrees r h \<longleftrightarrow>
     hd_ok (snd r)
     \<and> fold call_keys (fst r) (hd_keySet h) = hd_keySet (snd r)
     \<and> fold call_buttons (fst r) (held_buttons h) = held_buttons (snd r)"

lemma hd_ok_new [simp]: "hd_ok newHandler" "hd_keySet newHandler = {}" "held_buttons newHandler = {}"
  by (auto simp: hd_ok_def newHandler_def held_buttons_def nth_Cons' split: if_splits)

lemma held_buttons_update:
  assumes "length (hd_buttons h) = 3" and "validButton b"
  shows "held_buttons (h\<lparr>hd_lastX := x, hd_lastY := y, hd_buttons := (hd_buttons h)[nat b := d]\<rparr>)
       = (if d then insert b (held_buttons h) else held_buttons h - {b})"
proof -
  obtain n where n: "b = int n" "n < 3" using assms(2) by (metis validButton_def nonneg_int_cases of_nat_less_iff of_nat_numeral)
  show ?thesis using assms(1) n by (cases d) (auto simp: held_buttons_def nth_list_update split: if_splits)
qed

lemma held_buttons_cong: "hd_buttons h' = hd_buttons h \<Longrightarrow> held_buttons h' = held_buttons h"
  by (simp add: held_buttons_def)

lemma handle_message_agrees:
  assumes "hd_ok h"
  shows "agrees (handle_message m h) h"
proof -
  have len: "length (hd_buttons h) = 3" using assms by (simp add: hd_ok_def)
  consider "im_T m = ''md''" "validButton (im_B m)" | "im_T m = ''mu''" "validButton (im_B m)"
    | "im_T m = ''kd''" | "im_T m = ''ku''" | "im_T m \<noteq> ''kd''" "im_T m \<noteq> ''ku''" "im_T m \<in> {''md'', ''mu''} \<longrightarrow> \<not> validButton (im_B m)"
    by blast
  then show ?thesis
  proof cases
    case 1
    with assms held_buttons_update[OF len 1(2), where d = True] show ?thesis
      by (simp add: agrees_def handle_message_def hd_ok_def)
  next
    case 2
    with assms held_buttons_update[OF len 2(2), where d = False] show ?thesis
      by (simp add: agrees_def handle_message_def hd_ok_def)
  next
    case 3
    with assms show ?thesis
      by (auto simp: agrees_def handle_message_def hd_ok_def intro!: held_buttons_cong)
  next
    case 4
    with assms show ?thesis
      by (auto simp: agrees_def handle_message_def forgetKey_def hd_ok_def distinct_remove1 set_remove1_eq intro!: held_buttons_cong)
  next
    case 5
    with assms show ?thesis
      by (auto simp: agrees_def handle_message_def hd_ok_def intro!: held_buttons_cong)
  qed
qed

lemma fold_release_keys: "fold call_keys (map (\<lambda>c. PressKey c False) cs) K = K - set cs"
  by (induction cs arbitrary: K) auto

lemma release_buttons_keys: "fold call_keys (release_buttons b bs x y) K = K"
  by (induction b bs x y rule: release_buttons.induct) auto

lemma fold_keys_buttons: "fold call_buttons (map (\<lambda>c. PressKey c False) cs) B = B"
  by (induction cs arbitrary: B) auto

lemma fold_release_buttons:
  "fold call_buttons (release_buttons b bs x y) B = B - {int (b + i) | i. i < length bs \<and> bs ! i}"
proof (induction bs arbitrary: b B)
  case (Cons d bs)
  have "{int (b + i) | i. i < length (d # bs) \<and> (d # bs) ! i}
      = (if d then {int b} else {}) \<union> {int (Suc b + i) | i. i < length bs \<and> bs ! i}" (is "?l = ?r")
  proof (intro set_eqI iffI)
    fix z assume "z \<in> ?l"
    then obtain i where "z = int (b + i)" "i < length (d # bs)" "(d # bs) ! i" by blast
    then show "z \<in> ?r" by (cases i) auto
  next
    fix z assume "z \<in> ?r"
    then show "z \<in> ?l" by (auto split: if_splits intro: exI[of _ "0::nat"] exI[of _ "Suc _"])
  qed
  then show ?case by (auto simp: Cons)
qed simp

lemma ReleaseAll_agrees:
  assumes "hd_ok h"
  shows "agrees (ReleaseAll h) h" and "hd_keySet (snd (ReleaseAll h)) = {}" and "held_buttons (snd (ReleaseAll h)) = {}"
  using assms
  by (auto simp: agrees_def ReleaseAll_def hd_ok_def fold_release_keys release_buttons_keys fold_keys_buttons
      fold_release_buttons held_buttons_def)

lemma agrees_none: "hd_ok h \<Longrightarrow> agrees ([], h) h"
  by (simp add: agrees_def)

lemma input_event_agrees: "hd_ok h \<Longrightarrow> agrees (input_event ev h) h"
  by (simp add: input_event_def applyInput_def input_Handle_def ReleaseAll_agrees handle_message_agrees agrees_none
      split: input_event.split option.split)

lemma input_run_agrees: "hd_ok h \<Longrightarrow> agrees (input_run evs h) h"
proof (induction evs arbitrary: h)
  case (Cons ev evs)
  obtain cs h1 where e: "input_event ev h = (cs, h1)" by fastforce
  from input_event_agrees[OF Cons.prems, of ev] e have a: "agrees (cs, h1) h" by simp
  then have "hd_ok h1" by (simp add: agrees_def)
  from Cons.IH[OF this] a e show ?case by (auto simp: agrees_def split: prod.split)
qed (simp add: agrees_def)

lemma input_run_pressed:
  "pressed_keys (fst (input_run evs newHandler)) = hd_keySet (snd (input_run evs newHandler))"
  "pressed_buttons (fst (input_run evs newHandler)) = held_buttons (snd (input_run evs newHandler))"
  using input_run_agrees[of newHandler evs] by (simp_all add: agrees_def pressed_keys_def pressed_buttons_def)

text \<open>A run that ends with a release leaves nothing pressed, and so does a frame that meets the gate closed.\<close>

lemma input_run_append:
  "input_run (evs @ evs') h =
     (fst (input_run evs h) @ fst (input_run evs' (snd (input_run evs h))), snd (input_run evs' (snd (input_run evs h))))"
  by (induction evs arbitrary: h) (auto split: prod.split)

definition releases :: "input_event \<Rightarrow> bool" where
  "releases ev \<longleftrightarrow> (case ev of Release \<Rightarrow> True | Frame busy _ \<Rightarrow> busy)"

lemma released_pressed:
  assumes "releases ev"
  shows "pressed_keys (fst (input_run (evs @ [ev]) newHandler)) = {}"
    and "pressed_buttons (fst (input_run (evs @ [ev]) newHandler)) = {}"
proof -
  let ?h = "snd (input_run evs newHandler)"
  have ok: "hd_ok ?h" using input_run_agrees[of newHandler evs] by (simp add: agrees_def)
  have "input_event ev ?h = ReleaseAll ?h"
    using assms by (simp add: releases_def input_event_def applyInput_def split: input_event.splits)
  then have "snd (input_run (evs @ [ev]) newHandler) = snd (ReleaseAll ?h)"
    by (simp add: input_run_append split: prod.split)
  with ReleaseAll_agrees(2,3)[OF ok] show "pressed_keys (fst (input_run (evs @ [ev]) newHandler)) = {}"
    "pressed_buttons (fst (input_run (evs @ [ev]) newHandler)) = {}"
    by (simp_all add: input_run_pressed)
qed

section \<open>What the handler needs of a platform\<close>

text \<open>A platform carries out calls on a state. Some keys and buttons are held there; pressing adds at most
  the key the code names, releasing takes it away (and possibly more), and nothing else adds any.\<close>

locale injector =
  fixes apply_call :: "inj_call \<Rightarrow> 's \<Rightarrow> 's"
    and down_keys :: "'s \<Rightarrow> 'k set"
    and down_buttons :: "'s \<Rightarrow> int set"
    and key_of :: "string \<Rightarrow> 'k option"
  assumes press: "down_keys (apply_call (PressKey code True) s) \<subseteq> down_keys s \<union> set_option (key_of code)"
    and release: "down_keys (apply_call (PressKey code False) s) \<subseteq> down_keys s - set_option (key_of code)"
    and other_keys: "down_keys (apply_call (MoveMouse x y) s) \<subseteq> down_keys s"
      "down_keys (apply_call (ScrollWheel dx dy) s) \<subseteq> down_keys s"
      "down_keys (apply_call (ClickMouse b down x y) s) \<subseteq> down_keys s"
    and click: "down_buttons (apply_call (ClickMouse b True x y) s) \<subseteq> insert b (down_buttons s)"
      "down_buttons (apply_call (ClickMouse b False x y) s) \<subseteq> down_buttons s - {b}"
    and other_buttons: "down_buttons (apply_call (MoveMouse x y) s) \<subseteq> down_buttons s"
      "down_buttons (apply_call (ScrollWheel dx dy) s) \<subseteq> down_buttons s"
      "down_buttons (apply_call (PressKey code down) s) \<subseteq> down_buttons s"
begin

text \<open>Every key that is down was pressed by a code that is still pressed.\<close>

lemma down_explained:
  "down_keys s \<subseteq> \<Union> (set_option ` key_of ` K) \<Longrightarrow>
   down_keys (fold apply_call cs s) \<subseteq> \<Union> (set_option ` key_of ` fold call_keys cs K)"
proof (induction cs arbitrary: s K)
  case (Cons c cs)
  have "down_keys (apply_call c s) \<subseteq> \<Union> (set_option ` key_of ` call_keys c K)"
  proof (cases c)
    case (PressKey code down)
    show ?thesis
    proof (cases down)
      case True
      with press[of code s] Cons.prems PressKey show ?thesis by auto
    next
      case False
      have "\<Union> (set_option ` key_of ` K) - set_option (key_of code) \<subseteq> \<Union> (set_option ` key_of ` (K - {code}))" by auto
      with release[of code s] Cons.prems have "down_keys (apply_call (PressKey code False) s) \<subseteq> \<Union> (set_option ` key_of ` (K - {code}))"
        by (meson Diff_mono order_refl order_trans)
      with False PressKey show ?thesis by simp
    qed
  qed (use other_keys Cons.prems in \<open>fastforce+\<close>)
  from Cons.IH[OF this] show ?case by simp
qed simp

lemma buttons_explained:
  "down_buttons s \<subseteq> B \<Longrightarrow> down_buttons (fold apply_call cs s) \<subseteq> fold call_buttons cs B"
proof (induction cs arbitrary: s B)
  case (Cons c cs)
  have "down_buttons (apply_call c s) \<subseteq> call_buttons c B"
  proof (cases c)
    case (ClickMouse b down x y)
    with click[of b x y s] Cons.prems show ?thesis by (cases down) auto
  qed (use other_buttons Cons.prems in \<open>fastforce+\<close>)
  from Cons.IH[OF this] show ?case by simp
qed simp

text \<open>So after a release nothing is down, if nothing was when the session began.\<close>

lemma nothing_down:
  assumes "down_keys s = {}" and "down_buttons s = {}" and "releases ev"
  shows "down_keys (fold apply_call (fst (input_run (evs @ [ev]) newHandler)) s) = {}"
    and "down_buttons (fold apply_call (fst (input_run (evs @ [ev]) newHandler)) s) = {}"
proof -
  let ?cs = "fst (input_run (evs @ [ev]) newHandler)"
  from down_explained[of s "{}" ?cs] assms(1) released_pressed(1)[OF assms(3), of evs]
  show "down_keys (fold apply_call ?cs s) = {}" by (simp add: pressed_keys_def)
  from buttons_explained[of s "{}" ?cs] assms(2) released_pressed(2)[OF assms(3), of evs]
  show "down_buttons (fold apply_call ?cs s) = {}" by (simp add: pressed_buttons_def)
qed

end

end
