(* ===== verification/Strconv.thy ===== *)
theory Strconv
  imports Paths
begin

text \<open>
  The conversions of packages \<open>strconv\<close>, \<open>fmt\<close> and \<open>strings\<close> that several components use: \<open>Atoi\<close>, decimal
  rendering padded with zeros, and \<open>Fields\<close>.
\<close>

section \<open>Numbers\<close>

text \<open>\<open>strconv.Atoi\<close>: an optional sign and at least one digit, in the range of \<open>int\<close>.\<close>

definition is_digit :: "char \<Rightarrow> bool" where
  "is_digit c \<longleftrightarrow> 48 \<le> byte c \<and> byte c \<le> 57"

definition digits_val :: "string \<Rightarrow> int" where
  "digits_val s = foldl (\<lambda>a c. 10 * a + (byte c - 48)) 0 s"

definition go_atoi :: "string \<Rightarrow> int option" where
  "go_atoi s =
     (let body = (case s of [] \<Rightarrow> [] | c # cs \<Rightarrow> if c = CHR ''+'' \<or> c = CHR ''-'' then cs else s);
          n = digits_val body;
          v = (case s of c # _ \<Rightarrow> if c = CHR ''-'' then - n else n | [] \<Rightarrow> 0)
      in if body = [] \<or> \<not> list_all is_digit body \<or> \<not> in_i64 v then None else Some v)"

text \<open>\<open>%0*d\<close> of a number that is not negative.\<close>

definition pad_decimal :: "nat \<Rightarrow> nat \<Rightarrow> string" where
  "pad_decimal w n = replicate (w - length (dec_nat n)) (CHR ''0'') @ dec_nat n"

lemma is_digit_of_char: "(d::nat) < 10 \<Longrightarrow> is_digit (char_of (48 + d))"
  by (simp add: is_digit_def byte_nat)

lemma dec_nat_is_digit: "list_all is_digit (dec_nat n)"
proof (induction n rule: less_induct)
  case (less n)
  have "n mod 10 < 10" by simp
  with less[of "n div 10"] show ?case by (subst dec_nat.simps) (auto simp: is_digit_of_char)
qed

lemma digits_val_snoc: "digits_val (s @ [c]) = 10 * digits_val s + (byte c - 48)"
  by (simp add: digits_val_def)

lemma digits_val_zeros: "digits_val (replicate k (CHR ''0'') @ s) = digits_val s"
  by (induction k) (simp_all add: digits_val_def byte_def)

lemma byte_digit: "(d::nat) < 10 \<Longrightarrow> byte (char_of (48 + d)) = 48 + int d"
  by (simp add: byte_nat)

lemma digits_val_dec_nat: "digits_val (dec_nat n) = int n"
proof (induction n rule: less_induct)
  case (less n)
  show ?case
  proof (cases "n < 10")
    case True
    then show ?thesis by (subst dec_nat.simps) (simp add: digits_val_def byte_digit)
  next
    case False
    then have "digits_val (dec_nat n) = 10 * digits_val (dec_nat (n div 10)) + int (n mod 10)"
      by (subst dec_nat.simps) (simp add: digits_val_snoc byte_digit)
    with less[of "n div 10"] False show ?thesis by (simp add: zdiv_int zmod_int)
  qed
qed

lemma length_dec_nat: "0 < w \<Longrightarrow> n < 10 ^ w \<Longrightarrow> length (dec_nat n) \<le> w"
proof (induction w arbitrary: n)
  case (Suc w)
  show ?case
  proof (cases "n < 10")
    case True
    then show ?thesis by (subst dec_nat.simps) simp
  next
    case False
    then have "0 < w" using Suc.prems by (cases w) auto
    moreover have "n div 10 < 10 ^ w" using Suc.prems by (simp add: less_mult_imp_div_less)
    ultimately have "length (dec_nat (n div 10)) \<le> w" by (rule Suc.IH)
    with False show ?thesis by (subst dec_nat.simps) simp
  qed
qed simp

lemma pad_decimal_shape:
  assumes "0 < w" and "n < 10 ^ w"
  shows "length (pad_decimal w n) = w" and "list_all is_digit (pad_decimal w n)" and "digits_val (pad_decimal w n) = int n"
proof -
  show "length (pad_decimal w n) = w" using length_dec_nat[OF assms] by (simp add: pad_decimal_def)
  have "is_digit (CHR ''0'')" by (simp add: is_digit_def byte_def)
  then show "list_all is_digit (pad_decimal w n)" by (auto simp: pad_decimal_def dec_nat_is_digit list_all_iff
        dec_nat_is_digit[unfolded list_all_iff, rule_format])
  show "digits_val (pad_decimal w n) = int n" by (simp add: pad_decimal_def digits_val_zeros digits_val_dec_nat)
qed

section \<open>Fields\<close>

text \<open>\<open>strings.Fields\<close>: \<open>w\<close> is the word being read.\<close>

function fields_go :: "string \<Rightarrow> string \<Rightarrow> string list" where
  "fields_go w [] = (if w = [] then [] else [w])"
| "fields_go w (c # s) =
     (if 0 < space_width (c # s) then (if w = [] then [] else [w]) @ fields_go [] (drop (space_width (c # s)) (c # s))
      else fields_go (w @ [c]) s)"
  by pat_completeness auto
termination by (relation "measure (\<lambda>(w, s). length s)") auto

definition go_fields :: "string \<Rightarrow> string list" where
  "go_fields s = fields_go [] s"

lemma fields_go_ne: "[] \<notin> set (fields_go w s)"
  by (induction w s rule: fields_go.induct) auto

end
