(* ===== verification/InputWindows.thy ===== *)
theory InputWindows
  imports InputHandler Strconv "HOL-Library.Word"
begin

text \<open>
  \<open>input/inject_windows.go\<close>, \<open>input/keys_windows.go\<close> and \<open>input/inject.go\<close>: injection through \<open>SendInput\<close>. The
  platform's state is the list of \<open>INPUT\<close> records sent, newest last; what the system holds down is
  read off that list.
\<close>

unbundle bit_operations_syntax

definition clamp01 :: "rat \<Rightarrow> rat" where
  "clamp01 v = (if v < 0 then 0 else if 1 < v then 1 else v)"

section \<open>Key codes\<close>

definition vkMap :: "(string \<times> int) list" where
  "vkMap =
    [(''Enter'', 0x0D), (''NumpadEnter'', 0x0D), (''Escape'', 0x1B), (''Backspace'', 0x08),
     (''Tab'', 0x09), (''Space'', 0x20), (''CapsLock'', 0x14),
     (''ShiftLeft'', 0xA0), (''ShiftRight'', 0xA1),
     (''ControlLeft'', 0xA2), (''ControlRight'', 0xA3),
     (''AltLeft'', 0xA4), (''AltRight'', 0xA5),
     (''MetaLeft'', 0x5B), (''MetaRight'', 0x5C), (''ContextMenu'', 0x5D),
     (''ArrowLeft'', 0x25), (''ArrowUp'', 0x26), (''ArrowRight'', 0x27), (''ArrowDown'', 0x28),
     (''Home'', 0x24), (''End'', 0x23), (''PageUp'', 0x21), (''PageDown'', 0x22),
     (''Insert'', 0x2D), (''Delete'', 0x2E),
     (''Minus'', 0xBD), (''Equal'', 0xBB), (''BracketLeft'', 0xDB), (''BracketRight'', 0xDD),
     (''Backslash'', 0xDC), (''Semicolon'', 0xBA), (''Quote'', 0xDE), (''Backquote'', 0xC0),
     (''Comma'', 0xBC), (''Period'', 0xBE), (''Slash'', 0xBF),
     (''NumpadAdd'', 0x6B), (''NumpadSubtract'', 0x6D), (''NumpadMultiply'', 0x6A),
     (''NumpadDivide'', 0x6F), (''NumpadDecimal'', 0x6E),
     (''PrintScreen'', 0x2C), (''ScrollLock'', 0x91), (''Pause'', 0x13), (''NumLock'', 0x90)]"

definition codeToVK :: "string \<Rightarrow> int option" where
  "codeToVK code =
     (case map_of vkMap code of
        Some vk \<Rightarrow> Some vk
      | None \<Rightarrow>
          if length code = 4 \<and> has_prefix code ''Key'' \<and> 65 \<le> byte (code ! 3) \<and> byte (code ! 3) \<le> 90
          then Some (byte (code ! 3))
          else if length code = 6 \<and> has_prefix code ''Digit'' \<and> is_digit (code ! 5) then Some (byte (code ! 5))
          else if length code = 7 \<and> has_prefix code ''Numpad'' \<and> is_digit (code ! 6) then Some (0x60 + (byte (code ! 6) - 48))
          else if has_prefix code ''F'' then
            (case go_atoi (drop 1 code) of
               Some n \<Rightarrow> if 1 \<le> n \<and> n \<le> 24 then Some (u16 (0x70 + n - 1)) else None
             | None \<Rightarrow> None)
          else None)"

section \<open>Records for SendInput\<close>

definition mouseeventfMove :: int where "mouseeventfMove = 0x0001"
definition mouseeventfLeftDown :: int where "mouseeventfLeftDown = 0x0002"
definition mouseeventfLeftUp :: int where "mouseeventfLeftUp = 0x0004"
definition mouseeventfRightDown :: int where "mouseeventfRightDown = 0x0008"
definition mouseeventfRightUp :: int where "mouseeventfRightUp = 0x0010"
definition mouseeventfMiddleDown :: int where "mouseeventfMiddleDown = 0x0020"
definition mouseeventfMiddleUp :: int where "mouseeventfMiddleUp = 0x0040"
definition mouseeventfWheel :: int where "mouseeventfWheel = 0x0800"
definition mouseeventfHWheel :: int where "mouseeventfHWheel = 0x1000"
definition mouseeventfAbsolute :: int where "mouseeventfAbsolute = 0x8000"
definition keyeventfKeyUp :: int where "keyeventfKeyUp = 0x0002"
definition absoluteMax :: int where "absoluteMax = 65535"

lemmas win_flags =
  mouseeventfMove_def mouseeventfLeftDown_def mouseeventfLeftUp_def mouseeventfRightDown_def mouseeventfRightUp_def
  mouseeventfMiddleDown_def mouseeventfMiddleUp_def mouseeventfWheel_def mouseeventfHWheel_def mouseeventfAbsolute_def
  keyeventfKeyUp_def

record mouseInputData =
  mi_dx :: int
  mi_dy :: int
  mi_mouseData :: int
  mi_dwFlags :: int

record keybdInputData =
  ki_wVk :: int
  ki_dwFlags :: int

datatype rawInput = InputMouse mouseInputData | InputKeyboard keybdInputData

definition absolute_coord :: "rat \<Rightarrow> int" where
  "absolute_coord v = i32 \<lfloor>f64_round (clamp01 v * of_int absoluteMax)\<rfloor>"

definition win_moveMouse :: "rat \<Rightarrow> rat \<Rightarrow> rawInput list" where
  "win_moveMouse x y =
     [InputMouse \<lparr>mi_dx = absolute_coord x, mi_dy = absolute_coord y, mi_mouseData = 0,
        mi_dwFlags = mouseeventfMove OR mouseeventfAbsolute\<rparr>]"

definition pick :: "bool \<Rightarrow> int \<Rightarrow> int \<Rightarrow> int" where
  "pick cond a b = (if cond then a else b)"

definition button_flag :: "int \<Rightarrow> bool \<Rightarrow> int option" where
  "button_flag button down =
     (if button = 0 then Some (pick down mouseeventfLeftDown mouseeventfLeftUp)
      else if button = 1 then Some (pick down mouseeventfRightDown mouseeventfRightUp)
      else if button = 2 then Some (pick down mouseeventfMiddleDown mouseeventfMiddleUp)
      else None)"

definition win_clickMouse :: "int \<Rightarrow> bool \<Rightarrow> rat \<Rightarrow> rat \<Rightarrow> rawInput list" where
  "win_clickMouse button down x y =
     (case button_flag button down of
        None \<Rightarrow> []
      | Some flag \<Rightarrow>
          [InputMouse \<lparr>mi_dx = absolute_coord x, mi_dy = absolute_coord y, mi_mouseData = 0,
             mi_dwFlags = mouseeventfMove OR mouseeventfAbsolute OR flag\<rparr>])"

definition win_scrollWheel :: "int \<Rightarrow> int \<Rightarrow> rawInput list" where
  "win_scrollWheel dx dy =
     (if dy \<noteq> 0 then [InputMouse \<lparr>mi_dx = 0, mi_dy = 0, mi_mouseData = i32 dy, mi_dwFlags = mouseeventfWheel\<rparr>] else [])
     @ (if dx \<noteq> 0 then [InputMouse \<lparr>mi_dx = 0, mi_dy = 0, mi_mouseData = i32 dx, mi_dwFlags = mouseeventfHWheel\<rparr>] else [])"

definition win_pressKey :: "string \<Rightarrow> bool \<Rightarrow> rawInput list" where
  "win_pressKey code down =
     (case codeToVK code of
        None \<Rightarrow> []
      | Some vk \<Rightarrow> [InputKeyboard \<lparr>ki_wVk = vk, ki_dwFlags = (if down then 0 else keyeventfKeyUp)\<rparr>])"

fun win_call :: "inj_call \<Rightarrow> rawInput list" where
  "win_call (MoveMouse x y) = win_moveMouse x y"
| "win_call (ClickMouse b down x y) = win_clickMouse b down x y"
| "win_call (ScrollWheel dx dy) = win_scrollWheel dx dy"
| "win_call (PressKey code down) = win_pressKey code down"

definition win_apply :: "inj_call \<Rightarrow> rawInput list \<Rightarrow> rawInput list" where
  "win_apply c sent = sent @ win_call c"

section \<open>What is down\<close>

fun win_key :: "rawInput \<Rightarrow> int set \<Rightarrow> int set" where
  "win_key (InputKeyboard k) S = (if ki_dwFlags k AND keyeventfKeyUp = 0 then insert (ki_wVk k) S else S - {ki_wVk k})"
| "win_key (InputMouse m) S = S"

definition win_keys :: "rawInput list \<Rightarrow> int set" where
  "win_keys sent = fold win_key sent {}"

definition flag_button :: "int \<Rightarrow> int \<Rightarrow> int \<Rightarrow> int \<Rightarrow> int set \<Rightarrow> int set" where
  "flag_button flags downf upf b S =
     (if flags AND upf \<noteq> 0 then S - {b} else if flags AND downf \<noteq> 0 then insert b S else S)"

fun win_button :: "rawInput \<Rightarrow> int set \<Rightarrow> int set" where
  "win_button (InputKeyboard k) S = S"
| "win_button (InputMouse m) S =
     flag_button (mi_dwFlags m) mouseeventfLeftDown mouseeventfLeftUp 0
      (flag_button (mi_dwFlags m) mouseeventfRightDown mouseeventfRightUp 1
        (flag_button (mi_dwFlags m) mouseeventfMiddleDown mouseeventfMiddleUp 2 S))"

definition win_buttons :: "rawInput list \<Rightarrow> int set" where
  "win_buttons sent = fold win_button sent {}"

lemma win_keys_snoc: "win_keys (sent @ rs) = fold win_key rs (win_keys sent)"
  by (simp add: win_keys_def)

lemma win_buttons_snoc: "win_buttons (sent @ rs) = fold win_button rs (win_buttons sent)"
  by (simp add: win_buttons_def)

lemma win_buttons_dom: "b \<in> win_buttons sent \<Longrightarrow> b \<in> {0, 1, 2}"
proof -
  have step: "win_button r S \<subseteq> {0, 1, 2}" if "S \<subseteq> {0, 1, 2}" for r S
    using that by (cases r) (auto simp: flag_button_def)
  have "fold win_button rs S \<subseteq> {0, 1, 2}" if "S \<subseteq> {0, 1, 2}" for rs S
    using that by (induction rs arbitrary: S) (simp_all add: step)
  from this[of "{}" sent] show "b \<in> win_buttons sent \<Longrightarrow> b \<in> {0, 1, 2}" by (auto simp: win_buttons_def)
qed

lemma win_click_buttons:
  "win_buttons (sent @ win_clickMouse b down x y) = (if b \<in> {0, 1, 2} then if down then insert b (win_buttons sent) else win_buttons sent - {b} else win_buttons sent)"
  by (auto simp: win_buttons_snoc win_clickMouse_def button_flag_def pick_def flag_button_def win_flags)

interpretation win: injector win_apply win_keys win_buttons codeToVK
proof (unfold_locales, goal_cases)
  case (1 code s)
  then show ?case by (auto simp: win_apply_def win_keys_snoc win_pressKey_def split: option.split)
next
  case (2 code s)
  then show ?case by (auto simp: win_apply_def win_keys_snoc win_pressKey_def keyeventfKeyUp_def split: option.split)
next
  case (3 x y s)
  then show ?case by (simp add: win_apply_def win_keys_snoc win_moveMouse_def)
next
  case (4 dx dy s)
  then show ?case by (simp add: win_apply_def win_keys_snoc win_scrollWheel_def)
next
  case (5 b down x y s)
  then show ?case by (simp add: win_apply_def win_keys_snoc win_clickMouse_def split: option.split)
next
  case (6 b x y s)
  then show ?case by (auto simp: win_apply_def win_click_buttons)
next
  case (7 b x y s)
  then show ?case using win_buttons_dom[of b s] by (auto simp: win_apply_def win_click_buttons)
next
  case (8 x y s)
  then show ?case by (simp add: win_apply_def win_buttons_snoc win_moveMouse_def flag_button_def win_flags)
next
  case (9 dx dy s)
  then show ?case by (simp add: win_apply_def win_buttons_snoc win_scrollWheel_def flag_button_def win_flags)
next
  case (10 code down s)
  then show ?case by (simp add: win_apply_def win_buttons_snoc win_pressKey_def split: option.split)
qed

section \<open>Properties\<close>

text \<open>C7: nothing stays pressed on Windows: whatever the viewer sends, in whatever order with prompts in
  between, once the session's input is released (or a frame meets an open prompt) every virtual key
  and mouse button that was sent down has been sent up after it.\<close>

theorem windows_nothing_down:
  assumes "releases ev"
  shows "win_keys (fold win_apply (fst (input_run (evs @ [ev]) newHandler)) []) = {}
     \<and> win_buttons (fold win_apply (fst (input_run (evs @ [ev]) newHandler)) []) = {}"
  using win.nothing_down[of "[]" ev evs] assms by (simp add: win_keys_def win_buttons_def)

definition ex_down :: input_event where
  "ex_down = Frame False (Some (JObj [(''t'', JStr ''kd''), (''code'', JStr ''ShiftLeft'')]))"

definition ex_button :: input_event where
  "ex_button = Frame False (Some (JObj [(''t'', JStr ''md''), (''b'', JInt 1), (''x'', JReal (1 / 2)), (''y'', JInt 1)]))"

lemma windows_nothing_down_witness:
  "win_keys (fold win_apply (fst (input_run ([ex_down, ex_button] @ [Release]) newHandler)) []) = {}"
  using windows_nothing_down[of Release "[ex_down, ex_button]"] by (simp add: releases_def)

text \<open>The gate: while a question is in front of the operator a frame injects no press, whatever it says.\<close>

lemma release_buttons_up: "c \<in> set (release_buttons k bs x y) \<Longrightarrow> \<exists>b. c = ClickMouse b False x y"
  by (induction k bs x y rule: release_buttons.induct) (auto split: if_splits)

text \<open>While a prompt or a picker is up, what a frame contains does not matter: the only calls are
  releases of what the viewer was holding, and nothing is remembered of it.\<close>

theorem gate_closed:
  "applyInput True data h = applyInput True None h
     \<and> (\<forall>c \<in> set (fst (applyInput True data h)).
          (\<exists>code. c = PressKey code False \<and> code \<in> set (hd_keys h)) \<or> (\<exists>b. c = ClickMouse b False (hd_lastX h) (hd_lastY h)))
     \<and> hd_keys (snd (applyInput True data h)) = []"
  by (auto simp: applyInput_def ReleaseAll_def dest: release_buttons_up)

lemma gate_closed_witness:
  "hd_keys (snd (applyInput True (Some JNull) (newHandler\<lparr>hd_keys := [''ShiftLeft''], hd_keySet := {''ShiftLeft''}\<rparr>))) = []"
  using gate_closed[of "Some JNull" "newHandler\<lparr>hd_keys := [''ShiftLeft''], hd_keySet := {''ShiftLeft''}\<rparr>"] by blast

lemma absolute_coord_range: "0 \<le> absolute_coord v \<and> absolute_coord v \<le> 65535"
proof -
  have c: "0 \<le> clamp01 v" "clamp01 v \<le> 1" by (simp_all add: clamp01_def)
  then have p: "0 \<le> clamp01 v * 65535" "clamp01 v * 65535 \<le> of_int 65535" by simp_all
  from f64_round_nonneg[OF p(1)] have "0 \<le> \<lfloor>f64_round (clamp01 v * 65535)\<rfloor>" by simp
  moreover have "\<lfloor>f64_round (clamp01 v * 65535)\<rfloor> \<le> 65535"
    using f64_round_le[OF p] by (simp add: floor_le_iff)
  ultimately show ?thesis by (simp add: absolute_coord_def absoluteMax_def i32_id)
qed

text \<open>The coordinates of every absolute mouse record are on the screen: between 0 and 65535, whatever
  numbers the viewer sends, so the conversion to \<open>int32\<close> never wraps.\<close>

theorem windows_coordinates:
  assumes "InputMouse m \<in> set (fold win_apply cs [])" and "mi_dwFlags m AND mouseeventfAbsolute \<noteq> 0"
  shows "0 \<le> mi_dx m \<and> mi_dx m \<le> 65535 \<and> 0 \<le> mi_dy m \<and> mi_dy m \<le> 65535"
proof -
  have "fold win_apply cs s = s @ concat (map win_call cs)" for s
    by (induction cs arbitrary: s) (simp_all add: win_apply_def)
  with assms(1) obtain c where c: "InputMouse m \<in> set (win_call c)" by auto
  show ?thesis
  proof (cases c)
    case (MoveMouse x y)
    with c absolute_coord_range show ?thesis by (simp add: win_moveMouse_def)
  next
    case (ClickMouse b down x y)
    with c absolute_coord_range show ?thesis by (auto simp: win_clickMouse_def split: option.splits)
  next
    case (ScrollWheel dx dy)
    with c assms(2) show ?thesis by (auto simp: win_scrollWheel_def win_flags split: if_splits)
  next
    case (PressKey code down)
    with c show ?thesis by (simp add: win_pressKey_def split: option.splits)
  qed
qed

lemma windows_coordinates_witness: "absolute_coord 7 \<le> 65535"
proof -
  let ?m = "\<lparr>mi_dx = absolute_coord 7, mi_dy = absolute_coord (- 1), mi_mouseData = 0, mi_dwFlags = mouseeventfMove OR mouseeventfAbsolute\<rparr>"
  have "InputMouse ?m \<in> set (fold win_apply [MoveMouse 7 (- 1)] [])" by (simp add: win_apply_def win_moveMouse_def)
  from windows_coordinates[OF this] show ?thesis by (simp add: win_flags)
qed

text \<open>Every virtual key is a key of the keyboard: one to 0xDE.\<close>

lemma codeToVK_range: "codeToVK code = Some vk \<Longrightarrow> 1 \<le> vk \<and> vk \<le> 222"
proof -
  have map: "map_of vkMap code = Some vk \<Longrightarrow> 1 \<le> vk \<and> vk \<le> 222"
    by (drule map_of_SomeD) (auto simp: vkMap_def)
  have d: "is_digit c \<Longrightarrow> 48 \<le> byte c \<and> byte c \<le> 57" for c by (simp add: is_digit_def)
  show "codeToVK code = Some vk \<Longrightarrow> 1 \<le> vk \<and> vk \<le> 222"
    using map d[of "code ! 5"] d[of "code ! 6"]
    by (auto simp: codeToVK_def u16_def split: option.splits if_splits)
qed

end
