(* ===== verification/InputDarwin.thy ===== *)
theory InputDarwin
  imports InputWindows Firebase
begin

text \<open>
  \<open>input/inject_darwin.go\<close> and \<open>input/keys_darwin.go\<close>: injection as CoreGraphics events. \<open>cgInput\<close> keeps what is
  held and writes it into every event; the events posted are part of the state here. The masks of
  CoreGraphics are named, and a flags word is the set of the names whose bits are set: Apple documents
  them as distinct single bits. The clock, the screen, the double-click time, what macOS says of the
  permission and the order in which a map is visited are arguments of each call.
\<close>

definition keycodeMap :: "(string \<times> int) list" where
  "keycodeMap =
    [(''KeyA'', 0x00), (''KeyB'', 0x0B), (''KeyC'', 0x08), (''KeyD'', 0x02), (''KeyE'', 0x0E),
     (''KeyF'', 0x03), (''KeyG'', 0x05), (''KeyH'', 0x04), (''KeyI'', 0x22), (''KeyJ'', 0x26),
     (''KeyK'', 0x28), (''KeyL'', 0x25), (''KeyM'', 0x2E), (''KeyN'', 0x2D), (''KeyO'', 0x1F),
     (''KeyP'', 0x23), (''KeyQ'', 0x0C), (''KeyR'', 0x0F), (''KeyS'', 0x01), (''KeyT'', 0x11),
     (''KeyU'', 0x20), (''KeyV'', 0x09), (''KeyW'', 0x0D), (''KeyX'', 0x07), (''KeyY'', 0x10),
     (''KeyZ'', 0x06), (''Digit1'', 0x12), (''Digit2'', 0x13), (''Digit3'', 0x14), (''Digit4'', 0x15),
     (''Digit5'', 0x17), (''Digit6'', 0x16), (''Digit7'', 0x1A), (''Digit8'', 0x1C), (''Digit9'', 0x19),
     (''Digit0'', 0x1D), (''Minus'', 0x1B), (''Equal'', 0x18), (''BracketLeft'', 0x21),
     (''BracketRight'', 0x1E), (''Backslash'', 0x2A), (''Semicolon'', 0x29), (''Quote'', 0x27),
     (''Backquote'', 0x32), (''Comma'', 0x2B), (''Period'', 0x2F), (''Slash'', 0x2C),
     (''IntlBackslash'', 0x0A), (''IntlYen'', 0x5D), (''IntlRo'', 0x5E), (''Enter'', 0x24), (''Tab'', 0x30),
     (''Space'', 0x31), (''Backspace'', 0x33), (''Escape'', 0x35), (''CapsLock'', 0x39),
     (''ShiftLeft'', 0x38), (''ShiftRight'', 0x3C), (''ControlLeft'', 0x3B), (''ControlRight'', 0x3E),
     (''AltLeft'', 0x3A), (''AltRight'', 0x3D), (''MetaLeft'', 0x37), (''MetaRight'', 0x36), (''Fn'', 0x3F),
     (''ContextMenu'', 0x6E), (''ArrowLeft'', 0x7B), (''ArrowRight'', 0x7C), (''ArrowDown'', 0x7D),
     (''ArrowUp'', 0x7E), (''Home'', 0x73), (''End'', 0x77), (''PageUp'', 0x74), (''PageDown'', 0x79),
     (''Insert'', 0x72), (''Delete'', 0x75), (''F1'', 0x7A), (''F2'', 0x78), (''F3'', 0x63), (''F4'', 0x76),
     (''F5'', 0x60), (''F6'', 0x61), (''F7'', 0x62), (''F8'', 0x64), (''F9'', 0x65), (''F10'', 0x6D),
     (''F11'', 0x67), (''F12'', 0x6F), (''F13'', 0x69), (''F14'', 0x6B), (''F15'', 0x71), (''F16'', 0x6A),
     (''F17'', 0x40), (''F18'', 0x4F), (''F19'', 0x50), (''F20'', 0x5A), (''Numpad0'', 0x52),
     (''Numpad1'', 0x53), (''Numpad2'', 0x54), (''Numpad3'', 0x55), (''Numpad4'', 0x56), (''Numpad5'', 0x57),
     (''Numpad6'', 0x58), (''Numpad7'', 0x59), (''Numpad8'', 0x5B), (''Numpad9'', 0x5C),
     (''NumpadDecimal'', 0x41), (''NumpadMultiply'', 0x43), (''NumpadAdd'', 0x45), (''NumpadDivide'', 0x4B),
     (''NumpadEnter'', 0x4C), (''NumpadSubtract'', 0x4E), (''NumpadEqual'', 0x51), (''NumpadComma'', 0x5F),
     (''NumLock'', 0x47)]"

definition kvkRightCommand :: int where "kvkRightCommand = 0x36"
definition kvkCommand :: int where "kvkCommand = 0x37"
definition kvkShift :: int where "kvkShift = 0x38"
definition kvkCapsLock :: int where "kvkCapsLock = 0x39"
definition kvkOption :: int where "kvkOption = 0x3A"
definition kvkControl :: int where "kvkControl = 0x3B"
definition kvkRightShift :: int where "kvkRightShift = 0x3C"
definition kvkRightOption :: int where "kvkRightOption = 0x3D"
definition kvkRightControl :: int where "kvkRightControl = 0x3E"
definition kvkFunction :: int where "kvkFunction = 0x3F"

lemmas kvk =
  kvkRightCommand_def kvkCommand_def kvkShift_def kvkCapsLock_def kvkOption_def kvkControl_def kvkRightShift_def
  kvkRightOption_def kvkRightControl_def kvkFunction_def

definition codeToKeycode :: "string \<Rightarrow> int option" where
  "codeToKeycode code = map_of keycodeMap code"

section \<open>Events\<close>

datatype eventType =
    evMoved | evLeftDown | evLeftUp | evLeftDragged | evRightDown | evRightUp | evRightDragged
  | evOtherDown | evOtherUp | evOtherDragged

datatype flag =
    flagAlphaShift | flagShift | flagControl | flagOption | flagCommand | flagSecondaryFn
  | deviceLeftControl | deviceLeftShift | deviceRightShift | deviceLeftCommand | deviceRightCommand
  | deviceLeftOption | deviceRightOption | deviceRightControl

definition downEvent :: "eventType list" where "downEvent = [evLeftDown, evRightDown, evOtherDown]"
definition upEvent :: "eventType list" where "upEvent = [evLeftUp, evRightUp, evOtherUp]"
definition draggedEvent :: "eventType list" where "draggedEvent = [evLeftDragged, evRightDragged, evOtherDragged]"

definition modifierFlags :: "int \<Rightarrow> flag set" where
  "modifierFlags kc =
     (if kc = kvkShift then {flagShift, deviceLeftShift}
      else if kc = kvkRightShift then {flagShift, deviceRightShift}
      else if kc = kvkControl then {flagControl, deviceLeftControl}
      else if kc = kvkRightControl then {flagControl, deviceRightControl}
      else if kc = kvkOption then {flagOption, deviceLeftOption}
      else if kc = kvkRightOption then {flagOption, deviceRightOption}
      else if kc = kvkCommand then {flagCommand, deviceLeftCommand}
      else if kc = kvkRightCommand then {flagCommand, deviceRightCommand}
      else if kc = kvkFunction then {flagSecondaryFn}
      else {})"

datatype cg_event =
    CgMouse eventType rat rat int int "flag set"
  | CgKey int bool bool "flag set"
  | CgFlagsChanged int "flag set"
  | CgScroll int int "flag set"

definition clickSlop :: rat where "clickSlop = 4"
definition accessRecheck :: duration where "accessRecheck = 2 * second"
definition accessReconfirm :: duration where "accessReconfirm = minute"
definition accessWarnEvery :: duration where "accessWarnEvery = minute"

record lastClick =
  lc_button :: int
  lc_at :: instant
  lc_x :: rat
  lc_y :: rat
  lc_count :: int

text \<open>\<open>None\<close> is the zero time.\<close>

record cgInput =
  cg_out :: "cg_event list"
  cg_x :: rat
  cg_y :: rat
  cg_buttons :: "bool list"
  cg_click :: lastClick
  cg_mods :: "int set"
  cg_capsLock :: bool
  cg_keys :: "int list"
  cg_trusted :: bool
  cg_nextAsk :: "instant option"
  cg_warned :: "instant option"

record cg_env =
  ce_now :: instant
  ce_screen :: "(rat \<times> rat) option"
  ce_doubleClick :: duration
  ce_allowed :: bool
  ce_perm :: "nat \<Rightarrow> nat list"

definition newCGInput :: cgInput where
  "newCGInput = \<lparr>cg_out = [], cg_x = 0, cg_y = 0, cg_buttons = [False, False, False],
     cg_click = \<lparr>lc_button = 0, lc_at = 0, lc_x = 0, lc_y = 0, lc_count = 0\<rparr>,
     cg_mods = {}, cg_capsLock = False, cg_keys = [], cg_trusted = False, cg_nextAsk = None, cg_warned = None\<rparr>"

section \<open>Posting\<close>

definition cg_flags :: "cgInput \<Rightarrow> flag set" where
  "cg_flags s = \<Union> (modifierFlags ` cg_mods s) \<union> (if cg_capsLock s then {flagAlphaShift} else {})"

definition mayPost :: "cg_env \<Rightarrow> cgInput \<Rightarrow> bool \<times> cgInput" where
  "mayPost env s =
     (if (case cg_nextAsk s of None \<Rightarrow> False | Some t \<Rightarrow> ce_now env < t) then (cg_trusted s, s)
      else if ce_allowed env then (True, s\<lparr>cg_trusted := True, cg_nextAsk := Some (ce_now env + accessReconfirm)\<rparr>)
      else (let s1 = (if cg_trusted s then s\<lparr>cg_trusted := False, cg_warned := None\<rparr> else s);
                s2 = s1\<lparr>cg_nextAsk := Some (ce_now env + accessRecheck)\<rparr>
            in (False,
                if (case cg_warned s2 of None \<Rightarrow> True | Some w \<Rightarrow> accessWarnEvery \<le> ce_now env - w)
                then s2\<lparr>cg_warned := Some (ce_now env)\<rparr> else s2)))"

definition post :: "cg_env \<Rightarrow> (cgInput \<Rightarrow> cg_event) \<Rightarrow> cgInput \<Rightarrow> cgInput" where
  "post env ev s = (case mayPost env s of (ok, s1) \<Rightarrow> if ok then s1\<lparr>cg_out := cg_out s1 @ [ev s1]\<rparr> else s1)"

definition emitMouse :: "cg_env \<Rightarrow> eventType \<Rightarrow> int \<Rightarrow> int \<Rightarrow> cgInput \<Rightarrow> cgInput" where
  "emitMouse env t button clicks s = post env (\<lambda>s. CgMouse t (cg_x s) (cg_y s) button clicks (cg_flags s)) s"

definition emitFlags :: "cg_env \<Rightarrow> int \<Rightarrow> cgInput \<Rightarrow> cgInput" where
  "emitFlags env kc s = post env (\<lambda>s. CgFlagsChanged kc (cg_flags s)) s"

section \<open>The mouse\<close>

definition point :: "cg_env \<Rightarrow> rat \<Rightarrow> rat \<Rightarrow> cgInput \<Rightarrow> rat \<times> rat" where
  "point env x y s =
     (case ce_screen env of
        None \<Rightarrow> (cg_x s, cg_y s)
      | Some (w, h) \<Rightarrow> (min (f64_round (clamp01 x * w)) (w - 1), min (f64_round (clamp01 y * h)) (h - 1)))"

definition put_pointer :: "cg_env \<Rightarrow> rat \<Rightarrow> rat \<Rightarrow> cgInput \<Rightarrow> cgInput" where
  "put_pointer env x y s = s\<lparr>cg_x := fst (point env x y s), cg_y := snd (point env x y s)\<rparr>"

definition clicksOf :: "int \<Rightarrow> cgInput \<Rightarrow> int" where
  "clicksOf button s =
     (if lc_button (cg_click s) = button \<and> 0 < lc_count (cg_click s) then lc_count (cg_click s) else 1)"

fun first_held :: "nat \<Rightarrow> bool list \<Rightarrow> nat option" where
  "first_held b [] = None"
| "first_held b (held # bs) = (if held then Some b else first_held (Suc b) bs)"

definition cg_moveMouse :: "cg_env \<Rightarrow> rat \<Rightarrow> rat \<Rightarrow> cgInput \<Rightarrow> cgInput" where
  "cg_moveMouse env x y s =
     (let s1 = put_pointer env x y s
      in case first_held 0 (cg_buttons s1) of
           Some b \<Rightarrow> emitMouse env (draggedEvent ! b) (int b) (clicksOf (int b) s1) s1
         | None \<Rightarrow> emitMouse env evMoved 0 0 s1)"

definition next_click :: "cg_env \<Rightarrow> int \<Rightarrow> cgInput \<Rightarrow> lastClick" where
  "next_click env button s =
     (let c = cg_click s;
          again = 0 < lc_count c \<and> lc_button c = button \<and> ce_now env - lc_at c \<le> ce_doubleClick env
            \<and> (cg_x s - lc_x c)\<^sup>2 + (cg_y s - lc_y c)\<^sup>2 \<le> clickSlop\<^sup>2
      in \<lparr>lc_button = button, lc_at = ce_now env, lc_x = cg_x s, lc_y = cg_y s,
          lc_count = (if again then lc_count c + 1 else 1)\<rparr>)"

definition cg_clickMouse :: "cg_env \<Rightarrow> int \<Rightarrow> bool \<Rightarrow> rat \<Rightarrow> rat \<Rightarrow> cgInput \<Rightarrow> cgInput" where
  "cg_clickMouse env button down x y s =
     (if button < 0 \<or> 3 \<le> button then s
      else let s1 = put_pointer env x y s;
               s2 = s1\<lparr>cg_buttons := (cg_buttons s1)[nat button := down]\<rparr>
           in if \<not> down then emitMouse env (upEvent ! nat button) button (clicksOf button s2) s2
              else let c = next_click env button s2
                   in emitMouse env (downEvent ! nat button) button (lc_count c) (s2\<lparr>cg_click := c\<rparr>))"

definition clampInt32 :: "int \<Rightarrow> int" where
  "clampInt32 v = max (min v (2 ^ 31 - 1)) (- (2 ^ 31))"

text \<open>The negation is Go's: \<open>int\<close> wraps.\<close>

definition scrollAxes :: "int \<Rightarrow> int \<Rightarrow> int \<times> int" where
  "scrollAxes dx dy = (clampInt32 dy, clampInt32 (i64 (- dx)))"

definition cg_scrollWheel :: "cg_env \<Rightarrow> int \<Rightarrow> int \<Rightarrow> cgInput \<Rightarrow> cgInput" where
  "cg_scrollWheel env dx dy s =
     (case scrollAxes dx dy of
        (v, h) \<Rightarrow> if v = 0 \<and> h = 0 then s else post env (\<lambda>s. CgScroll v h (cg_flags s)) s)"

section \<open>The keyboard\<close>

fun release_each :: "cg_env \<Rightarrow> int list \<Rightarrow> cgInput \<Rightarrow> cgInput" where
  "release_each env [] s = s"
| "release_each env (kc # kcs) s =
     release_each env kcs
       (post env (\<lambda>s. CgKey kc False False (cg_flags s)) (s\<lparr>cg_keys := removeAll kc (cg_keys s)\<rparr>))"

definition releaseHeldKeys :: "cg_env \<Rightarrow> cgInput \<Rightarrow> cgInput" where
  "releaseHeldKeys env s = release_each env (map_order (ce_perm env) (cg_keys s)) s"

definition cg_modifier :: "cg_env \<Rightarrow> int \<Rightarrow> bool \<Rightarrow> cgInput \<Rightarrow> cgInput" where
  "cg_modifier env kc down s =
     (if (kc \<in> cg_mods s) = down then s
      else if down then emitFlags env kc (s\<lparr>cg_mods := insert kc (cg_mods s)\<rparr>)
      else let s1 = (if kc = kvkCommand \<and> kvkRightCommand \<notin> cg_mods s \<or> kc = kvkRightCommand \<and> kvkCommand \<notin> cg_mods s
                     then releaseHeldKeys env s else s)
           in emitFlags env kc (s1\<lparr>cg_mods := cg_mods s1 - {kc}\<rparr>))"

definition cg_plain_key :: "cg_env \<Rightarrow> int \<Rightarrow> bool \<Rightarrow> cgInput \<Rightarrow> cgInput" where
  "cg_plain_key env kc down s =
     (let repeat = down \<and> kc \<in> set (cg_keys s);
          s1 = (if down then (if kc \<in> set (cg_keys s) then s else s\<lparr>cg_keys := cg_keys s @ [kc]\<rparr>)
                else s\<lparr>cg_keys := removeAll kc (cg_keys s)\<rparr>)
      in post env (\<lambda>s. CgKey kc down repeat (cg_flags s)) s1)"

definition cg_pressKey :: "cg_env \<Rightarrow> string \<Rightarrow> bool \<Rightarrow> cgInput \<Rightarrow> cgInput" where
  "cg_pressKey env code down s =
     (case codeToKeycode code of
        None \<Rightarrow> s
      | Some kc \<Rightarrow>
          if kc = kvkCapsLock then (if down then emitFlags env kc (s\<lparr>cg_capsLock := \<not> cg_capsLock s\<rparr>) else s)
          else if modifierFlags kc \<noteq> {} then cg_modifier env kc down s
          else cg_plain_key env kc down s)"

fun cg_call :: "cg_env \<Rightarrow> inj_call \<Rightarrow> cgInput \<Rightarrow> cgInput" where
  "cg_call env (MoveMouse x y) s = cg_moveMouse env x y s"
| "cg_call env (ClickMouse b down x y) s = cg_clickMouse env b down x y s"
| "cg_call env (ScrollWheel dx dy) s = cg_scrollWheel env dx dy s"
| "cg_call env (PressKey code down) s = cg_pressKey env code down s"

text \<open>A run: the state and how many calls were made; each call meets its own environment.\<close>

definition mac_apply :: "(nat \<Rightarrow> cg_env) \<Rightarrow> inj_call \<Rightarrow> nat \<times> cgInput \<Rightarrow> nat \<times> cgInput" where
  "mac_apply env c ks = (Suc (fst ks), cg_call (env (fst ks)) c (snd ks))"

section \<open>What each operation leaves alone\<close>

text \<open>\<open>held_same s t\<close>: the two states hold the same keys, modifiers and buttons.\<close>

definition held_same :: "cgInput \<Rightarrow> cgInput \<Rightarrow> bool" where
  "held_same s t \<longleftrightarrow> cg_keys t = cg_keys s \<and> cg_mods t = cg_mods s \<and> cg_buttons t = cg_buttons s \<and> cg_capsLock t = cg_capsLock s"

lemma held_same_refl [simp]: "held_same s s"
  by (simp add: held_same_def)

lemma mayPost_same: "held_same s (snd (mayPost env s))"
  by (simp add: mayPost_def held_same_def Let_def split: option.split)

lemma post_same: "held_same s (post env ev s)"
  using mayPost_same[of s env] by (cases "mayPost env s") (simp add: post_def held_same_def)

lemma post_sel [simp]:
  "cg_keys (post env ev s) = cg_keys s" "cg_mods (post env ev s) = cg_mods s" "cg_buttons (post env ev s) = cg_buttons s"
  using post_same[of s env ev] by (simp_all add: held_same_def)

lemma emit_sel [simp]:
  "cg_keys (emitFlags env kc s) = cg_keys s" "cg_mods (emitFlags env kc s) = cg_mods s" "cg_buttons (emitFlags env kc s) = cg_buttons s"
  "cg_keys (emitMouse env t b n s) = cg_keys s" "cg_mods (emitMouse env t b n s) = cg_mods s" "cg_buttons (emitMouse env t b n s) = cg_buttons s"
  "cg_keys (put_pointer env x y s) = cg_keys s" "cg_mods (put_pointer env x y s) = cg_mods s" "cg_buttons (put_pointer env x y s) = cg_buttons s"
  by (simp_all add: emitFlags_def emitMouse_def put_pointer_def)

lemma release_each_sel [simp]:
  "cg_mods (release_each env kcs s) = cg_mods s" "cg_buttons (release_each env kcs s) = cg_buttons s"
  by (induction kcs arbitrary: s) simp_all

lemma release_each_keys [simp]: "set (cg_keys (release_each env kcs s)) = set (cg_keys s) - set kcs"
  by (induction kcs arbitrary: s) auto

lemma nth_update_False: "i < length bs \<Longrightarrow> bs[n := False] ! i \<longleftrightarrow> i \<noteq> n \<and> bs ! i"
  by (cases "i = n") auto

text \<open>Keys and buttons down, as the injector's laws see them.\<close>

definition mac_keys :: "nat \<times> cgInput \<Rightarrow> int set" where
  "mac_keys ks = {kc \<in> set (cg_keys (snd ks)). modifierFlags kc = {} \<and> kc \<noteq> kvkCapsLock}
     \<union> {kc \<in> cg_mods (snd ks). modifierFlags kc \<noteq> {}}"

definition mac_buttons :: "nat \<times> cgInput \<Rightarrow> int set" where
  "mac_buttons ks = {int b | b. b < length (cg_buttons (snd ks)) \<and> b < 3 \<and> cg_buttons (snd ks) ! b}"

lemma mac_sel:
  "mac_keys (k, s) = {kc \<in> set (cg_keys s). modifierFlags kc = {} \<and> kc \<noteq> kvkCapsLock} \<union> {kc \<in> cg_mods s. modifierFlags kc \<noteq> {}}"
  "mac_buttons (k, s) = {int b | b. b < length (cg_buttons s) \<and> b < 3 \<and> cg_buttons s ! b}"
  by (simp_all add: mac_keys_def mac_buttons_def)

lemma mouse_sel [simp]:
  "cg_keys (cg_moveMouse env x y s) = cg_keys s" "cg_mods (cg_moveMouse env x y s) = cg_mods s"
  "cg_buttons (cg_moveMouse env x y s) = cg_buttons s"
  "cg_keys (cg_scrollWheel env dx dy s) = cg_keys s" "cg_mods (cg_scrollWheel env dx dy s) = cg_mods s"
  "cg_buttons (cg_scrollWheel env dx dy s) = cg_buttons s"
  "cg_keys (cg_clickMouse env b down x y s) = cg_keys s" "cg_mods (cg_clickMouse env b down x y s) = cg_mods s"
  by (simp_all add: cg_moveMouse_def cg_scrollWheel_def cg_clickMouse_def Let_def split: option.split prod.split)

lemma cg_click_buttons:
  "cg_buttons (cg_clickMouse env b down x y s) = (if 0 \<le> b \<and> b < 3 then (cg_buttons s)[nat b := down] else cg_buttons s)"
  by (simp add: cg_clickMouse_def Let_def)

lemma cg_pressKey_buttons [simp]: "cg_buttons (cg_pressKey env code down s) = cg_buttons s"
  by (simp add: cg_pressKey_def cg_modifier_def cg_plain_key_def releaseHeldKeys_def Let_def split: option.split)

lemma cg_press_mods:
  "cg_mods (cg_pressKey env code True s) \<subseteq> cg_mods s \<union> {kc. codeToKeycode code = Some kc \<and> modifierFlags kc \<noteq> {}}"
  "cg_mods (cg_pressKey env code False s) = cg_mods s - {kc. codeToKeycode code = Some kc \<and> modifierFlags kc \<noteq> {} \<and> kc \<noteq> kvkCapsLock}"
  by (auto simp: cg_pressKey_def cg_modifier_def cg_plain_key_def releaseHeldKeys_def Let_def split: option.split)

lemma cg_press_keys:
  "set (cg_keys (cg_pressKey env code True s)) \<subseteq> set (cg_keys s) \<union> {kc. codeToKeycode code = Some kc \<and> modifierFlags kc = {} \<and> kc \<noteq> kvkCapsLock}"
  "set (cg_keys (cg_pressKey env code False s)) \<subseteq> set (cg_keys s) - {kc. codeToKeycode code = Some kc \<and> modifierFlags kc = {} \<and> kc \<noteq> kvkCapsLock}"
  by (auto simp: cg_pressKey_def cg_modifier_def cg_plain_key_def releaseHeldKeys_def Let_def split: option.split)

lemma caps_not_modifier [simp]: "modifierFlags kvkCapsLock = {}"
  by (simp add: modifierFlags_def kvk)

interpretation mac: injector "mac_apply env" mac_keys mac_buttons codeToKeycode for env
proof (unfold_locales, goal_cases)
  case (1 code s)
  then show ?case
    using cg_press_mods(1)[of "env (fst s)" code "snd s"] cg_press_keys(1)[of "env (fst s)" code "snd s"]
    by (auto simp: mac_apply_def mac_keys_def)
next
  case (2 code s)
  have caps: "modifierFlags kc \<noteq> {} \<Longrightarrow> kc \<noteq> kvkCapsLock" for kc by auto
  show ?case
    using cg_press_mods(2)[of "env (fst s)" code "snd s"] cg_press_keys(2)[of "env (fst s)" code "snd s"] caps
    by (auto simp: mac_apply_def mac_keys_def)
next
  case (3 x y s)
  then show ?case by (simp add: mac_apply_def mac_keys_def)
next
  case (4 dx dy s)
  then show ?case by (simp add: mac_apply_def mac_keys_def)
next
  case (5 b down x y s)
  then show ?case by (simp add: mac_apply_def mac_keys_def)
next
  case (6 b x y s)
  then show ?case by (auto simp: mac_apply_def mac_buttons_def cg_click_buttons nth_list_update split: if_splits)
next
  case (7 b x y s)
  show ?case
  proof (cases "0 \<le> b \<and> b < 3")
    case True
    then obtain n where "b = int n" "n < 3" by (metis nonneg_int_cases of_nat_less_iff of_nat_numeral)
    then show ?thesis by (auto simp: mac_apply_def mac_buttons_def cg_click_buttons nth_update_False)
  next
    case False
    then show ?thesis by (auto simp: mac_apply_def mac_buttons_def cg_click_buttons)
  qed
next
  case (8 x y s)
  then show ?case by (simp add: mac_apply_def mac_buttons_def)
next
  case (9 dx dy s)
  then show ?case by (simp add: mac_apply_def mac_buttons_def)
next
  case (10 code down s)
  then show ?case by (simp add: mac_apply_def mac_buttons_def)
qed

section \<open>Properties\<close>

lemma no_member_left: "{x \<in> A. P x} = {} \<Longrightarrow> \<forall>x \<in> A. P x \<Longrightarrow> A = {}"
  by auto

text \<open>Keys and modifiers are kept apart.\<close>

definition cg_wf :: "cgInput \<Rightarrow> bool" where
  "cg_wf s \<longleftrightarrow>
     (\<forall>kc \<in> set (cg_keys s). modifierFlags kc = {} \<and> kc \<noteq> kvkCapsLock)
     \<and> (\<forall>kc \<in> cg_mods s. modifierFlags kc \<noteq> {}) \<and> length (cg_buttons s) = 3"

lemma cg_wf_call: "cg_wf s \<Longrightarrow> cg_wf (cg_call env c s)"
proof (cases c)
  case (PressKey code down)
  assume "cg_wf s"
  with PressKey cg_press_mods[of env code s] cg_press_keys[of env code s] show ?thesis
    by (cases down) (auto simp: cg_wf_def)
qed (auto simp: cg_wf_def cg_click_buttons)

lemma cg_wf_run: "cg_wf (snd ks) \<Longrightarrow> cg_wf (snd (fold (mac_apply env) cs ks))"
  by (induction cs arbitrary: ks) (simp_all add: mac_apply_def cg_wf_call)


definition ex_env :: "nat \<Rightarrow> cg_env" where
  "ex_env k = \<lparr>ce_now = int k, ce_screen = Some (1440, 900), ce_doubleClick = 5, ce_allowed = True, ce_perm = (\<lambda>n. [0..<n])\<rparr>"


text \<open>The pointer stays on the display.\<close>

lemma point_on_screen:
  assumes "ce_screen env = Some (w, h)" and "1 \<le> w" and "1 \<le> h"
  shows "0 \<le> fst (point env x y s) \<and> fst (point env x y s) \<le> w - 1 \<and> 0 \<le> snd (point env x y s) \<and> snd (point env x y s) \<le> h - 1"
  using assms by (auto simp: point_def clamp01_def intro!: f64_round_nonneg)

text \<open>Both deltas fit; only the most negative horizontal one changes direction, as its negation wraps.\<close>

lemma scrollAxes_range: "- (2 ^ 31) \<le> clampInt32 v \<and> clampInt32 v < 2 ^ 31"
  by (simp add: clampInt32_def)

lemma scrollAxes_min: "snd (scrollAxes (- (2 ^ 63)) 0) = - (2 ^ 31)"
  by (simp add: scrollAxes_def clampInt32_def i64_def)

text \<open>Unless macOS takes the permission away, an event is posted for every call: what was refused is
  asked again at most two seconds later.\<close>

lemma mayPost_asks_again:
  assumes "mayPost env s = (False, s')" and "\<not> cg_trusted s \<or> cg_nextAsk s = None"
  shows "case cg_nextAsk s' of None \<Rightarrow> False | Some t \<Rightarrow> t \<le> max (ce_now env + accessRecheck) (case cg_nextAsk s of None \<Rightarrow> t | Some u \<Rightarrow> u)"
  using assms by (auto simp: mayPost_def Let_def split: if_splits option.splits)

end
