(* ===== verification/Clipboard.thy ===== *)
theory Clipboard
  imports Utf8 Json Paths
begin

text \<open>
  Package \<open>clipboard\<close>: \<open>clipboard.go\<close>, \<open>sync.go\<close> and \<open>worker.go\<close>. Everything runs on one thread, so the jobs and
  polls of a session are one sequence of steps on the system's clipboard and the state of \<open>Sync\<close>.
\<close>

definition ModeOff :: string where "ModeOff = ''off''"
definition ModeText :: string where "ModeText = ''text''"
definition MaxTextBytes :: int where "MaxTextBytes = 256 * 2 ^ 10"
definition clip_Type :: string where "clip_Type = ''cb''"

record clip_Msg =
  cm_T :: string
  cm_Text :: string
  cm_Trunc :: bool

definition put_clip :: "string \<Rightarrow> jval \<Rightarrow> clip_Msg \<Rightarrow> clip_Msg option" where
  "put_clip name v m =
     (if name = ''t'' then map_option (\<lambda>s. m\<lparr>cm_T := s\<rparr>) (decode_str v (cm_T m))
      else if name = ''text'' then map_option (\<lambda>s. m\<lparr>cm_Text := s\<rparr>) (decode_str v (cm_Text m))
      else map_option (\<lambda>b. m\<lparr>cm_Trunc := b\<rparr>) (decode_bool v (cm_Trunc m)))"

definition decode_clip :: "jval option \<Rightarrow> clip_Msg option" where
  "decode_clip data =
     Option.bind data (\<lambda>v. decode_struct [''t'', ''text'', ''trunc''] put_clip v \<lparr>cm_T = [], cm_Text = [], cm_Trunc = False\<rparr>)"

text \<open>\<open>Msg.Encode\<close>: the type is set here, and \<open>trunc\<close> is left out when false.\<close>

definition encode_clip :: "clip_Msg \<Rightarrow> jval" where
  "encode_clip m =
     JObj ([(''t'', JStr clip_Type), (''text'', JStr (cm_Text m))] @ (if cm_Trunc m then [(''trunc'', JBool True)] else []))"

lemma decode_encode_clip:
  "decode_clip (Some (encode_clip m)) = Some (m\<lparr>cm_T := clip_Type\<rparr>)"
  by (cases "cm_Trunc m") (simp_all add: decode_clip_def encode_clip_def put_clip_def)

text \<open>\<open>truncateUTF8\<close>: the loop looks for a rune's first byte at or before \<open>n\<close>.\<close>

fun cut_back :: "string \<Rightarrow> nat \<Rightarrow> nat" where
  "cut_back s 0 = 0"
| "cut_back s (Suc n) = (if \<not> rune_start (s ! Suc n) then cut_back s n else Suc n)"

definition truncateUTF8 :: "string \<Rightarrow> nat \<Rightarrow> string" where
  "truncateUTF8 s n = (if length s \<le> n then s else take (cut_back s n) s)"

lemma cut_back_le: "cut_back s n \<le> n"
  by (induction s n rule: cut_back.induct) auto

lemma truncateUTF8_prefix: "length (truncateUTF8 s n) \<le> n \<and> prefix (truncateUTF8 s n) s"
  using cut_back_le[of s n] by (auto simp: truncateUTF8_def take_is_prefix)

section \<open>The clipboard and the session\<close>

text \<open>What the system's clipboard holds, whether it is marked private, and its sequence number.\<close>

record board =
  bd_seq :: int
  bd_text :: "string option"
  bd_files :: "string list option"
  bd_private :: bool

record Sync =
  sy_ownSeq :: int
  sy_lastSeq :: int
  sy_lastApplied :: string
  sy_stopped :: bool
  sy_onFiles :: bool
  sy_sent :: "clip_Msg list"
  sy_offered :: "string list list"

text \<open>\<open>NewSync\<close>: the current state is taken as seen.\<close>

definition NewSync :: "string \<Rightarrow> bool \<Rightarrow> board \<Rightarrow> Sync option" where
  "NewSync mode onFiles b =
     (if mode \<noteq> ModeText then None
      else Some \<lparr>sy_ownSeq = 0, sy_lastSeq = bd_seq b, sy_lastApplied = [], sy_stopped = False, sy_onFiles = onFiles,
             sy_sent = [], sy_offered = []\<rparr>)"

text \<open>\<open>poll\<close>, with the errors of the two reads.\<close>

definition poll_text :: "board \<Rightarrow> bool \<Rightarrow> Sync \<Rightarrow> Sync" where
  "poll_text b text_err s =
     (case bd_text b of
        None \<Rightarrow> s
      | Some text \<Rightarrow>
          if text_err \<or> text = [] then s
          else if text = sy_lastApplied s then s
          else let m = (if MaxTextBytes < int (length text)
                        then \<lparr>cm_T = clip_Type, cm_Text = truncateUTF8 text (nat MaxTextBytes), cm_Trunc = True\<rparr>
                        else \<lparr>cm_T = clip_Type, cm_Text = text, cm_Trunc = False\<rparr>)
               in s\<lparr>sy_sent := sy_sent s @ [m]\<rparr>)"

definition poll :: "board \<Rightarrow> bool \<Rightarrow> bool \<Rightarrow> Sync \<Rightarrow> Sync" where
  "poll b files_err text_err s =
     (let seq = bd_seq b; unchanged = (seq = sy_lastSeq s); ours = (seq = sy_ownSeq s);
          s1 = (if unchanged then s else s\<lparr>sy_lastSeq := seq\<rparr>)
      in if unchanged \<or> ours then s1
         else if bd_private b then s1
         else (case bd_files b of
                 Some paths \<Rightarrow>
                   if sy_onFiles s1 \<and> \<not> files_err then s1\<lparr>sy_offered := sy_offered s1 @ [paths]\<rparr>
                   else poll_text b text_err s1
               | None \<Rightarrow> poll_text b text_err s1))"

text \<open>A write by the agent: done, refused before anything was touched, or refused after the clipboard had
  been emptied.\<close>

datatype write_result = Wrote | Untouched | Emptied

definition empty_board :: "board \<Rightarrow> board" where
  "empty_board b = \<lparr>bd_seq = u32 (bd_seq b + 1), bd_text = None, bd_files = None, bd_private = False\<rparr>"

definition mark_own :: "board \<Rightarrow> Sync \<Rightarrow> Sync" where
  "mark_own b s = s\<lparr>sy_ownSeq := bd_seq b, sy_lastSeq := bd_seq b\<rparr>"

definition write_text :: "write_result \<Rightarrow> string \<Rightarrow> board \<Rightarrow> Sync \<Rightarrow> board \<times> Sync" where
  "write_text w text b s =
     (case w of
        Untouched \<Rightarrow> (b, s)
      | Emptied \<Rightarrow> (empty_board b, s)
      | Wrote \<Rightarrow> let b' = (empty_board b)\<lparr>bd_text := Some text\<rparr>
                 in (b', (mark_own b' s)\<lparr>sy_lastApplied := text\<rparr>))"

definition clip_Handle :: "write_result \<Rightarrow> jval option \<Rightarrow> board \<Rightarrow> Sync \<Rightarrow> board \<times> Sync" where
  "clip_Handle w data b s =
     (case decode_clip data of
        None \<Rightarrow> (b, s)
      | Some m \<Rightarrow>
          if cm_T m \<noteq> clip_Type then (b, s)
          else if cm_Text m = [] \<or> MaxTextBytes < int (length (cm_Text m)) then (b, s)
          else if sy_stopped s \<or> cm_Text m = sy_lastApplied s then (b, s)
          else write_text w (cm_Text m) b s)"

definition PutFiles :: "write_result \<Rightarrow> string list \<Rightarrow> board \<Rightarrow> Sync \<Rightarrow> board \<times> Sync" where
  "PutFiles w paths b s =
     (if paths = [] \<or> sy_stopped s then (b, s)
      else (case w of
              Untouched \<Rightarrow> (b, s)
            | Emptied \<Rightarrow> (empty_board b, s)
            | Wrote \<Rightarrow> let b' = (empty_board b)\<lparr>bd_files := Some paths\<rparr> in (b', mark_own b' s)))"

definition clip_Stop :: "Sync \<Rightarrow> Sync" where
  "clip_Stop s = s\<lparr>sy_stopped := True\<rparr>"

text \<open>The steps of a session: a tick of the poller, a copy some program makes on this computer, a frame of
  the viewer, files to put on the clipboard, the end. After the end the worker polls no more.\<close>

datatype clip_event =
    CePoll bool bool
  | CeCopy "string option" "string list option" bool
  | CeFrame write_result "jval option"
  | CePut write_result "string list"
  | CeStop

definition clip_step :: "clip_event \<Rightarrow> board \<times> Sync \<Rightarrow> board \<times> Sync" where
  "clip_step ev bs =
     (case ev of
        CePoll fe te \<Rightarrow> if sy_stopped (snd bs) then bs else (fst bs, poll (fst bs) fe te (snd bs))
      | CeCopy text files priv \<Rightarrow>
          (\<lparr>bd_seq = u32 (bd_seq (fst bs) + 1), bd_text = text, bd_files = files, bd_private = priv\<rparr>, snd bs)
      | CeFrame w data \<Rightarrow> clip_Handle w data (fst bs) (snd bs)
      | CePut w paths \<Rightarrow> PutFiles w paths (fst bs) (snd bs)
      | CeStop \<Rightarrow> (fst bs, clip_Stop (snd bs)))"

definition clip_run :: "clip_event list \<Rightarrow> board \<times> Sync \<Rightarrow> board \<times> Sync" where
  "clip_run evs bs = fold clip_step evs bs"

section \<open>What is sent\<close>

text \<open>The texts copied on this computer in a list of steps, without those marked private.\<close>

definition public_copies :: "clip_event list \<Rightarrow> string set" where
  "public_copies evs = {t. \<exists>files. CeCopy (Some t) files False \<in> set evs}"

text \<open>What the clipboard holds was copied here in the session, or the poller passes it by.\<close>

definition sent_ok :: "string set \<Rightarrow> clip_Msg \<Rightarrow> bool" where
  "sent_ok T m \<longleftrightarrow>
     (\<exists>t \<in> T. t \<noteq> [] \<and> cm_Text m = truncateUTF8 t (nat MaxTextBytes) \<and> cm_Trunc m = (MaxTextBytes < int (length t)))"

definition clip_inv :: "string set \<Rightarrow> board \<times> Sync \<Rightarrow> bool" where
  "clip_inv T bs \<longleftrightarrow>
     (sy_lastSeq (snd bs) = bd_seq (fst bs) \<or> bd_private (fst bs)
        \<or> (case bd_text (fst bs) of None \<Rightarrow> True | Some t \<Rightarrow> t \<in> T))
     \<and> (\<forall>m \<in> set (sy_sent (snd bs)). sent_ok T m)"

lemma sent_long:
  "t \<in> T \<Longrightarrow> t \<noteq> [] \<Longrightarrow> MaxTextBytes < int (length t) \<Longrightarrow>
   sent_ok T \<lparr>cm_T = clip_Type, cm_Text = truncateUTF8 t (nat MaxTextBytes), cm_Trunc = True\<rparr>"
  unfolding sent_ok_def by (rule bexI[of _ t]) simp_all

lemma sent_short:
  "t \<in> T \<Longrightarrow> t \<noteq> [] \<Longrightarrow> \<not> MaxTextBytes < int (length t) \<Longrightarrow>
   sent_ok T \<lparr>cm_T = clip_Type, cm_Text = t, cm_Trunc = False\<rparr>"
  unfolding sent_ok_def by (rule bexI[of _ t]) (auto simp: truncateUTF8_def MaxTextBytes_def)

lemma poll_text_inv:
  assumes "case bd_text b of None \<Rightarrow> True | Some t \<Rightarrow> t \<in> T" and "\<forall>m \<in> set (sy_sent s). sent_ok T m"
  shows "\<forall>m \<in> set (sy_sent (poll_text b te s)). sent_ok T m"
proof (cases "bd_text b")
  case None
  with assms show ?thesis by (simp add: poll_text_def)
next
  case (Some t)
  with assms(1) have t: "t \<in> T" by simp
  have "sy_sent (poll_text b te s) = sy_sent s \<or>
      t \<noteq> [] \<and> MaxTextBytes < int (length t)
        \<and> sy_sent (poll_text b te s) = sy_sent s @ [\<lparr>cm_T = clip_Type, cm_Text = truncateUTF8 t (nat MaxTextBytes), cm_Trunc = True\<rparr>] \<or>
      t \<noteq> [] \<and> \<not> MaxTextBytes < int (length t)
        \<and> sy_sent (poll_text b te s) = sy_sent s @ [\<lparr>cm_T = clip_Type, cm_Text = t, cm_Trunc = False\<rparr>]"
    using Some by (simp add: poll_text_def Let_def)
  with assms(2) sent_long[OF t] sent_short[OF t] show ?thesis by (elim disjE) simp_all
qed

lemma poll_text_lastSeq [simp]: "sy_lastSeq (poll_text b te s) = sy_lastSeq s"
  by (simp add: poll_text_def Let_def split: option.split)

lemma poll_inv:
  assumes "clip_inv T (b, s)"
  shows "clip_inv T (b, poll b fe te s)"
proof (cases "bd_seq b = sy_lastSeq s \<or> bd_seq b = sy_ownSeq s \<or> bd_private b")
  case True
  then have "poll b fe te s = (if bd_seq b = sy_lastSeq s then s else s\<lparr>sy_lastSeq := bd_seq b\<rparr>)"
    by (elim disjE) (simp_all add: poll_def Let_def)
  with assms show ?thesis by (simp add: clip_inv_def)
next
  case False
  with assms have t: "case bd_text b of None \<Rightarrow> True | Some t \<Rightarrow> t \<in> T" by (auto simp: clip_inv_def)
  let ?s1 = "s\<lparr>sy_lastSeq := bd_seq b\<rparr>"
  from assms have "\<forall>m \<in> set (sy_sent ?s1). sent_ok T m"
    by (simp add: clip_inv_def)
  note p = poll_text_inv[OF t this, of te]
  from False have "poll b fe te s = ?s1\<lparr>sy_offered := sy_offered s @ [the (bd_files b)]\<rparr> \<or> poll b fe te s = poll_text b te ?s1"
    by (auto simp: poll_def Let_def split: option.split)
  with p assms show ?thesis by (auto simp: clip_inv_def)
qed

lemma write_inv:
  assumes "clip_inv T (b, s)"
  shows "clip_inv T (write_text w text b s)" and "clip_inv T (PutFiles w paths b s)"
  using assms
  by (auto simp: clip_inv_def write_text_def PutFiles_def empty_board_def mark_own_def Let_def split: write_result.splits)

lemma clip_step_inv:
  assumes "clip_inv T bs" and "public_copies [ev] \<subseteq> T"
  shows "clip_inv T (clip_step ev bs)"
proof -
  obtain b s where bs: "bs = (b, s)" by fastforce
  show ?thesis
  proof (cases ev)
    case (CePoll fe te)
    with poll_inv[of T b s fe te] assms(1) show ?thesis by (simp add: clip_step_def bs)
  next
    case (CeCopy t fs p)
    with assms show ?thesis
      by (auto simp: clip_step_def bs clip_inv_def public_copies_def split: option.split)
  next
    case (CeFrame w data)
    with write_inv(1)[of T b s w] assms(1) show ?thesis
      by (simp add: clip_step_def bs clip_Handle_def split: option.split)
  next
    case (CePut w paths)
    with write_inv(2)[of T b s w paths] assms(1) show ?thesis by (simp add: clip_step_def bs)
  next
    case CeStop
    with assms(1) show ?thesis by (simp add: clip_step_def bs clip_Stop_def clip_inv_def)
  qed
qed

lemma clip_run_inv: "clip_inv T bs \<Longrightarrow> public_copies evs \<subseteq> T \<Longrightarrow> clip_inv T (clip_run evs bs)"
proof (induction evs arbitrary: bs)
  case (Cons ev evs)
  then have "public_copies [ev] \<subseteq> T" "public_copies evs \<subseteq> T" by (auto simp: public_copies_def)
  with Cons.IH[OF clip_step_inv[OF Cons.prems(1), of ev]] show ?case by (simp add: clip_run_def)
qed (simp add: clip_run_def)


definition ex_board :: board where
  "ex_board = \<lparr>bd_seq = 7, bd_text = Some ''old'', bd_files = None, bd_private = False\<rparr>"

definition ex_sync :: Sync where
  "ex_sync = \<lparr>sy_ownSeq = 0, sy_lastSeq = 7, sy_lastApplied = [], sy_stopped = False, sy_onFiles = True, sy_sent = [], sy_offered = []\<rparr>"

definition ex_frame :: jval where
  "ex_frame = JObj [(''t'', JStr ''cb''), (''text'', JStr ''theirs'')]"

lemma ex_run:
  "sy_sent (snd (clip_run [CePoll False False, CeFrame Wrote (Some ex_frame), CePoll False False,
      CeCopy (Some ''secret'') None True, CePoll False False, CeCopy (Some ''mine'') None False, CePoll False False] (ex_board, ex_sync)))
   = [\<lparr>cm_T = ''cb'', cm_Text = ''mine'', cm_Trunc = False\<rparr>]"
  by code_simp


section \<open>A copy that is lost\<close>

lemma poll_lastApplied [simp]: "sy_lastApplied (poll b fe te s) = sy_lastApplied s"
  by (simp add: poll_def poll_text_def Let_def split: option.split)

lemma clip_run_lastApplied:
  "\<forall>ev \<in> set evs. (\<exists>fe te. ev = CePoll fe te) \<or> (\<exists>t fs p. ev = CeCopy t fs p) \<Longrightarrow>
   sy_lastApplied (snd (clip_run evs bs)) = sy_lastApplied (snd bs)"
  unfolding clip_run_def
  by (induction evs arbitrary: bs) (auto simp: clip_step_def)

text \<open>A text the viewer has sent once is not taken again: after it was written, whatever is copied on
  this computer meanwhile, the same text copied again at the viewer is dropped, so the clipboard
  keeps the newer local copy, and the text copied here again is not sent back to the viewer.\<close>

theorem repeated_copy_lost:
  assumes "clip_Handle Wrote data b s = (b', s')" and "b' \<noteq> b"
    and "\<forall>ev \<in> set evs. (\<exists>fe te. ev = CePoll fe te) \<or> (\<exists>t fs p. ev = CeCopy t fs p)"
    and "bd_text b2 = bd_text b'"
  shows "clip_Handle w data (fst (clip_run evs (b', s'))) (snd (clip_run evs (b', s'))) = clip_run evs (b', s')
     \<and> sy_sent (poll_text b2 te (snd (clip_run evs (b', s')))) = sy_sent (snd (clip_run evs (b', s')))"
proof -
  from assms(1,2) obtain m where m: "decode_clip data = Some m" "sy_lastApplied s' = cm_Text m" "bd_text b' = Some (cm_Text m)"
    by (auto simp: clip_Handle_def write_text_def Let_def split: option.splits if_splits)
  with clip_run_lastApplied[OF assms(3), of "(b', s')"] have l: "sy_lastApplied (snd (clip_run evs (b', s'))) = cm_Text m" by simp
  with m have "clip_Handle w data (fst (clip_run evs (b', s'))) (snd (clip_run evs (b', s'))) = clip_run evs (b', s')"
    by (simp add: clip_Handle_def)
  moreover have "sy_sent (poll_text b2 te (snd (clip_run evs (b', s')))) = sy_sent (snd (clip_run evs (b', s')))"
    using m l assms(4) by (simp add: poll_text_def)
  ultimately show ?thesis ..
qed

lemma repeated_copy_lost_witness:
  "bd_text (fst (clip_run [CeFrame Wrote (Some ex_frame), CeCopy (Some ''mine'') None False, CePoll False False, CeFrame Wrote (Some ex_frame)]
     (ex_board, ex_sync))) = Some ''mine''"
proof -
  obtain b' s' where h: "clip_Handle Wrote (Some ex_frame) ex_board ex_sync = (b', s')" by fastforce
  have d: "decode_clip (Some ex_frame) = Some \<lparr>cm_T = ''cb'', cm_Text = ''theirs'', cm_Trunc = False\<rparr>" by code_simp
  have b: "bd_text (fst (clip_Handle Wrote (Some ex_frame) ex_board ex_sync)) = Some ''theirs''" by code_simp
  with h have "bd_text b' = Some ''theirs''" by simp
  then have ne: "b' \<noteq> ex_board" by (auto simp: ex_board_def)
  let ?evs = "[CeCopy (Some ''mine'') None False, CePoll False False]"
  have e: "\<forall>ev \<in> set ?evs. (\<exists>fe te. ev = CePoll fe te) \<or> (\<exists>t fs p. ev = CeCopy t fs p)" by force
  from repeated_copy_lost[OF h ne e refl, of Wrote]
  have "clip_run (?evs @ [CeFrame Wrote (Some ex_frame)]) (b', s') = clip_run ?evs (b', s')"
    by (simp add: clip_run_def clip_step_def)
  moreover have "bd_text (fst (clip_run ?evs (b', s'))) = Some ''mine''"
    by (simp add: clip_run_def clip_step_def)
  ultimately show ?thesis using h by (simp add: clip_run_def clip_step_def)
qed

section \<open>The worker\<close>

definition pumpEvery :: duration where "pumpEvery = 25 * millisecond"
definition pollEvery :: duration where "pollEvery = 400 * millisecond"

text \<open>The loop over ticks: how many polls \<open>n\<close> ticks have made.\<close>

definition perPoll :: nat where "perPoll = nat (go_div pollEvery pumpEvery)"

fun worker_polls :: "nat \<Rightarrow> nat \<Rightarrow> nat" where
  "worker_polls ticks 0 = 0"
| "worker_polls ticks (Suc n) = (if Suc ticks mod perPoll = 0 then 1 else 0) + worker_polls (Suc ticks) n"

lemma perPoll_16: "perPoll = 16"
  by (simp add: perPoll_def pollEvery_def pumpEvery_def time_units go_div_def)

lemma worker_polls_every: "worker_polls t n = (t + n) div perPoll - t div perPoll"
proof (induction n arbitrary: t)
  case (Suc n)
  have "t div 16 \<le> Suc t div 16" "Suc t div 16 \<le> (Suc t + n) div 16" by (simp_all add: div_le_mono)
  moreover have "Suc t div 16 = t div 16 + (if Suc t mod 16 = 0 then 1 else 0)" by (simp add: div_Suc)
  ultimately show ?case using Suc[of "Suc t"] by (simp add: perPoll_16)
qed simp

end
