(* ===== verification/ClipboardBoards.thy ===== *)
theory ClipboardBoards
  imports Clipboard "HOL-Library.Multiset"
begin

text \<open>
  The platform's boards: \<open>clipboard_windows.go\<close> and \<open>clipboard_darwin.go\<close>. On Windows the interest is in who
  owns a block of global memory when, so the operations are the lists of calls they make, given what each
  call answers; on macOS in when the pasteboard may be read at all.
\<close>

section \<open>Windows: who owns a block\<close>

definition openAttempts :: nat where "openAttempts = 10"
definition openBackoff :: duration where "openBackoff = 25 * millisecond"

text \<open>A block is named by a number. \<open>CSet True b\<close>: the clipboard took the block over.\<close>

datatype clip_call =
    CAlloc nat | CLock nat | CUnlock nat | CFree nat
  | COpen bool | CSleep duration | CClose | CEmpty
  | CSet bool nat | CGet | CRegister

text \<open>\<open>open\<close>, from the answers of \<open>OpenClipboard\<close>: at most ten attempts with a pause in between.\<close>

fun clip_open :: "nat \<Rightarrow> bool list \<Rightarrow> bool \<times> clip_call list" where
  "clip_open 0 answers = (False, [])"
| "clip_open (Suc k) [] = (False, [])"
| "clip_open (Suc k) (a # answers) =
     (if a then (True, [COpen True])
      else (case clip_open k answers of
              (ok, cs) \<Rightarrow> (ok, [COpen False] @ (if 0 < k then [CSleep openBackoff] else []) @ cs)))"

text \<open>What the system answers during a write.\<close>

record write_env =
  we_utf16 :: bool          \<comment> \<open>the text converts\<close>
  we_alloc :: bool
  we_lock :: bool
  we_effect_alloc :: bool
  we_effect_lock :: bool
  we_open :: "bool list"
  we_set :: bool
  we_format :: bool         \<comment> \<open>the drop-effect format is, or gets, registered\<close>
  we_registered :: bool     \<comment> \<open>it was registered before\<close>
  we_set_effect :: bool

text \<open>\<open>WriteText\<close>: block 0.\<close>

definition win_WriteText :: "write_env \<Rightarrow> bool \<times> clip_call list" where
  "win_WriteText e =
     (if \<not> we_utf16 e then (False, [])
      else if \<not> we_alloc e then (False, [])
      else if \<not> we_lock e then (False, [CAlloc 0, CFree 0])
      else (case clip_open openAttempts (we_open e) of
              (False, cs) \<Rightarrow> (False, [CAlloc 0, CLock 0, CUnlock 0] @ cs @ [CFree 0])
            | (True, cs) \<Rightarrow>
                (we_set e,
                 [CAlloc 0, CLock 0, CUnlock 0] @ cs @ [CEmpty, CSet (we_set e) 0]
                 @ (if we_set e then [] else [CFree 0]) @ [CClose])))"

text \<open>\<open>allocDropEffect\<close>: block 1.\<close>

definition allocDropEffect :: "write_env \<Rightarrow> bool \<times> clip_call list" where
  "allocDropEffect e =
     (if \<not> we_effect_alloc e then (False, [])
      else if \<not> we_effect_lock e then (False, [CAlloc 1, CFree 1])
      else (True, [CAlloc 1, CLock 1, CUnlock 1]))"

text \<open>The end of \<open>WriteFiles\<close>: the effect is best effort.\<close>

definition set_effect :: "write_env \<Rightarrow> clip_call list" where
  "set_effect e =
     (if we_registered e then [] else [CRegister])
     @ (if we_registered e \<or> we_format e then [CSet (we_set_effect e) 1] @ (if we_set_effect e then [] else [CFree 1])
        else [CFree 1])"

definition win_WriteFiles :: "write_env \<Rightarrow> string list \<Rightarrow> bool \<times> clip_call list" where
  "win_WriteFiles e paths =
     (if paths = [] then (True, [])
      else if \<not> we_utf16 e then (False, [])
      else if \<not> we_alloc e then (False, [])
      else if \<not> we_lock e then (False, [CAlloc 0, CFree 0])
      else (case allocDropEffect e of
              (False, ds) \<Rightarrow> (False, [CAlloc 0, CLock 0, CUnlock 0] @ ds @ [CFree 0])
            | (True, ds) \<Rightarrow>
                (case clip_open openAttempts (we_open e) of
                   (False, cs) \<Rightarrow> (False, [CAlloc 0, CLock 0, CUnlock 0] @ ds @ cs @ [CFree 0, CFree 1])
                 | (True, cs) \<Rightarrow>
                     if \<not> we_set e
                     then (False, [CAlloc 0, CLock 0, CUnlock 0] @ ds @ cs @ [CEmpty, CSet False 0, CFree 0, CFree 1, CClose])
                     else (True, [CAlloc 0, CLock 0, CUnlock 0] @ ds @ cs @ [CEmpty, CSet True 0] @ set_effect e @ [CClose]))))"

text \<open>What a list of calls leaves: the blocks the agent owns, and whether the clipboard is open; \<open>None\<close> when a
  call uses a block that is not the agent's, or the clipboard while it is not open.\<close>

fun run_calls :: "clip_call list \<Rightarrow> nat multiset \<times> bool \<Rightarrow> (nat multiset \<times> bool) option" where
  "run_calls [] st = Some st"
| "run_calls (CAlloc b # cs) (own, op) = run_calls cs (add_mset b own, op)"
| "run_calls (CLock b # cs) (own, op) = (if b \<in># own then run_calls cs (own, op) else None)"
| "run_calls (CUnlock b # cs) (own, op) = (if b \<in># own then run_calls cs (own, op) else None)"
| "run_calls (CFree b # cs) (own, op) = (if b \<in># own then run_calls cs (own - {#b#}, op) else None)"
| "run_calls (COpen ok # cs) (own, op) = (if op then None else run_calls cs (own, ok))"
| "run_calls (CSleep d # cs) (own, op) = run_calls cs (own, op)"
| "run_calls (CClose # cs) (own, op) = (if op then run_calls cs (own, False) else None)"
| "run_calls (CEmpty # cs) (own, op) = (if op then run_calls cs (own, op) else None)"
| "run_calls (CSet ok b # cs) (own, op) =
     (if op \<and> b \<in># own then run_calls cs (if ok then own - {#b#} else own, op) else None)"
| "run_calls (CGet # cs) (own, op) = (if op then run_calls cs (own, op) else None)"
| "run_calls (CRegister # cs) (own, op) = run_calls cs (own, op)"

lemma run_calls_append:
  "run_calls (cs @ ds) st = (case run_calls cs st of None \<Rightarrow> None | Some st' \<Rightarrow> run_calls ds st')"
  by (induction cs st rule: run_calls.induct) auto

lemma run_clip_open: "run_calls (snd (clip_open k as)) (own, False) = Some (own, fst (clip_open k as))"
  by (induction k as rule: clip_open.induct) (auto simp: run_calls_append split: prod.split)

lemma clip_open_bound:
  "length (filter (\<lambda>c. \<exists>ok. c = COpen ok) (snd (clip_open k as))) \<le> k"
  by (induction k as rule: clip_open.induct) (auto split: prod.split)

text \<open>The writes of the Windows clipboard keep the rules of its memory: in every combination of failing
  calls no block is used, freed or handed over when the agent does not own it, nothing is left
  owned, and the clipboard is closed again exactly when it was opened.\<close>

theorem clipboard_blocks_balanced:
  "run_calls (snd (win_WriteText e)) ({#}, False) = Some ({#}, False)
   \<and> run_calls (snd (win_WriteFiles e paths)) ({#}, False) = Some ({#}, False)"
proof -
  obtain ok cs where o: "clip_open openAttempts (we_open e) = (ok, cs)" by fastforce
  have r: "run_calls (cs @ ds) (own, False) = run_calls ds (own, ok)" for ds own
    using run_clip_open[of openAttempts "we_open e" own] by (simp add: o run_calls_append)
  have "run_calls (snd (win_WriteText e)) ({#}, False) = Some ({#}, False)"
    by (cases ok) (simp_all add: win_WriteText_def o r)
  moreover have "run_calls (snd (win_WriteFiles e paths)) ({#}, False) = Some ({#}, False)"
    by (cases ok) (simp_all add: win_WriteFiles_def allocDropEffect_def set_effect_def o r)
  ultimately show ?thesis ..
qed

section \<open>Windows: reading\<close>

text \<open>What the system answers during a read: which formats are there, whether the clipboard opens, the handle
  and whether it locks, and what is in the block.\<close>

record read_env =
  re_exclude :: bool
  re_canInclude :: bool
  re_unicode :: bool
  re_hdrop :: bool
  re_open :: "bool list"
  re_handle :: bool
  re_lock :: bool
  re_value :: int
  re_size :: int
  re_text :: string
  re_paths :: "string list"

text \<open>\<open>Excluded\<close>.\<close>

definition win_Excluded :: "read_env \<Rightarrow> bool" where
  "win_Excluded e =
     (if re_exclude e then True
      else if \<not> re_canInclude e then False
      else if \<not> fst (clip_open openAttempts (re_open e)) then True
      else if \<not> re_handle e then False
      else if \<not> re_lock e then False
      else re_value e = 0)"

datatype read_result = ReadErr | ReadNone | ReadSome string

definition win_ReadText :: "read_env \<Rightarrow> read_result" where
  "win_ReadText e =
     (if \<not> re_unicode e then ReadNone
      else if \<not> fst (clip_open openAttempts (re_open e)) then ReadErr
      else if \<not> re_handle e then ReadNone
      else if \<not> re_lock e then ReadNone
      else if go_div (re_size e) 2 \<le> 0 then ReadNone
      else ReadSome (re_text e))"

text \<open>\<open>ReadFiles\<close>: the empty paths \<open>DragQueryFile\<close> answers are left out.\<close>

datatype files_result = FilesErr | FilesNone | FilesSome "string list"

definition win_ReadFiles :: "read_env \<Rightarrow> files_result" where
  "win_ReadFiles e =
     (if \<not> re_hdrop e then FilesNone
      else if \<not> fst (clip_open openAttempts (re_open e)) then FilesErr
      else if \<not> re_handle e then FilesNone
      else (let paths = filter (\<lambda>p. p \<noteq> []) (re_paths e) in if paths = [] then FilesNone else FilesSome paths))"

lemma win_ReadFiles_nonempty: "win_ReadFiles e = FilesSome ps \<Longrightarrow> ps \<noteq> [] \<and> [] \<notin> set ps"
  by (auto simp: win_ReadFiles_def Let_def split: if_splits)

section \<open>macOS\<close>

datatype PasteAccess = PasteAllowed | PasteNeverAsked | PasteAsk | PasteDenied

record macBoard =
  mb_asked :: bool
  mb_warned :: bool

text \<open>\<open>mayRead\<close>: whether the contents may be read, whether macOS is made to ask now, and the new state.\<close>

definition mayRead :: "PasteAccess \<Rightarrow> macBoard \<Rightarrow> bool \<times> bool \<times> macBoard" where
  "mayRead access b =
     (if access = PasteAllowed then (True, False, b)
      else (let ask = (access = PasteNeverAsked \<and> \<not> mb_asked b)
            in (False, ask, b\<lparr>mb_asked := mb_asked b \<or> ask, mb_warned := True\<rparr>)))"

definition mac_Excluded :: "bool \<Rightarrow> bool \<Rightarrow> bool" where
  "mac_Excluded concealed transient \<longleftrightarrow> concealed \<or> transient"

definition mac_ReadText :: "PasteAccess \<Rightarrow> bool \<Rightarrow> string option \<Rightarrow> macBoard \<Rightarrow> read_result \<times> macBoard" where
  "mac_ReadText access has_files text b =
     (if has_files then (ReadNone, b)
      else (case mayRead access b of
              (ok, _, b') \<Rightarrow> (if \<not> ok then ReadErr else case text of None \<Rightarrow> ReadNone | Some t \<Rightarrow> ReadSome t, b')))"

definition mac_ReadFiles :: "PasteAccess \<Rightarrow> bool \<Rightarrow> string list \<Rightarrow> macBoard \<Rightarrow> files_result \<times> macBoard" where
  "mac_ReadFiles access has_files paths b =
     (if \<not> has_files then (FilesNone, b)
      else (case mayRead access b of
              (ok, _, b') \<Rightarrow> (if \<not> ok then FilesErr else if paths = [] then FilesNone else FilesSome paths, b')))"

text \<open>Writing needs no permission.\<close>

definition mac_WriteText :: "bool \<Rightarrow> bool" where
  "mac_WriteText taken = taken"

definition mac_WriteFiles :: "bool \<Rightarrow> string list \<Rightarrow> bool" where
  "mac_WriteFiles taken paths \<longleftrightarrow> paths = [] \<or> taken"

text \<open>Nothing is read without the permission, and macOS is made to ask once at most.\<close>

lemma mac_reads_only_allowed:
  "fst (mac_ReadText access f t b) = ReadSome x \<Longrightarrow> access = PasteAllowed"
  "fst (mac_ReadFiles access f ps b) = FilesSome xs \<Longrightarrow> access = PasteAllowed"
  by (auto simp: mac_ReadText_def mac_ReadFiles_def mayRead_def Let_def split: if_splits option.splits)

fun asks :: "PasteAccess list \<Rightarrow> macBoard \<Rightarrow> nat" where
  "asks [] b = 0"
| "asks (a # as) b = (case mayRead a b of (_, ask, b') \<Rightarrow> (if ask then 1 else 0) + asks as b')"

lemma asks_once: "asks as b \<le> (if mb_asked b then 0 else 1)"
proof (induction as arbitrary: b)
  case (Cons a as)
  show ?case using Cons[of "snd (snd (mayRead a b))"] by (auto simp: mayRead_def Let_def split: if_splits)
qed simp

end
