(* ===== verification/Capture.thy ===== *)
theory Capture
  imports Prelude GoStrings
begin

text \<open>
  Packages \<open>capture\<close> and \<open>vpx\<close>: the platform-independent pipeline from the screen to encoded frames
  (\<open>capture.go\<close>, \<open>pipeline.go\<close>, \<open>probe.go\<close>) and the encoder's settings (\<open>vpx/settings.go\<close>). One tick of the capture
  goroutine and one job of the encoder goroutine are functions; what the screen, the converter, the
  encoder and the clock answer are their arguments. The slot between the goroutines holds one job.
\<close>

section \<open>Encoder settings\<close>

definition DefaultBitrate :: int where "DefaultBitrate = 3000000"
definition DefaultFramerate :: int where "DefaultFramerate = 30"
definition defaultThreads :: int where "defaultThreads = 4"
definition maxThreads :: int where "maxThreads = 64"

record Settings =
  se_Width :: int
  se_Height :: int
  se_Bitrate :: int
  se_Framerate :: int
  se_Threads :: int

text \<open>\<open>x &^ 1\<close> clears the last bit.\<close>

definition even_floor :: "int \<Rightarrow> int" where
  "even_floor x = x - x mod 2"

definition OutputSize :: "int \<Rightarrow> int \<Rightarrow> int \<Rightarrow> int \<times> int" where
  "OutputSize srcW srcH maxWidth =
     (if srcW \<le> 0 \<or> srcH \<le> 0 then (0, 0)
      else if maxWidth \<le> 0 \<or> srcW \<le> maxWidth then (even_floor srcW, even_floor srcH)
      else (let w = even_floor maxWidth; den = i64 (srcW * 2);
                h = i64 (go_div (i64 (i64 (w * srcH) + go_div den 2)) den * 2)
            in (w, max h 2)))"

record rateControl =
  rc_targetKbps :: int
  rc_bufMs :: int
  rc_bufInitialMs :: int
  rc_bufOptimalMs :: int
  rc_undershootPct :: int
  rc_overshootPct :: int
  rc_maxIntraPct :: int
  rc_kfMaxDist :: int
  rc_cpuUsed :: int
  rc_threads :: int
  rc_errorResilient :: int

definition rateControlFor :: "int \<Rightarrow> Settings \<Rightarrow> rateControl" where
  "rateControlFor numCPU s =
     (let bitrate = (if se_Bitrate s \<le> 0 then DefaultBitrate else se_Bitrate s);
          framerate = (if se_Framerate s \<le> 0 then DefaultFramerate else se_Framerate s);
          threads = min (if se_Threads s \<le> 0 then min numCPU defaultThreads else se_Threads s) maxThreads;
          initialBits = go_div bitrate 2;
          bufMs = go_div (i64 (bitrate * 1000)) bitrate
      in \<lparr>rc_targetKbps = go_div (i64 (bitrate + 500)) 1000, rc_bufMs = bufMs,
          rc_bufInitialMs = go_div (i64 (initialBits * 1000)) bitrate,
          rc_bufOptimalMs = go_div (i64 (bufMs * 5)) 6,
          rc_undershootPct = 100, rc_overshootPct = 15, rc_maxIntraPct = 300, rc_kfMaxDist = i64 (framerate * 2),
          rc_cpuUsed = 5, rc_threads = threads, rc_errorResilient = 1\<rparr>)"

definition vpx_ticks :: "duration \<Rightarrow> int" where
  "vpx_ticks d = go_div d 1000"

text \<open>An image is memory of its own: \<open>img_addr\<close> tells two of the same size apart.\<close>

record image =
  img_addr :: nat
  img_Width :: int
  img_Height :: int
  img_data :: string

section \<open>Settings of the capture\<close>

definition DefaultMaxWidth :: int where "DefaultMaxWidth = 1920"
definition maxElapsed :: duration where "maxElapsed = 5 * second"
definition idleInterval :: duration where "idleInterval = 200 * millisecond"
definition maxTicksPerFrame :: int where "maxTicksPerFrame = 4"
definition keyframeMinInterval :: duration where "keyframeMinInterval = 500 * millisecond"
definition desktopProbeInterval :: duration where "desktopProbeInterval = 250 * millisecond"

definition capture_width :: "int \<Rightarrow> int" where
  "capture_width MaxWidth = (if MaxWidth \<le> 0 then DefaultMaxWidth else MaxWidth)"

definition tick_interval :: "int \<Rightarrow> duration" where
  "tick_interval framerate = go_div second framerate"

section \<open>Keyframe requests\<close>

text \<open>The flag, \<open>None\<close> for a capture without one. The zero time is \<open>None\<close> too: everything is long after it.\<close>

definition request_keyframe :: "bool option \<Rightarrow> bool option" where
  "request_keyframe k = map_option (\<lambda>_. True) k"

definition take_request :: "bool option \<Rightarrow> bool \<times> bool option" where
  "take_request k = (k = Some True, map_option (\<lambda>_. False) k)"

definition long_since :: "instant \<Rightarrow> instant option \<Rightarrow> duration \<Rightarrow> bool" where
  "long_since now t d \<longleftrightarrow> (case t of None \<Rightarrow> True | Some u \<Rightarrow> d \<le> now - u)"

definition keyframeDue :: "bool option \<Rightarrow> instant \<Rightarrow> instant option \<Rightarrow> bool \<times> bool option" where
  "keyframeDue k now lastForced =
     (if k \<noteq> None \<and> long_since now lastForced keyframeMinInterval then take_request k else (False, k))"

section \<open>Jobs\<close>

record job =
  jb_at :: instant
  jb_img :: "image option"
  jb_restart :: bool
  jb_keyframe :: bool

text \<open>\<open>recycle\<close> and \<open>takeImage\<close>: the free list is a channel of capacity four.\<close>

definition recycle :: "image \<Rightarrow> image list \<Rightarrow> image list" where
  "recycle img free = (if length free < 4 then free @ [img] else free)"

definition NewImage :: "nat \<Rightarrow> int \<Rightarrow> int \<Rightarrow> image" where
  "NewImage fresh w h = \<lparr>img_addr = fresh, img_Width = w, img_Height = h, img_data = []\<rparr>"

fun takeImage :: "nat \<Rightarrow> int \<Rightarrow> int \<Rightarrow> image list \<Rightarrow> image \<times> image list" where
  "takeImage fresh w h [] = (NewImage fresh w h, [])"
| "takeImage fresh w h (img # free) =
     (if img_Width img = w \<and> img_Height img = h then (img, free) else takeImage fresh w h free)"

text \<open>What \<open>send\<close> makes of the job in the slot and a newer one.\<close>

definition merge_jobs :: "job \<Rightarrow> job \<Rightarrow> job" where
  "merge_jobs old j =
     j\<lparr>jb_restart := jb_restart j \<or> jb_restart old, jb_keyframe := jb_keyframe j \<or> jb_keyframe old,
       jb_img := (case jb_img j of None \<Rightarrow> jb_img old | Some i \<Rightarrow> Some i)\<rparr>"

text \<open>\<open>send\<close> on the slot and the free list; \<open>taken\<close>: the encoder takes the old job between the two selects;
  \<open>ended\<close>: the context ends before the last one finds room, which it always has here.\<close>

definition send_job :: "bool \<Rightarrow> job \<Rightarrow> job option \<times> image list \<Rightarrow> job option \<times> image list" where
  "send_job taken j sf =
     (case fst sf of
        None \<Rightarrow> (Some j, snd sf)
      | Some old \<Rightarrow>
          if taken then (Some j, snd sf)
          else (Some (merge_jobs old j),
                case (jb_img j, jb_img old) of (Some _, Some i) \<Rightarrow> recycle i (snd sf) | _ \<Rightarrow> snd sf))"

section \<open>A tick of the capture\<close>

datatype grab_result = Unavailable | GrabFailed bool | Grabbed bool

text \<open>What one tick meets: the clock, the grab (and whether reopening the source works), the screen's size
  and its pixels, whether the pointer was drawn, whether a converter can be made, and the images that
  are free, with the address a new one gets.\<close>

record tick_env =
  te_now :: instant
  te_grab :: grab_result
  te_size :: "int \<times> int"
  te_pixels :: string
  te_painted :: bool
  te_conv_ok :: bool
  te_fresh :: nat
  te_free :: "image list"

record capture_state =
  cp_maxWidth :: int
  cp_conv :: "(int \<times> int) option"
  cp_paused :: bool
  cp_restart :: bool
  cp_lastJob :: "instant option"
  cp_lastForced :: "instant option"
  cp_keyframe :: "bool option"
  cp_ended :: bool

definition capture_init :: "int \<Rightarrow> bool option \<Rightarrow> capture_state" where
  "capture_init maxWidth k =
     \<lparr>cp_maxWidth = capture_width maxWidth, cp_conv = None, cp_paused = False, cp_restart = True, cp_lastJob = None,
      cp_lastForced = None, cp_keyframe = k, cp_ended = False\<rparr>"

text \<open>After a picture was grabbed: the converter for its size, or the end.\<close>

definition ensure_converter :: "tick_env \<Rightarrow> capture_state \<Rightarrow> capture_state" where
  "ensure_converter e c =
     (let c1 = (if cp_paused c then c\<lparr>cp_paused := False, cp_restart := True\<rparr> else c);
          c2 = (if cp_conv c1 \<noteq> None \<and> cp_conv c1 \<noteq> Some (te_size e) then c1\<lparr>cp_conv := None\<rparr> else c1)
      in if cp_conv c2 = None
         then (if te_conv_ok e then c2\<lparr>cp_conv := Some (te_size e), cp_restart := True\<rparr> else c2\<lparr>cp_ended := True\<rparr>)
         else c2)"

text \<open>The keyframe decision: whether one is forced, and the state after it.\<close>

definition force_keyframe :: "instant \<Rightarrow> capture_state \<Rightarrow> bool \<times> capture_state" where
  "force_keyframe now c =
     (if cp_restart c then (False, c\<lparr>cp_lastForced := Some now, cp_keyframe := snd (take_request (cp_keyframe c))\<rparr>)
      else (case keyframeDue (cp_keyframe c) now (cp_lastForced c) of
              (True, k) \<Rightarrow> (True, c\<lparr>cp_lastForced := Some now, cp_keyframe := k\<rparr>)
            | (False, k) \<Rightarrow> (False, c\<lparr>cp_keyframe := k\<rparr>)))"

definition make_job :: "tick_env \<Rightarrow> bool \<Rightarrow> bool \<Rightarrow> capture_state \<Rightarrow> job" where
  "make_job e load force c =
     \<lparr>jb_at = te_now e,
      jb_img = (if load then (case OutputSize (fst (te_size e)) (snd (te_size e)) (cp_maxWidth c) of
                  (w, h) \<Rightarrow> Some ((fst (takeImage (te_fresh e) w h (te_free e)))\<lparr>img_data := te_pixels e\<rparr>)) else None),
      jb_restart = cp_restart c, jb_keyframe = force\<rparr>"

definition capture_tick :: "tick_env \<Rightarrow> capture_state \<Rightarrow> job option \<times> capture_state" where
  "capture_tick e c =
     (if cp_ended c then (None, c)
      else (case te_grab e of
         Unavailable \<Rightarrow> (None, c\<lparr>cp_paused := True\<rparr>)
       | GrabFailed reopened \<Rightarrow> (None, if reopened then c else c\<lparr>cp_ended := True\<rparr>)
       | Grabbed changed \<Rightarrow>
           (let c1 = ensure_converter e c
            in if cp_ended c1 then (None, c1)
               else (let load = changed \<or> cp_restart c1 \<or> te_painted e;
                         (force, c2) = force_keyframe (te_now e) c1
                     in if \<not> load \<and> \<not> force \<and> \<not> long_since (te_now e) (cp_lastJob c2) idleInterval then (None, c2)
                        else (Some (make_job e load force c2), c2\<lparr>cp_lastJob := Some (te_now e), cp_restart := False\<rparr>)))))"

fun capture_ticks :: "tick_env list \<Rightarrow> capture_state \<Rightarrow> job list \<times> capture_state" where
  "capture_ticks [] c = ([], c)"
| "capture_ticks (e # es) c =
     (case capture_tick e c of
        (j, c1) \<Rightarrow> (case capture_ticks es c1 of (js, c2) \<Rightarrow> ((case j of None \<Rightarrow> js | Some j \<Rightarrow> j # js), c2)))"

section \<open>A job of the encoder\<close>

definition frameDuration :: "bool \<Rightarrow> duration \<Rightarrow> duration \<Rightarrow> duration" where
  "frameDuration repeat gap interval = (if repeat then interval else min (max gap interval) (maxTicksPerFrame * interval))"

record Frame =
  fr_Data :: string
  fr_Elapsed :: duration

record encode_state =
  en_enc :: "(int \<times> int) option"
  en_cur :: "image option"
  en_free :: "image list"
  en_pts :: duration
  en_lastEnc :: "instant option"
  en_lastSent :: "instant option"
  en_ended :: bool

definition encode_init :: "image list \<Rightarrow> encode_state" where
  "encode_init free = \<lparr>en_enc = None, en_cur = None, en_free = free, en_pts = 0, en_lastEnc = None, en_lastSent = None, en_ended = False\<rparr>"

text \<open>What one job meets: whether an encoder can be made, and the packet (\<open>None\<close>: an error), and whether the
  context ends before the frame is taken.\<close>

record encode_env =
  ee_new_ok :: bool
  ee_packet :: "string option"
  ee_done :: bool

definition ensure_encoder :: "encode_env \<Rightarrow> job \<Rightarrow> image \<Rightarrow> encode_state \<Rightarrow> encode_state" where
  "ensure_encoder e j cur s =
     (let s1 = (if en_enc s \<noteq> None \<and> (jb_restart j \<or> en_enc s \<noteq> Some (img_Width cur, img_Height cur)) then s\<lparr>en_enc := None\<rparr> else s)
      in if en_enc s1 = None
         then (if ee_new_ok e then s1\<lparr>en_enc := Some (img_Width cur, img_Height cur), en_pts := 0, en_lastEnc := None\<rparr>
               else s1\<lparr>en_ended := True\<rparr>)
         else s1)"

definition encode_job :: "duration \<Rightarrow> encode_env \<Rightarrow> job \<Rightarrow> encode_state \<Rightarrow> Frame option \<times> encode_state" where
  "encode_job interval e j s =
     (if en_ended s then (None, s)
      else (let s0 = (case jb_img j of None \<Rightarrow> s
                        | Some i \<Rightarrow> s\<lparr>en_free := (case en_cur s of None \<Rightarrow> en_free s | Some c \<Rightarrow> recycle c (en_free s)), en_cur := Some i\<rparr>)
            in case en_cur s0 of
                 None \<Rightarrow> (None, s0)
               | Some cur \<Rightarrow>
                   (let s1 = ensure_encoder e j cur s0
                    in if en_ended s1 then (None, s1)
                       else (let gap = (case en_lastEnc s1 of None \<Rightarrow> 0 | Some t \<Rightarrow> jb_at j - t);
                                 s2 = s1\<lparr>en_lastEnc := Some (jb_at j),
                                         en_pts := en_pts s1 + frameDuration (jb_img j = None) gap interval\<rparr>
                             in case ee_packet e of
                                  None \<Rightarrow> (None, s2\<lparr>en_ended := True\<rparr>)
                                | Some data \<Rightarrow>
                                    if data = [] then (None, s2)
                                    else (let elapsed = (case en_lastSent s2 of None \<Rightarrow> 0 | Some t \<Rightarrow> min (jb_at j - t) maxElapsed);
                                              s3 = s2\<lparr>en_lastSent := Some (jb_at j)\<rparr>
                                          in if ee_done e then (None, s3\<lparr>en_ended := True\<rparr>)
                                             else (Some \<lparr>fr_Data = data, fr_Elapsed = elapsed\<rparr>, s3))))))"

text \<open>A run of the encoder: the frames handed out, each with the time of its picture.\<close>

fun encode_run :: "duration \<Rightarrow> (encode_env \<times> job) list \<Rightarrow> encode_state \<Rightarrow> (instant \<times> Frame) list" where
  "encode_run interval [] s = []"
| "encode_run interval ((e, j) # js) s =
     (case encode_job interval e j s of
        (None, s1) \<Rightarrow> encode_run interval js s1
      | (Some f, s1) \<Rightarrow> (jb_at j, f) # encode_run interval js s1)"

section \<open>The desktop probe\<close>

record desktopProbe =
  dp_next :: "instant option"
  dp_readable :: bool

definition probe_check :: "instant \<Rightarrow> bool \<Rightarrow> desktopProbe \<Rightarrow> bool \<times> desktopProbe" where
  "probe_check now answer p =
     (if (case dp_next p of None \<Rightarrow> False | Some t \<Rightarrow> now < t) then (dp_readable p, p)
      else (answer, \<lparr>dp_next = Some (now + desktopProbeInterval), dp_readable = answer\<rparr>))"

section \<open>A busy encoder loses nothing but time\<close>

definition last_image :: "job list \<Rightarrow> image option" where
  "last_image js = fold (\<lambda>j acc. case jb_img j of None \<Rightarrow> acc | Some i \<Rightarrow> Some i) js None"

lemma last_image_snoc: "last_image (js @ [j]) = (case jb_img j of None \<Rightarrow> last_image js | Some i \<Rightarrow> Some i)"
  by (simp add: last_image_def split: option.split)

lemma send_merge: "fst (send_job False j (Some old, fr)) = Some (merge_jobs old j)"
  by (simp add: send_job_def)

text \<open>While the encoder is busy the jobs sent are merged into one that stands for all of them: it has
  the newest picture, the newest time, and asks for a new encoder or a keyframe if any of them did.\<close>

theorem send_keeps:
  assumes "js \<noteq> []"
  shows "\<exists>j. fst (fold (send_job False) js (None, free)) = Some j
     \<and> jb_img j = last_image js \<and> jb_at j = jb_at (last js)
     \<and> (jb_restart j \<longleftrightarrow> (\<exists>x \<in> set js. jb_restart x)) \<and> (jb_keyframe j \<longleftrightarrow> (\<exists>x \<in> set js. jb_keyframe x))"
  using assms
proof (induction js rule: rev_induct)
  case (snoc j js)
  show ?case
  proof (cases "js = []")
    case True
    then show ?thesis by (simp add: send_job_def last_image_def split: option.split)
  next
    case False
    with snoc.IH obtain old where old: "fst (fold (send_job False) js (None, free)) = Some old"
      "jb_img old = last_image js" "jb_restart old \<longleftrightarrow> (\<exists>x \<in> set js. jb_restart x)"
      "jb_keyframe old \<longleftrightarrow> (\<exists>x \<in> set js. jb_keyframe x)" by blast
    then obtain fr where "fold (send_job False) js (None, free) = (Some old, fr)" by (metis prod.collapse)
    then have "fst (fold (send_job False) (js @ [j]) (None, free)) = Some (merge_jobs old j)" by (simp add: send_merge)
    moreover have "jb_img (merge_jobs old j) = last_image (js @ [j])"
      by (simp add: merge_jobs_def last_image_snoc old(2) split: option.split)
    moreover have "jb_at (merge_jobs old j) = jb_at j" "jb_restart (merge_jobs old j) \<longleftrightarrow> jb_restart j \<or> jb_restart old"
      "jb_keyframe (merge_jobs old j) \<longleftrightarrow> jb_keyframe j \<or> jb_keyframe old"
      by (simp_all add: merge_jobs_def)
    ultimately show ?thesis using old(3,4) by (intro exI[of _ "merge_jobs old j"]) simp
  qed
qed simp

definition ex_job :: "instant \<Rightarrow> bool \<Rightarrow> job" where
  "ex_job t k = \<lparr>jb_at = t, jb_img = None, jb_restart = False, jb_keyframe = k\<rparr>"

lemma send_keeps_witness: "\<exists>j. fst (fold (send_job False) [ex_job 0 True, ex_job 33 False] (None, [])) = Some j \<and> jb_keyframe j"
  using send_keeps[of "[ex_job 0 True, ex_job 33 False]" "[]"] by (auto simp: ex_job_def)

section \<open>Keyframes on request\<close>

text \<open>A job that opens on a keyframe, by request or by a new encoder, is never followed by a forced one within
  half a second.\<close>

definition spaced :: "job \<Rightarrow> job \<Rightarrow> bool" where
  "spaced a b \<longleftrightarrow> ((jb_keyframe a \<or> jb_restart a) \<and> jb_keyframe b \<longrightarrow> jb_at a + keyframeMinInterval \<le> jb_at b)"

lemma keyframeDue_long: "keyframeDue k now lf = (True, k') \<Longrightarrow> long_since now lf keyframeMinInterval"
  by (auto simp: keyframeDue_def split: if_splits)

lemma ensure_converter_sel [simp]:
  "cp_lastForced (ensure_converter e c) = cp_lastForced c" "cp_keyframe (ensure_converter e c) = cp_keyframe c"
  "cp_lastJob (ensure_converter e c) = cp_lastJob c" "cp_maxWidth (ensure_converter e c) = cp_maxWidth c"
  by (simp_all add: ensure_converter_def Let_def)

lemma force_keyframe_sel:
  assumes "force_keyframe now c = (force, c')"
  shows "cp_lastForced c' = (if force \<or> cp_restart c then Some now else cp_lastForced c)"
    and "force \<Longrightarrow> long_since now (cp_lastForced c) keyframeMinInterval"
    and "cp_restart c' = cp_restart c"
    and "force \<Longrightarrow> \<not> cp_restart c"
  using assms by (auto simp: force_keyframe_def dest: keyframeDue_long split: if_splits prod.splits bool.splits)

text \<open>What a tick does to the time of the last keyframe, and to its job.\<close>

lemma capture_tick_forced:
  assumes "capture_tick e c = (jo, c')"
  shows "case jo of
      None \<Rightarrow> cp_lastForced c' = cp_lastForced c
    | Some j \<Rightarrow> jb_at j = te_now e
        \<and> cp_lastForced c' = (if jb_keyframe j \<or> jb_restart j then Some (te_now e) else cp_lastForced c)
        \<and> (jb_keyframe j \<longrightarrow> long_since (te_now e) (cp_lastForced c) keyframeMinInterval)"
proof (cases "te_grab e")
  case (Grabbed changed)
  let ?c1 = "ensure_converter e c"
  obtain force c2 where f: "force_keyframe (te_now e) ?c1 = (force, c2)" by fastforce
  from assms Grabbed f force_keyframe_sel[OF f] show ?thesis
    by (auto simp: capture_tick_def Let_def make_job_def split: if_splits)
qed (use assms in \<open>auto simp: capture_tick_def split: if_splits\<close>)

lemma capture_ticks_spaced:
  assumes "sorted (map te_now es)" and "\<forall>e \<in> set es. \<forall>t. cp_lastForced c = Some t \<longrightarrow> t \<le> te_now e"
    and "capture_ticks es c = (js, c')"
  shows "sorted_wrt spaced js
     \<and> (\<forall>j \<in> set js. (\<exists>e \<in> set es. jb_at j = te_now e) \<and>
          (jb_keyframe j \<longrightarrow> long_since (jb_at j) (cp_lastForced c) keyframeMinInterval))"
  using assms
proof (induction es arbitrary: c js)
  case (Cons e es)
  obtain jo c1 where t: "capture_tick e c = (jo, c1)" by fastforce
  obtain js1 where r: "capture_ticks es c1 = (js1, c')" using Cons.prems(3) t by (auto split: prod.splits option.splits)
  have js: "js = (case jo of None \<Rightarrow> js1 | Some j \<Rightarrow> j # js1)" using Cons.prems(3) t r by simp
  note tick = capture_tick_forced[OF t]
  have le: "\<forall>x \<in> set es. te_now e \<le> te_now x" and srt: "sorted (map te_now es)" using Cons.prems(1) by auto
  have lf: "\<forall>x \<in> set es. \<forall>u. cp_lastForced c1 = Some u \<longrightarrow> u \<le> te_now x"
    using tick le Cons.prems(2) by (auto split: option.splits if_splits)
  note IH = Cons.IH[OF srt lf r]
  have later: "long_since t (cp_lastForced c) keyframeMinInterval"
    if "long_since t (cp_lastForced c1) keyframeMinInterval" "te_now e \<le> t" for t
    using that tick Cons.prems(2) by (auto simp: long_since_def split: option.splits if_splits)
  show ?case
  proof (cases jo)
    case None
    with IH js later le show ?thesis by fastforce
  next
    case (Some j)
    with tick have j: "jb_at j = te_now e" "jb_keyframe j \<longrightarrow> long_since (te_now e) (cp_lastForced c) keyframeMinInterval"
      "cp_lastForced c1 = (if jb_keyframe j \<or> jb_restart j then Some (te_now e) else cp_lastForced c)" by auto
    have "\<forall>x \<in> set js1. spaced j x" using IH j by (auto simp: spaced_def long_since_def)
    with IH j Some js later le show ?thesis by fastforce
  qed
qed simp

text \<open>Keyframes forced by a viewer's requests are never less than half a second apart, nor within half a
  second of the keyframe a new encoder starts with, whatever the screen does.\<close>

theorem keyframes_spaced:
  assumes "sorted (map te_now es)"
  shows "sorted_wrt (\<lambda>a b. (jb_keyframe a \<or> jb_restart a) \<and> jb_keyframe b \<longrightarrow> jb_at a + 500 * millisecond \<le> jb_at b)
     (fst (capture_ticks es (capture_init maxWidth k)))"
proof -
  obtain js c' where r: "capture_ticks es (capture_init maxWidth k) = (js, c')" by fastforce
  have "\<forall>e \<in> set es. \<forall>t. cp_lastForced (capture_init maxWidth k) = Some t \<longrightarrow> t \<le> te_now e" by (simp add: capture_init_def)
  from capture_ticks_spaced[OF assms this r] r show ?thesis by (simp add: spaced_def[abs_def] keyframeMinInterval_def)
qed

definition ex_tick :: "int \<Rightarrow> tick_env" where
  "ex_tick t = \<lparr>te_now = t * millisecond, te_grab = Grabbed False, te_size = (8, 8), te_pixels = [], te_painted = False, te_conv_ok = True,
     te_fresh = 0, te_free = []\<rparr>"

lemma keyframes_spaced_witness:
  "sorted_wrt spaced (fst (capture_ticks [ex_tick 0, ex_tick 100, ex_tick 200] (capture_init 0 (Some True))))"
  using keyframes_spaced[of "[ex_tick 0, ex_tick 100, ex_tick 200]" 0 "Some True"]
  by (simp add: ex_tick_def time_units spaced_def[abs_def] keyframeMinInterval_def)

text \<open>A pending request is served by the first picture half a second after the last keyframe.\<close>

lemma request_served:
  assumes "te_grab e = Grabbed changed" and "\<not> cp_ended (ensure_converter e c)" and "\<not> cp_ended c"
    and "cp_keyframe c = Some True" and "long_since (te_now e) (cp_lastForced c) keyframeMinInterval"
  shows "\<exists>j. fst (capture_tick e c) = Some j \<and> (jb_keyframe j \<or> jb_restart j)"
proof -
  obtain force c2 where f: "force_keyframe (te_now e) (ensure_converter e c) = (force, c2)" by fastforce
  have "force \<or> cp_restart (ensure_converter e c)"
    using f assms(4,5) by (auto simp: force_keyframe_def keyframeDue_def take_request_def split: if_splits)
  with f force_keyframe_sel(3)[OF f] assms(1-3) show ?thesis
    by (auto simp: capture_tick_def Let_def make_job_def)
qed

section \<open>The media clock\<close>

fun clock_gaps :: "instant option \<Rightarrow> (instant \<times> Frame) list \<Rightarrow> bool" where
  "clock_gaps t [] = True"
| "clock_gaps t ((at, f) # fs) =
     (fr_Elapsed f = (case t of None \<Rightarrow> 0 | Some u \<Rightarrow> min (at - u) maxElapsed) \<and> clock_gaps (Some at) fs)"

lemma encode_job_sent:
  "encode_job interval e j s = (fo, s') \<Longrightarrow>
   (case fo of
      None \<Rightarrow> en_ended s' \<or> en_lastSent s' = en_lastSent s
    | Some f \<Rightarrow> en_lastSent s' = Some (jb_at j)
        \<and> fr_Elapsed f = (case en_lastSent s of None \<Rightarrow> 0 | Some t \<Rightarrow> min (jb_at j - t) maxElapsed))"
  by (auto simp: encode_job_def ensure_encoder_def Let_def split: if_splits option.splits)

lemma encode_run_ended: "en_ended s \<Longrightarrow> encode_run interval js s = []"
  by (induction interval js s rule: encode_run.induct) (auto simp: encode_job_def)

lemma encode_run_gaps: "clock_gaps (en_lastSent s) (encode_run interval js s)"
proof (induction js arbitrary: s)
  case (Cons ej js)
  obtain e j where ej: "ej = (e, j)" by fastforce
  obtain fo s1 where r: "encode_job interval e j s = (fo, s1)" by fastforce
  from encode_job_sent[OF r] Cons[of s1] r show ?case
    by (cases fo) (auto simp: ej encode_run_ended)
qed simp

lemma clock_gaps_sum:
  "clock_gaps (Some u) fs \<Longrightarrow> sorted (u # map fst fs) \<Longrightarrow> (\<forall>i < length fs. (u # map fst fs) ! Suc i - (u # map fst fs) ! i \<le> maxElapsed) \<Longrightarrow>
   sum_list (map (\<lambda>x. fr_Elapsed (snd x)) fs) = last (u # map fst fs) - u \<and> (\<forall>x \<in> set fs. 0 \<le> fr_Elapsed (snd x))"
proof (induction fs arbitrary: u)
  case (Cons x fs)
  obtain at f where x: "x = (at, f)" by fastforce
  have "at - u \<le> maxElapsed" using Cons.prems(3) by (auto simp: x dest: spec[of _ 0])
  then have e: "fr_Elapsed f = at - u" using Cons.prems(1) by (simp add: x)
  have "\<forall>i < length fs. (at # map fst fs) ! Suc i - (at # map fst fs) ! i \<le> maxElapsed"
    using Cons.prems(3) by (auto simp: x)
  with Cons.IH[of at] Cons.prems(1,2) e show ?case by (auto simp: x)
qed simp

section \<open>The encoded size\<close>

lemma even_floor_props: "even (even_floor x)" "even_floor x \<le> x" "x - 1 \<le> even_floor x"
  by (simp_all add: even_floor_def)

lemma OutputSize_scaled:
  assumes "0 < srcW" "srcW < 2 ^ 31" "0 < srcH" "srcH < 2 ^ 31" "2 \<le> maxWidth" "maxWidth < srcW"
  shows "OutputSize srcW srcH maxWidth =
    (let w = even_floor maxWidth in (w, max (2 * ((w * srcH + srcW) div (2 * srcW))) 2))"
proof -
  define w where "w = even_floor maxWidth"
  have w: "0 < w" "w < srcW" using even_floor_props[of maxWidth] assms by (auto simp: w_def)
  have "w * srcH \<le> srcW * srcH" using w assms by (intro mult_right_mono) auto
  moreover have "srcW * srcH \<le> 2 ^ 31 * 2 ^ 31" using assms by (intro mult_mono) auto
  moreover have "(2 :: int) ^ 31 * 2 ^ 31 = 2 ^ 62" by simp
  ultimately have "w * srcH \<le> 2 ^ 62" by (metis order_trans)
  then have p: "w * srcH \<le> 2 ^ 62" "0 < w * srcH" using w assms by simp_all
  have d: "0 \<le> (w * srcH + srcW) div (2 * srcW)" using p assms by (simp add: pos_imp_zdiv_nonneg_iff)
  have e: "(w * srcH + srcW) div (2 * srcW) \<le> (srcH + 1)"
  proof -
    have "(srcH + 1) * (2 * srcW) = 2 * (srcW * srcH) + 2 * srcW" by (simp add: algebra_simps)
    moreover have "w * srcH \<le> srcW * srcH" using w assms by (intro mult_right_mono) auto
    moreover have "0 \<le> srcW * srcH" using assms by simp
    ultimately have "w * srcH + srcW \<le> (srcH + 1) * (2 * srcW)" using assms(1) by linarith
    then have "(w * srcH + srcW) div (2 * srcW) \<le> ((srcH + 1) * (2 * srcW)) div (2 * srcW)"
      using assms by (intro zdiv_mono1) auto
    then show ?thesis using assms by simp
  qed
  have n: "in_i64 (srcW * 2)" "in_i64 (w * srcH)" "in_i64 (w * srcH + srcW)"
    "in_i64 ((w * srcH + srcW) div (2 * srcW) * 2)"
    using assms p d e by (auto simp: in_i64_def)
  have g: "go_div (srcW * 2) 2 = srcW" "go_div (w * srcH + srcW) (srcW * 2) = (w * srcH + srcW) div (2 * srcW)"
    using assms p by (simp_all add: go_div_nonneg mult.commute)
  show ?thesis using assms n g
    by (simp add: OutputSize_def Let_def w_def[symmetric] mult.commute)
qed

text \<open>The encoded size has two even sides, never exceeds the cap or the desktop's width, and a
  desktop that fits is cropped by at most a row and a column; one that is scaled keeps its
  aspect to within one row, or comes out two rows high.\<close>

theorem OutputSize_sound:
  assumes "0 < srcW" "srcW < 2 ^ 31" "0 < srcH" "srcH < 2 ^ 31" "2 \<le> maxWidth"
    and "OutputSize srcW srcH maxWidth = (w, h)"
  shows "even w \<and> even h \<and> w \<le> maxWidth \<and> w \<le> srcW
     \<and> (if srcW \<le> maxWidth then srcW - 1 \<le> w \<and> srcH - 1 \<le> h \<and> h \<le> srcH
        else maxWidth - 1 \<le> w \<and> (h = 2 \<or> \<bar>h * srcW - w * srcH\<bar> \<le> srcW))"
proof (cases "srcW \<le> maxWidth")
  case True
  then have "w = even_floor srcW" "h = even_floor srcH" using assms by (auto simp: OutputSize_def)
  then show ?thesis using True assms even_floor_props[of srcW] even_floor_props[of srcH] by auto
next
  case False
  define q where "q = (w * srcH + srcW) div (2 * srcW)"
  have w: "w = even_floor maxWidth" and h: "h = max (2 * q) 2"
    using OutputSize_scaled[of srcW srcH maxWidth] assms False by (simp_all add: Let_def q_def)
  have "(2 * srcW) * q + (w * srcH + srcW) mod (2 * srcW) = w * srcH + srcW" by (simp add: q_def)
  moreover have "0 \<le> (w * srcH + srcW) mod (2 * srcW)" "(w * srcH + srcW) mod (2 * srcW) < 2 * srcW" using assms by simp_all
  moreover have "2 * q * srcW = (2 * srcW) * q" by (simp add: mult_ac)
  ultimately have "\<bar>2 * q * srcW - w * srcH\<bar> \<le> srcW" by linarith
  then show ?thesis using False w h even_floor_props[of maxWidth] assms by (auto simp: max_def)
qed

lemma OutputSize_sound_witness: "even (fst (OutputSize 3840 2160 1920)) \<and> OutputSize 3840 2160 1920 = (1920, 1080)"
proof -
  have e: "OutputSize 3840 2160 1920 = (1920, 1080)"
    by (simp add: OutputSize_def even_floor_def go_div_nonneg in_i64_def Let_def)
  from OutputSize_sound[OF _ _ _ _ _ e] e show ?thesis by simp
qed

end
