(* ===== verification/CapturePipeline.thy ===== *)
theory CapturePipeline
  imports Capture "HOL-Library.Multiset"
begin

text \<open>
  The two goroutines of \<open>capture/pipeline.go\<close> side by side: what each does to the shared channels
  \<open>jobs\<close> (one slot) and \<open>free\<close>, one channel operation at a time, in any interleaving. An image is
  memory that the capture goroutine writes and the encoder reads; the theory shows that at most one of
  them has it at any moment.
\<close>

section \<open>States and steps\<close>

text \<open>Where the capture goroutine is: between ticks; in \<open>takeImage\<close>; about to convert into an image; in
  front of the first, second or third select of \<open>send\<close>.\<close>

datatype capture_at =
    AtTick
  | AtTake job int int
  | AtConvert job image
  | AtSend job
  | AtSwap job
  | AtPut job

text \<open>Where the encoder is: waiting, with a job it just received, or encoding.\<close>

datatype encoder_at = AtReceive | AtGot job | AtEncode job

record pipe =
  pp_capture :: capture_at
  pp_encoder :: encoder_at
  pp_slot :: "job option"
  pp_free :: "image list"
  pp_cur :: "image option"
  pp_fresh :: nat

definition pipe_start :: pipe where
  "pipe_start = \<lparr>pp_capture = AtTick, pp_encoder = AtReceive, pp_slot = None, pp_free = [], pp_cur = None, pp_fresh = 0\<rparr>"

inductive pipe_step :: "pipe \<Rightarrow> pipe \<Rightarrow> bool" where
  tick_load: "pp_capture p = AtTick \<Longrightarrow> jb_img j = None \<Longrightarrow> pipe_step p (p\<lparr>pp_capture := AtTake j w h\<rparr>)"
| tick_repeat: "pp_capture p = AtTick \<Longrightarrow> jb_img j = None \<Longrightarrow> pipe_step p (p\<lparr>pp_capture := AtSend j\<rparr>)"
| take_other: "pp_capture p = AtTake j w h \<Longrightarrow> pp_free p = i # free \<Longrightarrow> img_Width i \<noteq> w \<or> img_Height i \<noteq> h \<Longrightarrow>
    pipe_step p (p\<lparr>pp_free := free\<rparr>)"
| take_fits: "pp_capture p = AtTake j w h \<Longrightarrow> pp_free p = i # free \<Longrightarrow> img_Width i = w \<Longrightarrow> img_Height i = h \<Longrightarrow>
    pipe_step p (p\<lparr>pp_free := free, pp_capture := AtConvert j i\<rparr>)"
| take_new: "pp_capture p = AtTake j w h \<Longrightarrow> pp_free p = [] \<Longrightarrow>
    pipe_step p (p\<lparr>pp_capture := AtConvert j (NewImage (pp_fresh p) w h), pp_fresh := Suc (pp_fresh p)\<rparr>)"
| convert: "pp_capture p = AtConvert j i \<Longrightarrow>
    pipe_step p (p\<lparr>pp_capture := AtSend (j\<lparr>jb_img := Some (i\<lparr>img_data := px\<rparr>)\<rparr>)\<rparr>)"
| send_room: "pp_capture p = AtSend j \<Longrightarrow> pp_slot p = None \<Longrightarrow> pipe_step p (p\<lparr>pp_slot := Some j, pp_capture := AtTick\<rparr>)"
| send_full: "pp_capture p = AtSend j \<Longrightarrow> pp_slot p = Some x \<Longrightarrow> pipe_step p (p\<lparr>pp_capture := AtSwap j\<rparr>)"
| swap_took: "pp_capture p = AtSwap j \<Longrightarrow> pp_slot p = Some old \<Longrightarrow>
    pipe_step p (p\<lparr>pp_slot := None, pp_capture := AtPut (merge_jobs old j),
      pp_free := (case (jb_img j, jb_img old) of (Some _, Some i) \<Rightarrow> recycle i (pp_free p) | _ \<Rightarrow> pp_free p)\<rparr>)"
| swap_gone: "pp_capture p = AtSwap j \<Longrightarrow> pp_slot p = None \<Longrightarrow> pipe_step p (p\<lparr>pp_capture := AtPut j\<rparr>)"
| put: "pp_capture p = AtPut j \<Longrightarrow> pp_slot p = None \<Longrightarrow> pipe_step p (p\<lparr>pp_slot := Some j, pp_capture := AtTick\<rparr>)"
| receive: "pp_encoder p = AtReceive \<Longrightarrow> pp_slot p = Some j \<Longrightarrow> pipe_step p (p\<lparr>pp_slot := None, pp_encoder := AtGot j\<rparr>)"
| adopt: "pp_encoder p = AtGot j \<Longrightarrow> jb_img j = Some i \<Longrightarrow>
    pipe_step p (p\<lparr>pp_encoder := AtEncode (j\<lparr>jb_img := None\<rparr>), pp_cur := Some i,
      pp_free := (case pp_cur p of None \<Rightarrow> pp_free p | Some c \<Rightarrow> recycle c (pp_free p))\<rparr>)"
| again: "pp_encoder p = AtGot j \<Longrightarrow> jb_img j = None \<Longrightarrow> pipe_step p (p\<lparr>pp_encoder := AtEncode j\<rparr>)"
| encoded: "pp_encoder p = AtEncode j \<Longrightarrow> pipe_step p (p\<lparr>pp_encoder := AtReceive\<rparr>)"

inductive pipe_reach :: "pipe \<Rightarrow> bool" where
  start: "pipe_reach pipe_start"
| step: "pipe_reach p \<Longrightarrow> pipe_step p p' \<Longrightarrow> pipe_reach p'"

section \<open>Who has which image\<close>

definition job_images :: "job \<Rightarrow> image list" where
  "job_images j = (case jb_img j of None \<Rightarrow> [] | Some i \<Rightarrow> [i])"

definition slot_images :: "job option \<Rightarrow> image list" where
  "slot_images s = (case s of None \<Rightarrow> [] | Some j \<Rightarrow> job_images j)"

definition cur_images :: "image option \<Rightarrow> image list" where
  "cur_images c = (case c of None \<Rightarrow> [] | Some i \<Rightarrow> [i])"

fun capture_images :: "capture_at \<Rightarrow> image list" where
  "capture_images AtTick = []"
| "capture_images (AtTake j w h) = job_images j"
| "capture_images (AtConvert j i) = i # job_images j"
| "capture_images (AtSend j) = job_images j"
| "capture_images (AtSwap j) = job_images j"
| "capture_images (AtPut j) = job_images j"

fun encoder_images :: "encoder_at \<Rightarrow> image list" where
  "encoder_images AtReceive = []"
| "encoder_images (AtGot j) = job_images j"
| "encoder_images (AtEncode j) = job_images j"

lemmas images_defs = job_images_def slot_images_def cur_images_def

definition held :: "pipe \<Rightarrow> nat multiset" where
  "held p = mset (map img_addr (capture_images (pp_capture p) @ encoder_images (pp_encoder p)
     @ slot_images (pp_slot p) @ cur_images (pp_cur p) @ pp_free p))"

definition pipe_inv :: "pipe \<Rightarrow> bool" where
  "pipe_inv p \<longleftrightarrow> (\<forall>a. count (held p) a \<le> (if a < pp_fresh p then 1 else 0))
     \<and> (\<forall>j w h i. pp_capture p = AtTake j w h \<or> pp_capture p = AtConvert j i \<longrightarrow> jb_img j = None)"

lemma pipe_inv_count: "pipe_inv p \<Longrightarrow> count (held p) a \<le> 1" "pipe_inv p \<Longrightarrow> \<not> a < pp_fresh p \<Longrightarrow> count (held p) a = 0"
  unfolding pipe_inv_def by (metis le_zero_eq zero_le_one) (metis le_zero_eq)

lemma inv_mono:
  assumes "pipe_inv p" and "held p' \<subseteq># held p" and "pp_fresh p' = pp_fresh p"
    and "\<forall>j w h i. pp_capture p' = AtTake j w h \<or> pp_capture p' = AtConvert j i \<longrightarrow> jb_img j = None"
  shows "pipe_inv p'"
  using assms unfolding pipe_inv_def by (metis le_trans mset_subset_eq_count)

lemma recycle_mset: "mset (map img_addr (recycle i free)) \<subseteq># add_mset (img_addr i) (mset (map img_addr free))"
  by (simp add: recycle_def)

lemma pipe_inv_at:
  "pipe_inv p \<Longrightarrow> pp_capture p = AtTake j w h \<Longrightarrow> jb_img j = None"
  "pipe_inv p \<Longrightarrow> pp_capture p = AtConvert j i \<Longrightarrow> jb_img j = None"
  by (auto simp: pipe_inv_def)

lemma pipe_inv_step:
  assumes "pipe_step p p'" and "pipe_inv p"
  shows "pipe_inv p'"
  using assms(1)
proof (cases rule: pipe_step.cases)
  case (take_new j w h)
  then have "held p' = add_mset (pp_fresh p) (held p)" by (simp add: held_def NewImage_def)
  moreover have "count (held p) (pp_fresh p) = 0" using pipe_inv_count(2)[OF assms(2)] by simp
  ultimately show ?thesis using take_new assms(2) pipe_inv_count[OF assms(2)]
    by (auto simp: pipe_inv_def not_less_eq)
next
  case (take_fits j w h i free)
  then show ?thesis using pipe_inv_at(1)[OF assms(2)] by (intro inv_mono[OF assms(2)]) (auto simp: held_def)
next
  case (convert j i px)
  then show ?thesis using pipe_inv_at(2)[OF assms(2)] by (intro inv_mono[OF assms(2)]) (auto simp: held_def images_defs)
next
  case (take_other j w h i free)
  then show ?thesis using pipe_inv_at(1)[OF assms(2)] by (intro inv_mono[OF assms(2)]) (auto simp: held_def)
next
  case (swap_took j old)
  then show ?thesis
    by (intro inv_mono[OF assms(2)]) (auto simp: held_def images_defs merge_jobs_def recycle_def split: option.splits)
next
  case (adopt j i)
  then show ?thesis using pipe_inv_at[OF assms(2)]
    by (intro inv_mono[OF assms(2)]) (auto simp: held_def images_defs recycle_def split: option.splits)
next
  case (receive j)
  then show ?thesis using pipe_inv_at[OF assms(2)] by (intro inv_mono[OF assms(2)]) (auto simp: held_def slot_images_def)
next
  case (again j)
  then show ?thesis using pipe_inv_at[OF assms(2)] by (intro inv_mono[OF assms(2)]) (auto simp: held_def)
next
  case (encoded j)
  then show ?thesis using pipe_inv_at[OF assms(2)] by (intro inv_mono[OF assms(2)]) (auto simp: held_def)
qed (intro inv_mono[OF assms(2)]; auto simp: held_def images_defs)+

lemma pipe_inv_reach: "pipe_reach p \<Longrightarrow> pipe_inv p"
proof (induction rule: pipe_reach.induct)
  case start
  then show ?case by (simp add: pipe_inv_def held_def pipe_start_def images_defs)
qed (rule pipe_inv_step)

section \<open>No image is written while it can be read\<close>

text \<open>C22: whatever the interleaving of the two goroutines, the image the capture converts into is neither
  the one the encoder is encoding, nor in a job it received or will receive, nor free for the next
  tick: a picture is never torn.\<close>

theorem picture_not_torn:
  assumes "pipe_reach p" and "pp_capture p = AtConvert j i"
  shows "\<forall>x \<in> set (encoder_images (pp_encoder p) @ slot_images (pp_slot p) @ cur_images (pp_cur p) @ pp_free p).
    img_addr x \<noteq> img_addr i"
proof -
  let ?rest = "encoder_images (pp_encoder p) @ slot_images (pp_slot p) @ cur_images (pp_cur p) @ pp_free p"
  have inv: "pipe_inv p" by (rule pipe_inv_reach[OF assms(1)])
  then have "jb_img j = None" using assms(2) by (auto simp: pipe_inv_def)
  then have "count (held p) (img_addr i) = Suc (count (mset (map img_addr ?rest)) (img_addr i))"
    using assms(2) by (simp add: held_def images_defs)
  moreover have "count (held p) (img_addr i) \<le> 1"
    by (rule pipe_inv_count(1)[OF inv])
  ultimately have "count (mset (map img_addr ?rest)) (img_addr i) = 0" by linarith
  then have "img_addr i \<notin> img_addr ` set ?rest" by (simp only: count_mset_0_iff list.set_map not_False_eq_True)
  then show ?thesis by (metis imageI)
qed

text \<open>What the encoder has in its hands no step of the capture changes.\<close>

lemma encoder_side_kept:
  assumes "pipe_step p p'" and "pp_encoder p = AtEncode j" and "pp_encoder p' = AtEncode j'"
  shows "pp_cur p' = pp_cur p \<and> j' = j"
  using assms by (cases rule: pipe_step.cases) auto

definition ex_pipe :: pipe where
  "ex_pipe = pipe_start\<lparr>pp_capture := AtConvert (ex_job 0 False) (NewImage 0 8 8), pp_fresh := 1\<rparr>"

lemma ex_pipe_reach: "pipe_reach ex_pipe"
proof -
  have "pipe_step pipe_start (pipe_start\<lparr>pp_capture := AtTake (ex_job 0 False) 8 8\<rparr>)"
    by (rule tick_load) (simp_all add: pipe_start_def ex_job_def)
  moreover have "pipe_step (pipe_start\<lparr>pp_capture := AtTake (ex_job 0 False) 8 8\<rparr>) ex_pipe"
    using take_new[of "pipe_start\<lparr>pp_capture := AtTake (ex_job 0 False) 8 8\<rparr>" "ex_job 0 False" 8 8]
    by (simp add: ex_pipe_def pipe_start_def)
  ultimately show ?thesis using pipe_reach.start pipe_reach.step by blast
qed

lemma picture_not_torn_witness: "pipe_reach ex_pipe \<and> 0 \<notin> img_addr ` set (pp_free ex_pipe)"
  using ex_pipe_reach picture_not_torn[OF ex_pipe_reach, of "ex_job 0 False" "NewImage 0 8 8"]
  by (auto simp: ex_pipe_def pipe_start_def NewImage_def)

end
