(* ===== verification/Cursor.thy ===== *)
theory Cursor
  imports Capture
begin

text \<open>
  The pointer drawn into the frame on Windows (\<open>capture/cursor_windows.go\<close>). What the system says of a
  cursor is the argument \<open>sys\<close>: its animation, its hotspot and bitmaps, and what \<open>DrawIconEx\<close> makes of
  the frame's pixels. A frame is a bitmap of rows of \<open>stride\<close> bytes; two bitmaps are told apart by
  \<open>pic_id\<close>, as the code does by their addresses.
\<close>

section \<open>Types\<close>

type_synonym handle = nat

record cursorInfo =
  ci_ok :: bool
  ci_showing :: bool
  ci_handle :: handle
  ci_x :: int
  ci_y :: int

record iconInfo =
  ii_hotspotX :: int
  ii_hotspotY :: int
  ii_mask :: handle
  ii_color :: handle

record picture =
  pic_id :: nat
  pic_w :: nat
  pic_h :: nat
  pic_stride :: nat
  pic_bits :: "nat list"

text \<open>The system: \<open>GetCursorFrameInfo\<close> (rate and steps), \<open>GetIconInfo\<close>, the width and height \<open>GetObject\<close>
  reports of a bitmap, and \<open>DrawIconEx\<close> with the cursor's top-left corner.\<close>

record cursor_sys =
  sys_frames :: "handle \<Rightarrow> (int \<times> int) option"
  sys_icon :: "handle \<Rightarrow> iconInfo option"
  sys_object :: "handle \<Rightarrow> (int \<times> int) option"
  sys_draw :: "handle \<Rightarrow> int \<Rightarrow> int \<Rightarrow> int \<Rightarrow> picture \<Rightarrow> nat list"

record pointerState =
  ps_visible :: bool
  ps_handle :: handle
  ps_step :: int
  ps_x :: int
  ps_y :: int

definition no_pointer :: pointerState where
  "no_pointer = \<lparr>ps_visible = False, ps_handle = 0, ps_step = 0, ps_x = 0, ps_y = 0\<rparr>"

section \<open>Animated cursors\<close>

definition jiffy :: duration where "jiffy = go_div second 60"
definition defaultAniRate :: duration where "defaultAniRate = 10 * jiffy"

record animatedCursor =
  an_handle :: handle
  an_steps :: int
  an_rate :: duration
  an_start :: instant

definition go_rem :: "int \<Rightarrow> int \<Rightarrow> int" where
  "go_rem a b = a - b * go_div a b"

definition new_animation :: "cursor_sys \<Rightarrow> handle \<Rightarrow> instant \<Rightarrow> animatedCursor" where
  "new_animation sys h now =
     (case sys_frames sys h of
        None \<Rightarrow> \<lparr>an_handle = h, an_steps = 1, an_rate = 0, an_start = now\<rparr>
      | Some (rate, steps) \<Rightarrow>
          if 1 < steps then \<lparr>an_handle = h, an_steps = steps,
                             an_rate = (if rate * jiffy \<le> 0 then defaultAniRate else rate * jiffy), an_start = now\<rparr>
          else \<lparr>an_handle = h, an_steps = 1, an_rate = 0, an_start = now\<rparr>)"

definition anim_step :: "cursor_sys \<Rightarrow> handle \<Rightarrow> instant \<Rightarrow> animatedCursor \<Rightarrow> int \<times> animatedCursor" where
  "anim_step sys h now a =
     (let a1 = (if h \<noteq> an_handle a then new_animation sys h now else a)
      in (if an_steps a1 \<le> 1 then 0 else go_rem (go_div (now - an_start a1) (an_rate a1)) (an_steps a1), a1))"

section \<open>Measuring, saving and putting back\<close>

record cursorPainter =
  cu_handle :: handle
  cu_hotX :: int
  cu_hotY :: int
  cu_cw :: int
  cu_ch :: int
  cu_anim :: animatedCursor
  cu_frame :: "nat option"
  cu_last :: pointerState
  cu_valid :: bool
  cu_drawn :: bool
  cu_rx :: nat
  cu_ry :: nat
  cu_rw :: nat
  cu_rh :: nat
  cu_under :: "nat list"

definition new_painter :: cursorPainter where
  "new_painter = \<lparr>cu_handle = 0, cu_hotX = 0, cu_hotY = 0, cu_cw = 0, cu_ch = 0,
     cu_anim = \<lparr>an_handle = 0, an_steps = 0, an_rate = 0, an_start = 0\<rparr>, cu_frame = None, cu_last = no_pointer,
     cu_valid = False, cu_drawn = False, cu_rx = 0, cu_ry = 0, cu_rw = 0, cu_rh = 0, cu_under = []\<rparr>"

text \<open>Hotspot and size of a cursor; the bitmaps \<open>GetIconInfo\<close> made are deleted.\<close>

definition measured :: "cursor_sys \<Rightarrow> handle \<Rightarrow> (int \<times> int) \<times> (int \<times> int)" where
  "measured sys h =
     (case sys_icon sys h of
        None \<Rightarrow> ((0, 0), (32, 32))
      | Some ii \<Rightarrow>
          ((ii_hotspotX ii, ii_hotspotY ii),
           if ii_color ii \<noteq> 0 then (case sys_object sys (ii_color ii) of Some bm \<Rightarrow> bm | None \<Rightarrow> (32, 32))
           else if ii_mask ii \<noteq> 0 then (case sys_object sys (ii_mask ii) of Some (bw, bh) \<Rightarrow> (bw, go_div bh 2) | None \<Rightarrow> (32, 32))
           else (32, 32)))"

definition measure_deletes :: "cursor_sys \<Rightarrow> handle \<Rightarrow> handle list" where
  "measure_deletes sys h =
     (case sys_icon sys h of None \<Rightarrow> [] | Some ii \<Rightarrow> [x \<leftarrow> [ii_mask ii, ii_color ii]. x \<noteq> 0])"

definition measure_cursor :: "cursor_sys \<Rightarrow> handle \<Rightarrow> cursorPainter \<Rightarrow> cursorPainter" where
  "measure_cursor sys h p =
     (case measured sys h of ((hx, hy), (w, h')) \<Rightarrow> p\<lparr>cu_handle := h, cu_hotX := hx, cu_hotY := hy, cu_cw := w, cu_ch := h'\<rparr>)"

definition row_at :: "nat \<Rightarrow> nat \<Rightarrow> nat \<Rightarrow> nat \<Rightarrow> nat" where
  "row_at rx ry stride i = (ry + i) * stride + rx * 4"

definition save_under :: "nat list \<Rightarrow> nat \<Rightarrow> nat \<Rightarrow> nat \<Rightarrow> nat \<Rightarrow> nat \<Rightarrow> nat list" where
  "save_under pix stride rx ry rw rh = concat (map (\<lambda>i. take (rw * 4) (drop (row_at rx ry stride i) pix)) [0..<rh])"

text \<open>Go's \<open>copy\<close> into a slice of a slice.\<close>

definition copy_at :: "nat \<Rightarrow> nat list \<Rightarrow> nat list \<Rightarrow> nat list" where
  "copy_at off src dst = take off dst @ src @ drop (off + length src) dst"

fun restore_rows :: "nat \<Rightarrow> nat \<Rightarrow> nat \<Rightarrow> nat \<Rightarrow> nat \<Rightarrow> nat list \<Rightarrow> nat list \<Rightarrow> nat list" where
  "restore_rows stride rx ry rw 0 saved pix = pix"
| "restore_rows stride rx ry rw (Suc n) saved pix =
     copy_at (row_at rx ry stride n) (take (rw * 4) (drop (n * (rw * 4)) saved)) (restore_rows stride rx ry rw n saved pix)"

definition cursor_restore :: "cursorPainter \<times> picture \<Rightarrow> cursorPainter \<times> picture" where
  "cursor_restore pf = (case pf of (p, f) \<Rightarrow>
     (p\<lparr>cu_drawn := False\<rparr>,
      f\<lparr>pic_bits := restore_rows (pic_stride f) (cu_rx p) (cu_ry p) (cu_rw p) (cu_rh p) (cu_under p) (pic_bits f)\<rparr>))"

text \<open>The rectangle a cursor covers, clipped to the frame: \<open>None\<close> when it is not on this monitor.\<close>

definition clip_rect :: "int \<Rightarrow> int \<Rightarrow> int \<Rightarrow> int \<Rightarrow> picture \<Rightarrow> (nat \<times> nat \<times> nat \<times> nat) option" where
  "clip_rect left tp cw ch f =
     (let rx = max left 0; ry = max tp 0; rw = min (left + cw) (int (pic_w f)) - rx; rh = min (tp + ch) (int (pic_h f)) - ry
      in if rw \<le> 0 \<or> rh \<le> 0 then None else Some (nat rx, nat ry, nat rw, nat rh))"

definition cursor_draw :: "cursor_sys \<Rightarrow> handle \<Rightarrow> int \<Rightarrow> int \<Rightarrow> int \<Rightarrow> cursorPainter \<times> picture \<Rightarrow> bool \<times> cursorPainter \<times> picture" where
  "cursor_draw sys h st x y pf = (case pf of (p0, f) \<Rightarrow>
     (let p = (if h \<noteq> cu_handle p0 then measure_cursor sys h p0 else p0);
          left = x - cu_hotX p; tp = y - cu_hotY p
      in case clip_rect left tp (cu_cw p) (cu_ch p) f of
           None \<Rightarrow> (False, p, f)
         | Some (rx, ry, rw, rh) \<Rightarrow>
             (True, p\<lparr>cu_rx := rx, cu_ry := ry, cu_rw := rw, cu_rh := rh,
                      cu_under := save_under (pic_bits f) (pic_stride f) rx ry rw rh, cu_drawn := True\<rparr>,
              f\<lparr>pic_bits := sys_draw sys h st left tp f\<rparr>)))"

section \<open>Painting\<close>

definition pointer_now :: "cursor_sys \<Rightarrow> cursorInfo \<Rightarrow> int \<Rightarrow> int \<Rightarrow> instant \<Rightarrow> animatedCursor \<Rightarrow> pointerState \<times> animatedCursor" where
  "pointer_now sys ci ox oy now a =
     (if ci_ok ci \<and> ci_showing ci \<and> ci_handle ci \<noteq> 0
      then (case anim_step sys (ci_handle ci) now a of
              (st, a') \<Rightarrow> (\<lparr>ps_visible = True, ps_handle = ci_handle ci, ps_step = st, ps_x = ci_x ci - ox, ps_y = ci_y ci - oy\<rparr>, a'))
      else (no_pointer, a))"

text \<open>The painter once it knows which bitmap it describes.\<close>

definition note_frame :: "picture \<Rightarrow> cursorPainter \<Rightarrow> cursorPainter" where
  "note_frame f p = (if cu_frame p \<noteq> Some (pic_id f) then p\<lparr>cu_frame := Some (pic_id f), cu_valid := False, cu_drawn := False\<rparr> else p)"

text \<open>The old pointer is gone: overwritten, put back, or never there.\<close>

definition clear_pointer :: "bool \<Rightarrow> cursorPainter \<Rightarrow> picture \<Rightarrow> bool \<times> cursorPainter \<times> picture" where
  "clear_pointer fresh p f =
     (if fresh then (False, p\<lparr>cu_drawn := False\<rparr>, f) else if cu_drawn p then (True, cursor_restore (p, f)) else (False, p, f))"

definition draw_pointer :: "cursor_sys \<Rightarrow> pointerState \<Rightarrow> cursorPainter \<times> picture \<Rightarrow> bool \<times> cursorPainter \<times> picture" where
  "draw_pointer sys cur pf =
     (if ps_visible cur then cursor_draw sys (ps_handle cur) (ps_step cur) (ps_x cur) (ps_y cur) pf else (False, pf))"

definition cursor_paint ::
  "cursor_sys \<Rightarrow> cursorInfo \<Rightarrow> int \<Rightarrow> int \<Rightarrow> bool \<Rightarrow> instant \<Rightarrow> cursorPainter \<times> picture \<Rightarrow> bool \<times> cursorPainter \<times> picture" where
  "cursor_paint sys ci ox oy fresh now pf =
     (case pointer_now sys ci ox oy now (cu_anim (note_frame (snd pf) (fst pf))) of
        (cur, a) \<Rightarrow>
          (let p = (note_frame (snd pf) (fst pf))\<lparr>cu_anim := a\<rparr>
           in if \<not> fresh \<and> cu_valid p \<and> cur = cu_last p then (False, p, snd pf)
              else (case clear_pointer fresh p (snd pf) of
                      (changed, pf1) \<Rightarrow>
                        (case draw_pointer sys cur pf1 of
                           (drew, p1, f1) \<Rightarrow> (changed \<or> drew, p1\<lparr>cu_last := cur, cu_valid := True\<rparr>, f1)))))"

section \<open>What the frame shows\<close>

text \<open>The frame as it should be: the desktop image, with the pointer drawn on it once.\<close>

definition pointer_rect :: "cursor_sys \<Rightarrow> pointerState \<Rightarrow> picture \<Rightarrow> (nat \<times> nat \<times> nat \<times> nat) option" where
  "pointer_rect sys cur f =
     (if ps_visible cur then (case measured sys (ps_handle cur) of ((hx, hy), (cw, ch)) \<Rightarrow> clip_rect (ps_x cur - hx) (ps_y cur - hy) cw ch f)
      else None)"

definition pointer_drawn :: "cursor_sys \<Rightarrow> pointerState \<Rightarrow> picture \<Rightarrow> nat list" where
  "pointer_drawn sys cur f =
     (case measured sys (ps_handle cur) of ((hx, hy), _) \<Rightarrow> sys_draw sys (ps_handle cur) (ps_step cur) (ps_x cur - hx) (ps_y cur - hy) f)"

definition shown :: "cursor_sys \<Rightarrow> pointerState \<Rightarrow> picture \<Rightarrow> nat list" where
  "shown sys cur f = (if pointer_rect sys cur f = None then pic_bits f else pointer_drawn sys cur f)"

definition picture_ok :: "picture \<Rightarrow> bool" where
  "picture_ok f \<longleftrightarrow> pic_stride f = pic_w f * 4 \<and> length (pic_bits f) = pic_h f * pic_stride f"

definition in_rect :: "nat \<Rightarrow> nat \<times> nat \<times> nat \<times> nat \<Rightarrow> nat \<Rightarrow> bool" where
  "in_rect stride r k \<longleftrightarrow> (case r of (rx, ry, rw, rh) \<Rightarrow> \<exists>i < rh. row_at rx ry stride i \<le> k \<and> k < row_at rx ry stride i + rw * 4)"

text \<open>What is relied on of \<open>DrawIconEx\<close>: it draws inside the cursor's rectangle.\<close>

definition draws_inside :: "cursor_sys \<Rightarrow> bool" where
  "draws_inside sys \<longleftrightarrow> (\<forall>cur f r. picture_ok f \<longrightarrow> pointer_rect sys cur f = Some r \<longrightarrow>
     length (pointer_drawn sys cur f) = length (pic_bits f)
     \<and> (\<forall>k < length (pic_bits f). \<not> in_rect (pic_stride f) r k \<longrightarrow> pointer_drawn sys cur f ! k = pic_bits f ! k))"

section \<open>Putting back what was saved\<close>

lemma concat_block:
  assumes "\<And>i. i < m \<Longrightarrow> length (g i) = r" and "n < m"
  shows "take r (drop (n * r) (concat (map g [0..<m]))) = g n"
proof -
  have l: "length (concat (map g [0..<k])) = k * r" if "k \<le> m" for k
    using that by (induction k) (simp_all add: assms(1))
  have "[0..<m] = [0..<n] @ n # [Suc n..<m]" using assms(2) by (metis le_add1 less_imp_add_positive upt_add_eq_append upt_conv_Cons plus_nat.add_0 less_add_same_cancel1)
  then have "concat (map g [0..<m]) = concat (map g [0..<n]) @ g n @ concat (map g [Suc n..<m])" by simp
  then show ?thesis using l[of n] assms by simp
qed

lemma clip_rect_fits:
  assumes "clip_rect l t cw ch f = Some (rx, ry, rw, rh)"
  shows "rx + rw \<le> pic_w f" "ry + rh \<le> pic_h f"
  using assms by (auto simp: clip_rect_def Let_def split: if_splits) linarith+

lemma row_fits:
  assumes "rx + rw \<le> pic_w f" "ry + rh \<le> pic_h f" "picture_ok f" "i < rh"
  shows "row_at rx ry (pic_stride f) i + rw * 4 \<le> length (pic_bits f)"
proof -
  have "rx * 4 + rw * 4 \<le> pic_stride f" using assms by (simp add: picture_ok_def)
  moreover have "(ry + i) * pic_stride f + pic_stride f = Suc (ry + i) * pic_stride f" by simp
  moreover have "Suc (ry + i) * pic_stride f \<le> pic_h f * pic_stride f" using assms by (intro mult_right_mono) auto
  ultimately show ?thesis using assms(3) unfolding row_at_def picture_ok_def by linarith
qed

lemma copy_at_nth:
  "off + length src \<le> length dst \<Longrightarrow> k < length dst \<Longrightarrow>
   copy_at off src dst ! k = (if off \<le> k \<and> k < off + length src then src ! (k - off) else dst ! k)"
  by (auto simp: copy_at_def nth_append)

lemma copy_at_length [simp]: "off + length src \<le> length dst \<Longrightarrow> length (copy_at off src dst) = length dst"
  by (simp add: copy_at_def)

lemma restore_rows_nth:
  assumes "\<And>i. i < rh \<Longrightarrow> row_at rx ry stride i + rw * 4 \<le> length pix0" and "length pix = length pix0" and "n \<le> rh"
  shows "length (restore_rows stride rx ry rw n (save_under pix0 stride rx ry rw rh) pix) = length pix0
     \<and> (\<forall>k < length pix0. restore_rows stride rx ry rw n (save_under pix0 stride rx ry rw rh) pix ! k =
          (if in_rect stride (rx, ry, rw, n) k then pix0 ! k else pix ! k))"
  using assms(3)
proof (induction n)
  case 0
  then show ?case using assms(2) by (simp add: in_rect_def)
next
  case (Suc n)
  let ?row = "take (rw * 4) (drop (row_at rx ry stride n) pix0)"
  have len: "length (take (rw * 4) (drop (row_at rx ry stride i) pix0)) = rw * 4" if "i < rh" for i
    using assms(1)[OF that] by simp
  have "take (rw * 4) (drop (n * (rw * 4)) (save_under pix0 stride rx ry rw rh)) = ?row"
    unfolding save_under_def using len Suc.prems by (intro concat_block) auto
  moreover have "length ?row = rw * 4" using len[of n] Suc.prems by simp
  moreover have "row_at rx ry stride n + rw * 4 \<le> length pix0" using assms(1)[of n] Suc.prems by simp
  moreover have "in_rect stride (rx, ry, rw, Suc n) k \<longleftrightarrow>
      in_rect stride (rx, ry, rw, n) k \<or> row_at rx ry stride n \<le> k \<and> k < row_at rx ry stride n + rw * 4" for k
    by (auto simp: in_rect_def less_Suc_eq)
  ultimately show ?case using Suc by (auto simp: copy_at_nth)
qed

text \<open>Putting back undoes the drawing.\<close>

lemma restore_undoes:
  assumes "draws_inside sys" and "picture_ok f" and "pointer_rect sys cur f = Some (rx, ry, rw, rh)"
  shows "restore_rows (pic_stride f) rx ry rw rh (save_under (pic_bits f) (pic_stride f) rx ry rw rh) (pointer_drawn sys cur f) = pic_bits f"
proof -
  have fit: "rx + rw \<le> pic_w f" "ry + rh \<le> pic_h f"
    using assms(3) clip_rect_fits by (auto simp: pointer_rect_def split: if_splits prod.splits)
  have d: "length (pointer_drawn sys cur f) = length (pic_bits f)"
    "\<forall>k < length (pic_bits f). \<not> in_rect (pic_stride f) (rx, ry, rw, rh) k \<longrightarrow> pointer_drawn sys cur f ! k = pic_bits f ! k"
    using assms unfolding draws_inside_def by metis+
  from restore_rows_nth[of rh rx ry "pic_stride f" rw "pic_bits f" "pointer_drawn sys cur f" rh] row_fits[OF fit assms(2)] d
  show ?thesis by (intro nth_equalityI) auto
qed

section \<open>Runs\<close>

text \<open>What the source did before a tick: nothing, a new desktop image, or another bitmap that is not reported
  as one. The ghost of a run is the desktop image without any pointer.\<close>

datatype frame_event = Same | Fresh picture | Replaced picture

record paint_tick =
  pt_event :: frame_event
  pt_info :: cursorInfo
  pt_ox :: int
  pt_oy :: int
  pt_now :: instant

fun event_frame :: "frame_event \<Rightarrow> picture \<Rightarrow> picture" where
  "event_frame Same f = f"
| "event_frame (Fresh g) f = g"
| "event_frame (Replaced g) f = g"

definition is_fresh :: "frame_event \<Rightarrow> bool" where
  "is_fresh e \<longleftrightarrow> (case e of Fresh _ \<Rightarrow> True | _ \<Rightarrow> False)"

definition paint_one :: "cursor_sys \<Rightarrow> paint_tick \<Rightarrow> cursorPainter \<times> picture \<Rightarrow> bool \<times> cursorPainter \<times> picture" where
  "paint_one sys t pf = cursor_paint sys (pt_info t) (pt_ox t) (pt_oy t) (is_fresh (pt_event t)) (pt_now t)
     (fst pf, event_frame (pt_event t) (snd pf))"

fun paint_run :: "cursor_sys \<Rightarrow> paint_tick list \<Rightarrow> cursorPainter \<times> picture \<Rightarrow> cursorPainter \<times> picture" where
  "paint_run sys [] pf = pf"
| "paint_run sys (t # ts) pf = paint_run sys ts (snd (paint_one sys t pf))"

fun desktop_image :: "paint_tick list \<Rightarrow> picture \<Rightarrow> picture" where
  "desktop_image [] c = c"
| "desktop_image (t # ts) c = desktop_image ts (event_frame (pt_event t) c)"

text \<open>The source's side: bitmaps have the size they say, and a replaced bitmap is another one.\<close>

fun events_ok :: "paint_tick list \<Rightarrow> nat \<Rightarrow> bool" where
  "events_ok [] k = True"
| "events_ok (t # ts) k =
     (case pt_event t of
        Same \<Rightarrow> events_ok ts k
      | Fresh g \<Rightarrow> picture_ok g \<and> events_ok ts (pic_id g)
      | Replaced g \<Rightarrow> picture_ok g \<and> pic_id g \<noteq> k \<and> events_ok ts (pic_id g))"

definition cached_ok :: "cursor_sys \<Rightarrow> cursorPainter \<Rightarrow> bool" where
  "cached_ok sys p \<longleftrightarrow> (cu_handle p \<noteq> 0 \<longrightarrow> measured sys (cu_handle p) = ((cu_hotX p, cu_hotY p), (cu_cw p, cu_ch p)))"

definition paint_inv :: "cursor_sys \<Rightarrow> picture \<Rightarrow> cursorPainter \<Rightarrow> picture \<Rightarrow> bool" where
  "paint_inv sys c p f \<longleftrightarrow> picture_ok c \<and> cached_ok sys p \<and> cu_valid p \<and> cu_frame p = Some (pic_id c)
     \<and> (ps_visible (cu_last p) \<longrightarrow> ps_handle (cu_last p) \<noteq> 0)
     \<and> f = c\<lparr>pic_bits := shown sys (cu_last p) c\<rparr>
     \<and> (if cu_drawn p
        then pointer_rect sys (cu_last p) c = Some (cu_rx p, cu_ry p, cu_rw p, cu_rh p)
          \<and> cu_under p = save_under (pic_bits c) (pic_stride c) (cu_rx p) (cu_ry p) (cu_rw p) (cu_rh p)
        else pointer_rect sys (cu_last p) c = None)"

lemma cursor_draw_clean:
  assumes "cached_ok sys p" and "cu_drawn p = False" and "ps_visible cur" and "ps_handle cur \<noteq> 0"
    and "cursor_draw sys (ps_handle cur) (ps_step cur) (ps_x cur) (ps_y cur) (p, c) = (d, p', f')"
  shows "cached_ok sys p' \<and> f' = c\<lparr>pic_bits := shown sys cur c\<rparr> \<and> cu_frame p' = cu_frame p
     \<and> (if cu_drawn p'
        then pointer_rect sys cur c = Some (cu_rx p', cu_ry p', cu_rw p', cu_rh p')
          \<and> cu_under p' = save_under (pic_bits c) (pic_stride c) (cu_rx p') (cu_ry p') (cu_rw p') (cu_rh p')
        else pointer_rect sys cur c = None)"
proof -
  define p1 where "p1 = (if ps_handle cur \<noteq> cu_handle p then measure_cursor sys (ps_handle cur) p else p)"
  have m: "measured sys (ps_handle cur) = ((cu_hotX p1, cu_hotY p1), (cu_cw p1, cu_ch p1))" "cached_ok sys p1"
    "cu_drawn p1 = False" "cu_frame p1 = cu_frame p"
    using assms(1-4) by (auto simp: p1_def measure_cursor_def cached_ok_def split: prod.splits)
  have r: "pointer_rect sys cur c = clip_rect (ps_x cur - cu_hotX p1) (ps_y cur - cu_hotY p1) (cu_cw p1) (cu_ch p1) c"
    using assms(3) m(1) by (simp add: pointer_rect_def)
  show ?thesis
  proof (cases "pointer_rect sys cur c")
    case None
    with assms(5) r m show ?thesis by (auto simp: cursor_draw_def Let_def p1_def[symmetric] shown_def)
  next
    case (Some q)
    obtain rx ry rw rh where q: "q = (rx, ry, rw, rh)" by (cases q)
    from Some q assms(5) r m show ?thesis
      by (auto simp: cursor_draw_def Let_def p1_def[symmetric] shown_def pointer_drawn_def cached_ok_def)
  qed
qed

lemma paint_over_clean:
  assumes "cached_ok sys p" and "\<not> cu_drawn p" and "ps_visible cur \<longrightarrow> ps_handle cur \<noteq> 0" and "picture_ok c"
    and "cu_frame p = Some (pic_id c)"
    and "draw_pointer sys cur (p, c) = (d, p', f')"
  shows "paint_inv sys c (p'\<lparr>cu_last := cur, cu_valid := True\<rparr>) f'"
proof (cases "ps_visible cur")
  case True
  with cursor_draw_clean[of sys p cur c d p' f'] assms show ?thesis by (simp add: paint_inv_def cached_ok_def draw_pointer_def)
next
  case False
  with assms show ?thesis by (auto simp: paint_inv_def shown_def pointer_rect_def cached_ok_def draw_pointer_def)
qed

lemma pointer_now_handle: "pointer_now sys ci ox oy now a = (cur, a') \<Longrightarrow> ps_visible cur \<longrightarrow> ps_handle cur \<noteq> 0"
  by (auto simp: pointer_now_def no_pointer_def split: if_splits prod.splits)

definition unseen :: "cursor_sys \<Rightarrow> picture \<Rightarrow> cursorPainter \<Rightarrow> picture \<Rightarrow> bool" where
  "unseen sys c p f \<longleftrightarrow> picture_ok c \<and> cached_ok sys p \<and> f = c \<and> cu_frame p \<noteq> Some (pic_id c)"

lemma cursor_paint_eq:
  assumes "pointer_now sys ci ox oy now (cu_anim (note_frame f p)) = (cur, a)" and "p2 = (note_frame f p)\<lparr>cu_anim := a\<rparr>"
  shows "cursor_paint sys ci ox oy fresh now (p, f) =
    (if \<not> fresh \<and> cu_valid p2 \<and> cur = cu_last p2 then (False, p2, f)
     else (case clear_pointer fresh p2 f of
             (changed, pf1) \<Rightarrow> (case draw_pointer sys cur pf1 of
                (drew, p1, f1) \<Rightarrow> (changed \<or> drew, p1\<lparr>cu_last := cur, cu_valid := True\<rparr>, f1))))"
  using assms unfolding cursor_paint_def Let_def by simp

lemma cursor_paint_inv:
  assumes "draws_inside sys"
    and "if fresh then picture_ok c \<and> cached_ok sys p \<and> f = c else paint_inv sys c p f \<or> unseen sys c p f"
    and "cursor_paint sys ci ox oy fresh now (p, f) = (b, p', f')"
  shows "paint_inv sys c p' f'" and "cu_last p' = fst (pointer_now sys ci ox oy now (cu_anim p))"
proof -
  define p1 where "p1 = note_frame f p"
  obtain cur a where cur: "pointer_now sys ci ox oy now (cu_anim p1) = (cur, a)" by fastforce
  define p2 where "p2 = p1\<lparr>cu_anim := a\<rparr>"
  have eq: "cursor_paint sys ci ox oy fresh now (p, f) =
    (if \<not> fresh \<and> cu_valid p2 \<and> cur = cu_last p2 then (False, p2, f)
     else (case clear_pointer fresh p2 f of
             (changed, pf1) \<Rightarrow> (case draw_pointer sys cur pf1 of
                (drew, p1, f1) \<Rightarrow> (changed \<or> drew, p1\<lparr>cu_last := cur, cu_valid := True\<rparr>, f1))))"
    using cur by (intro cursor_paint_eq) (simp_all add: p1_def p2_def)
  have a1: "cu_anim p1 = cu_anim p" by (simp add: p1_def note_frame_def)
  have pid: "pic_id f = pic_id c" using assms(2) by (auto simp: paint_inv_def unseen_def split: if_splits)
  have fr: "cu_frame p2 = Some (pic_id c)" using pid by (auto simp: p2_def p1_def note_frame_def)
  have ok: "picture_ok c" "cached_ok sys p2"
    using assms(2) by (auto simp: paint_inv_def unseen_def p2_def p1_def note_frame_def cached_ok_def split: if_splits)
  note vis = pointer_now_handle[OF cur]
  have "paint_inv sys c p' f' \<and> cu_last p' = cur"
  proof (cases "\<not> fresh \<and> cu_valid p2 \<and> cur = cu_last p2")
    case True
    then have "cu_frame p = Some (pic_id f)" "paint_inv sys c p f"
      using assms(2) pid by (auto simp: p2_def p1_def note_frame_def unseen_def split: if_splits)
    then have "p2 = p\<lparr>cu_anim := a\<rparr>" "paint_inv sys c p f" by (simp_all add: p2_def p1_def note_frame_def)
    moreover have "p' = p2" "f' = f"
      using assms(3) unfolding eq if_P[OF True] by simp_all
    ultimately show ?thesis using True by (simp add: paint_inv_def cached_ok_def)
  next
    case False
    define clean where "clean = clear_pointer fresh p2 f"
    have clean: "snd (snd clean) = c \<and> \<not> cu_drawn (fst (snd clean)) \<and> cached_ok sys (fst (snd clean))
        \<and> cu_frame (fst (snd clean)) = Some (pic_id c)"
    proof (cases "\<not> fresh \<and> cu_drawn p2")
      case True
      then have inv: "paint_inv sys c p f" "cu_drawn p" "p1 = p"
        using assms(2) pid by (auto simp: p2_def p1_def note_frame_def unseen_def split: if_splits)
      then have r: "pointer_rect sys (cu_last p) c = Some (cu_rx p, cu_ry p, cu_rw p, cu_rh p)"
        and f: "f = c\<lparr>pic_bits := pointer_drawn sys (cu_last p) c\<rparr>"
        and u: "cu_under p = save_under (pic_bits c) (pic_stride c) (cu_rx p) (cu_ry p) (cu_rw p) (cu_rh p)"
        by (simp_all add: paint_inv_def shown_def)
      from restore_undoes[OF assms(1) ok(1) r] True inv f u ok fr show ?thesis
        by (simp add: clean_def clear_pointer_def cursor_restore_def p2_def cached_ok_def)
    next
      case False
      then have "f = c" if "\<not> fresh"
        using assms(2) that by (auto simp: p2_def p1_def note_frame_def paint_inv_def unseen_def shown_def split: if_splits)
      with False assms(2) ok fr show ?thesis by (auto simp: clean_def clear_pointer_def cached_ok_def)
    qed
    obtain ch p3 where c3: "clean = (ch, p3, c)" using clean by (cases clean) auto
    obtain d p4 f4 where d: "draw_pointer sys cur (p3, c) = (d, p4, f4)" by (metis prod_cases3)
    have "p' = p4\<lparr>cu_last := cur, cu_valid := True\<rparr>" "f' = f4"
      using assms(3) c3 d unfolding eq if_not_P[OF False] clean_def by simp_all
    with paint_over_clean[OF _ _ vis ok(1) _ d] clean c3 show ?thesis by simp
  qed
  then show "paint_inv sys c p' f'" "cu_last p' = fst (pointer_now sys ci ox oy now (cu_anim p))" using cur a1 by simp_all
qed

lemma paint_one_inv:
  assumes "draws_inside sys" and "paint_inv sys c p f \<or> unseen sys c p f \<and> cu_frame p = None"
    and "events_ok (t # ts) (pic_id c)" and "paint_one sys t (p, f) = (b, p', f')"
    and "c' = event_frame (pt_event t) c"
  shows "paint_inv sys c' p' f'" and "events_ok ts (pic_id c')"
    and "cu_last p' = fst (pointer_now sys (pt_info t) (pt_ox t) (pt_oy t) (pt_now t) (cu_anim p))"
proof -
  have "cached_ok sys p" "cu_frame p = Some (pic_id c) \<or> cu_frame p = None \<and> unseen sys c p f" using assms(2) by (auto simp: paint_inv_def unseen_def)
  then have pre: "if is_fresh (pt_event t) then picture_ok c' \<and> cached_ok sys p \<and> event_frame (pt_event t) f = c'
      else paint_inv sys c' p (event_frame (pt_event t) f) \<or> unseen sys c' p (event_frame (pt_event t) f)"
    using assms(2,3,5) by (cases "pt_event t") (auto simp: is_fresh_def unseen_def)
  from cursor_paint_inv[OF assms(1) pre] assms(4)
  show "paint_inv sys c' p' f'" "cu_last p' = fst (pointer_now sys (pt_info t) (pt_ox t) (pt_oy t) (pt_now t) (cu_anim p))"
    by (simp_all add: paint_one_def)
  show "events_ok ts (pic_id c')" using assms(3,5) by (cases "pt_event t") auto
qed

lemma paint_run_inv:
  assumes "draws_inside sys" and "paint_inv sys c p f \<or> unseen sys c p f \<and> cu_frame p = None" and "events_ok ts (pic_id c)" and "ts \<noteq> []"
    and "paint_run sys ts (p, f) = (p', f')"
  shows "paint_inv sys (desktop_image ts c) p' f'
     \<and> (\<exists>a. cu_last p' = fst (pointer_now sys (pt_info (last ts)) (pt_ox (last ts)) (pt_oy (last ts)) (pt_now (last ts)) a))"
  using assms
proof (induction ts arbitrary: c p f)
  case (Cons t ts)
  obtain b p1 f1 where o: "paint_one sys t (p, f) = (b, p1, f1)" by (metis prod_cases3)
  note one = paint_one_inv[OF Cons.prems(1-3) o refl]
  show ?case
  proof (cases "ts = []")
    case True
    with Cons.prems(5) o one show ?thesis by auto
  next
    case False
    from Cons.IH[OF Cons.prems(1) disjI1[OF one(1)] one(2) False] Cons.prems(5) o False show ?thesis by simp
  qed
qed simp

text \<open>C23: after any run of ticks the frame holds exactly the desktop's latest image with the pointer drawn on it
  once, where it was at the last tick: no trail, nothing of a pointer left behind, and nothing from
  under it lost, whatever bitmaps the source hands out.\<close>

theorem pointer_drawn_once:
  assumes "draws_inside sys" and "picture_ok f" and "events_ok ts (pic_id f)" and "ts \<noteq> []"
    and "paint_run sys ts (new_painter, f) = (p', f')" and "t = last ts" and "ci = pt_info t"
  shows "f' = (desktop_image ts f)\<lparr>pic_bits := shown sys (cu_last p') (desktop_image ts f)\<rparr>
     \<and> ps_visible (cu_last p') = (ci_ok ci \<and> ci_showing ci \<and> ci_handle ci \<noteq> 0)
     \<and> (if ps_visible (cu_last p') then ps_handle (cu_last p') = ci_handle ci
          \<and> ps_x (cu_last p') = ci_x ci - pt_ox t \<and> ps_y (cu_last p') = ci_y ci - pt_oy t else True)"
proof -
  have "unseen sys f new_painter f \<and> cu_frame new_painter = None" using assms(2) by (simp add: unseen_def cached_ok_def new_painter_def)
  from paint_run_inv[OF assms(1) disjI2[OF this] assms(3-5)] obtain a where
    inv: "paint_inv sys (desktop_image ts f) p' f'" and l: "cu_last p' = fst (pointer_now sys ci (pt_ox t) (pt_oy t) (pt_now t) a)"
    using assms(6,7) by auto
  from inv l show ?thesis
    by (auto simp: paint_inv_def pointer_now_def no_pointer_def split: prod.splits if_splits)
qed

text \<open>A system whose pointer is a block of 32 by 32 white pixels.\<close>

definition ex_sys :: cursor_sys where
  "ex_sys = \<lparr>sys_frames = Map.empty, sys_icon = Map.empty, sys_object = Map.empty,
     sys_draw = (\<lambda>h st l t f. case clip_rect l t 32 32 f of
        None \<Rightarrow> pic_bits f
      | Some r \<Rightarrow> map (\<lambda>k. if in_rect (pic_stride f) r k then 255 else pic_bits f ! k) [0..<length (pic_bits f)])\<rparr>"

lemma ex_sys_inside: "draws_inside ex_sys"
  by (auto simp: draws_inside_def ex_sys_def pointer_rect_def pointer_drawn_def measured_def split: option.splits if_splits)

definition ex_frame :: "nat \<Rightarrow> picture" where
  "ex_frame k = \<lparr>pic_id = k, pic_w = 2, pic_h = 1, pic_stride = 8, pic_bits = [1, 2, 3, 4, 5, 6, 7, 8]\<rparr>"

definition ex_paint :: "frame_event \<Rightarrow> int \<Rightarrow> paint_tick" where
  "ex_paint e x = \<lparr>pt_event = e, pt_info = \<lparr>ci_ok = True, ci_showing = True, ci_handle = 5, ci_x = x, ci_y = 0\<rparr>, pt_ox = 0, pt_oy = 0, pt_now = 0\<rparr>"

lemma pointer_drawn_once_witness:
  "pic_id (snd (paint_run ex_sys [ex_paint (Fresh (ex_frame 1)) 0, ex_paint Same 1, ex_paint (Replaced (ex_frame 2)) 1]
     (new_painter, ex_frame 0))) = 2"
proof -
  let ?ts = "[ex_paint (Fresh (ex_frame 1)) 0, ex_paint Same 1, ex_paint (Replaced (ex_frame 2)) 1]"
  obtain p' f' where r: "paint_run ex_sys ?ts (new_painter, ex_frame 0) = (p', f')" by (metis surj_pair)
  have "events_ok ?ts (pic_id (ex_frame 0))" "picture_ok (ex_frame 0)" by (simp_all add: ex_paint_def ex_frame_def picture_ok_def)
  from pointer_drawn_once[OF ex_sys_inside this(2,1) _ r refl refl] show ?thesis
    unfolding r by (simp add: ex_paint_def ex_frame_def)
qed

end
