(* ===== verification/CaptureSources.thy ===== *)
theory CaptureSources
  imports Capture "HOL-Library.Multiset"
begin

text \<open>
  Where pictures come from: desktop duplication (\<open>dxgi_windows.go\<close>), the GDI copy (\<open>gdi_windows.go\<close>) and
  ScreenCaptureKit (\<open>capture_darwin.go\<close>), with the helpers of \<open>win32_windows.go\<close>. What every system call
  answers is an argument; what the source acquires and gives back is its log. The theory shows that
  nothing leaks and nothing is given back twice, and that a successful grab always has a frame.
\<close>

section \<open>Resources\<close>

datatype resource = Com nat | Dc nat | Bitmap nat | ScreenDc | DupFrame

datatype res_event = Got resource | Gave resource

text \<open>What is held after a log; \<open>None\<close> if something was given back that was not held.\<close>

fun live :: "res_event list \<Rightarrow> resource multiset \<Rightarrow> resource multiset option" where
  "live [] m = Some m"
| "live (Got r # es) m = live es (add_mset r m)"
| "live (Gave r # es) m = (if r \<in># m then live es (m - {#r#}) else None)"

lemma live_append: "live (xs @ ys) m = (case live xs m of None \<Rightarrow> None | Some m' \<Rightarrow> live ys m')"
  by (induction xs m rule: live.induct) auto

datatype cap_err = Hresult int | CapErr string

definition failed :: "int \<Rightarrow> bool" where
  "failed r \<longleftrightarrow> i32 (u32 r) < 0"

fun isHRESULT :: "cap_err \<Rightarrow> int list \<Rightarrow> bool" where
  "isHRESULT (Hresult h) codes = (h \<in> set codes)"
| "isHRESULT (CapErr e) codes = False"

definition hresultErr :: "int \<Rightarrow> cap_err" where
  "hresultErr r = Hresult (u32 r)"

definition com_release :: "nat option \<Rightarrow> res_event list" where
  "com_release x = (case x of None \<Rightarrow> [] | Some h \<Rightarrow> [Gave (Com h)])"

section \<open>Bitmaps\<close>

record dib =
  dib_w :: int
  dib_h :: int
  dib_dc :: nat
  dib_bitmap :: nat

text \<open>\<open>newDIB\<close>: the memory DC it got, if any, and the bitmap it made, if any.\<close>

definition newDIB :: "int \<Rightarrow> int \<Rightarrow> nat option \<times> nat option \<Rightarrow> (cap_err + dib) \<times> res_event list" where
  "newDIB w h a =
     (if w \<le> 0 \<or> h \<le> 0 then (Inl (CapErr ''no screen to capture''), [])
      else (case fst a of
         None \<Rightarrow> (Inl (CapErr ''CreateCompatibleDC''), [])
       | Some dc \<Rightarrow>
           (case snd a of
              None \<Rightarrow> (Inl (CapErr ''CreateDIBSection''), [Got (Dc dc), Gave (Dc dc)])
            | Some bm \<Rightarrow> (Inr \<lparr>dib_w = w, dib_h = h, dib_dc = dc, dib_bitmap = bm\<rparr>, [Got (Dc dc), Got (Bitmap bm)]))))"

definition dib_close :: "dib option \<Rightarrow> res_event list" where
  "dib_close d = (case d of None \<Rightarrow> [] | Some b \<Rightarrow> [Gave (Bitmap (dib_bitmap b)), Gave (Dc (dib_dc b))])"

text \<open>\<open>copyScreenGDI\<close>: whether the screen's DC was got and the copy worked.\<close>

definition copyScreenGDI :: "bool \<times> bool \<Rightarrow> bool \<times> res_event list" where
  "copyScreenGDI a = (if \<not> fst a then (False, []) else (snd a, [Got ScreenDc, Gave ScreenDc]))"

definition inputDesktopReadable :: "bool \<Rightarrow> bool" where
  "inputDesktopReadable opened \<longleftrightarrow> opened"

section \<open>Desktop duplication\<close>

definition dxgiErrorNotFound :: int where "dxgiErrorNotFound = 0x887A0002"
definition dxgiErrorAccessLost :: int where "dxgiErrorAccessLost = 0x887A0026"
definition dxgiErrorWaitTimeout :: int where "dxgiErrorWaitTimeout = 0x887A0027"
definition dxgiErrorSessionDisconnected :: int where "dxgiErrorSessionDisconnected = 0x887A0028"
definition dxgiErrorAccessDenied :: int where "dxgiErrorAccessDenied = 0x887A002B"
definition eAccessDenied :: int where "eAccessDenied = 0x80070005"
definition dxgiFormatB8G8R8A8Unorm :: int where "dxgiFormatB8G8R8A8Unorm = 87"
definition dxgiUnavailableRetryInterval :: duration where "dxgiUnavailableRetryInterval = 500 * millisecond"

record dxgiOutputDesc =
  od_left :: int
  od_top :: int
  od_attached :: int
  od_rotation :: int

record dxgiOutduplDesc =
  dd_width :: int
  dd_height :: int
  dd_format :: int
  dd_rotation :: int

definition dxgiUnavailable :: "cap_err \<Rightarrow> bool" where
  "dxgiUnavailable e = isHRESULT e [eAccessDenied, dxgiErrorAccessDenied, dxgiErrorAccessLost, dxgiErrorSessionDisconnected]"

definition checkDuplicationDesc :: "dxgiOutduplDesc \<Rightarrow> cap_err option" where
  "checkDuplicationDesc d =
     (if dd_rotation d \<noteq> 0 \<and> dd_rotation d \<noteq> 1 then Some (CapErr ''the primary monitor is rotated'')
      else if dd_format d \<noteq> dxgiFormatB8G8R8A8Unorm then Some (CapErr ''the desktop is not duplicated as B8G8R8A8'')
      else None)"

record dxgiSource =
  dx_output1 :: "nat option"
  dx_device :: "nat option"
  dx_context :: "nat option"
  dx_dup :: "nat option"
  dx_staging :: "nat option"
  dx_frame :: "dib option"
  dx_nextTry :: "instant option"
  dx_probe :: desktopProbe
  dx_log :: "res_event list"

text \<open>What \<open>duplicate\<close> meets: the output's description, the duplication and its description, the staging
  texture, and the bitmap; a failed call is \<open>Inl\<close> with its result.\<close>

record dup_env =
  de_output :: "int + dxgiOutputDesc"
  de_duplicate :: "int + nat"
  de_desc :: dxgiOutduplDesc
  de_texture :: "int + nat"
  de_dib :: "nat option \<times> nat option"

definition duplicate_frame :: "dup_env \<Rightarrow> nat \<Rightarrow> dxgiSource \<Rightarrow> cap_err option \<times> dxgiSource" where
  "duplicate_frame e dup s =
     (let w = dd_width (de_desc e); h = dd_height (de_desc e)
      in if (case dx_frame s of None \<Rightarrow> True | Some f \<Rightarrow> dib_w f \<noteq> w \<or> dib_h f \<noteq> h)
         then (let s1 = s\<lparr>dx_staging := None, dx_frame := None, dx_log := dx_log s @ com_release (dx_staging s) @ dib_close (dx_frame s)\<rparr>
               in case de_texture e of
                    Inl r \<Rightarrow> (Some (hresultErr r), s1\<lparr>dx_log := dx_log s1 @ com_release (Some dup)\<rparr>)
                  | Inr t \<Rightarrow>
                      (case newDIB w h (de_dib e) of
                         (Inl err, ev) \<Rightarrow> (Some err, s1\<lparr>dx_staging := Some t, dx_log := dx_log s1 @ [Got (Com t)] @ ev @ com_release (Some dup)\<rparr>)
                       | (Inr f, ev) \<Rightarrow>
                           (None, s1\<lparr>dx_staging := Some t, dx_frame := Some f, dx_dup := Some dup, dx_log := dx_log s1 @ [Got (Com t)] @ ev\<rparr>)))
         else (None, s\<lparr>dx_dup := Some dup\<rparr>))"

definition duplicate :: "dup_env \<Rightarrow> dxgiSource \<Rightarrow> cap_err option \<times> dxgiSource" where
  "duplicate e s =
     (case de_output e of
        Inl r \<Rightarrow> (Some (hresultErr r), s)
      | Inr od \<Rightarrow>
          if od_left od \<noteq> 0 \<or> od_top od \<noteq> 0 \<or> od_attached od = 0 then (Some (CapErr ''the primary monitor changed''), s)
          else (case de_duplicate e of
             Inl r \<Rightarrow> (Some (hresultErr r), s)
           | Inr dup \<Rightarrow>
               (let s0 = s\<lparr>dx_log := dx_log s @ [Got (Com dup)]\<rparr>
                in case checkDuplicationDesc (de_desc e) of
                     Some err \<Rightarrow> (Some err, s0\<lparr>dx_log := dx_log s0 @ com_release (Some dup)\<rparr>)
                   | None \<Rightarrow> duplicate_frame e dup s0)))"

definition dx_lose :: "dxgiSource \<Rightarrow> dxgiSource" where
  "dx_lose s = s\<lparr>dx_dup := None, dx_nextTry := None, dx_log := dx_log s @ com_release (dx_dup s)\<rparr>"

definition dx_close :: "dxgiSource \<Rightarrow> dxgiSource" where
  "dx_close s = s\<lparr>dx_dup := None, dx_staging := None, dx_context := None, dx_device := None, dx_output1 := None, dx_frame := None,
     dx_log := dx_log s @ com_release (dx_dup s) @ com_release (dx_staging s) @ com_release (dx_context s)
       @ com_release (dx_device s) @ com_release (dx_output1 s) @ dib_close (dx_frame s)\<rparr>"

text \<open>The source without what it holds yet.\<close>

definition dx_empty :: "res_event list \<Rightarrow> dxgiSource" where
  "dx_empty l = \<lparr>dx_output1 = None, dx_device = None, dx_context = None, dx_dup = None, dx_staging = None, dx_frame = None,
     dx_nextTry = None, dx_probe = \<lparr>dp_next = None, dp_readable = False\<rparr>, dx_log = l\<rparr>"

text \<open>\<open>findPrimaryOutput\<close>: the adapters in order, each with its outputs, and how the enumeration ends.\<close>

fun find_output :: "(nat \<times> dxgiOutputDesc option) list \<Rightarrow> (nat \<times> dxgiOutputDesc) option \<times> res_event list" where
  "find_output [] = (None, [])"
| "find_output ((h, d) # os) =
     (case d of
        Some d' \<Rightarrow> if od_attached d' \<noteq> 0 \<and> od_left d' = 0 \<and> od_top d' = 0 then (Some (h, d'), [Got (Com h)])
                   else (case find_output os of (r, l) \<Rightarrow> (r, [Got (Com h), Gave (Com h)] @ l))
      | None \<Rightarrow> (case find_output os of (r, l) \<Rightarrow> (r, [Got (Com h), Gave (Com h)] @ l)))"

fun findPrimaryOutput :: "int \<Rightarrow> (nat \<times> (nat \<times> dxgiOutputDesc option) list) list \<Rightarrow>
    (cap_err + nat \<times> nat \<times> dxgiOutputDesc) \<times> res_event list" where
  "findPrimaryOutput end [] =
     (Inl (if u32 end = dxgiErrorNotFound then CapErr ''no DXGI output at the primary monitor's position'' else hresultErr end), [])"
| "findPrimaryOutput end ((a, os) # as) =
     (case find_output os of
        (Some (h, d), l) \<Rightarrow> (Inr (a, h, d), Got (Com a) # l)
      | (None, l) \<Rightarrow> (case findPrimaryOutput end as of (r, l') \<Rightarrow> (r, Got (Com a) # l @ [Gave (Com a)] @ l')))"

text \<open>\<open>openDXGI\<close>: the factory, the search, the output's newer interface, the device with its context, and the
  first duplication.\<close>

record open_env =
  oe_factory :: "int + nat"
  oe_adapters :: "(nat \<times> (nat \<times> dxgiOutputDesc option) list) list"
  oe_end :: int
  oe_query :: "int + nat"
  oe_device :: "int + nat \<times> nat"
  oe_dup :: dup_env

definition open_device :: "open_env \<Rightarrow> res_event list \<Rightarrow> (cap_err + unit) \<times> dxgiSource" where
  "open_device e l =
     (case oe_query e of
        Inl r \<Rightarrow> (Inl (hresultErr r), dx_empty l)
      | Inr o1 \<Rightarrow>
          (let s0 = (dx_empty (l @ [Got (Com o1)]))\<lparr>dx_output1 := Some o1\<rparr>
           in case oe_device e of
                Inl r \<Rightarrow> (Inl (hresultErr r), dx_close s0)
              | Inr (dev, ctx) \<Rightarrow>
                  (let s1 = s0\<lparr>dx_device := Some dev, dx_context := Some ctx, dx_log := dx_log s0 @ [Got (Com dev), Got (Com ctx)]\<rparr>
                   in case duplicate (oe_dup e) s1 of
                        (None, s2) \<Rightarrow> (Inr (), s2)
                      | (Some err, s2) \<Rightarrow> if dxgiUnavailable err then (Inr (), s2) else (Inl err, dx_close s2))))"

definition log_more :: "res_event list \<Rightarrow> dxgiSource \<Rightarrow> dxgiSource" where
  "log_more l s = s\<lparr>dx_log := dx_log s @ l\<rparr>"

text \<open>The deferred releases run last, the latest first.\<close>

definition openDXGI :: "open_env \<Rightarrow> (cap_err + unit) \<times> dxgiSource" where
  "openDXGI e =
     (case oe_factory e of
        Inl r \<Rightarrow> (Inl (hresultErr r), dx_empty [])
      | Inr f \<Rightarrow>
          (case findPrimaryOutput (oe_end e) (oe_adapters e) of
             (Inl err, l) \<Rightarrow> (Inl err, dx_empty (Got (Com f) # l @ [Gave (Com f)]))
           | (Inr (a, h, d), l) \<Rightarrow>
               (case (if od_rotation d \<noteq> 0 \<and> od_rotation d \<noteq> 1
                      then (Inl (CapErr ''the primary monitor is rotated''), dx_empty (Got (Com f) # l))
                      else open_device e (Got (Com f) # l)) of
                  (r, s) \<Rightarrow> (r, log_more [Gave (Com h), Gave (Com a), Gave (Com f)] s))))"

datatype acquired = AcqTimeout | AcqFailed int | Acq nat int

record grab_env =
  ge_now :: instant
  ge_readable :: bool
  ge_dup :: dup_env
  ge_acquire :: acquired
  ge_gdi :: "bool \<times> bool"
  ge_texture :: "int + nat"
  ge_map :: "int option"

datatype grabbed = GrabUnavailable | GrabErr cap_err | GrabOk bool

text \<open>The first part of \<open>grab\<close>: a duplication, or the answer without one.\<close>

definition grab_dup :: "grab_env \<Rightarrow> dxgiSource \<Rightarrow> grabbed option \<times> bool \<times> dxgiSource" where
  "grab_dup e s =
     (if dx_dup s \<noteq> None then (None, False, s)
      else if (case dx_nextTry s of None \<Rightarrow> False | Some t \<Rightarrow> ge_now e < t) then (Some GrabUnavailable, False, s)
      else (case probe_check (ge_now e) (ge_readable e) (dx_probe s) of
              (readable, p) \<Rightarrow>
                (let s1 = s\<lparr>dx_nextTry := Some (ge_now e + dxgiUnavailableRetryInterval), dx_probe := p\<rparr>
                 in if \<not> readable then (Some GrabUnavailable, False, s1)
                    else (case duplicate (ge_dup e) s1 of
                            (None, s2) \<Rightarrow> (None, True, s2)
                          | (Some err, s2) \<Rightarrow> (Some (if dxgiUnavailable err then GrabUnavailable else GrabErr err), False, s2)))))"

definition seed_gdi :: "grab_env \<Rightarrow> dxgiSource \<Rightarrow> grabbed \<times> dxgiSource" where
  "seed_gdi e s = (case copyScreenGDI (ge_gdi e) of (ok, l) \<Rightarrow> (GrabOk ok, log_more l s))"

text \<open>With a new frame acquired as \<open>res\<close>: copied out, or only the pointer moved.\<close>

definition grab_frame :: "grab_env \<Rightarrow> bool \<Rightarrow> int \<Rightarrow> dxgiSource \<Rightarrow> grabbed \<times> dxgiSource" where
  "grab_frame e fresh present s =
     (if present = 0
      then (let s1 = log_more [Gave DupFrame] s in if fresh then seed_gdi e s1 else (GrabOk False, s1))
      else (case ge_texture e of
              Inl r \<Rightarrow> (GrabErr (hresultErr r), dx_lose (log_more [Gave DupFrame] s))
            | Inr t \<Rightarrow>
                (let s1 = log_more [Got (Com t), Gave (Com t), Gave DupFrame] s
                 in case ge_map e of
                      Some r \<Rightarrow> (GrabErr (hresultErr r), dx_lose s1)
                    | None \<Rightarrow> (GrabOk True, s1))))"

definition dx_grab :: "grab_env \<Rightarrow> dxgiSource \<Rightarrow> grabbed \<times> dxgiSource" where
  "dx_grab e s =
     (case grab_dup e s of
        (Some r, _, s1) \<Rightarrow> (r, s1)
      | (None, fresh, s1) \<Rightarrow>
          (case ge_acquire e of
             AcqTimeout \<Rightarrow>
               if fresh then seed_gdi e s1
               else (case probe_check (ge_now e) (ge_readable e) (dx_probe s1) of
                       (readable, p) \<Rightarrow>
                         if \<not> readable then (GrabUnavailable, dx_lose (s1\<lparr>dx_probe := p\<rparr>)) else (GrabOk False, s1\<lparr>dx_probe := p\<rparr>))
           | AcqFailed r \<Rightarrow>
               (if dxgiUnavailable (hresultErr r) then GrabUnavailable else GrabErr (hresultErr r), dx_lose s1)
           | Acq res present \<Rightarrow>
               (case grab_frame e fresh present (log_more [Got (Com res), Got DupFrame] s1) of
                  (r, s2) \<Rightarrow> (r, log_more [Gave (Com res)] s2))))"

section \<open>What a source holds\<close>

definition opt_com :: "nat option \<Rightarrow> resource multiset" where
  "opt_com x = (case x of None \<Rightarrow> {#} | Some h \<Rightarrow> {#Com h#})"

definition opt_dib :: "dib option \<Rightarrow> resource multiset" where
  "opt_dib d = (case d of None \<Rightarrow> {#} | Some b \<Rightarrow> {#Bitmap (dib_bitmap b), Dc (dib_dc b)#})"

definition dx_holds :: "dxgiSource \<Rightarrow> resource multiset" where
  "dx_holds s = opt_com (dx_output1 s) + opt_com (dx_device s) + opt_com (dx_context s) + opt_com (dx_dup s)
     + opt_com (dx_staging s) + opt_dib (dx_frame s)"

text \<open>The log accounts for what the source holds and \<open>extra\<close>; a duplication comes with a frame of its size.\<close>

definition dx_acct :: "resource multiset \<Rightarrow> dxgiSource \<Rightarrow> bool" where
  "dx_acct extra s \<longleftrightarrow> live (dx_log s) {#} = Some (dx_holds s + extra)"

definition dx_ready :: "dxgiSource \<Rightarrow> bool" where
  "dx_ready s \<longleftrightarrow> (dx_dup s \<noteq> None \<longrightarrow> dx_frame s \<noteq> None \<and> dx_staging s \<noteq> None)
     \<and> (dx_frame s \<noteq> None \<longrightarrow> dx_staging s \<noteq> None)"

lemma live_release: "live (com_release x) (opt_com x + m) = Some m"
  by (auto simp: com_release_def opt_com_def split: option.split)

lemma live_dib_close: "live (dib_close d) (opt_dib d + m) = Some m"
  by (auto simp: dib_close_def opt_dib_def split: option.split)

lemma live_release_add: "live (com_release x) (add_mset r (opt_com x + m)) = Some (add_mset r m)"
  using live_release[of x "add_mset r m"] by simp

lemma live_dib_close_add: "live (dib_close d) (add_mset r (opt_dib d + m)) = Some (add_mset r m)"
  using live_dib_close[of d "add_mset r m"] by simp

lemma live_step: "live xs m = Some m' \<Longrightarrow> live (xs @ ys) m = live ys m'"
  by (simp add: live_append)

lemma live_gdi: "copyScreenGDI a = (ok, l) \<Longrightarrow> live l m = Some m"
  by (auto simp: copyScreenGDI_def split: if_splits)

lemma live_newDIB: "newDIB w h a = (r, l) \<Longrightarrow> live l m = Some ((case r of Inl _ \<Rightarrow> {#} | Inr d \<Rightarrow> opt_dib (Some d)) + m)"
  by (auto simp: newDIB_def opt_dib_def split: if_splits option.splits)

lemma log_more_sel [simp]: "dx_holds (log_more l s) = dx_holds s" "dx_ready (log_more l s) = dx_ready s"
  "dx_dup (log_more l s) = dx_dup s" "dx_frame (log_more l s) = dx_frame s" "dx_probe (log_more l s) = dx_probe s"
  by (simp_all add: log_more_def dx_holds_def dx_ready_def)

lemma acct_more: "dx_acct x s \<Longrightarrow> live l (dx_holds s + x) = Some (dx_holds s + y) \<Longrightarrow> dx_acct y (log_more l s)"
  unfolding dx_acct_def log_more_sel by (simp add: log_more_def live_append)

lemma dx_lose_acct: "dx_acct x s \<Longrightarrow> dx_acct x (dx_lose s)"
proof -
  assume a: "dx_acct x s"
  define m where "m = opt_com (dx_output1 s) + opt_com (dx_device s) + opt_com (dx_context s) + opt_com (dx_staging s) + opt_dib (dx_frame s) + x"
  have "dx_holds s + x = opt_com (dx_dup s) + m" by (simp add: dx_holds_def m_def ac_simps)
  with a show ?thesis
    by (simp add: dx_acct_def dx_lose_def live_append live_release) (simp add: dx_holds_def m_def opt_com_def)
qed

lemma dx_close_acct: "dx_acct x s \<Longrightarrow> dx_acct x (dx_close s) \<and> dx_holds (dx_close s) = {#}"
proof -
  assume a: "dx_acct x s"
  have "dx_holds s + x = opt_com (dx_dup s) + (opt_com (dx_staging s) + (opt_com (dx_context s) + (opt_com (dx_device s)
      + (opt_com (dx_output1 s) + (opt_dib (dx_frame s) + x)))))" by (simp add: dx_holds_def ac_simps)
  with a have "live (dx_log (dx_close s)) {#} = Some x"
    by (simp add: dx_acct_def dx_close_def live_append live_release live_dib_close)
  moreover have "dx_holds (dx_close s) = {#}" by (simp add: dx_holds_def dx_close_def opt_com_def opt_dib_def)
  ultimately show ?thesis by (simp add: dx_acct_def)
qed

lemma duplicate_frame_acct:
  assumes "dx_acct (add_mset (Com dup) x) s" and "dx_dup s = None" and "duplicate_frame e dup s = (r, s')"
  shows "dx_acct x s'" and "case r of None \<Rightarrow> dx_dup s' \<noteq> None \<and> dx_frame s' \<noteq> None | Some _ \<Rightarrow> dx_dup s' = None"
    and "dx_ready s \<Longrightarrow> dx_ready s'"
proof -
  let ?new = "case dx_frame s of None \<Rightarrow> True | Some f \<Rightarrow> dib_w f \<noteq> dd_width (de_desc e) \<or> dib_h f \<noteq> dd_height (de_desc e)"
  define m where "m = opt_com (dx_output1 s) + opt_com (dx_device s) + opt_com (dx_context s) + x"
  have h: "dx_holds s + add_mset (Com dup) x = opt_com (dx_staging s) + (opt_dib (dx_frame s) + add_mset (Com dup) m)"
    using assms(2) by (simp add: dx_holds_def m_def opt_com_def)
  have "dx_acct x s' \<and> (case r of None \<Rightarrow> dx_dup s' \<noteq> None \<and> dx_frame s' \<noteq> None | Some _ \<Rightarrow> dx_dup s' = None)
      \<and> (dx_ready s \<longrightarrow> dx_ready s')"
  proof (cases ?new)
    case False
    with assms show ?thesis
      by (auto simp: duplicate_frame_def Let_def dx_acct_def dx_holds_def opt_com_def dx_ready_def split: option.splits)
  next
    case True
    define L where "L = dx_log s @ com_release (dx_staging s) @ dib_close (dx_frame s)"
    have l: "live L {#} = Some (add_mset (Com dup) m)"
      using assms(1) unfolding L_def dx_acct_def h by (simp add: live_append live_release_add live_dib_close_add)
    show ?thesis
    proof (cases "de_texture e")
      case (Inl c)
      then have s': "s' = s\<lparr>dx_staging := None, dx_frame := None, dx_log := L @ com_release (Some dup)\<rparr>" "r = Some (hresultErr c)"
        using assms(3) True by (auto simp: duplicate_frame_def Let_def L_def)
      have "live (dx_log s') {#} = Some m" using live_step[OF l] by (simp add: s' com_release_def)
      with s' assms(2) show ?thesis
        by (simp add: dx_acct_def dx_holds_def opt_com_def opt_dib_def m_def dx_ready_def)
    next
      case (Inr t)
      obtain d ev where nd: "newDIB (dd_width (de_desc e)) (dd_height (de_desc e)) (de_dib e) = (d, ev)" by fastforce
      note ld = live_newDIB[OF nd]
      show ?thesis
      proof (cases d)
        case (Inl err)
        then have s': "s' = s\<lparr>dx_staging := Some t, dx_frame := None, dx_log := L @ [Got (Com t)] @ ev @ com_release (Some dup)\<rparr>" "r = Some err"
          using assms(3) True Inr nd by (auto simp: duplicate_frame_def Let_def L_def)
        have "live (dx_log s') {#} = Some (add_mset (Com t) m)"
          using live_step[OF l] ld Inl by (simp add: s' live_append com_release_def)
        with s' assms(2) show ?thesis
          by (simp add: dx_acct_def dx_holds_def opt_com_def opt_dib_def m_def dx_ready_def)
      next
        case (Inr f)
        then have s': "s' = s\<lparr>dx_staging := Some t, dx_frame := Some f, dx_dup := Some dup, dx_log := L @ [Got (Com t)] @ ev\<rparr>" "r = None"
          using assms(3) True \<open>de_texture e = Inr t\<close> nd by (auto simp: duplicate_frame_def Let_def L_def)
        have "live (dx_log s') {#} = Some (opt_dib (Some f) + add_mset (Com t) (add_mset (Com dup) m))"
          using live_step[OF l] ld Inr by (simp add: s' live_append)
        with s' assms(2) show ?thesis
          by (simp add: dx_acct_def dx_holds_def opt_com_def opt_dib_def m_def dx_ready_def)
      qed
    qed
  qed
  then show "dx_acct x s'" "case r of None \<Rightarrow> dx_dup s' \<noteq> None \<and> dx_frame s' \<noteq> None | Some _ \<Rightarrow> dx_dup s' = None"
    "dx_ready s \<Longrightarrow> dx_ready s'" by blast+
qed

lemma duplicate_acct:
  assumes "dx_acct x s" and "dx_dup s = None" and "dx_ready s" and "duplicate e s = (r, s')"
  shows "dx_acct x s' \<and> dx_ready s' \<and> (case r of None \<Rightarrow> dx_dup s' \<noteq> None \<and> dx_frame s' \<noteq> None | Some _ \<Rightarrow> dx_dup s' = None)"
proof (cases "\<exists>od dup. de_output e = Inr od \<and> \<not> (od_left od \<noteq> 0 \<or> od_top od \<noteq> 0 \<or> od_attached od = 0) \<and> de_duplicate e = Inr dup")
  case False
  with assms show ?thesis by (auto simp: duplicate_def split: sum.splits if_splits)
next
  case True
  then obtain od dup where o: "de_output e = Inr od" "\<not> (od_left od \<noteq> 0 \<or> od_top od \<noteq> 0 \<or> od_attached od = 0)"
    "de_duplicate e = Inr dup" by blast
  let ?s = "s\<lparr>dx_log := dx_log s @ [Got (Com dup)]\<rparr>"
  have a: "dx_acct (add_mset (Com dup) x) ?s" using assms(1) by (simp add: dx_acct_def live_append dx_holds_def)
  have r: "dx_ready ?s" "dx_dup ?s = None" using assms(2,3) by (simp_all add: dx_ready_def)
  show ?thesis
  proof (cases "checkDuplicationDesc (de_desc e)")
    case None
    have d: "duplicate_frame e dup ?s = (r, s')" using assms(4) o None by (simp add: duplicate_def)
    from duplicate_frame_acct[OF a r(2) d] r(1) show ?thesis by blast
  next
    case (Some err)
    then have s: "s' = s\<lparr>dx_log := (dx_log s @ [Got (Com dup)]) @ com_release (Some dup)\<rparr>" "r = Some err"
      using assms(4) o by (auto simp: duplicate_def)
    show ?thesis using assms(1-3) by (simp add: s dx_acct_def live_append com_release_def dx_holds_def dx_ready_def)
  qed
qed

section \<open>Opening\<close>

lemma find_output_acct:
  "find_output os = (r, l) \<Longrightarrow> live l m = Some ((case r of None \<Rightarrow> {#} | Some (h, _) \<Rightarrow> {#Com h#}) + m)"
  by (induction os arbitrary: r l) (auto split: option.splits if_splits prod.splits)

lemma findPrimaryOutput_acct:
  "findPrimaryOutput end as = (r, l) \<Longrightarrow>
   live l m = Some ((case r of Inl _ \<Rightarrow> {#} | Inr (a, h, _) \<Rightarrow> {#Com a, Com h#}) + m)"
proof (induction "end" as arbitrary: r l rule: findPrimaryOutput.induct)
  case (2 "end" a os as)
  obtain q k where f: "find_output os = (q, k)" by fastforce
  show ?case
  proof (cases q)
    case None
    obtain r1 l1 where g: "findPrimaryOutput end as = (r1, l1)" by fastforce
    from 2 None f g find_output_acct[OF f, of "add_mset (Com a) m"] show ?thesis by (auto simp: live_append)
  next
    case (Some hd)
    then obtain h d where "q = Some (h, d)" by (cases hd) auto
    with 2 f find_output_acct[OF f, of "add_mset (Com a) m"] show ?thesis by auto
  qed
qed auto

lemma open_device_acct:
  assumes "live l {#} = Some x" and "open_device e l = (r, s)"
  shows "dx_acct x s \<and> dx_ready s \<and> (case r of Inl _ \<Rightarrow> dx_holds s = {#} | Inr _ \<Rightarrow> True)"
proof -
  have e0: "dx_acct x (dx_empty l)" "dx_holds (dx_empty l) = {#}" "dx_ready (dx_empty l)"
    using assms(1) by (simp_all add: dx_acct_def dx_empty_def dx_holds_def opt_com_def opt_dib_def dx_ready_def)
  have rc: "dx_ready (dx_close z)" for z by (simp add: dx_ready_def dx_close_def)
  show ?thesis
  proof (cases "oe_query e")
    case (Inl c)
    with assms(2) e0 show ?thesis by (auto simp: open_device_def)
  next
    case (Inr o1)
    let ?s0 = "(dx_empty (l @ [Got (Com o1)]))\<lparr>dx_output1 := Some o1\<rparr>"
    have a0: "dx_acct x ?s0"
      using assms(1) by (simp add: dx_acct_def dx_empty_def dx_holds_def opt_com_def opt_dib_def live_append)
    show ?thesis
    proof (cases "oe_device e")
      case (Inl c)
      with Inr assms(2) dx_close_acct[OF a0] rc show ?thesis by (auto simp: open_device_def)
    next
      case (Inr dc)
      obtain dev ctx where dc: "dc = (dev, ctx)" by (cases dc)
      let ?s1 = "?s0\<lparr>dx_device := Some dev, dx_context := Some ctx, dx_log := dx_log ?s0 @ [Got (Com dev), Got (Com ctx)]\<rparr>"
      have a1: "dx_acct x ?s1" "dx_dup ?s1 = None" "dx_ready ?s1"
        using assms(1) by (simp_all add: dx_acct_def dx_empty_def dx_holds_def opt_com_def opt_dib_def live_append dx_ready_def)
      obtain r2 s2 where d: "duplicate (oe_dup e) ?s1 = (r2, s2)" by fastforce
      note dup = duplicate_acct[OF a1 d]
      from assms(2) \<open>oe_query e = Inr o1\<close> Inr dc d dup dx_close_acct[of x s2] rc show ?thesis
        by (auto simp: open_device_def Let_def split: option.splits if_splits)
    qed
  qed
qed

lemma openDXGI_acct:
  assumes "openDXGI e = (r, s)"
  shows "dx_acct {#} s \<and> dx_ready s \<and> (case r of Inl _ \<Rightarrow> dx_holds s = {#} | Inr _ \<Rightarrow> True)"
proof -
  have e0: "live l {#} = Some x \<Longrightarrow> dx_acct x (dx_empty l) \<and> dx_holds (dx_empty l) = {#} \<and> dx_ready (dx_empty l)" for l x
    by (simp add: dx_acct_def dx_empty_def dx_holds_def opt_com_def opt_dib_def dx_ready_def)
  show ?thesis
  proof (cases "oe_factory e")
    case (Inl c)
    with assms e0[of "[]" "{#}"] show ?thesis by (auto simp: openDXGI_def)
  next
    case (Inr f)
    obtain q l where fp: "findPrimaryOutput (oe_end e) (oe_adapters e) = (q, l)" by fastforce
    note acct = findPrimaryOutput_acct[OF fp, of "{#Com f#}"]
    show ?thesis
    proof (cases q)
      case (Inl err)
      then have "live (Got (Com f) # l @ [Gave (Com f)]) {#} = Some {#}" using acct by (simp add: live_append)
      with e0 assms Inr fp Inl show ?thesis by (auto simp: openDXGI_def)
    next
      case (Inr ahd)
      obtain a h d where ahd: "ahd = (a, h, d)" by (cases ahd) auto
      let ?x = "{#Com f, Com a, Com h#}"
      have l: "live (Got (Com f) # l) {#} = Some ?x" using acct Inr ahd by (simp add: add_mset_commute)
      obtain r1 s1 where o: "(if od_rotation d \<noteq> 0 \<and> od_rotation d \<noteq> 1
          then (Inl (CapErr ''the primary monitor is rotated''), dx_empty (Got (Com f) # l)) else open_device e (Got (Com f) # l)) = (r1, s1)"
        by fastforce
      have o1: "dx_acct ?x s1 \<and> dx_ready s1 \<and> (case r1 of Inl _ \<Rightarrow> dx_holds s1 = {#} | Inr _ \<Rightarrow> True)"
        using o e0[OF l] open_device_acct[OF l] by (auto split: if_splits)
      have s: "s = log_more [Gave (Com h), Gave (Com a), Gave (Com f)] s1" "r = r1"
        using assms \<open>oe_factory e = Inr f\<close> fp Inr ahd o by (simp_all add: openDXGI_def)
      have "live [Gave (Com h), Gave (Com a), Gave (Com f)] (dx_holds s1 + ?x) = Some (dx_holds s1 + {#})" by simp
      with o1 acct_more[of ?x s1 _ "{#}"] show ?thesis unfolding s by (simp split: sum.splits)
    qed
  qed
qed

section \<open>Grabbing\<close>

definition dx_good :: "dxgiSource \<Rightarrow> bool" where
  "dx_good s \<longleftrightarrow> dx_acct {#} s \<and> dx_ready s"

lemma dx_probe_sel [simp]: "dx_acct x (s\<lparr>dx_probe := p\<rparr>) = dx_acct x s" "dx_ready (s\<lparr>dx_probe := p\<rparr>) = dx_ready s"
  "dx_acct x (s\<lparr>dx_nextTry := t\<rparr>) = dx_acct x s" "dx_ready (s\<lparr>dx_nextTry := t\<rparr>) = dx_ready s"
  by (simp_all add: dx_acct_def dx_holds_def dx_ready_def)

lemma dx_lose_frame [simp]: "dx_frame (dx_lose s) = dx_frame s"
  by (simp add: dx_lose_def)

lemma dx_lose_ready: "dx_ready s \<Longrightarrow> dx_ready (dx_lose s)"
  by (simp add: dx_ready_def dx_lose_def)

lemma grab_dup_good:
  assumes "dx_good s" and "grab_dup e s = (r, fresh, s1)"
  shows "dx_good s1 \<and> (r = None \<longrightarrow> dx_dup s1 \<noteq> None \<and> dx_frame s1 \<noteq> None) \<and> (\<forall>b. r \<noteq> Some (GrabOk b))"
proof (cases "dx_dup s")
  case (Some d)
  with assms show ?thesis by (auto simp: grab_dup_def dx_good_def dx_ready_def)
next
  case None
  obtain rd p where pc: "probe_check (ge_now e) (ge_readable e) (dx_probe s) = (rd, p)" by fastforce
  let ?s1 = "s\<lparr>dx_nextTry := Some (ge_now e + dxgiUnavailableRetryInterval), dx_probe := p\<rparr>"
  obtain q s2 where d: "duplicate (ge_dup e) ?s1 = (q, s2)" by fastforce
  have "dx_acct {#} ?s1" "dx_dup ?s1 = None" "dx_ready ?s1" using assms(1) None by (simp_all add: dx_good_def)
  from duplicate_acct[OF this d] None pc d assms show ?thesis
    by (auto simp: grab_dup_def Let_def dx_good_def split: if_splits option.splits)
qed

lemma seed_gdi_good:
  "dx_acct x s \<Longrightarrow> seed_gdi e s = (r, s') \<Longrightarrow> dx_acct x s' \<and> dx_ready s' = dx_ready s \<and> dx_frame s' = dx_frame s"
  by (auto simp: seed_gdi_def intro!: acct_more live_gdi split: prod.splits)

lemma grab_frame_good:
  assumes "dx_acct {#Com res, DupFrame#} s" and "dx_ready s" and "grab_frame e fresh present s = (r, s')"
  shows "dx_acct {#Com res#} s' \<and> dx_ready s' \<and> dx_frame s' = dx_frame s"
proof -
  have a: "dx_acct {#Com res#} (log_more [Gave DupFrame] s)" using assms(1) by (rule acct_more) simp
  have b: "dx_acct {#Com res#} (log_more [Got (Com t), Gave (Com t), Gave DupFrame] s)" for t using assms(1) by (rule acct_more) simp
  from assms a b[THEN dx_lose_acct] dx_lose_acct[OF a] b show ?thesis
    using seed_gdi_good[OF a]
    by (auto simp: grab_frame_def Let_def dx_lose_ready split: if_splits sum.splits option.splits)
qed

lemma dx_grab_good:
  assumes "dx_good s" and "dx_grab e s = (r, s')"
  shows "dx_good s' \<and> (\<forall>b. r = GrabOk b \<longrightarrow> dx_frame s' \<noteq> None)"
proof -
  obtain q fresh s1 where g: "grab_dup e s = (q, fresh, s1)" by (metis prod_cases3)
  note d = grab_dup_good[OF assms(1) g]
  show ?thesis
  proof (cases q)
    case (Some x)
    with assms(2) g d show ?thesis by (auto simp: dx_grab_def)
  next
    case None
    then have f: "dx_acct {#} s1" "dx_ready s1" "dx_frame s1 \<noteq> None" using d by (simp_all add: dx_good_def)
    show ?thesis
    proof (cases "ge_acquire e")
      case AcqTimeout
      with None assms(2) g f seed_gdi_good[OF f(1)] show ?thesis
        by (auto simp: dx_grab_def dx_good_def dx_lose_acct dx_lose_ready split: if_splits prod.splits)
    next
      case (AcqFailed c)
      with None assms(2) g f show ?thesis by (auto simp: dx_grab_def dx_good_def dx_lose_acct dx_lose_ready split: if_splits)
    next
      case (Acq res present)
      have a: "dx_acct {#Com res, DupFrame#} (log_more [Got (Com res), Got DupFrame] s1)"
        using f(1) by (rule acct_more) (simp add: add_mset_commute)
      obtain r2 s2 where gf: "grab_frame e fresh present (log_more [Got (Com res), Got DupFrame] s1) = (r2, s2)" by fastforce
      from grab_frame_good[OF a _ gf] f
      have s2: "dx_acct {#Com res#} s2" "dx_ready s2" "dx_frame s2 \<noteq> None" by auto
      have "dx_acct {#} (log_more [Gave (Com res)] s2)" using s2(1) by (rule acct_more) simp
      with None Acq assms(2) g gf s2 show ?thesis by (auto simp: dx_grab_def dx_good_def)
    qed
  qed
qed

fun dx_grabs :: "grab_env list \<Rightarrow> dxgiSource \<Rightarrow> grabbed list \<times> dxgiSource" where
  "dx_grabs [] s = ([], s)"
| "dx_grabs (e # es) s = (case dx_grab e s of (r, s1) \<Rightarrow> (case dx_grabs es s1 of (rs, s2) \<Rightarrow> (r # rs, s2)))"

lemma dx_grabs_good: "dx_good s \<Longrightarrow> dx_grabs es s = (rs, s') \<Longrightarrow> dx_good s'"
proof (induction es arbitrary: s rs)
  case (Cons e es)
  obtain r s1 rs1 where "dx_grab e s = (r, s1)" "dx_grabs es s1 = (rs1, s')" using Cons.prems(2) by (auto split: prod.splits)
  with Cons.IH[of s1] dx_grab_good[OF Cons.prems(1)] show ?case by blast
qed simp

text \<open>A capture by desktop duplication leaks nothing: however opening goes and whatever the grabs meet,
  after \<open>close\<close> every COM object, device context, bitmap and duplicated frame that was obtained has
  been given back, each exactly once.\<close>

theorem duplication_leaks_nothing:
  assumes "openDXGI e = (r, s)" and "dx_grabs es s = (rs, s')"
  shows "live (dx_log (case r of Inl _ \<Rightarrow> s | Inr _ \<Rightarrow> dx_close s')) {#} = Some {#}"
proof (cases r)
  case (Inl err)
  with openDXGI_acct[OF assms(1)] show ?thesis by (simp add: dx_acct_def)
next
  case (Inr u)
  have "dx_good s'" using dx_grabs_good[OF _ assms(2)] openDXGI_acct[OF assms(1)] by (simp add: dx_good_def)
  then have "dx_acct {#} (dx_close s') \<and> dx_holds (dx_close s') = {#}" by (auto simp: dx_good_def intro!: dx_close_acct)
  with Inr show ?thesis by (simp add: dx_acct_def)
qed

text \<open>A capture that starts behind the secure desktop, recovers and is closed.\<close>

definition ex_dup :: dup_env where
  "ex_dup = \<lparr>de_output = Inr \<lparr>od_left = 0, od_top = 0, od_attached = 1, od_rotation = 1\<rparr>, de_duplicate = Inr 7,
     de_desc = \<lparr>dd_width = 640, dd_height = 480, dd_format = 87, dd_rotation = 1\<rparr>, de_texture = Inr 8, de_dib = (Some 9, Some 10)\<rparr>"

definition ex_open :: open_env where
  "ex_open = \<lparr>oe_factory = Inr 1, oe_adapters = [(2, [(3, Some \<lparr>od_left = 0, od_top = 0, od_attached = 1, od_rotation = 1\<rparr>)])],
     oe_end = 0x887A0002, oe_query = Inr 4, oe_device = Inr (5, 6), oe_dup = ex_dup\<lparr>de_duplicate := Inl 0x887A002B\<rparr>\<rparr>"

definition ex_grab :: grab_env where
  "ex_grab = \<lparr>ge_now = second, ge_readable = True, ge_dup = ex_dup, ge_acquire = Acq 11 1, ge_gdi = (True, True), ge_texture = Inr 12,
     ge_map = None\<rparr>"

lemma duplication_leaks_nothing_witness:
  "(case (openDXGI ex_open, dx_grabs [ex_grab] (snd (openDXGI ex_open))) of
      ((Inr _, _), (rs, s')) \<Rightarrow> rs = [GrabOk True] \<and> live (dx_log (dx_close s')) {#} = Some {#} | _ \<Rightarrow> False)"
proof -
  obtain r s where o: "openDXGI ex_open = (r, s)" by fastforce
  obtain rs s' where g: "dx_grabs [ex_grab] s = (rs, s')" by fastforce
  have "\<exists>u. r = Inr u \<and> rs = [GrabOk True]"
    using o g by (auto simp: openDXGI_def ex_open_def open_device_def ex_dup_def duplicate_def Let_def dxgiUnavailable_def hresultErr_def
        u32_def dxgiErrorAccessDenied_def dx_grab_def grab_dup_def dx_empty_def log_more_def ex_grab_def probe_check_def
        checkDuplicationDesc_def dxgiFormatB8G8R8A8Unorm_def duplicate_frame_def newDIB_def grab_frame_def)
  with duplication_leaks_nothing[OF o g] o g show ?thesis by auto
qed

section \<open>The GDI copy\<close>

definition gdiRetryInterval :: duration where "gdiRetryInterval = 500 * millisecond"

record gdiSource =
  gs_frame :: "dib option"
  gs_nextTry :: "instant option"
  gs_lost :: bool
  gs_probe :: desktopProbe
  gs_log :: "res_event list"

definition openGDI :: "int \<times> int \<Rightarrow> nat option \<times> nat option \<Rightarrow> (cap_err + unit) \<times> gdiSource" where
  "openGDI sz a =
     (case newDIB (fst sz) (snd sz) a of
        (Inl e, l) \<Rightarrow> (Inl e, \<lparr>gs_frame = None, gs_nextTry = None, gs_lost = False, gs_probe = \<lparr>dp_next = None, dp_readable = False\<rparr>, gs_log = l\<rparr>)
      | (Inr f, l) \<Rightarrow> (Inr (), \<lparr>gs_frame = Some f, gs_nextTry = None, gs_lost = False, gs_probe = \<lparr>dp_next = None, dp_readable = False\<rparr>, gs_log = l\<rparr>))"

record gdi_env =
  gv_now :: instant
  gv_readable :: bool
  gv_size :: "int \<times> int"
  gv_dib :: "nat option \<times> nat option"
  gv_copy :: "bool \<times> bool"

definition gdi_copy :: "gdi_env \<Rightarrow> gdiSource \<Rightarrow> grabbed \<times> gdiSource" where
  "gdi_copy e s = (case copyScreenGDI (gv_copy e) of
     (ok, l) \<Rightarrow> (if ok then GrabOk True else GrabUnavailable, s\<lparr>gs_lost := \<not> ok, gs_log := gs_log s @ l\<rparr>))"

definition gdi_grab :: "gdi_env \<Rightarrow> gdiSource \<Rightarrow> grabbed \<times> gdiSource" where
  "gdi_grab e s =
     (if gs_lost s \<and> (case gs_nextTry s of None \<Rightarrow> False | Some t \<Rightarrow> gv_now e < t) then (GrabUnavailable, s)
      else (let s0 = (if gs_lost s then s\<lparr>gs_nextTry := Some (gv_now e + gdiRetryInterval)\<rparr> else s)
            in case probe_check (gv_now e) (gv_readable e) (gs_probe s0) of
                 (readable, p) \<Rightarrow>
                   (let s1 = s0\<lparr>gs_probe := p\<rparr>
                    in if \<not> readable then (GrabUnavailable, s1\<lparr>gs_lost := True\<rparr>)
                       else if (case gs_frame s1 of None \<Rightarrow> True | Some f \<Rightarrow> fst (gv_size e) \<noteq> dib_w f \<or> snd (gv_size e) \<noteq> dib_h f)
                       then (case newDIB (fst (gv_size e)) (snd (gv_size e)) (gv_dib e) of
                               (Inl err, l) \<Rightarrow> (GrabErr err, s1\<lparr>gs_log := gs_log s1 @ l\<rparr>)
                             | (Inr f, l) \<Rightarrow> gdi_copy e (s1\<lparr>gs_frame := Some f, gs_log := gs_log s1 @ l @ dib_close (gs_frame s1)\<rparr>))
                       else gdi_copy e s1)))"

definition gdi_close :: "gdiSource \<Rightarrow> gdiSource" where
  "gdi_close s = s\<lparr>gs_frame := None, gs_log := gs_log s @ dib_close (gs_frame s)\<rparr>"

definition gdi_good :: "gdiSource \<Rightarrow> bool" where
  "gdi_good s \<longleftrightarrow> gs_frame s \<noteq> None \<and> live (gs_log s) {#} = Some (opt_dib (gs_frame s))"

lemma gdi_copy_good: "gdi_good s \<Longrightarrow> gdi_copy e s = (r, s') \<Longrightarrow> gdi_good s'"
  by (auto simp: gdi_copy_def gdi_good_def live_append live_gdi split: prod.splits)

lemma gdi_grab_good:
  assumes "gdi_good s" and "gdi_grab e s = (r, s')"
  shows "gdi_good s'"
proof -
  define s0 where "s0 = (if gs_lost s then s\<lparr>gs_nextTry := Some (gv_now e + gdiRetryInterval)\<rparr> else s)"
  obtain rd p where pc: "probe_check (gv_now e) (gv_readable e) (gs_probe s0) = (rd, p)" by fastforce
  define s1 where "s1 = s0\<lparr>gs_probe := p\<rparr>"
  have g1: "gdi_good s1" "gdi_good (s1\<lparr>gs_lost := True\<rparr>)" using assms(1) by (simp_all add: s1_def s0_def gdi_good_def)
  obtain d l where nd: "newDIB (fst (gv_size e)) (snd (gv_size e)) (gv_dib e) = (d, l)" by fastforce
  note ld = live_newDIB[OF nd]
  have eq: "gdi_grab e s =
    (if gs_lost s \<and> (case gs_nextTry s of None \<Rightarrow> False | Some t \<Rightarrow> gv_now e < t) then (GrabUnavailable, s)
     else if \<not> rd then (GrabUnavailable, s1\<lparr>gs_lost := True\<rparr>)
     else if (case gs_frame s1 of None \<Rightarrow> True | Some f \<Rightarrow> fst (gv_size e) \<noteq> dib_w f \<or> snd (gv_size e) \<noteq> dib_h f)
     then (case d of Inl err \<Rightarrow> (GrabErr err, s1\<lparr>gs_log := gs_log s1 @ l\<rparr>)
           | Inr f \<Rightarrow> gdi_copy e (s1\<lparr>gs_frame := Some f, gs_log := gs_log s1 @ l @ dib_close (gs_frame s1)\<rparr>))
     else gdi_copy e s1)"
    unfolding gdi_grab_def Let_def s0_def[symmetric] pc prod.case s1_def[symmetric] nd by (simp split: sum.split)
  have err: "gdi_good (s1\<lparr>gs_log := gs_log s1 @ l\<rparr>)" if "d = Inl x" for x
    using g1(1) ld that by (simp add: gdi_good_def live_append)
  have fr: "gdi_good (s1\<lparr>gs_frame := Some f, gs_log := gs_log s1 @ l @ dib_close (gs_frame s1)\<rparr>)" if "d = Inr f" for f
    using g1(1) that ld[of "opt_dib (gs_frame s1)"] live_dib_close[of "gs_frame s1" "opt_dib (Some f)"]
    by (simp add: gdi_good_def live_append add.commute)
  show ?thesis
    using assms g1 err fr gdi_copy_good unfolding eq by (auto split: if_split_asm sum.split_asm)
qed

text \<open>The copy too gives everything back.\<close>

lemma gdi_leaks_nothing: "gdi_good s \<Longrightarrow> live (gs_log (gdi_close s)) {#} = Some {#}"
  using live_dib_close[of "gs_frame s" "{#}"] by (simp add: gdi_good_def gdi_close_def live_append)

lemma openGDI_good: "openGDI sz a = (r, s) \<Longrightarrow> (case r of Inl _ \<Rightarrow> live (gs_log s) {#} = Some {#} | Inr _ \<Rightarrow> gdi_good s)"
  by (auto simp: openGDI_def gdi_good_def dest: live_newDIB[where m = "{#}"] split: prod.splits sum.splits)

section \<open>ScreenCaptureKit\<close>

definition displayCheckInterval :: duration where "displayCheckInterval = second"
definition primeWidth :: int where "primeWidth = 320"

record sckSource =
  sc_display :: "int \<times> int \<times> int"
  sc_frame :: "(int \<times> int) option"
  sc_probe :: desktopProbe
  sc_nextDisplayCheck :: "instant option"

datatype stream_grab = NoPicture | StreamErr string | Picture "int \<times> int" bool

record sck_env =
  sv_now :: instant
  sv_readable :: bool
  sv_display :: "(int \<times> int \<times> int) option"
  sv_stream :: stream_grab

definition sck_open :: "bool \<Rightarrow> (int \<times> int \<times> int) option \<Rightarrow> (int \<Rightarrow> int \<Rightarrow> int \<Rightarrow> bool) \<Rightarrow> int \<Rightarrow> (string + sckSource)" where
  "sck_open allowed display stream maxWidth =
     (if \<not> allowed then Inl ''macOS does not let FreeDesk record the screen''
      else (case display of
              None \<Rightarrow> Inl ''no display to capture''
            | Some (d, pw, ph) \<Rightarrow>
                (case OutputSize pw ph maxWidth of
                   (w, h) \<Rightarrow> if stream d w h then Inr \<lparr>sc_display = (d, pw, ph), sc_frame = None,
                                 sc_probe = \<lparr>dp_next = None, dp_readable = False\<rparr>, sc_nextDisplayCheck = None\<rparr>
                             else Inl ''ScreenCaptureKit'')))"

definition sck_stream :: "sck_env \<Rightarrow> sckSource \<Rightarrow> grabbed \<times> sckSource" where
  "sck_stream e s =
     (case sv_stream e of
        NoPicture \<Rightarrow> (GrabUnavailable, s)
      | StreamErr err \<Rightarrow> (GrabErr (CapErr err), s)
      | Picture p changed \<Rightarrow> (GrabOk changed, if changed then s\<lparr>sc_frame := Some p\<rparr> else s))"

definition sck_grab :: "sck_env \<Rightarrow> sckSource \<Rightarrow> grabbed \<times> sckSource" where
  "sck_grab e s =
     (case probe_check (sv_now e) (sv_readable e) (sc_probe s) of
        (readable, p) \<Rightarrow>
          (let s1 = s\<lparr>sc_probe := p\<rparr>
           in if \<not> readable then (GrabUnavailable, s1)
              else if \<not> (case sc_nextDisplayCheck s1 of None \<Rightarrow> False | Some t \<Rightarrow> sv_now e < t)
              then (let s2 = s1\<lparr>sc_nextDisplayCheck := Some (sv_now e + displayCheckInterval)\<rparr>
                    in case sv_display e of
                         None \<Rightarrow> (GrabUnavailable, s2)
                       | Some d \<Rightarrow> if d \<noteq> sc_display s2 then (GrabErr (CapErr ''the main display changed''), s2) else sck_stream e s2)
              else sck_stream e s1))"

text \<open>A display that cannot be read pauses the capture for one tick only: the next one, within the second,
  does not look at the display again.\<close>

lemma sck_pause_is_one_tick:
  assumes "sv_display e1 = None" and "sc_nextDisplayCheck s = None" and "sck_grab e1 s = (r1, s1)"
    and "sv_readable e1" and "dp_next (sc_probe s) = None"
    and "sv_now e1 \<le> sv_now e2" and "sv_now e2 < sv_now e1 + 250 * millisecond" and "sv_stream e2 = Picture p c"
  shows "r1 = GrabUnavailable \<and> fst (sck_grab e2 s1) = GrabOk c"
  using assms by (auto simp: sck_grab_def probe_check_def Let_def sck_stream_def displayCheckInterval_def
      desktopProbeInterval_def time_units split: if_splits)

end
