(* ===== verification/Peer.thy ===== *)
theory Peer
  imports Signaling Strconv "HOL-Library.Word" "HOL-Library.List_Lexorder" "HOL-Library.Char_ord"
begin

unbundle bit_operations_syntax

text \<open>
  Package \<open>webrtc\<close> (\<open>connect.go\<close>, \<open>udpmux.go\<close>, \<open>localnet_darwin.go\<close>): a peer connection between being built
  and being negotiated. What pion and the transport answer are arguments; what the code asks of them
  is the peer's log. The gathering of candidates, the remote candidates and the end of the context come
  in between the negotiation's calls in any order.
\<close>

section \<open>Labels, servers and statistics\<close>

definition InputChannelLabel :: string where "InputChannelLabel = ''input''"
definition FileChannelLabel :: string where "FileChannelLabel = ''file''"
definition hostChannelLabels :: "string list" where "hostChannelLabels = [FileChannelLabel, InputChannelLabel]"

definition DefaultICEServers :: "string list" where
  "DefaultICEServers = [''stun:stun.l.google.com:19302'', ''stun:stun1.l.google.com:19302'']"

definition toICEServers :: "string list \<Rightarrow> string list list" where
  "toICEServers urls = (if urls = [] then [] else [urls])"

fun type_after :: "string list \<Rightarrow> string" where
  "type_after (x # y # r) = (if x = ''typ'' then y else type_after (y # r))"
| "type_after _ = ''unknown''"

definition candidateType :: "string \<Rightarrow> string" where
  "candidateType candidate =
     (let fields = go_fields candidate; typ = type_after fields
      in if typ = ''host'' \<and> 4 < length fields \<and> has_suffix (fields ! 4) ''.local'' then ''mdns'' else typ)"

type_synonym counts = "(string \<times> nat) list"

fun note_candidate :: "string \<Rightarrow> counts \<Rightarrow> counts" where
  "note_candidate t [] = [(t, 1)]"
| "note_candidate t ((u, n) # c) = (if u = t then (u, Suc n) # c else (u, n) # note_candidate t c)"

definition describe :: "counts \<Rightarrow> string" where
  "describe c =
     (if c = [] then ''none''
      else join_with '' '' (map (\<lambda>t. t @ ''='' @ dec_nat (the (map_of c t))) (sort (map fst c))))"

section \<open>The peer\<close>

datatype peer_action =
    PubDescription Description
  | PubCandidate ICECandidate
  | PcClose
  | AddTrack nat
  | CreateChannel string
  | CreateOffer
  | SetLocal Description
  | SetRemote Description
  | CreateAnswer
  | AddRemote ICECandidate

text \<open>Where \<open>Negotiate\<close> is: the call it makes next, the wait for the connection, or what it returned.\<close>

datatype neg_at =
    NotNegotiating
  | NPublish Description
  | NStart
  | NAwait
  | NSetRemote Description
  | NAnswer
  | NSetLocal Description
  | NRemoteCandidates
  | NWait
  | NReturned bool

record peer =
  pe_role :: Role
  pe_publish :: bool
  pe_pending :: "ICECandidate list"
  pe_offer :: "Description option"
  pe_connected :: bool
  pe_failed :: bool
  pe_closed :: bool
  pe_done :: bool
  pe_local :: counts
  pe_remote :: counts
  pe_reading :: bool
  pe_neg :: neg_at
  pe_log :: "peer_action list"

definition new_peer :: "Role \<Rightarrow> peer" where
  "new_peer r = \<lparr>pe_role = r, pe_publish = False, pe_pending = [], pe_offer = None, pe_connected = False, pe_failed = False,
     pe_closed = False, pe_done = False, pe_local = [], pe_remote = [], pe_reading = False, pe_neg = NotNegotiating, pe_log = []\<rparr>"

definition pe_do :: "peer_action list \<Rightarrow> peer \<Rightarrow> peer" where
  "pe_do acts p = p\<lparr>pe_log := pe_log p @ acts\<rparr>"

definition peer_close :: "peer \<Rightarrow> peer" where
  "peer_close p = (if pe_closed p then p else pe_do [PcClose] (p\<lparr>pe_closed := True\<rparr>))"

section \<open>Prepare\<close>

fun add_tracks :: "nat \<Rightarrow> bool list \<Rightarrow> peer \<Rightarrow> bool \<times> peer" where
  "add_tracks k [] p = (True, p)"
| "add_tracks k (ok # oks) p = (if ok then add_tracks (Suc k) oks (pe_do [AddTrack k] p) else (False, peer_close (pe_do [AddTrack k] p)))"

fun create_channels :: "(string \<times> bool) list \<Rightarrow> peer \<Rightarrow> bool \<times> peer" where
  "create_channels [] p = (True, p)"
| "create_channels ((l, ok) # ls) p =
     (if ok then create_channels ls (pe_do [CreateChannel l] p) else (False, peer_close (pe_do [CreateChannel l] p)))"

text \<open>What pion answers: whether each track and each channel is made, the offer, and whether it is set.\<close>

record prepare_env =
  pv_new :: bool
  pv_tracks :: "bool list"
  pv_channels :: "bool \<times> bool"
  pv_offer :: "Description option"
  pv_local :: bool

definition prepare_offer :: "prepare_env \<Rightarrow> peer \<Rightarrow> bool \<times> peer" where
  "prepare_offer e p =
     (case pv_offer e of
        None \<Rightarrow> (False, peer_close (pe_do [CreateOffer] p))
      | Some d \<Rightarrow>
          (let p1 = pe_do [CreateOffer, SetLocal d] p
           in if pv_local e then (True, p1\<lparr>pe_offer := Some d\<rparr>) else (False, peer_close p1)))"

definition Prepare :: "Role \<Rightarrow> prepare_env \<Rightarrow> bool \<times> peer option" where
  "Prepare role e =
     (if \<not> pv_new e then (False, None)
      else (case add_tracks 0 (pv_tracks e) (new_peer role) of
              (False, p) \<Rightarrow> (False, Some p)
            | (True, p) \<Rightarrow>
                if role = Viewer then (True, Some p)
                else (case create_channels (zip hostChannelLabels [fst (pv_channels e), snd (pv_channels e)]) p of
                        (False, p1) \<Rightarrow> (False, Some p1)
                      | (True, p1) \<Rightarrow> (case prepare_offer e p1 of (ok, p2) \<Rightarrow> (ok, Some p2)))))"

section \<open>Candidates and publishing\<close>

definition peer_candidate :: "ICECandidate \<Rightarrow> peer \<Rightarrow> peer" where
  "peer_candidate c p =
     (let p1 = p\<lparr>pe_local := note_candidate (candidateType (ic_Candidate c)) (pe_local p)\<rparr>
      in if \<not> pe_publish p1 then p1\<lparr>pe_pending := pe_pending p1 @ [c]\<rparr> else pe_do [PubCandidate c] p1)"

definition startPublishing :: "peer \<Rightarrow> peer" where
  "startPublishing p = pe_do (map PubCandidate (pe_pending p)) (p\<lparr>pe_publish := True, pe_pending := []\<rparr>)"

section \<open>Negotiate\<close>

datatype pc_state = PcConnected | PcFailed | PcOther

datatype wake = WokenConnected | WokenFailed | WokenDone

text \<open>What happens to a peer: a candidate gathered, a change of the connection's state, the call that
  \<open>Negotiate\<close> makes next succeeding (with what it gives) or failing, its wait being woken by one of what it
  waits for, a remote candidate, the reader of these stopping, the end of the context, \<open>Close\<close>.\<close>

datatype peer_event =
    Gathered ICECandidate
  | StateChange pc_state
  | Negotiate
  | CallOk Description
  | CallFails
  | Woken wake
  | RemoteCandidate ICECandidate
  | ReaderStops
  | CtxDone
  | Close

definition fail_negotiate :: "peer \<Rightarrow> peer" where
  "fail_negotiate p = (peer_close p)\<lparr>pe_neg := NReturned False\<rparr>"

definition begin_negotiate :: "peer \<Rightarrow> peer" where
  "begin_negotiate p = p\<lparr>pe_neg := (if pe_role p = Host then (case pe_offer p of Some d \<Rightarrow> NPublish d | None \<Rightarrow> NReturned False) else NAwait)\<rparr>"

text \<open>The next call succeeds with \<open>d\<close>, where it gives a description.\<close>

definition negotiate_call :: "Description \<Rightarrow> peer \<Rightarrow> peer" where
  "negotiate_call d p =
     (case pe_neg p of
        NPublish o' \<Rightarrow> (pe_do [PubDescription o'] p)\<lparr>pe_neg := NStart\<rparr>
      | NStart \<Rightarrow> (startPublishing p)\<lparr>pe_neg := (if pe_role p = Host then NAwait else NRemoteCandidates)\<rparr>
      | NAwait \<Rightarrow> p\<lparr>pe_neg := NSetRemote d\<rparr>
      | NSetRemote r \<Rightarrow> (pe_do [SetRemote r] p)\<lparr>pe_neg := (if pe_role p = Host then NRemoteCandidates else NAnswer)\<rparr>
      | NAnswer \<Rightarrow> (pe_do [CreateAnswer] p)\<lparr>pe_neg := NSetLocal d\<rparr>
      | NSetLocal a \<Rightarrow> (pe_do [SetLocal a] p)\<lparr>pe_neg := NPublish a\<rparr>
      | NRemoteCandidates \<Rightarrow> p\<lparr>pe_neg := NWait, pe_reading := True\<rparr>
      | _ \<Rightarrow> p)"

definition negotiate_fails :: "peer \<Rightarrow> peer" where
  "negotiate_fails p =
     (case pe_neg p of
        NPublish _ \<Rightarrow> fail_negotiate p
      | NAwait \<Rightarrow> fail_negotiate p
      | NSetRemote r \<Rightarrow> fail_negotiate (pe_do [SetRemote r] p)
      | NAnswer \<Rightarrow> fail_negotiate (pe_do [CreateAnswer] p)
      | NSetLocal a \<Rightarrow> fail_negotiate (pe_do [SetLocal a] p)
      | NRemoteCandidates \<Rightarrow> p\<lparr>pe_neg := NWait\<rparr>
      | _ \<Rightarrow> p)"

definition negotiate_wakes :: "wake \<Rightarrow> peer \<Rightarrow> peer" where
  "negotiate_wakes w p =
     (if pe_neg p \<noteq> NWait then p
      else (case w of
              WokenConnected \<Rightarrow> if pe_connected p then p\<lparr>pe_neg := NReturned True\<rparr> else p
            | WokenFailed \<Rightarrow> if pe_failed p then fail_negotiate (p\<lparr>pe_failed := False\<rparr>) else p
            | WokenDone \<Rightarrow> if pe_done p then fail_negotiate p else p))"

fun state_change :: "pc_state \<Rightarrow> peer \<Rightarrow> peer" where
  "state_change PcConnected p = p\<lparr>pe_connected := True\<rparr>"
| "state_change PcFailed p = p\<lparr>pe_failed := True\<rparr>"
| "state_change PcOther p = p"

definition remote_candidate :: "ICECandidate \<Rightarrow> peer \<Rightarrow> peer" where
  "remote_candidate c p =
     (if pe_reading p then pe_do [AddRemote c] (p\<lparr>pe_remote := note_candidate (candidateType (ic_Candidate c)) (pe_remote p)\<rparr>) else p)"

fun peer_step :: "peer_event \<Rightarrow> peer \<Rightarrow> peer" where
  "peer_step (Gathered c) p = peer_candidate c p"
| "peer_step (StateChange s) p = state_change s p"
| "peer_step Negotiate p = (if pe_neg p = NotNegotiating then begin_negotiate p else p)"
| "peer_step (CallOk d) p = negotiate_call d p"
| "peer_step CallFails p = negotiate_fails p"
| "peer_step (Woken w) p = negotiate_wakes w p"
| "peer_step (RemoteCandidate c) p = remote_candidate c p"
| "peer_step ReaderStops p = p\<lparr>pe_reading := False\<rparr>"
| "peer_step CtxDone p = p\<lparr>pe_done := True\<rparr>"
| "peer_step Close p = peer_close p"

definition peer_run :: "peer_event list \<Rightarrow> peer \<Rightarrow> peer" where
  "peer_run evs p = fold peer_step evs p"

section \<open>Candidates follow the description\<close>

text \<open>In a log, no candidate is published before a description is.\<close>

fun cands_follow :: "bool \<Rightarrow> peer_action list \<Rightarrow> bool" where
  "cands_follow seen [] = True"
| "cands_follow seen (a # as) =
     (case a of PubDescription _ \<Rightarrow> cands_follow True as | PubCandidate _ \<Rightarrow> seen \<and> cands_follow seen as | _ \<Rightarrow> cands_follow seen as)"

definition described :: "peer_action list \<Rightarrow> bool" where
  "described l \<longleftrightarrow> (\<exists>d. PubDescription d \<in> set l)"

fun pub_cands :: "peer_action list \<Rightarrow> ICECandidate list" where
  "pub_cands [] = []"
| "pub_cands (a # as) = (case a of PubCandidate c \<Rightarrow> c # pub_cands as | _ \<Rightarrow> pub_cands as)"

fun gathered :: "peer_event list \<Rightarrow> ICECandidate list" where
  "gathered [] = []"
| "gathered (e # es) = (case e of Gathered c \<Rightarrow> c # gathered es | _ \<Rightarrow> gathered es)"

lemma described_simps [simp]: "\<not> described []" "described (a # as) \<longleftrightarrow> (\<exists>d. a = PubDescription d) \<or> described as"
  by (auto simp: described_def)

lemma described_map [simp]: "\<not> described (map PubCandidate cs)"
  by (induction cs) auto

lemma no_close_map [simp]: "count_list (map PubCandidate cs) PcClose = 0"
  by (induction cs) auto

lemma cands_follow_append: "cands_follow seen (xs @ ys) \<longleftrightarrow> cands_follow seen xs \<and> cands_follow (seen \<or> described xs) ys"
proof (induction seen xs rule: cands_follow.induct)
  case (2 seen a as)
  then show ?case by (cases a) simp_all
qed simp

lemma pub_cands_append [simp]: "pub_cands (xs @ ys) = pub_cands xs @ pub_cands ys"
  by (induction xs) (auto split: peer_action.splits)

lemma pub_cands_map [simp]: "pub_cands (map PubCandidate cs) = cs"
  by (induction cs) auto

lemma cands_follow_map: "cands_follow True (map PubCandidate cs)"
  by (induction cs) auto

lemma gathered_append [simp]: "gathered (xs @ ys) = gathered xs @ gathered ys"
  by (induction xs) (auto split: peer_event.splits)

lemma described_append [simp]: "described (xs @ ys) \<longleftrightarrow> described xs \<or> described ys"
  by (auto simp: described_def)

text \<open>Where a description must have been published already, and where the host cannot be.\<close>

definition after_description :: "neg_at \<Rightarrow> Role \<Rightarrow> bool" where
  "after_description n r \<longleftrightarrow> (case n of NStart \<Rightarrow> True | NRemoteCandidates \<Rightarrow> True | NWait \<Rightarrow> True
     | NAwait \<Rightarrow> r = Host | NSetRemote _ \<Rightarrow> r = Host | NAnswer \<Rightarrow> r = Host | NSetLocal _ \<Rightarrow> r = Host | _ \<Rightarrow> False)"

definition peer_inv :: "peer \<Rightarrow> ICECandidate list \<Rightarrow> bool" where
  "peer_inv p g \<longleftrightarrow> cands_follow False (pe_log p) \<and> pub_cands (pe_log p) @ pe_pending p = g
     \<and> (pe_publish p \<longrightarrow> described (pe_log p) \<and> pe_pending p = [])
     \<and> (after_description (pe_neg p) (pe_role p) \<longrightarrow> described (pe_log p))
     \<and> count_list (pe_log p) PcClose = (if pe_closed p then 1 else 0)
     \<and> (pe_neg p = NReturned False \<longrightarrow> pe_closed p)
     \<and> (pe_role p = Host \<longrightarrow> pe_offer p \<noteq> None)"

lemmas peer_step_defs = pe_do_def peer_candidate_def startPublishing_def peer_close_def fail_negotiate_def begin_negotiate_def
  remote_candidate_def Let_def

text \<open>An action other than a candidate or a close changes nothing of the invariant.\<close>

lemma peer_inv_do:
  assumes "peer_inv p g" and "\<And>c. a \<noteq> PubCandidate c" and "a \<noteq> PcClose"
    and "after_description n (pe_role p) \<longrightarrow> after_description (pe_neg p) (pe_role p) \<or> (\<exists>d. a = PubDescription d)"
    and "n \<noteq> NReturned False"
  shows "peer_inv ((pe_do [a] p)\<lparr>pe_neg := n\<rparr>) g"
proof -
  have "pub_cands [a] = []" "cands_follow b [a]" for b using assms(2) by (cases a; simp)+
  with assms show ?thesis by (auto simp: peer_inv_def pe_do_def cands_follow_append)
qed

lemma peer_inv_neg:
  "peer_inv p g \<Longrightarrow> after_description n (pe_role p) \<longrightarrow> after_description (pe_neg p) (pe_role p) \<Longrightarrow> n \<noteq> NReturned False \<Longrightarrow>
   peer_inv (p\<lparr>pe_neg := n\<rparr>) g"
  by (simp add: peer_inv_def)

lemma peer_inv_close: "peer_inv p g \<Longrightarrow> peer_inv (peer_close p) g"
  by (simp add: peer_inv_def peer_close_def pe_do_def cands_follow_append)

lemma peer_inv_fail: "peer_inv p g \<Longrightarrow> peer_inv (fail_negotiate p) g"
  using peer_inv_close[of p g] by (auto simp: peer_inv_def fail_negotiate_def peer_close_def pe_do_def after_description_def)

lemma peer_inv_fail_do:
  "peer_inv p g \<Longrightarrow> (\<And>c. a \<noteq> PubCandidate c) \<Longrightarrow> a \<noteq> PcClose \<Longrightarrow> pe_neg p \<noteq> NReturned False \<Longrightarrow> peer_inv (fail_negotiate (pe_do [a] p)) g"
  using peer_inv_do[of p g a "pe_neg p"] by (intro peer_inv_fail) (simp add: pe_do_def)

lemma peer_inv_start:
  assumes "peer_inv p g" and "pe_neg p = NStart" and "n = NAwait \<or> n = NRemoteCandidates"
  shows "peer_inv ((startPublishing p)\<lparr>pe_neg := n\<rparr>) g"
  using assms by (auto simp: peer_inv_def startPublishing_def pe_do_def cands_follow_append cands_follow_map after_description_def)

lemma negotiate_call_inv: "peer_inv p g \<Longrightarrow> peer_inv (negotiate_call d p) g"
proof (cases "pe_neg p")
  case NStart
  assume "peer_inv p g"
  with NStart show ?thesis by (simp add: negotiate_call_def peer_inv_start)
next
  case NRemoteCandidates
  assume "peer_inv p g"
  with NRemoteCandidates show ?thesis by (simp add: negotiate_call_def peer_inv_def after_description_def)
next
  case NAwait
  assume "peer_inv p g"
  with NAwait show ?thesis by (simp add: negotiate_call_def peer_inv_neg after_description_def)
qed (auto simp: negotiate_call_def after_description_def intro!: peer_inv_do)

lemma negotiate_fails_inv: "peer_inv p g \<Longrightarrow> peer_inv (negotiate_fails p) g"
  by (cases "pe_neg p") (simp_all add: negotiate_fails_def after_description_def peer_inv_fail peer_inv_fail_do peer_inv_neg)

lemma negotiate_wakes_inv: "peer_inv p g \<Longrightarrow> peer_inv (negotiate_wakes w p) g"
proof (cases w)
  case WokenFailed
  assume "peer_inv p g"
  then have "peer_inv (p\<lparr>pe_failed := False\<rparr>) g" by (simp add: peer_inv_def)
  with \<open>peer_inv p g\<close> WokenFailed show ?thesis by (simp add: negotiate_wakes_def peer_inv_fail)
qed (auto simp: negotiate_wakes_def after_description_def intro: peer_inv_fail peer_inv_neg)

lemma candidate_inv: "peer_inv p g \<Longrightarrow> peer_inv (peer_candidate c p) (g @ [c])"
  by (auto simp: peer_inv_def peer_candidate_def pe_do_def Let_def cands_follow_append)

lemma begin_negotiate_inv: "peer_inv p g \<Longrightarrow> pe_neg p = NotNegotiating \<Longrightarrow> peer_inv (begin_negotiate p) g"
  by (auto simp: begin_negotiate_def peer_inv_def after_description_def split: option.splits; cases "pe_role p"; simp)

lemma remote_candidate_inv: "peer_inv p g \<Longrightarrow> peer_inv (remote_candidate c p) g"
  by (simp add: remote_candidate_def peer_inv_def pe_do_def cands_follow_append)

lemma peer_step_inv: "peer_inv p g \<Longrightarrow> peer_inv (peer_step e p) (g @ gathered [e])"
proof (cases e)
  case (StateChange s)
  assume "peer_inv p g"
  with StateChange show ?thesis by (cases s) (simp_all add: peer_inv_def)
qed (simp_all add: candidate_inv negotiate_call_inv negotiate_fails_inv negotiate_wakes_inv begin_negotiate_inv
    remote_candidate_inv peer_inv_close peer_inv_def[of "_\<lparr>pe_reading := _\<rparr>"] peer_inv_def[of "_\<lparr>pe_done := _\<rparr>"] peer_inv_def[of p])

lemma peer_run_inv: "peer_inv p g \<Longrightarrow> peer_inv (peer_run evs p) (g @ gathered evs)"
proof (induction evs arbitrary: p g)
  case (Cons e evs)
  have "gathered (e # evs) = gathered [e] @ gathered evs" using gathered_append[of "[e]" evs] by simp
  with Cons.IH[OF peer_step_inv[OF Cons.prems]] show ?case by (simp add: peer_run_def del: gathered.simps peer_step.simps)
qed (simp add: peer_run_def)

section \<open>What Prepare leaves\<close>

text \<open>While a peer is prepared its log has no candidate, no description and at most one close.\<close>

definition prepping :: "peer \<Rightarrow> bool" where
  "prepping p \<longleftrightarrow> pub_cands (pe_log p) = [] \<and> cands_follow False (pe_log p) \<and> count_list (pe_log p) PcClose = (if pe_closed p then 1 else 0)
     \<and> pe_pending p = [] \<and> \<not> pe_publish p \<and> pe_neg p = NotNegotiating"

lemma prepping_do: "prepping p \<Longrightarrow> (\<And>c. a \<noteq> PubCandidate c) \<Longrightarrow> a \<noteq> PcClose \<Longrightarrow> prepping (pe_do [a] p)"
proof -
  assume a: "prepping p" "\<And>c. a \<noteq> PubCandidate c" "a \<noteq> PcClose"
  then have "pub_cands [a] = []" "cands_follow b [a]" for b by (cases a; simp)+
  with a show ?thesis by (simp add: prepping_def pe_do_def cands_follow_append)
qed

lemma prepping_close: "prepping p \<Longrightarrow> prepping (peer_close p) \<and> pe_closed (peer_close p)"
  by (simp add: prepping_def peer_close_def pe_do_def cands_follow_append)

lemma pe_do_sel [simp]: "pe_role (pe_do l p) = pe_role p" "pe_closed (pe_do l p) = pe_closed p" "pe_offer (pe_do l p) = pe_offer p"
  "pe_log (pe_do l p) = pe_log p @ l"
  by (simp_all add: pe_do_def)

lemma peer_close_role [simp]: "pe_role (peer_close p) = pe_role p"
  by (simp add: peer_close_def)

lemma add_tracks_prepping:
  "prepping p \<Longrightarrow> \<not> pe_closed p \<Longrightarrow> add_tracks k oks p = (ok, p') \<Longrightarrow>
   prepping p' \<and> pe_role p' = pe_role p \<and> pe_closed p' = (\<not> ok) \<and> (ok \<longrightarrow> pe_log p' = pe_log p @ map AddTrack [k..<k + length oks])"
proof (induction k oks p rule: add_tracks.induct)
  case (2 k ok1 oks p)
  have d: "prepping (pe_do [AddTrack k] p)" using 2(2) by (rule prepping_do) simp_all
  have "map AddTrack [k..<k + length (ok1 # oks)] = AddTrack k # map AddTrack [Suc k..<Suc k + length oks]"
    by (simp add: upt_conv_Cons del: upt_Suc)
  note m = this
  show ?case
  proof (cases ok1)
    case True
    from 2(1)[OF True d] 2(3,4) True
    have "prepping p' \<and> pe_role p' = pe_role p \<and> pe_closed p' = (\<not> ok)
        \<and> (ok \<longrightarrow> pe_log p' = (pe_log p @ [AddTrack k]) @ map AddTrack [Suc k..<Suc k + length oks])"
      by (simp del: upt_Suc)
    then show ?thesis unfolding m by (simp del: upt_Suc)
  next
    case False
    with 2(4) prepping_close[OF d] show ?thesis by (auto simp del: upt_Suc)
  qed
qed simp

lemma create_channels_prepping:
  "prepping p \<Longrightarrow> \<not> pe_closed p \<Longrightarrow> create_channels ls p = (ok, p') \<Longrightarrow>
   prepping p' \<and> pe_role p' = pe_role p \<and> pe_closed p' = (\<not> ok) \<and> (ok \<longrightarrow> pe_log p' = pe_log p @ map CreateChannel (map fst ls))"
proof (induction ls p rule: create_channels.induct)
  case (2 l ok1 ls p)
  have d: "prepping (pe_do [CreateChannel l] p)" using 2(2) by (rule prepping_do) simp_all
  with 2 prepping_close[OF d] show ?case by (auto split: if_splits)
qed simp

lemma prepare_offer_prepping:
  assumes "prepping p" and "\<not> pe_closed p" and "prepare_offer e p = (ok, p')"
  shows "prepping p' \<and> pe_role p' = pe_role p \<and> pe_closed p' = (\<not> ok)
     \<and> (ok \<longrightarrow> (\<exists>d. pe_offer p' = Some d \<and> pe_log p' = pe_log p @ [CreateOffer, SetLocal d]))"
proof (cases "pv_offer e")
  case None
  have "prepping (pe_do [CreateOffer] p)" using assms(1) by (rule prepping_do) simp_all
  from prepping_close[OF this] None assms show ?thesis by (auto simp: prepare_offer_def)
next
  case (Some d)
  have "pe_do [CreateOffer, SetLocal d] p = pe_do [SetLocal d] (pe_do [CreateOffer] p)" by (simp add: pe_do_def)
  then have "prepping (pe_do [CreateOffer, SetLocal d] p)" using assms(1) by (simp add: prepping_do)
  with prepping_close[OF this] Some assms show ?thesis
    by (auto simp: prepare_offer_def Let_def prepping_def split: if_splits)
qed

lemma Prepare_ready:
  assumes "Prepare r e = (ok, Some p)"
  shows "prepping p \<and> pe_role p = r \<and> pe_closed p = (\<not> ok)
     \<and> (ok \<and> r = Host \<longrightarrow> (\<exists>d. pe_offer p = Some d \<and>
          pe_log p = map AddTrack [0..<length (pv_tracks e)] @ map CreateChannel [''file'', ''input''] @ [CreateOffer, SetLocal d]))"
proof -
  obtain ok1 p1 where t: "add_tracks 0 (pv_tracks e) (new_peer r) = (ok1, p1)" by fastforce
  have n: "prepping (new_peer r)" "\<not> pe_closed (new_peer r)" "pe_role (new_peer r) = r" "pe_log (new_peer r) = []"
    by (simp_all add: prepping_def new_peer_def)
  note a = add_tracks_prepping[OF n(1,2) t]
  show ?thesis
  proof (cases "ok1 \<and> r = Host")
    case False
    with assms t a n show ?thesis by (cases ok1; cases r) (auto simp: Prepare_def split: if_splits)
  next
    case True
    obtain ok2 p2 where c: "create_channels (zip hostChannelLabels [fst (pv_channels e), snd (pv_channels e)]) p1 = (ok2, p2)" by fastforce
    have "prepping p1" "\<not> pe_closed p1" using a True by auto
    note b = create_channels_prepping[OF this c]
    show ?thesis
    proof (cases ok2)
      case False
      with assms t a b n c True show ?thesis by (auto simp: Prepare_def split: if_splits)
    next
      case ok2: True
      obtain ok3 p3 where o: "prepare_offer e p2 = (ok3, p3)" by fastforce
      have "prepping p2" "\<not> pe_closed p2" using b ok2 by auto
      from prepare_offer_prepping[OF this o] assms t a b n c o True ok2 show ?thesis
        by (auto simp: Prepare_def hostChannelLabels_def FileChannelLabel_def InputChannelLabel_def split: if_splits)
    qed
  qed
qed

lemma Prepare_inv: "Prepare r e = (True, Some p) \<Longrightarrow> peer_inv p []"
  by (drule Prepare_ready) (cases r; auto simp: peer_inv_def prepping_def after_description_def)

section \<open>Guarantees\<close>


text \<open>A peer connection is closed at most once whatever fails and whoever closes it, and a failed
  preparation or negotiation always closes it.\<close>

theorem peer_closed_once:
  assumes "Prepare r e = (ok, Some p)" and "q = peer_run evs p"
  shows "(ok \<longrightarrow> count_list (pe_log q) PcClose = (if pe_closed q then 1 else 0) \<and> (pe_neg q = NReturned False \<longrightarrow> pe_closed q))
     \<and> (\<not> ok \<longrightarrow> pe_closed p \<and> count_list (pe_log p) PcClose = 1)"
proof (cases ok)
  case True
  with assms(1) have "peer_inv q (gathered evs)" using peer_run_inv[OF Prepare_inv, of r e p evs] assms(2) by simp
  with True show ?thesis by (simp add: peer_inv_def)
next
  case False
  with Prepare_ready[OF assms(1)] show ?thesis by (simp add: prepping_def)
qed

definition ex_desc :: "string \<Rightarrow> Description" where
  "ex_desc t = \<lparr>de_Type = t, de_SDP = ''v=0''\<rparr>"

definition ex_cand :: ICECandidate where
  "ex_cand = \<lparr>ic_Candidate = ''candidate:1 1 udp 1 10.0.0.1 5000 typ host'', ic_SDPMid = None, ic_SDPMLineIndex = None, ic_UsernameFragment = None\<rparr>"

definition ex_prepare :: prepare_env where
  "ex_prepare = \<lparr>pv_new = True, pv_tracks = [True], pv_channels = (True, True), pv_offer = Some (ex_desc ''offer''), pv_local = True\<rparr>"

definition ex_peer :: peer where
  "ex_peer = the (snd (Prepare Host ex_prepare))"

lemma ex_peer: "Prepare Host ex_prepare = (True, Some ex_peer)"
  by (simp add: ex_peer_def Prepare_def ex_prepare_def hostChannelLabels_def prepare_offer_def Let_def)


lemma peer_close_closed [simp]: "pe_closed (peer_close p)"
  by (simp add: peer_close_def)

lemma peer_closed_once_witness:
  "count_list (pe_log (peer_run [Negotiate, CallFails, Close, Close] ex_peer)) PcClose = 1"
proof -
  have "pe_closed (peer_run [Negotiate, CallFails, Close, Close] ex_peer)" by (simp add: peer_run_def)
  with peer_closed_once[OF ex_peer refl, of "[Negotiate, CallFails, Close, Close]"] show ?thesis by simp
qed

text \<open>The host makes both channels of the session, the input channel last, before the offer, and offers nothing
  that is not its local description.\<close>

lemma host_channels_before_offer:
  "Prepare Host e = (True, Some p) \<Longrightarrow>
   \<exists>d. pe_offer p = Some d \<and>
     pe_log p = map AddTrack [0..<length (pv_tracks e)] @ map CreateChannel [''file'', ''input''] @ [CreateOffer, SetLocal d]"
  by (drule Prepare_ready) simp

text \<open>Once the connection is up, has failed or the context is done, the wait can end.\<close>

lemma negotiate_returns:
  assumes "pe_neg p = NWait" and "pe_connected p \<or> pe_failed p \<or> pe_done p"
  shows "\<exists>w ok. pe_neg (peer_step (Woken w) p) = NReturned ok"
proof -
  consider "pe_connected p" | "pe_failed p" | "pe_done p" using assms(2) by blast
  then show ?thesis
  proof cases
    case 1 with assms(1) show ?thesis by (intro exI[of _ WokenConnected] exI[of _ True]) (simp add: negotiate_wakes_def)
  next
    case 2 with assms(1) show ?thesis by (intro exI[of _ WokenFailed] exI[of _ False]) (simp add: negotiate_wakes_def fail_negotiate_def)
  next
    case 3 with assms(1) show ?thesis by (intro exI[of _ WokenDone] exI[of _ False]) (simp add: negotiate_wakes_def fail_negotiate_def)
  qed
qed

section \<open>Keyframe requests from the viewer\<close>

text \<open>\<open>drainSenderRTCP\<close>: the packets of each successful read; a read that fails ends it.\<close>

datatype rtcp_packet = PictureLossIndication | FullIntraRequest | OtherPacket

fun pli_count :: "rtcp_packet list \<Rightarrow> nat" where
  "pli_count [] = 0"
| "pli_count (p # ps) = (case p of OtherPacket \<Rightarrow> pli_count ps | _ \<Rightarrow> Suc (pli_count ps))"

fun drainSenderRTCP :: "bool \<Rightarrow> rtcp_packet list option list \<Rightarrow> nat" where
  "drainSenderRTCP onPLI [] = 0"
| "drainSenderRTCP onPLI (None # r) = 0"
| "drainSenderRTCP onPLI (Some ps # r) = (if onPLI then pli_count ps else 0) + drainSenderRTCP onPLI r"

section \<open>The UDP socket and the local network\<close>

text \<open>\<open>ListenUDP\<close>: \<open>listen\<close> is the system's answer for a port, the port the socket got.\<close>

definition ListenUDP :: "(int \<Rightarrow> int option) \<Rightarrow> int \<Rightarrow> int option" where
  "ListenUDP listen port =
     (case listen port of
        Some p \<Rightarrow> Some p
      | None \<Rightarrow> if port \<noteq> 0 then listen 0 else None)"

definition random_host :: "8 word list \<Rightarrow> 8 word list \<Rightarrow> 8 word list \<Rightarrow> 8 word list" where
  "random_host ip nmask rnd = map (\<lambda>(i, m, r). (i AND m) OR (r AND NOT m)) (zip ip (zip nmask rnd))"

definition connectRandomHost :: "8 word list \<Rightarrow> 8 word list \<Rightarrow> 8 word list option \<Rightarrow> 8 word list option" where
  "connectRandomHost ip nmask rnd =
     (if length nmask \<noteq> length ip then None
      else (case rnd of None \<Rightarrow> None | Some r \<Rightarrow> Some (random_host ip nmask r)))"

record net_addr =
  na_ip4 :: "8 word list option"
  na_ip16 :: "8 word list"
  na_link_local :: bool
  na_mask :: "8 word list"

record net_iface =
  ni_up :: bool
  ni_broadcast :: bool
  ni_name :: string
  ni_addrs :: "net_addr option list option"

text \<open>What \<open>AskLocalNetwork\<close> connects to: the network, the address it starts from, the mask and the zone.\<close>

type_synonym ask_target = "string \<times> 8 word list \<times> 8 word list \<times> string"

definition addr_target :: "string \<Rightarrow> net_addr option \<Rightarrow> ask_target list" where
  "addr_target name a =
     (case a of
        None \<Rightarrow> []
      | Some x \<Rightarrow> (case na_ip4 x of
                     Some ip \<Rightarrow> [(''udp4'', ip, na_mask x, [])]
                   | None \<Rightarrow> if na_link_local x then [(''udp6'', na_ip16 x, na_mask x, name)] else []))"

definition iface_targets :: "net_iface \<Rightarrow> ask_target list" where
  "iface_targets i =
     (if \<not> ni_up i \<or> \<not> ni_broadcast i then []
      else (case ni_addrs i of None \<Rightarrow> [] | Some as \<Rightarrow> concat (map (addr_target (ni_name i)) as)))"

definition AskLocalNetwork :: "net_iface list option \<Rightarrow> ask_target list" where
  "AskLocalNetwork ifaces = (case ifaces of None \<Rightarrow> [] | Some is \<Rightarrow> concat (map iface_targets is))"

text \<open>The host that is made up is on the network of the address it was made from.\<close>

lemma random_host_on_network:
  assumes "length nmask = length ip" and "length rnd = length ip" and "k < length ip"
  shows "(random_host ip nmask rnd ! k) AND (nmask ! k) = (ip ! k) AND (nmask ! k)"
proof -
  have "((a AND m) OR (r AND NOT m)) AND m = a AND m" for a m r :: "8 word"
    by (rule bit_eqI) (auto simp: bit_simps)
  then show ?thesis using assms by (simp add: random_host_def)
qed

end
