(* ===== verification/Config.thy ===== *)
theory Config
  imports Strconv Clipboard
begin

text \<open>
  Package \<open>config\<close> (\<open>config.go\<close>, \<open>hostname.go\<close>) and where its settings file is and the program runs from
  (\<open>cmd/host/envfile.go\<close>, \<open>place.go\<close>). The process environment is a list of variables, the newest first;
  Windows does not tell upper from lower case in their names. The theory shows what a configuration that
  loads can hold, that the environment beats the file, and which browser origins are let in.
\<close>

section \<open>The environment\<close>

type_synonym environ = "(string \<times> string) list"

record platform =
  pl_windows :: bool
  pl_darwin :: bool

definition env_key :: "platform \<Rightarrow> string \<Rightarrow> string" where
  "env_key pl k = (if pl_windows pl then to_upper k else k)"

definition lookup_env :: "platform \<Rightarrow> environ \<Rightarrow> string \<Rightarrow> string option" where
  "lookup_env pl env k = map_of env (env_key pl k)"

definition getenv :: "platform \<Rightarrow> environ \<Rightarrow> string \<Rightarrow> string" where
  "getenv pl env k = (case lookup_env pl env k of None \<Rightarrow> [] | Some v \<Rightarrow> v)"

text \<open>\<open>os.Setenv\<close> refuses an empty name, a name with an equals sign, and NUL.\<close>

definition setenv :: "platform \<Rightarrow> string \<Rightarrow> string \<Rightarrow> environ \<Rightarrow> environ option" where
  "setenv pl k v env =
     (if k = [] \<or> CHR ''='' \<in> set k \<or> char_of (0::nat) \<in> set k \<or> char_of (0::nat) \<in> set v then None
      else Some ((env_key pl k, v) # env))"

section \<open>The settings file\<close>

definition cr :: char where "cr = char_of (13::nat)"
definition lf :: char where "lf = char_of (10::nat)"

text \<open>\<open>bufio.Scanner\<close>: the lines without their ends, and whether one was too long for it, at which it stops.\<close>

definition maxScanTokenSize :: int where "maxScanTokenSize = 65536"

fun scan_lines :: "string list \<Rightarrow> string list \<times> bool" where
  "scan_lines [] = ([], False)"
| "scan_lines [l] = (if l = [] then ([], False) else if maxScanTokenSize \<le> int (length l) then ([], True) else ([trim_suffix l [cr]], False))"
| "scan_lines (l # m # ls) =
     (if maxScanTokenSize \<le> int (length l) then ([], True)
      else (case scan_lines (m # ls) of (r, e) \<Rightarrow> (trim_suffix l [cr] # r, e)))"

definition quote_chars :: string where "quote_chars = [CHR 0x22, CHR 0x27]"

text \<open>One line: the variable it sets, if any.\<close>

definition env_line :: "string \<Rightarrow> (string \<times> string) option" where
  "env_line raw =
     (let line = trim_space raw
      in if line = [] \<or> has_prefix line ''#'' then None
         else (case cut_at line (CHR ''='') of
                 (key, value, found) \<Rightarrow>
                   if \<not> found then None else Some (trim_space key, trim_both (trim_space value) quote_chars)))"

fun env_lines :: "platform \<Rightarrow> string list \<Rightarrow> environ \<Rightarrow> bool \<times> environ" where
  "env_lines pl [] env = (True, env)"
| "env_lines pl (l # ls) env =
     (case env_line l of
        None \<Rightarrow> env_lines pl ls env
      | Some (k, v) \<Rightarrow>
          (if lookup_env pl env k \<noteq> None then env_lines pl ls env
           else (case setenv pl k v env of
                   None \<Rightarrow> (False, env)
                 | Some env' \<Rightarrow> env_lines pl ls env')))"

datatype env_file = NoSuchFile | OpenFails | Content string

definition loadDotEnv :: "platform \<Rightarrow> string \<Rightarrow> env_file \<Rightarrow> environ \<Rightarrow> bool \<times> environ" where
  "loadDotEnv pl path f env =
     (if path = [] then (True, env)
      else (case f of
              NoSuchFile \<Rightarrow> (True, env)
            | OpenFails \<Rightarrow> (False, env)
            | Content s \<Rightarrow>
                (case scan_lines (split_on lf s) of
                   (ls, toolong) \<Rightarrow> (case env_lines pl ls env of (ok, env') \<Rightarrow> (ok \<and> \<not> toolong, env')))))"

section \<open>Repository names\<close>

definition is_alnum :: "char \<Rightarrow> bool" where
  "is_alnum c \<longleftrightarrow> is_digit c \<or> 65 \<le> byte c \<and> byte c \<le> 90 \<or> 97 \<le> byte c \<and> byte c \<le> 122"

definition owner_ok :: "string \<Rightarrow> bool" where
  "owner_ok s \<longleftrightarrow> s \<noteq> [] \<and> is_alnum (hd s) \<and> is_alnum (last s) \<and> list_all (\<lambda>c. is_alnum c \<or> c = CHR ''-'') s"

definition repo_name_ok :: "string \<Rightarrow> bool" where
  "repo_name_ok s \<longleftrightarrow>
     (let b = trim_prefix s ''.''
      in b \<noteq> [] \<and> (is_alnum (hd b) \<or> hd b = CHR ''_'' \<or> hd b = CHR ''-'')
         \<and> list_all (\<lambda>c. is_alnum c \<or> c = CHR ''_'' \<or> c = CHR ''.'' \<or> c = CHR ''-'') b)"

text \<open>\<open>repoPattern\<close>: neither part can hold the slash between them.\<close>

definition repoPattern :: "string \<Rightarrow> bool" where
  "repoPattern s \<longleftrightarrow> (case cut_at s (CHR ''/'') of (owner, name, found) \<Rightarrow> found \<and> owner_ok owner \<and> repo_name_ok name)"

definition defaultRepo :: string where "defaultRepo = ''YahyaAltintop/freedesk''"

definition PrivacyURL :: "string \<Rightarrow> string" where
  "PrivacyURL buildRepo =
     ''https://github.com/'' @ (if repoPattern buildRepo then buildRepo else defaultRepo) @ ''/blob/main/PRIVACY.md''"

section \<open>Values\<close>

definition defaultLocalAPIPort :: int where "defaultLocalAPIPort = 47800"
definition defaultUDPPort :: int where "defaultUDPPort = 47801"
definition defaultHeartbeatInterval :: duration where "defaultHeartbeatInterval = 30 * second"
definition defaultAuthBaseURL :: string where "defaultAuthBaseURL = ''https://identitytoolkit.googleapis.com''"
definition defaultTokenBaseURL :: string where "defaultTokenBaseURL = ''https://securetoken.googleapis.com''"
definition minMaxWidth :: int where "minMaxWidth = 320"

datatype config_err =
    ErrDotEnv
  | ErrClipboard string
  | ErrApproval string
  | ErrUpdateCheck string
  | ErrGitHubRepo string
  | ErrLocalPort string
  | ErrMaxWidth string
  | ErrUDPPort string
  | ErrDiag string
  | ErrMissing "string list"

definition parseUDPPort :: "string \<Rightarrow> config_err + int" where
  "parseUDPPort raw0 =
     (let raw = trim_space raw0
      in if raw = [] then Inr defaultUDPPort
         else (case go_atoi raw of
                 None \<Rightarrow> Inl (ErrUDPPort raw)
               | Some port \<Rightarrow> if port < 0 \<or> 65535 < port then Inl (ErrUDPPort raw) else Inr port))"

definition parseMaxWidth :: "string \<Rightarrow> config_err + int" where
  "parseMaxWidth raw0 =
     (let raw = trim_space raw0
      in if raw = [] then Inr 0
         else (case go_atoi raw of
                 None \<Rightarrow> Inl (ErrMaxWidth raw)
               | Some w \<Rightarrow> if w < minMaxWidth then Inl (ErrMaxWidth raw) else Inr w))"

definition parseLocalPort :: "string \<Rightarrow> config_err + int" where
  "parseLocalPort raw =
     (if raw = [] then Inr defaultLocalAPIPort
      else (case go_atoi raw of
              None \<Rightarrow> Inl (ErrLocalPort raw)
            | Some port \<Rightarrow> if port < 1 \<or> 65535 < port then Inl (ErrLocalPort raw) else Inr port))"

fun firstNonEmpty :: "string list \<Rightarrow> string" where
  "firstNonEmpty [] = []"
| "firstNonEmpty (v # vs) = (if v \<noteq> [] then v else firstNonEmpty vs)"

definition shortHostName :: "string \<Rightarrow> string" where
  "shortHostName name =
     (if length ''.local'' < length name \<and> equal_fold (drop (length name - length ''.local'') name) ''.local''
      then take (length name - length ''.local'') name else name)"

definition fallbackHostName :: "platform \<Rightarrow> string" where
  "fallbackHostName pl = (if pl_darwin pl then ''Mac Host'' else ''Windows Host'')"

definition host_name :: "platform \<Rightarrow> string option \<Rightarrow> string \<Rightarrow> string" where
  "host_name pl os raw =
     take 64 (if raw = [] then (case os of Some n \<Rightarrow> if n \<noteq> [] then shortHostName n else fallbackHostName pl
                                         | None \<Rightarrow> fallbackHostName pl)
              else raw)"

section \<open>The configuration\<close>

record Config =
  cf_APIKey :: string
  cf_ProjectID :: string
  cf_DatabaseURL :: string
  cf_DatabaseNamespace :: string
  cf_HostName :: string
  cf_LocalAPIPort :: int
  cf_UDPPort :: int
  cf_Diagnostics :: bool
  cf_MaxWidth :: int
  cf_ApprovalMode :: string
  cf_ClipboardMode :: string
  cf_HostingSite :: string
  cf_UpdateCheck :: bool
  cf_GitHubRepo :: string
  cf_WebOrigins :: "string list"
  cf_HeartbeatInterval :: duration
  cf_AuthBaseURL :: string
  cf_TokenBaseURL :: string

record build =
  bd_APIKey :: string
  bd_ProjectID :: string
  bd_DatabaseURL :: string
  bd_HostingSite :: string
  bd_Repo :: string

definition webOrigins :: "string \<Rightarrow> string \<Rightarrow> string \<Rightarrow> string list" where
  "webOrigins projectID hostingSite extra =
     (let site = trim_space hostingSite
      in [''https://'' @ projectID @ ''.web.app'', ''https://'' @ projectID @ ''.firebaseapp.com'']
         @ (if site \<noteq> [] \<and> site \<noteq> projectID then [''https://'' @ site @ ''.web.app'', ''https://'' @ site @ ''.firebaseapp.com''] else [])
         @ [''http://localhost:9205'', ''http://127.0.0.1:9205'']
         @ map (\<lambda>o'. trim_right o' ''/'') (filter (\<lambda>o'. o' \<noteq> []) (map trim_space (split_on (CHR '','') extra))))"

definition SiteURL :: "Config \<Rightarrow> string" where
  "SiteURL c = ''https://'' @ (if trim_space (cf_HostingSite c) = [] then cf_ProjectID c else trim_space (cf_HostingSite c)) @ ''.web.app''"

definition applyEmulatorOverrides :: "platform \<Rightarrow> environ \<Rightarrow> Config \<Rightarrow> Config" where
  "applyEmulatorOverrides pl env c =
     (let auth = getenv pl env ''FIREBASE_AUTH_EMULATOR_HOST'';
          db = getenv pl env ''FIREBASE_DATABASE_EMULATOR_HOST'';
          c1 = (if auth \<noteq> [] then c\<lparr>cf_AuthBaseURL := ''http://'' @ auth @ ''/identitytoolkit.googleapis.com'',
                                    cf_TokenBaseURL := ''http://'' @ auth @ ''/securetoken.googleapis.com''\<rparr> else c)
      in if db \<noteq> [] then c1\<lparr>cf_DatabaseURL := ''http://'' @ db,
             cf_DatabaseNamespace := (if cf_DatabaseNamespace c1 = [] then cf_ProjectID c1 @ ''-default-rtdb'' else cf_DatabaseNamespace c1)\<rparr>
         else c1)"

definition missing_vars :: "Config \<Rightarrow> string list" where
  "missing_vars c = (if cf_APIKey c = [] then [''RC_FIREBASE_API_KEY''] else [])
     @ (if cf_ProjectID c = [] then [''RC_FIREBASE_PROJECT_ID''] else [])
     @ (if cf_DatabaseURL c = [] then [''RC_FIREBASE_DB_URL''] else [])"

definition config_validate :: "Config \<Rightarrow> config_err option" where
  "config_validate c = (if missing_vars c = [] then None else Some (ErrMissing (missing_vars c)))"

text \<open>The struct as it is first filled in.\<close>

definition config_base :: "platform \<Rightarrow> build \<Rightarrow> environ \<Rightarrow> Config" where
  "config_base pl b env =
     \<lparr>cf_APIKey = firstNonEmpty [getenv pl env ''RC_FIREBASE_API_KEY'', bd_APIKey b],
      cf_ProjectID = firstNonEmpty [getenv pl env ''RC_FIREBASE_PROJECT_ID'', bd_ProjectID b],
      cf_DatabaseURL = firstNonEmpty [getenv pl env ''RC_FIREBASE_DB_URL'', bd_DatabaseURL b],
      cf_DatabaseNamespace = getenv pl env ''RC_FIREBASE_DB_NAMESPACE'',
      cf_HostName = getenv pl env ''RC_HOST_NAME'', cf_LocalAPIPort = defaultLocalAPIPort, cf_UDPPort = 0,
      cf_Diagnostics = False, cf_MaxWidth = 0,
      cf_ApprovalMode = to_lower (trim_space (getenv pl env ''RC_APPROVAL'')),
      cf_ClipboardMode = to_lower (trim_space (getenv pl env ''RC_CLIPBOARD'')),
      cf_HostingSite = firstNonEmpty [getenv pl env ''RC_HOSTING_SITE'', bd_HostingSite b],
      cf_UpdateCheck = False,
      cf_GitHubRepo = firstNonEmpty [trim_space (getenv pl env ''RC_GITHUB_REPO''), bd_Repo b, defaultRepo],
      cf_WebOrigins = [], cf_HeartbeatInterval = defaultHeartbeatInterval,
      cf_AuthBaseURL = defaultAuthBaseURL, cf_TokenBaseURL = defaultTokenBaseURL\<rparr>"

text \<open>A switch that is on or off, and what it is when nothing is said.\<close>

definition on_off :: "(string \<Rightarrow> config_err) \<Rightarrow> bool \<Rightarrow> string \<Rightarrow> config_err + bool" where
  "on_off err dflt raw0 =
     (let raw = to_lower (trim_space raw0)
      in if raw = [] then Inr dflt else if raw = ''on'' then Inr True else if raw = ''off'' then Inr False else Inl (err raw))"

definition set_clipboard :: "Config \<Rightarrow> config_err + Config" where
  "set_clipboard c =
     (let m = (if cf_ClipboardMode c = [] then ModeText else cf_ClipboardMode c)
      in if m \<noteq> ModeText \<and> m \<noteq> ModeOff then Inl (ErrClipboard m) else Inr (c\<lparr>cf_ClipboardMode := m\<rparr>))"

definition check_approval :: "Config \<Rightarrow> config_err + Config" where
  "check_approval c =
     (if cf_ApprovalMode c \<noteq> [] \<and> cf_ApprovalMode c \<noteq> ''dialog'' \<and> cf_ApprovalMode c \<noteq> ''console''
      then Inl (ErrApproval (cf_ApprovalMode c)) else Inr c)"

text \<open>One step after another, the first error ending them.\<close>

fun and_then :: "('e + 'a) \<Rightarrow> ('a \<Rightarrow> 'e + 'b) \<Rightarrow> 'e + 'b" where
  "and_then (Inl e) f = Inl e"
| "and_then (Inr x) f = f x"

lemma and_then_Inr: "and_then r f = Inr y \<longleftrightarrow> (\<exists>x. r = Inr x \<and> f x = Inr y)"
  by (cases r) auto

definition load_values :: "platform \<Rightarrow> environ \<Rightarrow> Config \<Rightarrow> config_err + Config" where
  "load_values pl env c0 =
     and_then (set_clipboard c0) (\<lambda>c1.
     and_then (check_approval c1) (\<lambda>c2.
     and_then (on_off ErrUpdateCheck True (getenv pl env ''RC_UPDATE_CHECK'')) (\<lambda>upd.
     and_then (if repoPattern (cf_GitHubRepo c2) then Inr () else Inl (ErrGitHubRepo (cf_GitHubRepo c2))) (\<lambda>_.
     and_then (parseLocalPort (getenv pl env ''RC_LOCAL_PORT'')) (\<lambda>port.
     and_then (parseMaxWidth (getenv pl env ''RC_MAX_WIDTH'')) (\<lambda>width.
     and_then (parseUDPPort (getenv pl env ''RC_UDP_PORT'')) (\<lambda>udp.
     and_then (on_off ErrDiag False (getenv pl env ''RC_DIAG'')) (\<lambda>diag.
       Inr (c2\<lparr>cf_UpdateCheck := upd, cf_LocalAPIPort := port, cf_MaxWidth := width, cf_UDPPort := udp, cf_Diagnostics := diag\<rparr>)))))))))"

definition Load :: "platform \<Rightarrow> build \<Rightarrow> string option \<Rightarrow> string \<Rightarrow> env_file \<Rightarrow> environ \<Rightarrow> config_err + Config" where
  "Load pl b os path f env0 =
     (case loadDotEnv pl path f env0 of
        (False, env) \<Rightarrow> Inl ErrDotEnv
      | (True, env) \<Rightarrow>
          and_then (load_values pl env (config_base pl b env)) (\<lambda>c.
            (let c1 = applyEmulatorOverrides pl env (c\<lparr>cf_HostName := host_name pl os (cf_HostName c)\<rparr>)
             in case config_validate c1 of
                  Some e \<Rightarrow> Inl e
                | None \<Rightarrow> Inr (c1\<lparr>cf_WebOrigins := webOrigins (cf_ProjectID c1) (cf_HostingSite c1) (getenv pl env ''RC_WEB_ORIGINS'')\<rparr>))))"

section \<open>What a configuration that loads can hold\<close>

definition config_ok :: "Config \<Rightarrow> bool" where
  "config_ok c \<longleftrightarrow> cf_APIKey c \<noteq> [] \<and> cf_ProjectID c \<noteq> [] \<and> cf_DatabaseURL c \<noteq> []
     \<and> cf_HostName c \<noteq> [] \<and> length (cf_HostName c) \<le> 64
     \<and> 1 \<le> cf_LocalAPIPort c \<and> cf_LocalAPIPort c \<le> 65535 \<and> 0 \<le> cf_UDPPort c \<and> cf_UDPPort c \<le> 65535
     \<and> (cf_MaxWidth c = 0 \<or> 320 \<le> cf_MaxWidth c)
     \<and> cf_ApprovalMode c \<in> {[], ''dialog'', ''console''} \<and> cf_ClipboardMode c \<in> {ModeText, ModeOff}
     \<and> repoPattern (cf_GitHubRepo c) \<and> cf_HeartbeatInterval c = 30 * second"

lemma host_name_ok: "host_name pl os raw \<noteq> [] \<and> length (host_name pl os raw) \<le> 64"
  by (auto simp: host_name_def shortHostName_def fallbackHostName_def split: option.split)

lemma parsed_ok:
  "parseLocalPort r1 = Inr port \<Longrightarrow> 1 \<le> port \<and> port \<le> 65535"
  "parseUDPPort r2 = Inr udp \<Longrightarrow> 0 \<le> udp \<and> udp \<le> 65535"
  "parseMaxWidth r3 = Inr width \<Longrightarrow> width = 0 \<or> 320 \<le> width"
  by (auto simp: parseLocalPort_def parseUDPPort_def parseMaxWidth_def Let_def defaultLocalAPIPort_def defaultUDPPort_def
      minMaxWidth_def split: if_splits option.splits)

lemma load_values_ok:
  assumes "load_values pl env c0 = Inr c"
  shows "1 \<le> cf_LocalAPIPort c \<and> cf_LocalAPIPort c \<le> 65535 \<and> 0 \<le> cf_UDPPort c \<and> cf_UDPPort c \<le> 65535
     \<and> (cf_MaxWidth c = 0 \<or> 320 \<le> cf_MaxWidth c)
     \<and> cf_ApprovalMode c \<in> {[], ''dialog'', ''console''} \<and> cf_ClipboardMode c \<in> {ModeText, ModeOff}
     \<and> repoPattern (cf_GitHubRepo c) \<and> cf_HeartbeatInterval c = cf_HeartbeatInterval c0"
proof -
  from assms obtain c1 c2 port width udp upd diag where c: "set_clipboard c0 = Inr c1" "check_approval c1 = Inr c2" "repoPattern (cf_GitHubRepo c2)"
    "parseLocalPort (getenv pl env ''RC_LOCAL_PORT'') = Inr port" "parseMaxWidth (getenv pl env ''RC_MAX_WIDTH'') = Inr width"
    "parseUDPPort (getenv pl env ''RC_UDP_PORT'') = Inr udp"
    and f: "c = c2\<lparr>cf_UpdateCheck := upd, cf_LocalAPIPort := port, cf_MaxWidth := width, cf_UDPPort := udp, cf_Diagnostics := diag\<rparr>"
    unfolding load_values_def and_then_Inr by (auto split: if_split_asm)
  have "c2 = c1" "cf_ApprovalMode c1 \<in> {[], ''dialog'', ''console''}"
    using c(2) by (auto simp: check_approval_def split: if_split_asm)
  moreover have "cf_ClipboardMode c1 \<in> {ModeText, ModeOff} \<and> cf_HeartbeatInterval c1 = cf_HeartbeatInterval c0"
    using c(1) by (auto simp: set_clipboard_def Let_def split: if_split_asm)
  ultimately show ?thesis using f c(3) parsed_ok(1)[OF c(4)] parsed_ok(2)[OF c(6)] parsed_ok(3)[OF c(5)] by auto
qed

lemma overrides_sel:
  "cf_HostName (applyEmulatorOverrides pl env c) = cf_HostName c" "cf_LocalAPIPort (applyEmulatorOverrides pl env c) = cf_LocalAPIPort c"
  "cf_UDPPort (applyEmulatorOverrides pl env c) = cf_UDPPort c" "cf_MaxWidth (applyEmulatorOverrides pl env c) = cf_MaxWidth c"
  "cf_ApprovalMode (applyEmulatorOverrides pl env c) = cf_ApprovalMode c" "cf_ClipboardMode (applyEmulatorOverrides pl env c) = cf_ClipboardMode c"
  "cf_GitHubRepo (applyEmulatorOverrides pl env c) = cf_GitHubRepo c"
  "cf_HeartbeatInterval (applyEmulatorOverrides pl env c) = cf_HeartbeatInterval c"
  by (simp_all add: applyEmulatorOverrides_def Let_def)

text \<open>C26: whatever the environment and the settings file hold, a configuration that loads has the three
  service values, a host name the database accepts (1 to 64 bytes), both ports in their ranges, a
  picture width nobody can mistype, known modes and a repository that is a plain owner/name.\<close>

theorem Load_well_typed:
  assumes "Load pl b os path f env = Inr c"
  shows "config_ok c"
proof -
  obtain env' where d: "loadDotEnv pl path f env = (True, env')"
    using assms by (cases "loadDotEnv pl path f env"; cases "fst (loadDotEnv pl path f env)") (auto simp: Load_def)
  obtain c0 where v: "load_values pl env' (config_base pl b env') = Inr c0"
    using assms d by (auto simp: Load_def and_then_Inr)
  define c1 where "c1 = applyEmulatorOverrides pl env' (c0\<lparr>cf_HostName := host_name pl os (cf_HostName c0)\<rparr>)"
  have c: "config_validate c1 = None" "c = c1\<lparr>cf_WebOrigins := webOrigins (cf_ProjectID c1) (cf_HostingSite c1) (getenv pl env' ''RC_WEB_ORIGINS'')\<rparr>"
    using assms d v by (auto simp: Load_def Let_def c1_def[symmetric] split: option.splits)
  have "cf_APIKey c1 \<noteq> [] \<and> cf_ProjectID c1 \<noteq> [] \<and> cf_DatabaseURL c1 \<noteq> []"
    using c(1) by (auto simp: config_validate_def missing_vars_def split: if_split_asm)
  moreover have "cf_HeartbeatInterval (config_base pl b env') = 30 * second"
    by (simp add: config_base_def defaultHeartbeatInterval_def)
  ultimately show ?thesis using load_values_ok[OF v] host_name_ok[of pl os "cf_HostName c0"]
    by (simp add: config_ok_def c(2) c1_def overrides_sel)
qed

definition ex_env :: environ where
  "ex_env = [(''RC_FIREBASE_API_KEY'', ''k''), (''RC_FIREBASE_PROJECT_ID'', ''p''), (''RC_FIREBASE_DB_URL'', ''u''),
     (''RC_MAX_WIDTH'', ''1280''), (''RC_UDP_PORT'', '' 0 '')]"

definition ex_pl :: platform where "ex_pl = \<lparr>pl_windows = False, pl_darwin = True\<rparr>"
definition ex_build :: build where "ex_build = \<lparr>bd_APIKey = [], bd_ProjectID = [], bd_DatabaseURL = [], bd_HostingSite = [], bd_Repo = []\<rparr>"

lemma ex_load: "(case Load ex_pl ex_build None ''.env'' (Content ''RC_UDP_PORT=5'') ex_env of Inr c \<Rightarrow> cf_UDPPort c = 0 \<and> cf_MaxWidth c = 1280 | Inl _ \<Rightarrow> False)"
  by code_simp

lemma Load_well_typed_witness:
  "\<exists>c. Load ex_pl ex_build None ''.env'' (Content ''RC_UDP_PORT=5'') ex_env = Inr c \<and> config_ok c"
proof -
  obtain c where c: "Load ex_pl ex_build None ''.env'' (Content ''RC_UDP_PORT=5'') ex_env = Inr c"
    using ex_load by (cases "Load ex_pl ex_build None ''.env'' (Content ''RC_UDP_PORT=5'') ex_env") auto
  from Load_well_typed[OF c] c show ?thesis by blast
qed

section \<open>The environment beats the file\<close>

lemma lookup_setenv: "setenv pl k v env = Some env' \<Longrightarrow> lookup_env pl env' j = (if env_key pl j = env_key pl k then Some v else lookup_env pl env j)"
  by (auto simp: setenv_def lookup_env_def split: if_splits)

text \<open>The variable a list of lines gives, the first line that names it winning.\<close>

fun file_value :: "platform \<Rightarrow> string list \<Rightarrow> string \<Rightarrow> string option" where
  "file_value pl [] j = None"
| "file_value pl (l # ls) j =
     (case env_line l of
        Some (k, v) \<Rightarrow> if env_key pl k = env_key pl j then Some v else file_value pl ls j
      | None \<Rightarrow> file_value pl ls j)"

lemma env_lines_value:
  "env_lines pl ls env = (True, env') \<Longrightarrow>
   lookup_env pl env' j = (case lookup_env pl env j of Some v \<Rightarrow> Some v | None \<Rightarrow> file_value pl ls j)"
proof (induction ls arbitrary: env)
  case (Cons l ls)
  show ?case
  proof (cases "env_line l")
    case None
    with Cons show ?thesis by (simp split: option.split)
  next
    case (Some kv)
    then obtain k v where l: "env_line l = Some (k, v)" by (cases kv) auto
    show ?thesis
    proof (cases "lookup_env pl env k")
      case (Some w)
      with Cons l show ?thesis by (auto simp: lookup_env_def split: option.split)
    next
      case None
      with Cons.prems l obtain env1 where s: "setenv pl k v env = Some env1" and r: "env_lines pl ls env1 = (True, env')"
        by (auto split: option.splits)
      from Cons.IH[OF r] lookup_setenv[OF s, of j] None l show ?thesis by (auto simp: lookup_env_def split: option.split)
    qed
  qed
qed (simp split: option.split)

text \<open>A settings file that loads changes no variable the process already had, and gives every other
  variable the value of the first line that names it; lines that are blank, comments or without an
  equals sign change nothing.\<close>

theorem environment_beats_file:
  assumes "loadDotEnv pl path (Content s) env = (True, env')" and "path \<noteq> []"
  shows "lookup_env pl env' j = (case lookup_env pl env j of Some v \<Rightarrow> Some v | None \<Rightarrow> file_value pl (fst (scan_lines (split_on lf s))) j)"
proof -
  obtain ls e where l: "scan_lines (split_on lf s) = (ls, e)" by fastforce
  then have "env_lines pl ls env = (True, env')" using assms by (auto simp: loadDotEnv_def split: prod.splits)
  from env_lines_value[OF this] l show ?thesis by (simp split: option.split)
qed

lemma environment_beats_file_witness:
  "\<exists>env'. loadDotEnv ex_pl ''.env'' (Content (''A=1'' @ [lf] @ ''B=2'')) [(''A'', ''0'')] = (True, env')
     \<and> lookup_env ex_pl env' ''A'' = Some ''0'' \<and> lookup_env ex_pl env' ''B'' = Some ''2''"
proof -
  have e: "loadDotEnv ex_pl ''.env'' (Content (''A=1'' @ [lf] @ ''B=2'')) [(''A'', ''0'')] = (True, [(''B'', ''2''), (''A'', ''0'')])"
    by code_simp
  have "file_value ex_pl (fst (scan_lines (split_on lf (''A=1'' @ [lf] @ ''B=2'')))) ''B'' = Some ''2''" by code_simp
  with environment_beats_file[OF e, of "''A''"] environment_beats_file[OF e, of "''B''"] e show ?thesis
    by (simp add: lookup_env_def env_key_def ex_pl_def)
qed

section \<open>Repository names in addresses\<close>

lemma cut_at_found: "cut_at s c = (a, b, True) \<Longrightarrow> s = a @ c # b \<and> c \<notin> set a"
  by (induction s arbitrary: a) (auto split: if_splits prod.splits)

lemma trim_prefix_dot: "trim_prefix s ''.'' = (case s of [] \<Rightarrow> [] | c # r \<Rightarrow> if c = CHR ''.'' then r else s)"
  by (auto simp: trim_prefix_def has_prefix_def split: list.split)

lemma not_alnum [simp]: "\<not> is_alnum (CHR ''/'')" "\<not> is_alnum (CHR ''.'')"
  by (simp_all add: is_alnum_def is_digit_def byte_def)

lemma repo_name_ok_plain:
  assumes "repo_name_ok name"
  shows "list_all (\<lambda>c. is_alnum c \<or> c \<in> set ''._-'') name" and "plain_comp name"
proof -
  define b where "b = trim_prefix name ''.''"
  have b: "b \<noteq> []" "is_alnum (hd b) \<or> hd b = CHR ''_'' \<or> hd b = CHR ''-''"
    "list_all (\<lambda>c. is_alnum c \<or> c = CHR ''_'' \<or> c = CHR ''.'' \<or> c = CHR ''-'') b"
    using assms by (simp_all add: repo_name_ok_def Let_def b_def)
  have n: "name = b \<or> name = CHR ''.'' # b" by (cases name) (auto simp: b_def trim_prefix_dot)
  have all: "list_all (\<lambda>c. is_alnum c \<or> c \<in> set ''._-'') b" using b(3) by (auto simp: list_all_iff)
  with n show 1: "list_all (\<lambda>c. is_alnum c \<or> c \<in> set ''._-'') name" by auto
  have "CHR ''/'' \<notin> set name" using 1 by (auto simp: list_all_iff)
  moreover have "hd b \<noteq> CHR ''.''" using b(2) by auto
  ultimately show "plain_comp name" using n b(1) by (auto simp: plain_comp_def sep_def)
qed

text \<open>A repository name that is accepted is one owner and one name around a single slash, both plain
  path components (never empty, a dot or two dots) of letters, digits, dots, hyphens and underscores, so
  the address it is put in stays on that repository's pages.\<close>

theorem repoPattern_plain:
  assumes "repoPattern s"
  shows "\<exists>owner name. s = owner @ ''/'' @ name \<and> plain_comp owner \<and> plain_comp name
     \<and> list_all (\<lambda>c. is_alnum c \<or> c \<in> set ''._-/'') s"
proof -
  obtain owner name where c: "cut_at s (CHR ''/'') = (owner, name, True)" "owner_ok owner" "repo_name_ok name"
    using assms by (auto simp: repoPattern_def split: prod.splits)
  have s: "s = owner @ CHR ''/'' # name" "CHR ''/'' \<notin> set owner" using cut_at_found[OF c(1)] by auto
  have "plain_comp owner" using c(2) s(2) by (auto simp: owner_ok_def plain_comp_def sep_def)
  moreover note n = repo_name_ok_plain[OF c(3)]
  moreover have "list_all (\<lambda>c. is_alnum c \<or> c \<in> set ''._-/'') s"
    using c(2) n(1) by (auto simp: s(1) owner_ok_def list_all_iff)
  ultimately show ?thesis using s(1) by auto
qed

lemma repoPattern_plain_witness: "repoPattern ''a-b/.c.d'' \<and> list_all (\<lambda>c. is_alnum c \<or> c \<in> set ''._-/'') ''a-b/.c.d''"
proof -
  have "repoPattern ''a-b/.c.d''" by code_simp
  with repoPattern_plain[OF this] show ?thesis by blast
qed

section \<open>Browser origins\<close>

lemma trim_right_Nil_iff: "trim_right s cs = [] \<longleftrightarrow> (\<forall>c \<in> set s. c \<in> set cs)" "[] = trim_right s cs \<longleftrightarrow> (\<forall>c \<in> set s. c \<in> set cs)"
  by (auto simp: trim_right_def dropWhile_eq_Nil_conv)

text \<open>The empty origin is on the allow-list exactly when RC_WEB_ORIGINS has an entry made of slashes only.\<close>

lemma set_singleton_iff: "set s = {c} \<longleftrightarrow> s \<noteq> [] \<and> (\<forall>d \<in> set s. d = c)"
  by (cases s) auto

lemma empty_origin_listed:
  "[] \<in> set (webOrigins projectID hostingSite extra) \<longleftrightarrow> {CHR ''/''} \<in> (\<lambda>o'. set (trim_space o')) ` set (split_on (CHR '','') extra)"
proof -
  have "[] \<in> set (webOrigins projectID hostingSite extra) \<longleftrightarrow>
     (\<exists>o' \<in> set (split_on (CHR '','') extra). trim_space o' \<noteq> [] \<and> (\<forall>c \<in> set (trim_space o'). c = CHR ''/''))"
    by (auto simp: webOrigins_def Let_def trim_right_Nil_iff image_iff)
  then show ?thesis by (auto simp: set_singleton_iff image_iff eq_commute[of "{CHR ''/''}"])
qed

text \<open>An entry of one slash lets requests without an origin in.\<close>

lemma slash_origin: "[] \<in> set (webOrigins ''p'' [] ''/'')"
  by code_simp

section \<open>Host names\<close>

text \<open>The cut at 64 bytes can fall inside a character.\<close>

lemma host_name_cut: "valid_utf8 (replicate 63 (CHR ''a'') @ [char_of (195::nat), char_of (169::nat)])
     \<and> \<not> valid_utf8 (host_name ex_pl None (replicate 63 (CHR ''a'') @ [char_of (195::nat), char_of (169::nat)]))"
  by code_simp

end
