(* ===== verification/Registrar.thy ===== *)
theory Registrar
  imports Config Firebase
begin

text \<open>
  Package \<open>host\<close> and the rules of \<open>/hosts\<close> (\<open>firebase/database.rules.json\<close>): how a computer is published
  under its code. The database is a map from codes to records. Its answer to a call comes from the rules,
  or the call fails: the network loses it before or after the database applied it, the token is refused,
  or the service is down. A lemma shows that nobody's live record is ever written by somebody else.
\<close>

section \<open>The records and their rules\<close>

record host_rec =
  hr_owner :: string
  hr_name :: string
  hr_version :: "string option"
  hr_lastSeen :: int

type_synonym hosts = "string \<Rightarrow> host_rec option"

text \<open>The length of a JSON string, in UTF-16 units; bytes that are not UTF-8 are one U+FFFD each.\<close>

definition utf16_len :: "string \<Rightarrow> nat" where
  "utf16_len s = sum_list (map (\<lambda>r. if 65536 \<le> r then 2 else 1) (runes s))"

definition code_ok :: "string \<Rightarrow> bool" where
  "code_ok code \<longleftrightarrow> length code = 6 \<and> list_all is_digit code"

definition host_write :: "string \<Rightarrow> int \<Rightarrow> string \<Rightarrow> host_rec option \<Rightarrow> bool" where
  "host_write uid now code data \<longleftrightarrow> code_ok code \<and>
     (case data of None \<Rightarrow> True | Some r \<Rightarrow> hr_owner r = uid \<or> hr_lastSeen r < now - 300000)"

definition host_validate :: "string \<Rightarrow> int \<Rightarrow> host_rec \<Rightarrow> bool" where
  "host_validate uid now r \<longleftrightarrow>
     hr_owner r = uid \<and> 0 < utf16_len (hr_name r) \<and> utf16_len (hr_name r) \<le> 64
     \<and> (case hr_version r of None \<Rightarrow> True | Some v \<Rightarrow> utf16_len v \<le> 32)
     \<and> hr_lastSeen r \<le> now \<and> now - 60000 \<le> hr_lastSeen r"

text \<open>What a write asks for, and what the database makes of it. A removal is not validated; an update of
  \<open>lastSeen\<close> is validated with the record it makes, and without a record there is none with all its
  children.\<close>

datatype host_op = SetRecord host_rec | TouchLastSeen int | RemoveRecord

definition host_apply :: "string \<Rightarrow> int \<Rightarrow> string \<Rightarrow> host_op \<Rightarrow> hosts \<Rightarrow> hosts option" where
  "host_apply uid now code op db =
     (if \<not> host_write uid now code (db code) then None
      else (case op of
              SetRecord r \<Rightarrow> if host_validate uid now r then Some (db(code \<mapsto> r)) else None
            | TouchLastSeen t \<Rightarrow>
                (case db code of
                   None \<Rightarrow> None
                 | Some r \<Rightarrow> if host_validate uid now (r\<lparr>hr_lastSeen := t\<rparr>) then Some (db(code \<mapsto> r\<lparr>hr_lastSeen := t\<rparr>)) else None)
            | RemoveRecord \<Rightarrow> Some (db(code := None))))"

section \<open>A call on the database\<close>

datatype fate = Reached | LostBefore | LostAfter | TokenRefused | Unavailable

record call_env =
  ce_token :: "string option"
  ce_now :: int
  ce_fate :: fate

definition host_call ::
  "RTDB \<Rightarrow> string \<Rightarrow> call_env \<Rightarrow> string \<Rightarrow> string \<Rightarrow> host_op \<Rightarrow> hosts \<Rightarrow> (rtdb_err + string) \<times> hosts" where
  "host_call rt uid e method code op db =
     (let new = host_apply uid (ce_now e) code op db;
          answer = (\<lambda>resp. rtdb_write (ce_token e) rt method (''hosts/'' @ code) True resp)
      in if ce_token e = None then (answer None, db)
         else (case ce_fate e of
                 Reached \<Rightarrow> (case new of None \<Rightarrow> (answer (Some (401, ''Permission denied'')), db)
                                       | Some db' \<Rightarrow> (answer (Some (204, [])), db'))
               | LostBefore \<Rightarrow> (answer None, db)
               | LostAfter \<Rightarrow> (answer None, case new of None \<Rightarrow> db | Some db' \<Rightarrow> db')
               | TokenRefused \<Rightarrow> (answer (Some (401, ''Auth token is expired'')), db)
               | Unavailable \<Rightarrow> (answer (Some (503, [])), db)))"

section \<open>The registrar\<close>

record Registrar =
  rg_rtdb :: RTDB
  rg_ownerUID :: string
  rg_version :: string

text \<open>\<open>lastSeen\<close> is the server's time stamp: the time of the call.\<close>

definition hostRecord :: "Registrar \<Rightarrow> string \<Rightarrow> int \<Rightarrow> host_rec" where
  "hostRecord g name now =
     \<lparr>hr_owner = rg_ownerUID g, hr_name = name, hr_version = Some (rg_version g), hr_lastSeen = now\<rparr>"

definition Register :: "Registrar \<Rightarrow> call_env \<Rightarrow> string \<Rightarrow> string \<Rightarrow> hosts \<Rightarrow> (rtdb_err + string) \<times> hosts" where
  "Register g e code name db =
     host_call (rg_rtdb g) (rg_ownerUID g) e ''PUT'' code (SetRecord (hostRecord g name (ce_now e))) db"

definition Heartbeat :: "Registrar \<Rightarrow> call_env \<Rightarrow> string \<Rightarrow> hosts \<Rightarrow> (rtdb_err + string) \<times> hosts" where
  "Heartbeat g e code db = host_call (rg_rtdb g) (rg_ownerUID g) e ''PATCH'' code (TouchLastSeen (ce_now e)) db"

definition Unregister :: "Registrar \<Rightarrow> call_env \<Rightarrow> string \<Rightarrow> hosts \<Rightarrow> (rtdb_err + string) \<times> hosts" where
  "Unregister g e code db = host_call (rg_rtdb g) (rg_ownerUID g) e ''DELETE'' code RemoveRecord db"

section \<open>Facts\<close>

lemma rtdb_write_answer [simp]:
  "rtdb_write None r m p s resp = Inl ErrToken"
  "rtdb_write (Some t) r m p s None = Inl ErrTransport"
  "rtdb_write (Some t) r m p s (Some (code, body)) =
     (if code < 200 \<or> 300 \<le> code then Inl (ErrStatus code m p (trim_space body)) else Inr body)"
  by (simp_all add: rtdb_write_def endpoint_def do_request_def)

lemma host_call_cases:
  assumes "host_call rt uid e m code op db = (r, db')"
  shows "db' = db \<or> host_apply uid (ce_now e) code op db = Some db'"
  using assms by (auto simp: host_call_def Let_def split: if_splits fate.splits option.splits)

lemma host_call_Inr:
  assumes "host_call rt uid e m code op db = (Inr b, db')"
  shows "host_apply uid (ce_now e) code op db = Some db'"
  using assms by (auto simp: host_call_def Let_def split: if_splits fate.splits option.splits)

lemma host_call_ok:
  assumes "ce_token e = Some t" and "ce_fate e = Reached" and "host_apply uid (ce_now e) code op db = Some db'"
  shows "host_call rt uid e m code op db = (Inr [], db')"
  using assms by (simp add: host_call_def Let_def)

lemma host_apply_None:
  "host_apply uid (ce_now e) code op db = None \<Longrightarrow> snd (host_call rt uid e m code op db) = db"
  by (auto simp: host_call_def Let_def split: fate.split)

text \<open>A denied call is one that did not reach the rules or that they refuse.\<close>

lemma host_call_denied:
  assumes "host_call rt uid e m code op db = (Inl err, db')" and "IsPermissionDenied err"
  shows "db' = db \<and> (ce_fate e = TokenRefused \<or> host_apply uid (ce_now e) code op db = None)"
  using assms by (auto simp: host_call_def Let_def IsPermissionDenied_def split: if_splits fate.splits option.splits)

lemma host_apply_owned:
  assumes "host_apply uid now code op db = Some db'" and "db c = Some r" and "hr_owner r \<noteq> uid" and "now - 300000 \<le> hr_lastSeen r"
  shows "db' c = Some r"
proof (cases "c = code")
  case True
  with assms show ?thesis by (simp add: host_apply_def host_write_def)
next
  case False
  with assms(1,2) show ?thesis by (auto simp: host_apply_def split: if_splits host_op.splits option.splits)
qed

text \<open>A live record of somebody else survives every call.\<close>

lemma host_call_owned:
  assumes "db c = Some r" and "hr_owner r \<noteq> uid" and "ce_now e - 300000 \<le> hr_lastSeen r"
  shows "snd (host_call rt uid e m code op db) c = Some r"
proof -
  obtain x db' where c: "host_call rt uid e m code op db = (x, db')" by fastforce
  have "db' = db \<or> db' c = Some r" using host_call_cases[OF c] host_apply_owned assms by metis
  with assms(1) show ?thesis by (auto simp: c)
qed

lemma host_call_other: "c \<noteq> code \<Longrightarrow> snd (host_call rt uid e m code op db) c = db c"
  by (auto simp: host_call_def Let_def host_apply_def split: fate.split option.split host_op.split if_splits)

section \<open>What the agent publishes satisfies the rules\<close>

lemma decode_rune_two: "s \<noteq> [] \<Longrightarrow> (if 65536 \<le> fst (decode_rune s) then 2 else 1 :: nat) \<le> snd (decode_rune s)"
  by (auto simp: decode_rune_def rune_error_def split: list.splits option.splits)

lemma utf16_len_le: "utf16_len s \<le> length s"
proof (induction s rule: rune_seq.induct)
  case (1 s)
  show ?case
  proof (cases "s = []")
    case False
    have w: "1 \<le> snd (decode_rune s)" "snd (decode_rune s) \<le> length s" using decode_rune_width[OF False] by auto
    have "utf16_len s = (if 65536 \<le> fst (decode_rune s) then 2 else 1) + utf16_len (drop (snd (decode_rune s)) s)"
      by (simp add: utf16_len_def runes_def rune_seq_unfold[OF False])
    also have "\<dots> \<le> snd (decode_rune s) + (length s - snd (decode_rune s))"
      using decode_rune_two[OF False] 1[OF False] by simp
    finally show ?thesis using w by simp
  qed (simp add: utf16_len_def runes_def)
qed

lemma utf16_len_pos: "s \<noteq> [] \<Longrightarrow> 0 < utf16_len s"
  by (simp add: utf16_len_def runes_def rune_seq_unfold)

lemma hostRecord_valid:
  assumes "name \<noteq> []" and "length name \<le> 64" and "length (rg_version g) \<le> 32"
  shows "host_validate (rg_ownerUID g) now (hostRecord g name now)"
  using assms utf16_len_le[of name] utf16_len_le[of "rg_version g"]
  by (auto simp: host_validate_def hostRecord_def utf16_len_pos)

end
