(* ===== verification/LocalApi.thy ===== *)
theory LocalApi
  imports Config
begin

text \<open>
  Package \<open>localapi\<close>: the endpoint on the loopback address that shows the code to the web page opened on the
  same computer. A request is its method and its \<open>Origin\<close> header, empty when there is none.
\<close>

record Identity =
  id_Code :: string
  id_Name :: string
  id_Version :: string

record id_request =
  rq_method :: string
  rq_origin :: string

record id_response =
  rs_status :: int
  rs_headers :: "(string \<times> string) list"
  rs_body :: "Identity option"

record api_server =
  sv_allowed :: "string list"
  sv_id :: Identity

definition start_api :: "bool \<Rightarrow> Identity \<Rightarrow> string list \<Rightarrow> api_server option" where
  "start_api listens i allowedOrigins = (if listens then Some \<lparr>sv_allowed = allowedOrigins, sv_id = i\<rparr> else None)"

definition serve_identity :: "api_server \<Rightarrow> id_request \<Rightarrow> id_response" where
  "serve_identity s r =
     (if rq_origin r \<notin> set (sv_allowed s) then \<lparr>rs_status = 403, rs_headers = [], rs_body = None\<rparr>
      else let hs = [(''Access-Control-Allow-Origin'', rq_origin r), (''Vary'', ''Origin''), (''Access-Control-Allow-Private-Network'', ''true'')]
      in if rq_method r = ''OPTIONS'' then \<lparr>rs_status = 204, rs_headers = hs, rs_body = None\<rparr>
         else if rq_method r \<noteq> ''GET'' then \<lparr>rs_status = 405, rs_headers = hs, rs_body = None\<rparr>
         else \<lparr>rs_status = 200, rs_headers = hs @ [(''Content-Type'', ''application/json'')], rs_body = Some (sv_id s)\<rparr>)"

definition update_api :: "Identity \<Rightarrow> api_server \<Rightarrow> api_server" where
  "update_api i s = s\<lparr>sv_id := i\<rparr>"

text \<open>Who is answered does not depend on what is served, and is never more than the allow-list.\<close>

lemma serve_identity_allowed:
  "rs_body (serve_identity s r) = Some i \<longleftrightarrow> rq_origin r \<in> set (sv_allowed s) \<and> rq_method r = ''GET'' \<and> i = sv_id s"
  by (auto simp: serve_identity_def Let_def)

lemma serve_identity_headers:
  "(''Access-Control-Allow-Origin'', o') \<in> set (rs_headers (serve_identity s r)) \<longleftrightarrow> o' = rq_origin r \<and> o' \<in> set (sv_allowed s)"
  by (auto simp: serve_identity_def Let_def)

text \<open>With the origins of the configuration: a website that is neither the project's, nor the development
  server, nor listed is refused.\<close>

lemma foreign_site_refused:
  assumes "start_api True i (webOrigins projectID site []) = Some s" and "rq_origin r \<noteq> ''http://localhost:9205''"
    and "rq_origin r \<noteq> ''http://127.0.0.1:9205''" and "\<And>p d. rq_origin r \<noteq> ''https://'' @ p @ d \<or> p \<notin> {projectID, trim_space site} \<or> d \<notin> {''.web.app'', ''.firebaseapp.com''}"
  shows "rs_status (serve_identity s r) = 403"
proof -
  have nil: "trim_space [] = []" by code_simp
  have "rq_origin r \<notin> set (webOrigins projectID site [])"
    using assms(2,3) assms(4)[of projectID "''.web.app''"] assms(4)[of projectID "''.firebaseapp.com''"]
      assms(4)[of "trim_space site" "''.web.app''"] assms(4)[of "trim_space site" "''.firebaseapp.com''"]
    by (auto simp: webOrigins_def Let_def nil)
  with assms(1) show ?thesis by (auto simp: start_api_def serve_identity_def)
qed

text \<open>A request without an Origin header, which no web page of the allow-list sends, is given the identity
  exactly when RC_WEB_ORIGINS has an entry that is nothing but slashes.\<close>

theorem empty_origin_allowed_iff:
  "rs_body (serve_identity \<lparr>sv_allowed = webOrigins projectID hostingSite extra, sv_id = i\<rparr> \<lparr>rq_method = ''GET'', rq_origin = []\<rparr>) = Some i
     \<longleftrightarrow> {CHR ''/''} \<in> (\<lambda>o'. set (trim_space o')) ` set (split_on (CHR '','') extra)"
  by (simp add: serve_identity_allowed empty_origin_listed)

end
