(* ===== verification/Agent.thy ===== *)
theory Agent
  imports Registrar LocalApi
begin

text \<open>
  The program \<open>cmd/host\<close>, around its sessions: publishing the computer under a fresh code, the heartbeat, and
  the replacement of a code whose requests nobody approves. The heartbeat and every replacement run on
  goroutines of their own, so the agent is a transition system whose steps are their calls on the database
  and their accesses to the shared code, mixed with the calls of other users in any order.
\<close>

section \<open>Codes\<close>

definition pairingCodeDigits :: nat where "pairingCodeDigits = 6"

text \<open>\<open>newPairingCode\<close>: the number \<open>rand.Int\<close> draws below \<open>10 ^ 6\<close>, or none if the system has no randomness.\<close>

definition newPairingCode :: "nat option \<Rightarrow> string option" where
  "newPairingCode draw = map_option (pad_decimal pairingCodeDigits) draw"

definition formatPairingCode :: "string \<Rightarrow> string" where
  "formatPairingCode code =
     (if length code \<noteq> pairingCodeDigits then code else take 3 code @ '' - '' @ drop 3 code)"

section \<open>Publishing\<close>

definition registerAttempts :: nat where "registerAttempts = 3"

datatype startup_err =
    NoRandomness
  | Unreachable rtdb_err
  | RegistrationDenied nat string rtdb_err
  | SignInFailed

datatype try_result = Published string | TryAgain | GiveUp startup_err

definition try_fresh :: "Registrar \<Rightarrow> Config \<Rightarrow> nat \<Rightarrow> nat option \<Rightarrow> call_env \<Rightarrow> hosts \<Rightarrow> try_result \<times> hosts" where
  "try_fresh g cfg attempt draw e db =
     (case newPairingCode draw of
        None \<Rightarrow> (GiveUp NoRandomness, db)
      | Some code \<Rightarrow>
          (case Register g e code (cf_HostName cfg) db of
             (Inr _, db') \<Rightarrow> (Published code, db')
           | (Inl err, db') \<Rightarrow>
               if \<not> IsPermissionDenied err then (GiveUp (Unreachable err), db')
               else if attempt < registerAttempts then (TryAgain, db')
               else (GiveUp (RegistrationDenied attempt (cf_ProjectID cfg) err), db')))"

text \<open>The loop; \<open>env n\<close> is what attempt \<open>n\<close> draws and how its call fares.\<close>

function registerWithFreshCode ::
  "Registrar \<Rightarrow> Config \<Rightarrow> (nat \<Rightarrow> nat option \<times> call_env) \<Rightarrow> nat \<Rightarrow> hosts \<Rightarrow> (startup_err + string) \<times> hosts" where
  "registerWithFreshCode g cfg env attempt db =
     (case try_fresh g cfg attempt (fst (env attempt)) (snd (env attempt)) db of
        (Published code, db') \<Rightarrow> (Inr code, db')
      | (GiveUp err, db') \<Rightarrow> (Inl err, db')
      | (TryAgain, db') \<Rightarrow> registerWithFreshCode g cfg env (Suc attempt) db')"
  by pat_completeness auto
termination
proof (relation "measure (\<lambda>(g, cfg, env, attempt, db). registerAttempts - attempt)", goal_cases)
  case (2 g cfg env attempt db)
  then show ?case
    by (auto simp: try_fresh_def split: option.splits sum.splits prod.splits if_splits)
qed simp

declare registerWithFreshCode.simps [simp del]

section \<open>What the operator is told\<close>

datatype notice =
    CodeTaken
  | NewCodeFailed int string
  | RotationError startup_err
  | OldNotRetired string
  | RetireError rtdb_err
  | CodeRetired int string
  | GiveNewCode
  | CodeLine string string
  | ShowCode string string
  | Banner string string
  | LostContact
  | BackInContact
  | HeartbeatError rtdb_err

definition announce :: "bool \<Rightarrow> string \<Rightarrow> string \<Rightarrow> notice list" where
  "announce win code site =
     (if \<not> win then [Banner (formatPairingCode code) site]
      else [CodeLine (formatPairingCode code) site, ShowCode (formatPairingCode code) site])"

section \<open>The agent\<close>

record agent_env =
  su_registrar :: Registrar
  su_cfg :: Config
  su_window :: bool

abbreviation su_uid :: "agent_env \<Rightarrow> string" where
  "su_uid su \<equiv> rg_ownerUID (su_registrar su)"

text \<open>One replacement of the code, with the streak it was called with and the code it read first.\<close>

datatype rotation =
    Picking int string nat
  | Switching int string string
  | Retiring int string string
  | Rotated

record agent =
  ag_code :: string
  ag_api :: "api_server option"
  ag_beating :: bool
  ag_beat :: "string option"
  ag_down :: bool
  ag_rots :: "rotation list"
  ag_notes :: "notice list"

definition tell :: "notice list \<Rightarrow> agent \<Rightarrow> agent" where
  "tell ns a = a\<lparr>ag_notes := ag_notes a @ ns\<rparr>"

definition set_rot :: "nat \<Rightarrow> rotation \<Rightarrow> agent \<Rightarrow> agent" where
  "set_rot i x a = a\<lparr>ag_rots := (ag_rots a)[i := x]\<rparr>"

text \<open>\<open>runHeartbeat\<close>: a tick reads the code, the call follows; \<open>ended\<close> is whether the agent is being shut down
  when the call returns.\<close>

definition beat_tick :: "agent \<Rightarrow> agent" where
  "beat_tick a = (if ag_beating a \<and> ag_beat a = None then a\<lparr>ag_beat := Some (ag_code a)\<rparr> else a)"

definition beat_result :: "bool \<Rightarrow> rtdb_err + string \<Rightarrow> agent \<Rightarrow> agent" where
  "beat_result ended r a =
     (if ended then a\<lparr>ag_beat := None, ag_beating := False\<rparr>
      else let b = a\<lparr>ag_beat := None\<rparr>
      in (case r of
            Inl err \<Rightarrow> if \<not> ag_down a then tell [LostContact, HeartbeatError err] (b\<lparr>ag_down := True\<rparr>)
                       else tell [HeartbeatError err] b
          | Inr _ \<Rightarrow> if ag_down a then tell [BackInContact] (b\<lparr>ag_down := False\<rparr>) else b))"

definition beat_call :: "agent_env \<Rightarrow> call_env \<Rightarrow> bool \<Rightarrow> agent \<times> hosts \<Rightarrow> agent \<times> hosts" where
  "beat_call su e ended s =
     (case s of (a, db) \<Rightarrow>
        (case ag_beat a of
           None \<Rightarrow> s
         | Some code \<Rightarrow> (case Heartbeat (su_registrar su) e code db of (r, db') \<Rightarrow> (beat_result ended r a, db'))))"

text \<open>\<open>rotateCode\<close>, on a goroutine of its own: it reads the code, publishes a fresh one, makes it the code of
  the heartbeat, of the endpoint and of the shutdown, and removes the record of the old one.\<close>

definition rot_start :: "int \<Rightarrow> agent \<Rightarrow> agent" where
  "rot_start streak a = a\<lparr>ag_rots := ag_rots a @ [Picking streak (ag_code a) 1]\<rparr>"

definition rot_try :: "agent_env \<Rightarrow> nat \<Rightarrow> nat option \<Rightarrow> call_env \<Rightarrow> agent \<times> hosts \<Rightarrow> agent \<times> hosts" where
  "rot_try su i draw e s =
     (case s of (a, db) \<Rightarrow>
        (case ag_rots a ! i of
           Picking streak old attempt \<Rightarrow>
             (case try_fresh (su_registrar su) (su_cfg su) attempt draw e db of
                (Published fresh, db') \<Rightarrow> (set_rot i (Switching streak old fresh) a, db')
              | (TryAgain, db') \<Rightarrow> (tell [CodeTaken] (set_rot i (Picking streak old (Suc attempt)) a), db')
              | (GiveUp err, db') \<Rightarrow> (tell [NewCodeFailed streak (formatPairingCode old), RotationError err] (set_rot i Rotated a), db'))
         | _ \<Rightarrow> s))"

definition rot_switch :: "agent_env \<Rightarrow> nat \<Rightarrow> agent \<Rightarrow> agent" where
  "rot_switch su i a =
     (case ag_rots a ! i of
        Switching streak old fresh \<Rightarrow>
          set_rot i (Retiring streak old fresh)
            (a\<lparr>ag_code := fresh,
               ag_api := map_option (update_api \<lparr>id_Code = fresh, id_Name = cf_HostName (su_cfg su), id_Version = rg_version (su_registrar su)\<rparr>) (ag_api a)\<rparr>)
      | _ \<Rightarrow> a)"

definition rot_retire :: "agent_env \<Rightarrow> nat \<Rightarrow> call_env \<Rightarrow> agent \<times> hosts \<Rightarrow> agent \<times> hosts" where
  "rot_retire su i e s =
     (case s of (a, db) \<Rightarrow>
        (case ag_rots a ! i of
           Retiring streak old fresh \<Rightarrow>
             (case Unregister (su_registrar su) e old db of
                (r, db') \<Rightarrow>
                  (tell ((case r of Inl err \<Rightarrow> [OldNotRetired (formatPairingCode old), RetireError err] | Inr _ \<Rightarrow> [])
                         @ [CodeRetired streak (formatPairingCode old), GiveNewCode]
                         @ announce (su_window su) fresh (SiteURL (su_cfg su)))
                     (set_rot i Rotated a), db'))
         | _ \<Rightarrow> s))"

datatype agent_ev =
    Others string call_env string string host_op
  | BeatTick
  | BeatCall call_env bool
  | Refused int
  | RotTry nat "nat option" call_env
  | RotSwitch nat
  | RotRetire nat call_env

fun agent_step :: "agent_env \<Rightarrow> agent_ev \<Rightarrow> agent \<times> hosts \<Rightarrow> agent \<times> hosts" where
  "agent_step su (Others uid e m code op) (a, db) = (a, snd (host_call (rg_rtdb (su_registrar su)) uid e m code op db))"
| "agent_step su BeatTick (a, db) = (beat_tick a, db)"
| "agent_step su (BeatCall e ended) s = beat_call su e ended s"
| "agent_step su (Refused streak) (a, db) = (rot_start streak a, db)"
| "agent_step su (RotTry i draw e) s = (if i < length (ag_rots (fst s)) then rot_try su i draw e s else s)"
| "agent_step su (RotSwitch i) (a, db) = (if i < length (ag_rots a) then (rot_switch su i a, db) else (a, db))"
| "agent_step su (RotRetire i e) s = (if i < length (ag_rots (fst s)) then rot_retire su i e s else s)"

definition agent_run :: "agent_env \<Rightarrow> agent_ev list \<Rightarrow> agent \<times> hosts \<Rightarrow> agent \<times> hosts" where
  "agent_run su evs s = fold (agent_step su) evs s"

definition agent_start :: "string \<Rightarrow> api_server option \<Rightarrow> agent" where
  "agent_start code api =
     \<lparr>ag_code = code, ag_api = api, ag_beating = True, ag_beat = None, ag_down = False, ag_rots = [], ag_notes = []\<rparr>"

section \<open>Facts about publishing\<close>

lemma newPairingCode_ok: "newPairingCode (Some n) = Some code \<Longrightarrow> n < 10 ^ 6 \<Longrightarrow> code_ok code"
  using pad_decimal_shape[of 6 n] by (auto simp: newPairingCode_def pairingCodeDigits_def code_ok_def)

lemma Register_Inr:
  assumes "Register g e code name db = (Inr b, db')"
  shows "db' = db(code \<mapsto> hostRecord g name (ce_now e)) \<and> host_write (rg_ownerUID g) (ce_now e) code (db code)"
  using host_call_Inr[OF assms[unfolded Register_def]] by (auto simp: host_apply_def split: if_splits)

lemma try_fresh_Published:
  assumes "try_fresh g cfg attempt draw e db = (Published code, db')"
  shows "newPairingCode draw = Some code \<and> db' = db(code \<mapsto> hostRecord g (cf_HostName cfg) (ce_now e))
    \<and> host_write (rg_ownerUID g) (ce_now e) code (db code)"
  using assms Register_Inr unfolding try_fresh_def
  by (fastforce split: option.splits prod.splits sum.splits if_splits)

lemma Register_db: "snd (Register g e code name db) = db \<or> host_apply (rg_ownerUID g) (ce_now e) code (SetRecord (hostRecord g name (ce_now e))) db = Some (snd (Register g e code name db))"
  using host_call_cases unfolding Register_def by (metis prod.collapse)

text \<open>Whatever its outcome, an attempt changes one record at most, to ours.\<close>

lemma try_fresh_db:
  assumes "try_fresh g cfg attempt draw e db = (r, db')"
  shows "db' = db \<or> (\<exists>code. newPairingCode draw = Some code \<and> db' = db(code \<mapsto> hostRecord g (cf_HostName cfg) (ce_now e))
    \<and> host_write (rg_ownerUID g) (ce_now e) code (db code))"
proof (cases "newPairingCode draw")
  case None
  with assms show ?thesis by (simp add: try_fresh_def)
next
  case (Some code)
  have "db' = snd (Register g e code (cf_HostName cfg) db)"
    using assms Some by (auto simp: try_fresh_def split: prod.splits sum.splits if_splits)
  with Register_db[of g e code "cf_HostName cfg" db] Some show ?thesis
    by (auto simp: host_apply_def split: if_splits)
qed

lemma registerWithFreshCode_Inr:
  assumes "registerWithFreshCode g cfg env attempt db = (Inr code, db')"
  shows "\<exists>n. newPairingCode (fst (env n)) = Some code \<and> db' code = Some (hostRecord g (cf_HostName cfg) (ce_now (snd (env n))))"
  using assms
proof (induction g cfg env attempt db rule: registerWithFreshCode.induct)
  case (1 g cfg env attempt db)
  obtain r db1 where t: "try_fresh g cfg attempt (fst (env attempt)) (snd (env attempt)) db = (r, db1)" by fastforce
  show ?case
  proof (cases r)
    case (Published c)
    with 1(2) t have "c = code" "db' = db1" by (simp_all add: registerWithFreshCode.simps[of g cfg env attempt db])
    with try_fresh_Published[OF t[unfolded Published]] show ?thesis by auto
  next
    case TryAgain
    with 1(2) t have "registerWithFreshCode g cfg env (Suc attempt) db1 = (Inr code, db')"
      by (simp add: registerWithFreshCode.simps[of g cfg env attempt db])
    from 1(1)[OF t[symmetric] TryAgain this] show ?thesis .
  next
    case (GiveUp err)
    with 1(2) t show ?thesis by (simp add: registerWithFreshCode.simps[of g cfg env attempt db])
  qed
qed

text \<open>Nobody's live record is changed, whatever is drawn and however the calls fare.\<close>

lemma try_fresh_keeps:
  assumes "try_fresh g cfg attempt draw e db = (r, db')" and "db c = Some x" and "hr_owner x \<noteq> rg_ownerUID g"
    and "ce_now e - 300000 \<le> hr_lastSeen x"
  shows "db' c = Some x"
  using try_fresh_db[OF assms(1)] assms(2-4) by (auto simp: host_write_def)

lemma registerWithFreshCode_keeps:
  assumes "registerWithFreshCode g cfg env attempt db = (r, db')" and "db c = Some x" and "hr_owner x \<noteq> rg_ownerUID g"
    and "\<And>n. ce_now (snd (env n)) - 300000 \<le> hr_lastSeen x"
  shows "db' c = Some x"
  using assms
proof (induction g cfg env attempt db rule: registerWithFreshCode.induct)
  case (1 g cfg env attempt db)
  obtain q db1 where t: "try_fresh g cfg attempt (fst (env attempt)) (snd (env attempt)) db = (q, db1)" by fastforce
  have k: "db1 c = Some x" by (rule try_fresh_keeps[OF t 1(3,4)]) (rule 1(5))
  have u: "registerWithFreshCode g cfg env attempt db = (case q of Published code \<Rightarrow> (Inr code, db1) | GiveUp err \<Rightarrow> (Inl err, db1)
      | TryAgain \<Rightarrow> registerWithFreshCode g cfg env (Suc attempt) db1)"
    by (simp add: registerWithFreshCode.simps[of g cfg env attempt db] t split: try_result.split)
  show ?case using 1(2) k 1(1)[OF t[symmetric] _ _ k 1(4,5)] by (auto simp: u split: try_result.splits)
qed

text \<open>C27: publishing under a fresh code never touches a record another agent keeps alive, whatever is drawn
  and however the calls fare; and when it reports a code, that code is six digits and the database holds this
  agent's record under it.\<close>

theorem fresh_code_takes_no_live_record:
  assumes "registerWithFreshCode g cfg env 1 db = (r, db')" and "\<And>n k. fst (env n) = Some k \<Longrightarrow> k < 10 ^ 6"
    and "\<And>n. ce_now (snd (env n)) \<le> now"
  shows "(\<forall>c x. db c = Some x \<and> hr_owner x \<noteq> rg_ownerUID g \<and> now - 300000 \<le> hr_lastSeen x \<longrightarrow> db' c = Some x)
    \<and> (\<forall>code. r = Inr code \<longrightarrow> code_ok code \<and> (\<exists>t. db' code = Some (hostRecord g (cf_HostName cfg) t)))"
proof (intro conjI allI impI)
  fix c x
  assume x: "db c = Some x \<and> hr_owner x \<noteq> rg_ownerUID g \<and> now - 300000 \<le> hr_lastSeen x"
  have "ce_now (snd (env n)) - 300000 \<le> hr_lastSeen x" for n using x assms(3)[of n] by linarith
  with registerWithFreshCode_keeps[OF assms(1)] x show "db' c = Some x" by blast
next
  fix code
  assume "r = Inr code"
  then have r: "registerWithFreshCode g cfg env 1 db = (Inr code, db')" using assms(1) by simp
  then obtain n where n: "newPairingCode (fst (env n)) = Some code" "db' code = Some (hostRecord g (cf_HostName cfg) (ce_now (snd (env n))))"
    using registerWithFreshCode_Inr by blast
  then obtain k where k: "fst (env n) = Some k" by (auto simp: newPairingCode_def)
  with n(1) newPairingCode_ok assms(2)[OF k] show "code_ok code" by simp
  show "\<exists>t. db' code = Some (hostRecord g (cf_HostName cfg) t)" using n(2) by blast
qed

definition ex_rtdb :: RTDB where "ex_rtdb = \<lparr>db_baseURL = ''https://x'', db_namespace = []\<rparr>"
definition ex_reg :: Registrar where "ex_reg = \<lparr>rg_rtdb = ex_rtdb, rg_ownerUID = ''me'', rg_version = ''1.0''\<rparr>"

definition ex_cfg :: Config where
  "ex_cfg = \<lparr>cf_APIKey = ''k'', cf_ProjectID = ''p'', cf_DatabaseURL = ''https://x'', cf_DatabaseNamespace = [], cf_HostName = ''pc'',
     cf_LocalAPIPort = 47800, cf_UDPPort = 47801, cf_Diagnostics = False, cf_MaxWidth = 1920, cf_ApprovalMode = ''auto'',
     cf_ClipboardMode = ''on'', cf_HostingSite = [], cf_UpdateCheck = False, cf_GitHubRepo = [], cf_WebOrigins = [],
     cf_HeartbeatInterval = 30 * second, cf_AuthBaseURL = [], cf_TokenBaseURL = []\<rparr>"

definition ex_call :: "int \<Rightarrow> call_env" where
  "ex_call t = \<lparr>ce_token = Some ''tok'', ce_now = t, ce_fate = Reached\<rparr>"

definition ex_taken :: host_rec where
  "ex_taken = \<lparr>hr_owner = ''you'', hr_name = ''x'', hr_version = None, hr_lastSeen = 900000\<rparr>"

text \<open>The first code drawn is taken, the second is free.\<close>

lemma ex_codes: "newPairingCode (Some 1) = Some ''000001''" "newPairingCode (Some 2) = Some ''000002''"
    "code_ok ''000001''" "code_ok ''000002''" "utf16_len ''pc'' = 2" "utf16_len ''1.0'' = 3"
  by code_simp+

lemma ex_zero: "code_ok ''000000''"
  by code_simp

lemmas ex_agent_defs = ex_reg_def ex_rtdb_def ex_cfg_def ex_call_def ex_taken_def hostRecord_def host_validate_def host_write_def
  host_apply_def host_call_def Register_def Heartbeat_def Unregister_def IsPermissionDenied_def

lemma ex_try_taken: "try_fresh ex_reg ex_cfg (Suc 0) (Some (Suc 0)) (ex_call 1000000) [''000001'' \<mapsto> ex_taken] = (TryAgain, [''000001'' \<mapsto> ex_taken])"
  using ex_codes by (simp add: try_fresh_def ex_agent_defs registerAttempts_def)

lemma ex_try_free: "try_fresh ex_reg ex_cfg (Suc (Suc 0)) (Some (Suc (Suc 0))) (ex_call 1000000) [''000001'' \<mapsto> ex_taken] =
    (Published ''000002'', [''000001'' \<mapsto> ex_taken, ''000002'' \<mapsto> hostRecord ex_reg ''pc'' 1000000])"
  using ex_codes by (simp add: try_fresh_def ex_agent_defs numeral_2_eq_2)

lemma ex_fresh: "registerWithFreshCode ex_reg ex_cfg (\<lambda>n. (Some n, ex_call 1000000)) 1 [''000001'' \<mapsto> ex_taken] =
    (Inr ''000002'', [''000001'' \<mapsto> ex_taken, ''000002'' \<mapsto> hostRecord ex_reg ''pc'' 1000000])"
  by (simp add: registerWithFreshCode.simps ex_try_taken ex_try_free)

lemma fresh_code_takes_no_live_record_witness:
  "\<exists>db'. registerWithFreshCode ex_reg ex_cfg (\<lambda>n. (if n < 10 then Some n else None, ex_call 1000000)) 1 [''000001'' \<mapsto> ex_taken] = (Inr ''000002'', db')
     \<and> db' ''000001'' = Some ex_taken"
proof -
  let ?env = "\<lambda>n. (if n < 10 then Some n else None, ex_call 1000000)"
  have e: "registerWithFreshCode ex_reg ex_cfg ?env 1 [''000001'' \<mapsto> ex_taken] =
    (Inr ''000002'', [''000001'' \<mapsto> ex_taken, ''000002'' \<mapsto> hostRecord ex_reg ''pc'' 1000000])"
    by (simp add: registerWithFreshCode.simps ex_try_taken ex_try_free)
  have "[''000001'' \<mapsto> ex_taken, ''000002'' \<mapsto> hostRecord ex_reg ''pc'' 1000000] ''000001'' = Some ex_taken"
    using fresh_code_takes_no_live_record[OF e, of 1000000] by (simp add: ex_call_def ex_taken_def ex_reg_def)
  with e show ?thesis by blast
qed

section \<open>Keeping the code\<close>

definition ours :: "agent_env \<Rightarrow> agent \<times> hosts \<Rightarrow> bool" where
  "ours su s \<longleftrightarrow> (case snd s (ag_code (fst s)) of None \<Rightarrow> False | Some r \<Rightarrow> hr_owner r = su_uid su)"

lemma tell_sel [simp]: "ag_code (tell ns a) = ag_code a" "ag_rots (tell ns a) = ag_rots a" "ag_beat (tell ns a) = ag_beat a"
  "ag_down (tell ns a) = ag_down a" "ag_notes (tell ns a) = ag_notes a @ ns" "ag_api (tell ns a) = ag_api a"
  by (simp_all add: tell_def)

lemma set_rot_sel [simp]: "ag_code (set_rot i x a) = ag_code a" "ag_rots (set_rot i x a) = (ag_rots a)[i := x]" "ag_beat (set_rot i x a) = ag_beat a"
  "ag_down (set_rot i x a) = ag_down a" "ag_notes (set_rot i x a) = ag_notes a" "ag_api (set_rot i x a) = ag_api a"
  by (simp_all add: set_rot_def)

lemma beat_sel [simp]: "ag_code (beat_result ended r a) = ag_code a" "ag_rots (beat_result ended r a) = ag_rots a"
  "ag_code (beat_tick a) = ag_code a" "ag_rots (beat_tick a) = ag_rots a" "ag_beat (beat_result ended r a) = None"
  by (simp_all add: beat_result_def beat_tick_def Let_def split: sum.split)

text \<open>A heartbeat changes no owner and makes no record.\<close>

lemma Heartbeat_db:
  assumes "Heartbeat g e code db = (r, db')"
  shows "map_option hr_owner (db' c) = map_option hr_owner (db c)"
  using host_call_cases[OF assms[unfolded Heartbeat_def]]
  by (auto simp: host_apply_def split: if_splits option.splits)

lemma ours_owner: "ours su s \<longleftrightarrow> map_option hr_owner (snd s (ag_code (fst s))) = Some (su_uid su)"
  by (auto simp: ours_def split: option.split)

lemma beat_call_owner:
  "ag_code (fst (beat_call su e ended (a, db))) = ag_code a"
  "map_option hr_owner (snd (beat_call su e ended (a, db)) c) = map_option hr_owner (db c)"
proof -
  show "ag_code (fst (beat_call su e ended (a, db))) = ag_code a" by (simp add: beat_call_def split: option.split prod.split)
  show "map_option hr_owner (snd (beat_call su e ended (a, db)) c) = map_option hr_owner (db c)"
  proof (cases "ag_beat a")
    case (Some code)
    obtain r db' where h: "Heartbeat (su_registrar su) e code db = (r, db')" by fastforce
    with Heartbeat_db[OF h] show ?thesis by (simp add: beat_call_def Some)
  qed (simp add: beat_call_def)
qed

lemma rot_try_db:
  assumes "rot_try su i draw e (a, db) = (a', db')"
  shows "ag_code a' = ag_code a" and "db' c = db c \<or> map_option hr_owner (db' c) = Some (su_uid su)"
proof -
  show "ag_code a' = ag_code a" using assms by (auto simp: rot_try_def split: rotation.splits prod.splits try_result.splits)
  show "db' c = db c \<or> map_option hr_owner (db' c) = Some (su_uid su)"
  proof (cases "ag_rots a ! i")
    case (Picking streak old attempt)
    obtain q d where q: "try_fresh (su_registrar su) (su_cfg su) attempt draw e db = (q, d)" by fastforce
    with assms Picking have "db' = d" by (auto simp: rot_try_def split: try_result.splits)
    with try_fresh_db[OF q] show ?thesis by (auto simp: hostRecord_def)
  qed (use assms in \<open>auto simp: rot_try_def\<close>)
qed

lemma rot_retire_db:
  assumes "rot_retire su i e (a, db) = (a', db')"
  shows "ag_code a' = ag_code a" and "\<forall>streak old fresh. ag_rots a ! i = Retiring streak old fresh \<longrightarrow> (\<forall>c. c \<noteq> old \<longrightarrow> db' c = db c)"
    and "\<forall>streak old fresh. ag_rots a ! i \<noteq> Retiring streak old fresh \<Longrightarrow> db' = db"
proof -
  show "ag_code a' = ag_code a" using assms by (auto simp: rot_retire_def split: rotation.splits prod.splits)
  show "\<forall>streak old fresh. ag_rots a ! i = Retiring streak old fresh \<longrightarrow> (\<forall>c. c \<noteq> old \<longrightarrow> db' c = db c)"
  proof (intro allI impI)
    fix streak old fresh c
    assume "ag_rots a ! i = Retiring streak old fresh" and "c \<noteq> old"
    with assms show "db' c = db c" using host_call_other[of c old "rg_rtdb (su_registrar su)" "su_uid su" e "''DELETE''" RemoveRecord db]
      by (auto simp: rot_retire_def Unregister_def split: prod.splits)
  qed
  assume "\<forall>streak old fresh. ag_rots a ! i \<noteq> Retiring streak old fresh"
  with assms show "db' = db" by (auto simp: rot_retire_def split: rotation.splits)
qed

text \<open>C28: the agent can lose the code it is published under in three ways only: another user took or removed a
  record that had not been refreshed for more than five minutes; a replacement switched to a fresh code whose
  record was lost before; or a replacement removed the record of its old code after that code had become the
  current one again.\<close>

theorem code_lost_only_when:
  assumes "ours su s" and "\<not> ours su (agent_step su ev s)" and "\<And>uid e m code op. ev = Others uid e m code op \<Longrightarrow> uid \<noteq> su_uid su"
  shows "(\<exists>uid e m op r. ev = Others uid e m (ag_code (fst s)) op \<and> snd s (ag_code (fst s)) = Some r \<and> hr_lastSeen r < ce_now e - 300000)
    \<or> (\<exists>i streak old fresh. ev = RotSwitch i \<and> ag_rots (fst s) ! i = Switching streak old fresh \<and> fresh \<noteq> ag_code (fst s))
    \<or> (\<exists>i e streak fresh. ev = RotRetire i e \<and> ag_rots (fst s) ! i = Retiring streak (ag_code (fst s)) fresh)"
proof -
  obtain a db where s: "s = (a, db)" by fastforce
  obtain r where r: "db (ag_code a) = Some r" "hr_owner r = su_uid su" using assms(1) by (auto simp: ours_def s split: option.splits)
  show ?thesis
  proof (cases ev)
    case (Others uid e m code op)
    have u: "uid \<noteq> su_uid su" by (rule assms(3)[OF Others])
    let ?d = "snd (host_call (rg_rtdb (su_registrar su)) uid e m code op db)"
    have lost: "?d (ag_code a) \<noteq> Some r" using assms(2) r by (auto simp: Others s ours_def)
    have c: "code = ag_code a" using host_call_other[of "ag_code a" code] lost r(1) by metis
    have "\<not> ce_now e - 300000 \<le> hr_lastSeen r" using host_call_owned[of db "ag_code a" r uid e "rg_rtdb (su_registrar su)" m code op] u r lost by auto
    then show ?thesis using r(1) by (auto simp: Others c s)
  next
    case BeatTick
    with assms(2) r show ?thesis by (simp add: s ours_def)
  next
    case (BeatCall e ended)
    with assms(1,2) beat_call_owner[of su e ended a db] show ?thesis by (simp add: ours_owner s)
  next
    case (Refused streak)
    with assms(2) r show ?thesis by (simp add: s ours_def rot_start_def)
  next
    case (RotTry i draw e)
    obtain a' db' where t: "rot_try su i draw e (a, db) = (a', db')" by fastforce
    have "ours su (a', db')" using rot_try_db(1)[OF t] rot_try_db(2)[OF t, of "ag_code a"] r by (auto simp: ours_def split: option.split)
    with assms t show ?thesis by (auto simp: RotTry s split: if_splits)
  next
    case (RotSwitch i)
    show ?thesis
    proof (cases "ag_rots a ! i")
      case (Switching streak old fresh)
      have "fresh \<noteq> ag_code a" using assms(2) r by (auto simp: RotSwitch s ours_def rot_switch_def Switching split: if_splits)
      then show ?thesis using Switching by (auto simp: RotSwitch s)
    qed (use assms(2) r in \<open>auto simp: RotSwitch s ours_def rot_switch_def split: if_splits\<close>)
  next
    case (RotRetire i e)
    obtain a' db' where t: "rot_retire su i e (a, db) = (a', db')" by fastforce
    note d = rot_retire_db[OF t]
    have l: "\<not> ours su (a', db')" using assms t by (auto simp: RotRetire s split: if_splits)
    then have "db' (ag_code a) \<noteq> db (ag_code a)" using d(1) r by (auto simp: ours_def)
    with d(2,3) show ?thesis by (auto simp: RotRetire s) metis
  qed
qed

lemma code_lost_only_when_witness:
  "\<not> ours \<lparr>su_registrar = ex_reg, su_cfg = ex_cfg, su_window = False\<rparr>
     (agent_step \<lparr>su_registrar = ex_reg, su_cfg = ex_cfg, su_window = False\<rparr>
       (Others ''you'' (ex_call 1400001) ''DELETE'' ''000001'' RemoveRecord)
       (agent_start ''000001'' None, [''000001'' \<mapsto> hostRecord ex_reg ''pc'' 1100000]))
   \<and> hr_lastSeen (hostRecord ex_reg ''pc'' 1100000) < ce_now (ex_call 1400001) - 300000"
  (is "\<not> ours ?su (agent_step ?su ?ev ?s) \<and> _")
proof -
  have "code_ok ''000001''" by (rule ex_codes)
  then have l: "\<not> ours ?su (agent_step ?su ?ev ?s)"
    by (simp add: ours_def agent_start_def ex_agent_defs)
  have o: "ours ?su ?s" by (simp add: ours_def agent_start_def hostRecord_def)
  from code_lost_only_when[OF o l] have "hr_lastSeen (hostRecord ex_reg ''pc'' 1100000) < ce_now (ex_call 1400001) - 300000"
    by (auto simp: agent_start_def ex_reg_def)
  with l show ?thesis ..
qed

text \<open>What can happen besides the replacement of the code.\<close>

definition not_replacing :: "agent_env \<Rightarrow> agent_ev \<Rightarrow> bool" where
  "not_replacing su ev \<longleftrightarrow>
     (case ev of Others uid e m code op \<Rightarrow> uid \<noteq> su_uid su | RotTry i draw e \<Rightarrow> False | RotSwitch i \<Rightarrow> False | _ \<Rightarrow> True)"

lemma others_owner:
  assumes "uid \<noteq> me" and "map_option hr_owner (db c) \<noteq> Some me"
  shows "map_option hr_owner (snd (host_call rt uid e m code op db) c) \<noteq> Some me"
proof -
  obtain x db' where h: "host_call rt uid e m code op db = (x, db')" by fastforce
  have "map_option hr_owner (db' c) \<noteq> Some me"
    using host_call_cases[OF h] assms by (auto simp: host_apply_def host_validate_def split: if_splits host_op.splits option.splits)
  then show ?thesis by (simp add: h)
qed


lemma Unregister_db: "snd (Unregister g e c db) = db \<or> snd (Unregister g e c db) c = None"
proof -
  obtain r db' where u: "Unregister g e c db = (r, db')" by fastforce
  from host_call_cases[OF u[unfolded Unregister_def]] show ?thesis by (auto simp: u host_apply_def split: if_splits)
qed

lemma not_replacing_step:
  assumes "\<not> ours su s" and "not_replacing su ev"
  shows "\<not> ours su (agent_step su ev s)"
proof -
  obtain a db where s: "s = (a, db)" by fastforce
  have n: "map_option hr_owner (db (ag_code a)) \<noteq> Some (su_uid su)" using assms(1) by (simp add: ours_owner s)
  show ?thesis
  proof (cases ev)
    case (Others uid e m code op)
    with assms(2) have "uid \<noteq> su_uid su" by (simp add: not_replacing_def)
    with n show ?thesis using others_owner[of uid "su_uid su" db "ag_code a"] by (simp add: Others s ours_owner)
  next
    case (BeatCall e ended)
    then show ?thesis using n beat_call_owner[of su e ended a db] by (simp add: s ours_owner)
  next
    case (RotRetire i e)
    obtain a' db' where t: "rot_retire su i e (a, db) = (a', db')" by fastforce
    have "map_option hr_owner (db' (ag_code a)) \<noteq> Some (su_uid su)"
    proof (cases "ag_rots a ! i")
      case (Retiring streak old fresh)
      show ?thesis
      proof (cases "ag_code a = old")
        case False
        with rot_retire_db(2)[OF t] Retiring n show ?thesis by simp
      next
        case True
        have "db' = snd (Unregister (su_registrar su) e old db)" using t Retiring by (auto simp: rot_retire_def split: prod.splits)
        with Unregister_db[of "su_registrar su" e old db] have "db' = db \<or> db' old = None" by simp
        with n True show ?thesis by auto
      qed
    qed (use rot_retire_db(3)[OF t] n in simp_all)
    with t rot_retire_db(1)[OF t] n show ?thesis by (auto simp: RotRetire s ours_owner)
  qed (use assms(2) n in \<open>simp_all add: s ours_owner not_replacing_def rot_start_def\<close>)
qed

text \<open>C29: once its record is gone (a computer that slept for more than five minutes, whose code somebody tried),
  nothing but a replacement of the code publishes the agent again: however many heartbeats follow and whatever
  else happens, it shows a code that leads nowhere.\<close>

theorem heartbeat_cannot_restore:
  assumes "\<not> ours su s" and "list_all (not_replacing su) evs"
  shows "\<not> ours su (agent_run su evs s)"
  using assms by (induction evs arbitrary: s) (simp_all add: agent_run_def not_replacing_step)

lemma heartbeat_cannot_restore_witness:
  "\<not> ours \<lparr>su_registrar = ex_reg, su_cfg = ex_cfg, su_window = False\<rparr>
     (agent_run \<lparr>su_registrar = ex_reg, su_cfg = ex_cfg, su_window = False\<rparr>
       [Others ''you'' (ex_call 1400001) ''DELETE'' ''000001'' RemoveRecord, BeatTick, BeatCall (ex_call 1430000) False]
       (agent_start ''000001'' None, Map.empty))"
  by (rule heartbeat_cannot_restore) (simp_all add: ours_def not_replacing_def ex_reg_def)

section \<open>A whole replacement\<close>

definition rotateCode ::
  "agent_env \<Rightarrow> int \<Rightarrow> (nat \<Rightarrow> nat option \<times> call_env) \<Rightarrow> call_env \<Rightarrow> agent \<times> hosts \<Rightarrow> agent \<times> hosts" where
  "rotateCode su streak env e s =
     (case s of (a, db) \<Rightarrow>
        (case registerWithFreshCode (su_registrar su) (su_cfg su) env 1 db of
           (Inl err, db1) \<Rightarrow> (tell [NewCodeFailed streak (formatPairingCode (ag_code a)), RotationError err] a, db1)
         | (Inr fresh, db1) \<Rightarrow>
             (case Unregister (su_registrar su) e (ag_code a) db1 of
                (r, db2) \<Rightarrow>
                  (tell ((case r of Inl err \<Rightarrow> [OldNotRetired (formatPairingCode (ag_code a)), RetireError err] | Inr _ \<Rightarrow> [])
                         @ [CodeRetired streak (formatPairingCode (ag_code a)), GiveNewCode]
                         @ announce (su_window su) fresh (SiteURL (su_cfg su)))
                     (a\<lparr>ag_code := fresh,
                        ag_api := map_option (update_api \<lparr>id_Code = fresh, id_Name = cf_HostName (su_cfg su),
                                                          id_Version = rg_version (su_registrar su)\<rparr>) (ag_api a)\<rparr>), db2))))"

text \<open>A replacement whose calls all reach the database leaves the computer published under its new code
  unless the code drawn was the old one again: then it removes the record it has just written.\<close>

theorem rotation_keeps_code_iff:
  assumes "registerWithFreshCode (su_registrar su) (su_cfg su) env 1 (snd s) = (Inr fresh, db1)"
    and "ce_token e = Some tok" and "ce_fate e = Reached" and "code_ok fresh"
  shows "ours su (rotateCode su streak env e s) \<longleftrightarrow> fresh \<noteq> ag_code (fst s)"
proof -
  obtain a db where s: "s = (a, db)" by fastforce
  obtain r db2 where u: "Unregister (su_registrar su) e (ag_code a) db1 = (r, db2)" by fastforce
  have m: "map_option hr_owner (db1 fresh) = Some (su_uid su)"
    using registerWithFreshCode_Inr[OF assms(1)] by (auto simp: hostRecord_def)
  have "ours su (rotateCode su streak env e s) \<longleftrightarrow> map_option hr_owner (db2 fresh) = Some (su_uid su)"
    using assms(1) u by (simp add: ours_owner rotateCode_def s)
  also have "\<dots> \<longleftrightarrow> fresh \<noteq> ag_code a"
  proof (cases "fresh = ag_code a")
    case True
    have "host_apply (su_uid su) (ce_now e) (ag_code a) RemoveRecord db1 = Some (db1(ag_code a := None))"
      using m True assms(4) by (auto simp: host_apply_def host_write_def split: option.split)
    with host_call_ok[OF assms(2,3)] u have "db2 = db1(ag_code a := None)" by (simp add: Unregister_def)
    with True show ?thesis by simp
  next
    case False
    with host_call_other[of fresh "ag_code a"] u have "db2 fresh = db1 fresh" unfolding Unregister_def by (metis snd_conv)
    with m False show ?thesis by simp
  qed
  finally show ?thesis by (simp add: s)
qed

lemma rotation_keeps_code_iff_witness:
  "\<not> ours \<lparr>su_registrar = ex_reg, su_cfg = ex_cfg, su_window = False\<rparr>
     (rotateCode \<lparr>su_registrar = ex_reg, su_cfg = ex_cfg, su_window = False\<rparr> 3 (\<lambda>n. (Some n, ex_call 1000000)) (ex_call 1000001)
       (agent_start ''000002'' None, [''000001'' \<mapsto> ex_taken]))"
proof -
  let ?su = "\<lparr>su_registrar = ex_reg, su_cfg = ex_cfg, su_window = False\<rparr>"
  have "registerWithFreshCode (su_registrar ?su) (su_cfg ?su) (\<lambda>n. (Some n, ex_call 1000000)) 1 (snd (agent_start ''000002'' None, [''000001'' \<mapsto> ex_taken])) =
    (Inr ''000002'', [''000001'' \<mapsto> ex_taken, ''000002'' \<mapsto> hostRecord ex_reg ''pc'' 1000000])" using ex_fresh by simp
  from rotation_keeps_code_iff[OF this, of "ex_call 1000001" "''tok''" 3] ex_codes(4) show ?thesis
    by (simp add: ex_call_def agent_start_def)
qed

section \<open>Two replacements at once\<close>

text \<open>Nothing keeps two replacements apart. Both remove the code they started from, and the fresh code of the
  one that switches first stays published, refreshed and withdrawn by nobody.\<close>

definition ex_su :: agent_env where "ex_su = \<lparr>su_registrar = ex_reg, su_cfg = ex_cfg, su_window = False\<rparr>"

definition ex_overlap :: "agent_ev list" where
  "ex_overlap = [Refused 3, Refused 3, RotTry 0 (Some 1) (ex_call 1000000), RotTry 1 (Some 2) (ex_call 1000000), RotSwitch 0, RotSwitch 1,
     RotRetire 0 (ex_call 1000001), RotRetire 1 (ex_call 1000002)]"

lemma overlapping_replacements:
  assumes "agent_run ex_su ex_overlap (agent_start ''000000'' None, [''000000'' \<mapsto> hostRecord ex_reg ''pc'' 999999]) = (a, db)"
  shows "ag_code a = ''000002''" and "ag_rots a = [Rotated, Rotated]"
    and "db = [''000001'' \<mapsto> hostRecord ex_reg ''pc'' 1000000, ''000002'' \<mapsto> hostRecord ex_reg ''pc'' 1000000]"
  using assms ex_codes by (auto simp: agent_run_def ex_overlap_def ex_su_def agent_start_def rot_start_def rot_try_def try_fresh_def
      rot_switch_def rot_retire_def ex_agent_defs ex_zero)

section \<open>What the operator hears of the heartbeat\<close>

definition contact :: "notice list \<Rightarrow> notice list" where
  "contact ns = filter (\<lambda>x. x = LostContact \<or> x = BackInContact) ns"

fun alternates :: "bool \<Rightarrow> notice list \<Rightarrow> bool" where
  "alternates down [] = True"
| "alternates down (x # xs) = (x = (if down then BackInContact else LostContact) \<and> alternates (\<not> down) xs)"

lemma alternates_append: "alternates d (xs @ ys) \<longleftrightarrow> alternates d xs \<and> alternates (d \<noteq> odd (length xs)) ys"
  by (induction xs arbitrary: d) auto

definition contact_inv :: "agent \<Rightarrow> bool" where
  "contact_inv a \<longleftrightarrow> alternates False (contact (ag_notes a)) \<and> (ag_down a \<longleftrightarrow> odd (length (contact (ag_notes a))))"

lemma contact_simps [simp]: "contact (xs @ ys) = contact xs @ contact ys" "contact [] = []"
  by (simp_all add: contact_def)

lemma contact_other: "contact (CodeRetired k c' # GiveNewCode # announce w c u) = []" "contact (OldNotRetired d # RetireError err # ns) = contact ns"
  by (simp_all add: contact_def announce_def)

lemma contact_quiet: "ag_notes b = ag_notes a @ ns \<Longrightarrow> contact ns = [] \<Longrightarrow> ag_down b = ag_down a \<Longrightarrow> contact_inv a \<Longrightarrow> contact_inv b"
  by (simp add: contact_inv_def)

lemma contact_beat: "contact_inv a \<Longrightarrow> contact_inv (beat_result ended r a)"
  by (auto simp: beat_result_def Let_def contact_inv_def contact_def alternates_append split: sum.split)

lemma contact_step: "contact_inv (fst s) \<Longrightarrow> contact_inv (fst (agent_step su ev s))"
proof -
  assume i: "contact_inv (fst s)"
  obtain a db where s: "s = (a, db)" by fastforce
  show ?thesis
  proof (cases ev)
    case (BeatCall e ended)
    with i show ?thesis by (auto simp: s beat_call_def contact_beat split: option.split prod.split)
  next
    case (RotTry j draw e)
    show ?thesis using i
      by (auto simp: s RotTry rot_try_def contact_def intro!: contact_quiet[of _ a] split: rotation.split prod.split try_result.split)
  next
    case (RotRetire j e)
    show ?thesis using i
      by (auto simp: s RotRetire rot_retire_def contact_other intro!: contact_quiet[of _ a] split: rotation.split prod.split sum.split)
  qed (use i in \<open>auto simp: s beat_tick_def rot_start_def rot_switch_def contact_inv_def split: rotation.split\<close>)
qed

text \<open>The operator hears once that contact is lost and once that it is back, in turn.\<close>

lemma contact_reported_in_turn:
  "contact_inv (fst s) \<Longrightarrow> contact_inv (fst (agent_run su evs s))"
  by (induction evs arbitrary: s) (simp_all add: agent_run_def contact_step)

end
