(* ===== verification/Auth.thy ===== *)
theory Auth
  imports Firebase Strconv Floats Utf8
begin

text \<open>
  Package \<open>auth\<close>: the anonymous sign-in, the refresh of its token, and what a rejected request tells the
  operator. A response is an argument: none, or its status and body, and \<open>parse\<close> is what a text stands for as
  JSON. Times are nanoseconds.
\<close>

section \<open>Durations\<close>

text \<open>\<open>time.ParseDuration\<close>: an optional sign, then numbers with an optional fraction and a unit.\<close>

definition max_u63 :: int where "max_u63 = 9223372036854775808"

fun leading_int :: "int \<Rightarrow> string \<Rightarrow> (int \<times> string) option" where
  "leading_int x [] = Some (x, [])"
| "leading_int x (c # s) =
     (if \<not> is_digit c then Some (x, c # s)
      else if max_u63 div 10 < x then None
      else let y = 10 * x + (byte c - 48) in if max_u63 < y then None else leading_int y s)"

fun leading_fraction :: "int \<Rightarrow> int \<Rightarrow> bool \<Rightarrow> string \<Rightarrow> int \<times> int \<times> string" where
  "leading_fraction x scale overflow [] = (x, scale, [])"
| "leading_fraction x scale overflow (c # s) =
     (if \<not> is_digit c then (x, scale, c # s)
      else if overflow \<or> (max_u63 - 1) div 10 < x then leading_fraction x scale True s
      else let y = 10 * x + (byte c - 48)
      in if max_u63 < y then leading_fraction x scale True s else leading_fraction y (10 * scale) False s)"

definition duration_unit :: "string \<Rightarrow> int option" where
  "duration_unit u =
     (if u = ''ns'' then Some 1
      else if u \<in> {''us'', [CHR 0xC2, CHR 0xB5, CHR ''s''], [CHR 0xCE, CHR 0xBC, CHR ''s'']} then Some 1000
      else if u = ''ms'' then Some 1000000
      else if u = ''s'' then Some 1000000000
      else if u = ''m'' then Some 60000000000
      else if u = ''h'' then Some 3600000000000
      else None)"

definition unit_end :: "char \<Rightarrow> bool" where
  "unit_end c \<longleftrightarrow> c = CHR ''.'' \<or> is_digit c"

text \<open>One number with its unit, added to \<open>d\<close>; the products of the fraction are \<open>float64\<close>.\<close>

definition duration_part :: "int \<Rightarrow> string \<Rightarrow> (int \<times> string) option" where
  "duration_part d s =
     (if s = [] \<or> \<not> unit_end (hd s) then None
      else (case leading_int 0 s of
              None \<Rightarrow> None
            | Some (v, s1) \<Rightarrow>
                (let pre = length s1 \<noteq> length s;
                     dot = (s1 \<noteq> [] \<and> hd s1 = CHR ''.'');
                     (f, scale, s2) = (if dot then leading_fraction 0 1 False (tl s1) else (0, 1, s1));
                     post = (dot \<and> length s2 \<noteq> length s1 - 1);
                     u = takeWhile (\<lambda>c. \<not> unit_end c) s2;
                     s3 = drop (length u) s2
                 in if \<not> pre \<and> \<not> post \<or> u = [] then None
                    else (case duration_unit u of
                            None \<Rightarrow> None
                          | Some n \<Rightarrow>
                              if max_u63 div n < v then None
                              else let w = v * n + (if 0 < f then \<lfloor>f64_round (f64_round (of_int f) * f64_round (of_int n / of_int scale))\<rfloor> else 0)
                              in if max_u63 < w \<or> max_u63 < u64 (d + w) then None else Some (u64 (d + w), s3)))))"

lemma leading_int_length: "leading_int x s = Some (v, t) \<Longrightarrow> length t \<le> length s"
  by (induction x s rule: leading_int.induct) (auto simp: Let_def split: if_splits)

lemma leading_fraction_length: "leading_fraction x k ov s = (f, q, t) \<Longrightarrow> length t \<le> length s"
  by (induction x k ov s rule: leading_fraction.induct) (auto simp: Let_def split: if_splits)

lemma duration_part_shorter:
  assumes "duration_part d s = Some (d', t)"
  shows "length t < length s"
proof -
  obtain v s1 where v: "leading_int 0 s = Some (v, s1)" using assms by (auto simp: duration_part_def split: if_splits option.splits)
  let ?r = "if s1 \<noteq> [] \<and> hd s1 = CHR ''.'' then leading_fraction 0 1 False (tl s1) else (0, 1, s1)"
  obtain f k s2 where r: "?r = (f, k, s2)" by (cases ?r) auto
  let ?u = "takeWhile (\<lambda>c. \<not> unit_end c) s2"
  have u: "?u \<noteq> []" "t = drop (length ?u) s2" using assms v r by (auto simp: duration_part_def Let_def split: if_splits option.splits)
  have "length s2 \<le> length s1" using leading_fraction_length[of 0 1 False "tl s1"] r by (auto split: if_splits)
  moreover have "length s1 \<le> length s" by (rule leading_int_length[OF v])
  moreover have "0 < length ?u" using u(1) by (metis length_greater_0_conv)
  moreover have "length ?u \<le> length s2" by (rule length_takeWhile_le)
  ultimately show ?thesis unfolding u(2) length_drop by linarith
qed

function duration_parts :: "int \<Rightarrow> string \<Rightarrow> int option" where
  "duration_parts d s =
     (if s = [] then Some d else (case duration_part d s of None \<Rightarrow> None | Some (d', t) \<Rightarrow> duration_parts d' t))"
  by pat_completeness auto
termination by (relation "measure (\<lambda>(d, s). length s)") (auto dest: duration_part_shorter)

declare duration_parts.simps [simp del]

definition parse_duration :: "string \<Rightarrow> int option" where
  "parse_duration s =
     (let neg = (s \<noteq> [] \<and> hd s = CHR ''-'');
          t = (if s \<noteq> [] \<and> hd s \<in> {CHR ''-'', CHR ''+''} then tl s else s)
      in if t = ''0'' then Some 0
         else if t = [] then None
         else (case duration_parts 0 t of
                 None \<Rightarrow> None
               | Some d \<Rightarrow> if neg then Some (- d) else if max_u63 \<le> d then None else Some d))"

lemma ex_durations:
  "parse_duration ''3600s'' = Some 3600000000000" "parse_duration ''1h0.5s'' = Some 3600500000000"
  "parse_duration ''x3600s'' = None" "parse_duration ''s'' = None" "parse_duration ''-1.5s'' = Some (- 1500000000)"
  by code_simp+

section \<open>Rejected requests\<close>

record auth_error =
  er_Status :: int
  er_Reason :: string
  er_Message :: string

text \<open>The leading code of a message: upper-case letters, digits and underscores, at least one of them an
  underscore.\<close>

definition reason_char :: "char \<Rightarrow> bool" where
  "reason_char c \<longleftrightarrow> c = CHR ''_'' \<or> (65 \<le> byte c \<and> byte c \<le> 90) \<or> is_digit c"

definition reasonFromMessage :: "string \<Rightarrow> string" where
  "reasonFromMessage msg =
     (let code = trim_suffix (fst (cut_at (trim_space msg) (CHR '' ''))) '':''
      in if CHR ''_'' \<notin> set code then []
         else if \<not> list_all reason_char code then []
         else code)"

definition auth_ellipsis :: string where "auth_ellipsis = [CHR 0xE2, CHR 0x80, CHR 0xA6]"

definition compact :: "string \<Rightarrow> nat \<Rightarrow> string" where
  "compact s m = (let t = join_with '' '' (go_fields s) in if m < length t then take m t @ auth_ellipsis else t)"

record google_err =
  ge_Code :: int
  ge_Message :: string
  ge_Details :: "string list"

definition put_reason :: "string \<Rightarrow> jval \<Rightarrow> string \<Rightarrow> string option" where
  "put_reason name v r = decode_str v r"

definition put_google :: "string \<Rightarrow> jval \<Rightarrow> google_err \<Rightarrow> google_err option" where
  "put_google name v g =
     (if name = ''code'' then map_option (\<lambda>c. g\<lparr>ge_Code := c\<rparr>) (decode_i64 v (ge_Code g))
      else if name = ''message'' then map_option (\<lambda>m. g\<lparr>ge_Message := m\<rparr>) (decode_str v (ge_Message g))
      else map_option (\<lambda>d. g\<lparr>ge_Details := d\<rparr>) (decode_slice (decode_struct [''reason''] put_reason) [] v (ge_Details g)))"

definition put_error :: "string \<Rightarrow> jval \<Rightarrow> google_err \<Rightarrow> google_err option" where
  "put_error name v g = decode_struct [''code'', ''message'', ''details''] put_google v g"

definition googleError :: "jval \<Rightarrow> google_err option" where
  "googleError j = decode_struct [''error''] put_error j \<lparr>ge_Code = 0, ge_Message = [], ge_Details = []\<rparr>"

fun first_reason :: "string list \<Rightarrow> string" where
  "first_reason [] = []"
| "first_reason (r # rs) = (if r \<noteq> [] then r else first_reason rs)"

definition newError :: "(string \<Rightarrow> jval option) \<Rightarrow> int \<Rightarrow> string \<Rightarrow> auth_error" where
  "newError parse status body =
     (case Option.bind (parse body) googleError of
        None \<Rightarrow> \<lparr>er_Status = status, er_Reason = [], er_Message = compact body 300\<rparr>
      | Some g \<Rightarrow>
          if ge_Message g = [] then \<lparr>er_Status = status, er_Reason = [], er_Message = compact body 300\<rparr>
          else let r = first_reason (ge_Details g)
               in \<lparr>er_Status = status, er_Reason = (if r = [] then reasonFromMessage (ge_Message g) else r), er_Message = ge_Message g\<rparr>)"

datatype hint = HintRestrictedKey | HintAPIRestrictions | HintInvalidKey | HintAnonymousOff | HintNotSetUp | HintTooMany

definition auth_hint :: "auth_error \<Rightarrow> hint option" where
  "auth_hint e =
     (let r = er_Reason e
      in if r \<in> {''API_KEY_HTTP_REFERRER_BLOCKED'', ''API_KEY_IP_ADDRESS_BLOCKED'', ''API_KEY_ANDROID_APP_BLOCKED'', ''API_KEY_IOS_APP_BLOCKED''}
         then Some HintRestrictedKey
         else if r = ''API_KEY_SERVICE_BLOCKED'' then Some HintAPIRestrictions
         else if r = ''API_KEY_INVALID'' then Some HintInvalidKey
         else if r \<in> {''ADMIN_ONLY_OPERATION'', ''OPERATION_NOT_ALLOWED''} then Some HintAnonymousOff
         else if r = ''CONFIGURATION_NOT_FOUND'' then Some HintNotSetUp
         else if r \<in> {''TOO_MANY_ATTEMPTS_TRY_LATER'', ''QUOTA_EXCEEDED''} then Some HintTooMany
         else None)"

section \<open>Requests\<close>

record Token =
  tk_IDToken :: string
  tk_RefreshToken :: string
  tk_UID :: string
  tk_ExpiresAt :: int

record auth_client =
  ac_apiKey :: string
  ac_authBaseURL :: string
  ac_tokenBaseURL :: string

datatype auth_fail = FailTransport | FailRejected auth_error | FailDecode

text \<open>\<open>postJSON\<close> with an \<open>out\<close> to decode into, and with none; what is sent is the address and a JSON object.\<close>

definition postJSON ::
  "(string \<Rightarrow> jval option) \<Rightarrow> (jval \<Rightarrow> 'a option) \<Rightarrow> (int \<times> string) option \<Rightarrow> auth_fail + 'a" where
  "postJSON parse dec resp =
     (case resp of
        None \<Rightarrow> Inl FailTransport
      | Some (status, body) \<Rightarrow>
          if status < 200 \<or> 300 \<le> status then Inl (FailRejected (newError parse status body))
          else (case Option.bind (parse body) dec of None \<Rightarrow> Inl FailDecode | Some x \<Rightarrow> Inr x))"

definition postJSON_nil :: "(string \<Rightarrow> jval option) \<Rightarrow> (int \<times> string) option \<Rightarrow> auth_fail option" where
  "postJSON_nil parse resp =
     (case resp of
        None \<Rightarrow> Some FailTransport
      | Some (status, body) \<Rightarrow> if status < 200 \<or> 300 \<le> status then Some (FailRejected (newError parse status body)) else None)"

definition signUp_request :: "auth_client \<Rightarrow> string \<times> jval" where
  "signUp_request c = (ac_authBaseURL c @ ''/v1/accounts:signUp?key='' @ ac_apiKey c, JObj [(''returnSecureToken'', JBool True)])"

definition refresh_request :: "auth_client \<Rightarrow> string \<Rightarrow> string \<times> jval" where
  "refresh_request c tok =
     (ac_tokenBaseURL c @ ''/v1/token?key='' @ ac_apiKey c, JObj [(''grant_type'', JStr ''refresh_token''), (''refresh_token'', JStr tok)])"

definition delete_request :: "auth_client \<Rightarrow> string \<Rightarrow> string \<times> jval" where
  "delete_request c tok = (ac_authBaseURL c @ ''/v1/accounts:delete?key='' @ ac_apiKey c, JObj [(''idToken'', JStr tok)])"

text \<open>Both responses hold four strings; only the names of the fields differ.\<close>

record token_fields =
  tf_id :: string
  tf_refresh :: string
  tf_expires :: string
  tf_user :: string

definition put_token :: "string list \<Rightarrow> string \<Rightarrow> jval \<Rightarrow> token_fields \<Rightarrow> token_fields option" where
  "put_token names name v t =
     (if name = names ! 0 then map_option (\<lambda>s. t\<lparr>tf_id := s\<rparr>) (decode_str v (tf_id t))
      else if name = names ! 1 then map_option (\<lambda>s. t\<lparr>tf_refresh := s\<rparr>) (decode_str v (tf_refresh t))
      else if name = names ! 2 then map_option (\<lambda>s. t\<lparr>tf_expires := s\<rparr>) (decode_str v (tf_expires t))
      else map_option (\<lambda>s. t\<lparr>tf_user := s\<rparr>) (decode_str v (tf_user t)))"

definition token_response :: "string list \<Rightarrow> jval \<Rightarrow> token_fields option" where
  "token_response names j = decode_struct names (put_token names) j \<lparr>tf_id = [], tf_refresh = [], tf_expires = [], tf_user = []\<rparr>"

definition signUpResponse :: "string list" where
  "signUpResponse = [''idToken'', ''refreshToken'', ''expiresIn'', ''localId'']"

definition refreshResponse :: "string list" where
  "refreshResponse = [''id_token'', ''refresh_token'', ''expires_in'', ''user_id'']"

definition expiryFromSeconds :: "int \<Rightarrow> string \<Rightarrow> int" where
  "expiryFromSeconds now seconds = now + (case parse_duration (seconds @ ''s'') of Some d \<Rightarrow> d | None \<Rightarrow> 50 * minute)"

definition token_of :: "int \<Rightarrow> token_fields \<Rightarrow> Token" where
  "token_of now t = \<lparr>tk_IDToken = tf_id t, tk_RefreshToken = tf_refresh t, tk_UID = tf_user t, tk_ExpiresAt = expiryFromSeconds now (tf_expires t)\<rparr>"

definition SignUpAnonymous :: "(string \<Rightarrow> jval option) \<Rightarrow> int \<Rightarrow> (int \<times> string) option \<Rightarrow> auth_fail + Token" where
  "SignUpAnonymous parse now resp = map_sum (\<lambda>e. e) (token_of now) (postJSON parse (token_response signUpResponse) resp)"

definition auth_Refresh :: "(string \<Rightarrow> jval option) \<Rightarrow> int \<Rightarrow> (int \<times> string) option \<Rightarrow> auth_fail + Token" where
  "auth_Refresh parse now resp = map_sum (\<lambda>e. e) (token_of now) (postJSON parse (token_response refreshResponse) resp)"

section \<open>The manager\<close>

text \<open>A call happens at time \<open>now\<close>; a refresh it makes is answered by \<open>resp\<close> at \<open>later\<close>. The state is the token.\<close>

record id_call =
  ic_now :: int
  ic_later :: int
  ic_resp :: "(int \<times> string) option"

definition needs_refresh :: "int \<Rightarrow> Token \<Rightarrow> bool" where
  "needs_refresh now t \<longleftrightarrow> tk_ExpiresAt t - minute < now"

definition keep_uid :: "Token \<Rightarrow> Token \<Rightarrow> Token" where
  "keep_uid old t = (if tk_UID t = [] then t\<lparr>tk_UID := tk_UID old\<rparr> else t)"

definition mgr_IDToken :: "(string \<Rightarrow> jval option) \<Rightarrow> id_call \<Rightarrow> Token \<Rightarrow> (auth_fail + string) \<times> Token" where
  "mgr_IDToken parse c t =
     (if needs_refresh (ic_now c) t
      then (case auth_Refresh parse (ic_later c) (ic_resp c) of
              Inl e \<Rightarrow> (Inl e, t)
            | Inr t' \<Rightarrow> (Inr (tk_IDToken (keep_uid t t')), keep_uid t t'))
      else (Inr (tk_IDToken t), t))"

definition mgr_DeleteAccount :: "(string \<Rightarrow> jval option) \<Rightarrow> id_call \<Rightarrow> (int \<times> string) option \<Rightarrow> Token \<Rightarrow> auth_fail option \<times> Token" where
  "mgr_DeleteAccount parse c resp t =
     (case mgr_IDToken parse c t of
        (Inl e, t') \<Rightarrow> (Some e, t')
      | (Inr tok, t') \<Rightarrow> (postJSON_nil parse resp, t'))"

fun mgr_run :: "(string \<Rightarrow> jval option) \<Rightarrow> id_call list \<Rightarrow> Token \<Rightarrow> (auth_fail + string) list \<times> Token" where
  "mgr_run parse [] t = ([], t)"
| "mgr_run parse (c # cs) t =
     (case mgr_IDToken parse c t of (r, t') \<Rightarrow> (case mgr_run parse cs t' of (rs, t'') \<Rightarrow> (r # rs, t'')))"

section \<open>Facts\<close>

lemma postJSON_cases:
  assumes "postJSON parse dec resp = Inr x"
  obtains status body j where "resp = Some (status, body)" "200 \<le> status" "status < 300" "parse body = Some j" "dec j = Some x"
  using assms by (auto simp: postJSON_def bind_eq_Some_conv split: option.splits prod.splits if_splits)

text \<open>A token is handed out only with a minute to live, or when it has just been fetched; a failed refresh leaves
  the manager as it was, so that the next call tries again.\<close>

lemma mgr_IDToken_fresh:
  assumes "mgr_IDToken parse c t = (Inr tok, t')"
  shows "tok = tk_IDToken t' \<and> (ic_now c + minute \<le> tk_ExpiresAt t' \<and> t' = t
    \<or> (\<exists>x. auth_Refresh parse (ic_later c) (ic_resp c) = Inr x \<and> t' = keep_uid t x))"
  using assms by (auto simp: mgr_IDToken_def needs_refresh_def split: if_splits sum.splits)

lemma mgr_IDToken_fails:
  "mgr_IDToken parse c t = (Inl e, t') \<Longrightarrow> t' = t \<and> needs_refresh (ic_now c) t \<and> auth_Refresh parse (ic_later c) (ic_resp c) = Inl e"
  by (auto simp: mgr_IDToken_def split: if_splits sum.splits)

definition same_user :: "(string \<Rightarrow> jval option) \<Rightarrow> string \<Rightarrow> id_call \<Rightarrow> bool" where
  "same_user parse uid c \<longleftrightarrow>
     (case auth_Refresh parse (ic_later c) (ic_resp c) of Inl e \<Rightarrow> True | Inr t \<Rightarrow> tk_UID t = [] \<or> tk_UID t = uid)"

lemma mgr_IDToken_uid:
  "mgr_IDToken parse c t = (r, t') \<Longrightarrow> same_user parse (tk_UID t) c \<Longrightarrow> tk_UID t' = tk_UID t"
  by (auto simp: mgr_IDToken_def same_user_def keep_uid_def split: if_splits sum.splits)

text \<open>Over any number of calls, whether their refreshes succeed or fail, the agent stays the user it signed
  in as, unless the service itself names another one; and every token it hands out is the one it holds then.\<close>

theorem manager_keeps_user:
  assumes "mgr_run parse cs t = (rs, t')" and "list_all (same_user parse (tk_UID t)) cs"
  shows "tk_UID t' = tk_UID t \<and> length rs = length cs"
  using assms
proof (induction cs arbitrary: t rs)
  case (Cons c cs)
  obtain r t1 where r: "mgr_IDToken parse c t = (r, t1)" by fastforce
  have u: "tk_UID t1 = tk_UID t" using mgr_IDToken_uid[OF r] Cons.prems(2) by simp
  obtain rs' where "mgr_run parse cs t1 = (rs', t')" "rs = r # rs'" using Cons.prems(1) r by (auto split: prod.splits)
  with Cons.IH[OF this(1)] Cons.prems(2) u show ?case by simp
qed simp

definition ex_token :: Token where
  "ex_token = \<lparr>tk_IDToken = ''a'', tk_RefreshToken = ''r'', tk_UID = ''me'', tk_ExpiresAt = 100 * minute\<rparr>"

definition ex_answer :: jval where
  "ex_answer = JObj [(''id_token'', JStr ''b''), (''refresh_token'', JStr ''r2''), (''expires_in'', JStr ''3600'')]"

lemma manager_keeps_user_witness:
  "\<exists>rs t'. mgr_run (\<lambda>_. Some ex_answer)
      [\<lparr>ic_now = 0, ic_later = 0, ic_resp = None\<rparr>, \<lparr>ic_now = 100 * minute, ic_later = 101 * minute, ic_resp = Some (200, ''{}'')\<rparr>] ex_token = (rs, t')
    \<and> rs = [Inr ''a'', Inr ''b''] \<and> tk_UID t' = ''me''"
proof -
  let ?cs = "[\<lparr>ic_now = 0, ic_later = 0, ic_resp = None\<rparr>, \<lparr>ic_now = 100 * minute, ic_later = 101 * minute, ic_resp = Some (200, ''{}'')\<rparr>]"
  obtain rs t' where r: "mgr_run (\<lambda>_. Some ex_answer) ?cs ex_token = (rs, t')" by fastforce
  have "fst (mgr_run (\<lambda>_. Some ex_answer) ?cs ex_token) = [Inr ''a'', Inr ''b'']" by code_simp
  then have "rs = [Inr ''a'', Inr ''b'']" by (simp only: r fst_conv)
  moreover have "list_all (same_user (\<lambda>_. Some ex_answer) (tk_UID ex_token)) ?cs" by code_simp
  from manager_keeps_user[OF r this] have "tk_UID t' = ''me''" by (simp add: ex_token_def)
  ultimately show ?thesis using r by blast
qed

text \<open>An expiry that is no duration counts as fifty minutes.\<close>

lemma expiry_fallback: "expiryFromSeconds now ''soon'' = now + 50 * minute" "expiryFromSeconds now ''3600'' = now + 60 * minute"
proof -
  have "parse_duration (''soon'' @ ''s'') = None" "parse_duration (''3600'' @ ''s'') = Some (60 * minute)" by code_simp+
  then show "expiryFromSeconds now ''soon'' = now + 50 * minute" "expiryFromSeconds now ''3600'' = now + 60 * minute"
    by (simp_all only: expiryFromSeconds_def option.case)
qed

text \<open>What a rejected request can put in front of the operator: a reason taken from a message is made of plain
  letters, and a body that is no error of Google's is cut to one line of at most 303 bytes.\<close>

lemma reasonFromMessage_plain: "list_all reason_char (reasonFromMessage msg)"
  by (simp add: reasonFromMessage_def Let_def)

lemma newError_foreign:
  assumes "Option.bind (parse body) googleError = None"
  shows "er_Reason (newError parse status body) = [] \<and> length (er_Message (newError parse status body)) \<le> 303
    \<and> auth_hint (newError parse status body) = None"
  using assms by (simp add: newError_def compact_def Let_def auth_ellipsis_def auth_hint_def)

lemma ex_reasons:
  "reasonFromMessage ''TOO_MANY_ATTEMPTS_TRY_LATER : wait'' = ''TOO_MANY_ATTEMPTS_TRY_LATER''"
  "reasonFromMessage ''API key not valid.'' = []"
  by code_simp+

end
