(* ===== verification/Firewall.thy ===== *)
theory Firewall
  imports Strconv Utf8 "HOL-Library.Word"
begin

text \<open>
  Package \<open>firewall\<close>: what the computer's firewall does with packets for the program. On Windows the answers of
  the system are written as a report of lines, which \<open>parse\<close> judges; on macOS they are the words of a command.
  Both are arguments here. The theory shows that the verdict read back from the report is the one Windows' own
  rules give.
\<close>

section \<open>The verdict\<close>

record fw_status =
  fs_Owner :: string
  fs_Enabled :: bool
  fs_BlockAll :: bool
  fs_Blocked :: bool
  fs_Allowed :: bool
  fs_Elsewhere :: "string list"
  fs_Network :: string

definition fw_zero :: fw_status where
  "fw_zero = \<lparr>fs_Owner = [], fs_Enabled = False, fs_BlockAll = False, fs_Blocked = False, fs_Allowed = False, fs_Elsewhere = [], fs_Network = []\<rparr>"

definition Reachable :: "fw_status \<Rightarrow> bool" where
  "Reachable s \<longleftrightarrow> fs_Owner s \<noteq> [] \<or> \<not> fs_Enabled s \<or> (\<not> fs_BlockAll s \<and> \<not> fs_Blocked s \<and> fs_Allowed s)"

section \<open>Names and paths\<close>

text \<open>A rune as UTF-8; what is no rune is written as U+FFFD.\<close>

definition encode_rune :: "int \<Rightarrow> string" where
  "encode_rune r =
     (if r < 128 then [char_of (nat r)]
      else if r < 2048 then [char_of (nat (192 + r div 64)), char_of (nat (128 + r mod 64))]
      else if r < 65536 then [char_of (nat (224 + r div 4096)), char_of (nat (128 + r div 64 mod 64)), char_of (nat (128 + r mod 64))]
      else [char_of (nat (240 + r div 262144)), char_of (nat (128 + r div 4096 mod 64)), char_of (nat (128 + r div 64 mod 64)),
            char_of (nat (128 + r mod 64))])"

definition control_rune :: "int \<Rightarrow> bool" where
  "control_rune r \<longleftrightarrow> r < 32 \<or> (127 \<le> r \<and> r < 160)"

definition maxOwnerLen :: nat where "maxOwnerLen = 64"

definition cleanName :: "string \<Rightarrow> string" where
  "cleanName s =
     (let t = trim_space (concat (map encode_rune (filter (\<lambda>r. \<not> control_rune r) (runes s))))
      in if maxOwnerLen < length (runes t) then trim_space (concat (map encode_rune (take maxOwnerLen (runes t)))) else t)"

definition normalizeProfile :: "string \<Rightarrow> string" where
  "normalizeProfile s =
     (let t = to_lower (trim_space s)
      in if t = ''private'' then ''Private''
         else if t = ''public'' then ''Public''
         else if t \<in> {''domain'', ''domainauthenticated''} then ''Domain''
         else if t = ''any'' then ''Any''
         else [])"

definition covers :: "string \<Rightarrow> string list \<Rightarrow> bool" where
  "covers profiles networks \<longleftrightarrow>
     networks = [] \<or> (\<exists>p \<in> set (map normalizeProfile (split_on (CHR '','') profiles)). p = ''Any'' \<or> p \<in> set networks)"

text \<open>\<open>%NAME%\<close> stands for the value of the variable.\<close>

lemma cut_at_length: "cut_at s c = (a, b, f) \<Longrightarrow> length b \<le> length s"
  by (induction s arbitrary: a b f) (fastforce split: if_splits prod.splits)+

function expand :: "(string \<Rightarrow> string) \<Rightarrow> string \<Rightarrow> string" where
  "expand env [] = []"
| "expand env (c # s) =
     (if c \<noteq> CHR ''%'' then c # expand env s
      else (case cut_at s (CHR ''%'') of
              (name, rest, found) \<Rightarrow> if found \<and> name \<noteq> [] then env name @ expand env rest else c # expand env s))"
  by pat_completeness auto

termination
  by (relation "measure (\<lambda>(env, s). length s)") (auto dest!: cut_at_length[OF sym])

text \<open>\<open>filepath.Clean\<close> on Windows: both slashes separate, and the volume is a letter with a colon, or nothing
  (the names of shares and devices, which no rule of a program has, are left aside).\<close>

definition backslash :: char where "backslash = CHR 0x5C"

definition win_clean :: "string \<Rightarrow> string" where
  "win_clean p =
     (let v = (if 2 \<le> length p \<and> p ! 1 = CHR '':'' then take 2 p else []);
          rest = map (\<lambda>c. if c = backslash then sep else c) (drop (length v) p)
      in if rest = [] then p @ ''.''
         else v @ map (\<lambda>c. if c = sep then backslash else c) (path_clean rest))"

definition sameProgram :: "(string \<Rightarrow> string) \<Rightarrow> string \<Rightarrow> string \<Rightarrow> bool" where
  "sameProgram env rule exe \<longleftrightarrow>
     (let r = trim_space rule
      in r \<noteq> [] \<and> \<not> equal_fold r ''Any'' \<and> equal_fold (win_clean (expand env r)) (win_clean exe))"

section \<open>Reading the report\<close>

definition newline :: char where "newline = CHR 0x0A"
definition bar :: char where "bar = CHR ''|''"

definition parse_fields :: "(string \<Rightarrow> string) \<Rightarrow> string \<Rightarrow> string list \<Rightarrow> fw_status \<times> string list \<Rightarrow> fw_status \<times> string list" where
  "parse_fields env exe fl s =
     (case s of (st, networks) \<Rightarrow>
           if fl ! 0 = ''owner'' then
             (if fs_Owner st = [] \<and> 2 \<le> length fl then (st\<lparr>fs_Owner := cleanName (join_with ''|'' (tl fl))\<rparr>, networks) else s)
           else if fl ! 0 = ''enabled'' then
             (if length fl = 2
              then (st\<lparr>fs_Enabled := (case go_atoi (trim_space (fl ! 1)) of None \<Rightarrow> False | Some n \<Rightarrow> 0 < n)\<rparr>, networks) else s)
           else if fl ! 0 = ''network'' then
             (if length fl = 2
              then (st, networks @ filter (\<lambda>c. c \<noteq> []) (map normalizeProfile (split_on (CHR '','') (fl ! 1)))) else s)
           else if fl ! 0 = ''rule'' then
             (if length fl \<noteq> 4 \<or> \<not> sameProgram env (fl ! 3) exe then s
              else if equal_fold (trim_space (fl ! 1)) ''Block'' then (st\<lparr>fs_Blocked := True\<rparr>, networks)
              else if equal_fold (trim_space (fl ! 1)) ''Allow'' then
                (if covers (fl ! 2) networks then (st\<lparr>fs_Allowed := True\<rparr>, networks)
                 else (st\<lparr>fs_Elsewhere := fs_Elsewhere st @ filter (\<lambda>p. p \<noteq> []) (map normalizeProfile (split_on (CHR '','') (fl ! 2)))\<rparr>, networks))
              else s)
           else s)"

definition parse_line :: "(string \<Rightarrow> string) \<Rightarrow> string \<Rightarrow> string \<Rightarrow> fw_status \<times> string list \<Rightarrow> fw_status \<times> string list" where
  "parse_line env exe line s = parse_fields env exe (split_on bar (trim_space line)) s"

definition fw_parse :: "(string \<Rightarrow> string) \<Rightarrow> string \<Rightarrow> string \<Rightarrow> fw_status" where
  "fw_parse env out exe =
     (case fold (parse_line env exe) (split_on newline out) (fw_zero, []) of
        (st, networks) \<Rightarrow>
          let st1 = (if networks \<noteq> [] then st\<lparr>fs_Network := networks ! 0\<rparr> else st)
          in if fs_Allowed st1 then st1\<lparr>fs_Elsewhere := []\<rparr> else st1)"

section \<open>What Windows answers\<close>

text \<open>A rule as Windows lists it: \<open>None\<close> is a property that cannot be read.\<close>

record fw_rule =
  fr_direction :: "int option"
  fr_enabled :: "bool option"
  fr_action :: "int option"
  fr_profiles :: "int option"
  fr_program :: "string option"

record fw_answers =
  fa_products :: "(int list option \<times> string option) option list"
  fa_profiles_on :: "bool list"
  fa_networks :: "int option list"
  fa_rules :: "fw_rule list"

definition ruleCategoryFirewall :: int where "ruleCategoryFirewall = 2"
definition profileAll :: int where "profileAll = 2147483647"
definition maxProducts :: nat where "maxProducts = 16"
definition maxNetworks :: nat where "maxNetworks = 64"

definition firewallProduct :: "int list option \<times> string option \<Rightarrow> string" where
  "firewallProduct p =
     (case fst p of
        None \<Rightarrow> []
      | Some cats \<Rightarrow> if ruleCategoryFirewall \<notin> set cats then []
                     else (case snd p of None \<Rightarrow> [] | Some name \<Rightarrow> cleanName name))"

fun first_owner :: "(int list option \<times> string option) option list \<Rightarrow> string" where
  "first_owner [] = []"
| "first_owner (None # ps) = first_owner ps"
| "first_owner (Some p # ps) = (if firewallProduct p \<noteq> [] then firewallProduct p else first_owner ps)"

definition firewallOwner :: "(int list option \<times> string option) option list \<Rightarrow> string" where
  "firewallOwner products = first_owner (take maxProducts products)"

definition enabledProfiles :: "bool list \<Rightarrow> int" where
  "enabledProfiles on = int (length (filter (\<lambda>b. b) on))"

definition categoryName :: "int \<Rightarrow> string" where
  "categoryName c = (if c = 0 then ''Public'' else if c = 1 then ''Private'' else if c = 2 then ''DomainAuthenticated'' else [])"

definition connectedNetworks :: "int option list \<Rightarrow> string list" where
  "connectedNetworks ns =
     filter (\<lambda>n. n \<noteq> []) (map (\<lambda>c. case c of None \<Rightarrow> [] | Some k \<Rightarrow> categoryName k) (take maxNetworks ns))"

definition profile_bit :: "int \<Rightarrow> int \<Rightarrow> bool" where
  "profile_bit bits p \<longleftrightarrow> bits div p mod 2 = 1"

definition bit_names :: "int \<Rightarrow> string list" where
  "bit_names bits = map snd (filter (\<lambda>x. profile_bit bits (fst x)) [(1, ''Domain''), (2, ''Private''), (4, ''Public'')])"

definition profileNames :: "int \<Rightarrow> string" where
  "profileNames bits =
     (if bits = profileAll then ''Any''
      else join_with '', '' (bit_names bits))"

text \<open>The line of a rule, if it is an enabled inbound rule that names a program.\<close>

definition writeRule :: "fw_rule \<Rightarrow> string option" where
  "writeRule r =
     (if fr_direction r \<noteq> Some 1 \<or> fr_enabled r \<noteq> Some True then None
      else (case fr_action r of
              None \<Rightarrow> None
            | Some a \<Rightarrow>
                if a \<noteq> 0 \<and> a \<noteq> 1 then None
                else (case fr_profiles r of
                        None \<Rightarrow> None
                      | Some bits \<Rightarrow>
                          (case fr_program r of
                             None \<Rightarrow> None
                           | Some program \<Rightarrow>
                               if program = [] \<or> CHR 0x0D \<in> set program \<or> newline \<in> set program then None
                               else Some (''rule|'' @ (if a = 0 then ''Block'' else ''Allow'') @ ''|'' @ profileNames bits @ ''|'' @ program)))))"

definition query_lines :: "bool \<Rightarrow> fw_answers \<Rightarrow> string list" where
  "query_lines allRules a =
     [''owner|'' @ firewallOwner (fa_products a),
      ''enabled|'' @ dec_nat (nat (enabledProfiles (fa_profiles_on a))),
      ''network|'' @ join_with '','' (connectedNetworks (fa_networks a))]
     @ (if firewallOwner (fa_products a) = [] \<or> allRules then List.map_filter writeRule (fa_rules a) else [])"

definition fw_query :: "bool \<Rightarrow> fw_answers \<Rightarrow> string" where
  "fw_query allRules a = concat (map (\<lambda>l. l @ [newline]) (query_lines allRules a))"

text \<open>\<open>Check\<close>: nothing when Windows does not answer in time, or not at all.\<close>

definition Check_windows :: "(string \<Rightarrow> string) \<Rightarrow> fw_answers option \<Rightarrow> string \<Rightarrow> fw_status option" where
  "Check_windows env a exe = map_option (\<lambda>x. fw_parse env (fw_query False x) exe) a"

section \<open>The report and its reading\<close>

lemma split_lines: "(\<And>l. l \<in> set ls \<Longrightarrow> c \<notin> set l) \<Longrightarrow> split_on c (concat (map (\<lambda>l. l @ [c]) ls)) = ls @ [[]]"
  by (induction ls) (simp_all add: split_on_append split_on_plain)

text \<open>The names of a rule's profiles, and what is read back of them.\<close>

lemma normalizeProfile_eval:
  "normalizeProfile ''Public'' = ''Public''" "normalizeProfile ''Private'' = ''Private''" "normalizeProfile ''DomainAuthenticated'' = ''Domain''"
  "normalizeProfile ''Domain'' = ''Domain''" "normalizeProfile '' Private'' = ''Private''" "normalizeProfile '' Public'' = ''Public''"
  "normalizeProfile ''Any'' = ''Any''" "normalizeProfile [] = []"
  by code_simp+

lemma profileNames_read:
  "map normalizeProfile (split_on (CHR '','') (profileNames bits)) =
     (if bits = profileAll then [''Any'']
      else if bit_names bits = [] then [[]]
      else bit_names bits)"
  by (simp add: profileNames_def bit_names_def normalizeProfile_eval)

lemma profileNames_plain: "bar \<notin> set (profileNames bits)" "newline \<notin> set (profileNames bits)"
  by (simp_all add: profileNames_def bit_names_def bar_def newline_def)

text \<open>The profile that a network's category is ruled by.\<close>

definition category_profile :: "int \<Rightarrow> int option" where
  "category_profile c = (if c = 0 then Some 4 else if c = 1 then Some 2 else if c = 2 then Some 1 else None)"

definition known_profiles :: "int option list \<Rightarrow> int list" where
  "known_profiles ns = List.map_filter (\<lambda>c. Option.bind c category_profile) (take maxNetworks ns)"

definition profile_name :: "int \<Rightarrow> string" where
  "profile_name p = (if p = 4 then ''Public'' else if p = 2 then ''Private'' else ''Domain'')"

lemma connectedNetworks_read:
  "map normalizeProfile (connectedNetworks ns) = map profile_name (known_profiles ns)"
proof -
  have "map normalizeProfile (filter (\<lambda>n. n \<noteq> []) (map (\<lambda>c. case c of None \<Rightarrow> [] | Some k \<Rightarrow> categoryName k) xs))
    = map profile_name (List.map_filter (\<lambda>c. Option.bind c category_profile) xs)" for xs
    by (induction xs) (auto simp: categoryName_def category_profile_def profile_name_def normalizeProfile_eval map_filter_simps split: option.splits)
  then show ?thesis by (simp add: connectedNetworks_def known_profiles_def)
qed

lemma known_profiles_range: "p \<in> set (known_profiles ns) \<Longrightarrow> p = 1 \<or> p = 2 \<or> p = 4"
  by (auto simp: known_profiles_def List.map_filter_def category_profile_def bind_eq_Some_conv split: if_splits)

lemma covers_profileNames:
  "covers (profileNames bits) (map profile_name (known_profiles ns)) \<longleftrightarrow>
     known_profiles ns = [] \<or> bits = profileAll \<or> list_ex (profile_bit bits) (known_profiles ns)"
proof -
  have m: "profile_name p \<in> set (bit_names bits) \<longleftrightarrow> profile_bit bits p" if "p = 1 \<or> p = 2 \<or> p = 4" for p
    using that by (auto simp: profile_name_def bit_names_def)
  have n: "[] \<notin> set (map profile_name (known_profiles ns))" "''Any'' \<notin> set (bit_names bits)"
    by (auto simp: profile_name_def bit_names_def)
  show ?thesis
  proof (cases "bits = profileAll")
    case True
    then show ?thesis by (simp add: covers_def profileNames_read)
  next
    case False
    have "covers (profileNames bits) (map profile_name (known_profiles ns)) \<longleftrightarrow> known_profiles ns = [] \<or>
      (\<exists>p \<in> set (known_profiles ns). profile_name p \<in> set (bit_names bits))"
      unfolding covers_def profileNames_read using False n by (cases "bit_names bits = []") auto
    with False known_profiles_range m show ?thesis by (auto simp: list_ex_iff)
  qed
qed

text \<open>Reading each kind of line back.\<close>

lemma plain_ascii_eval:
  "plain_ascii (CHR ''o'')" "plain_ascii (CHR ''e'')" "plain_ascii (CHR ''n'')" "plain_ascii (CHR ''r'')" "plain_ascii (CHR ''|'')"
  by (simp_all add: plain_ascii_def ascii_space_def byte_def)

lemma join_with_head: "join_with d ((x # a) # l) = x # join_with d (a # l)"
  by (cases l) simp_all

lemma join_split: "join_with [c] (split_on c s) = s"
proof (induction s)
  case (Cons x xs)
  obtain f fs where f: "split_on c xs = f # fs" using split_on_ne[of c xs] by (cases "split_on c xs") auto
  with Cons show ?case by (simp add: join_with_head)
qed simp

lemma owner_line:
  assumes "trim_space o' = o'" and "cleanName o' = o'"
  shows "parse_line env exe (''owner|'' @ o') (fw_zero, []) = (fw_zero\<lparr>fs_Owner := o'\<rparr>, [])"
proof -
  have t: "trim_space (''owner|'' @ o') = ''owner|'' @ o'"
    using trim_space_after[of "CHR ''o''" "''wner|''" o'] assms(1) plain_ascii_eval by simp
  have f: "split_on bar (''owner|'' @ o') = ''owner'' # split_on bar o'"
    using split_on_append[of bar "''owner''" o'] by (simp add: bar_def)
  have "2 \<le> length (''owner'' # split_on bar o')" using split_on_ne[of bar o'] by (cases "split_on bar o'") auto
  then show ?thesis
    using join_split[of bar o'] assms(2) unfolding parse_line_def t f by (simp add: parse_fields_def fw_zero_def bar_def)
qed

lemma plain_digit: "is_digit c \<Longrightarrow> plain_ascii c"
  by (simp add: is_digit_def plain_ascii_def ascii_space_def)

lemma dec_nat_plain: "bar \<notin> set (dec_nat n)" "newline \<notin> set (dec_nat n)" "trim_space (dec_nat n) = dec_nat n"
proof -
  have d: "list_all is_digit (dec_nat n)" by (rule dec_nat_is_digit)
  then show "bar \<notin> set (dec_nat n)" "newline \<notin> set (dec_nat n)"
    by (auto simp: list_all_iff is_digit_def bar_def newline_def byte_def)
  obtain c s where "dec_nat n = c # s" using dec_nat_ne[of n] by (cases "dec_nat n") auto
  with d show "trim_space (dec_nat n) = dec_nat n"
    using trim_space_plain[of c s] plain_digit by (simp add: list_all_iff)
qed

lemma go_atoi_dec:
  assumes "int n \<le> 9223372036854775807"
  shows "go_atoi (dec_nat n) = Some (int n)"
proof -
  have d: "list_all is_digit (dec_nat n)" by (rule dec_nat_is_digit)
  obtain c s where c: "dec_nat n = c # s" using dec_nat_ne[of n] by (cases "dec_nat n") auto
  with d have "c \<noteq> CHR ''+''" "c \<noteq> CHR ''-''" by (auto simp: is_digit_def byte_def)
  then show ?thesis using assms c d digits_val_dec_nat[of n] by (simp add: go_atoi_def in_i64_def)
qed

lemma enabled_line:
  assumes "int n \<le> 9223372036854775807"
  shows "parse_line env exe (''enabled|'' @ dec_nat n) (st, networks) = (st\<lparr>fs_Enabled := 0 < n\<rparr>, networks)"
proof -
  have t: "trim_space (''enabled|'' @ dec_nat n) = ''enabled|'' @ dec_nat n"
    using trim_space_after[of "CHR ''e''" "''nabled|''" "dec_nat n"] dec_nat_plain(3) plain_ascii_eval by simp
  have f: "split_on bar (''enabled|'' @ dec_nat n) = [''enabled'', dec_nat n]"
    using split_on_append[of bar "''enabled''" "dec_nat n"] split_on_plain[OF dec_nat_plain(1)[of n]] by (simp add: bar_def)
  show ?thesis unfolding parse_line_def t f by (simp add: parse_fields_def dec_nat_plain(3) go_atoi_dec[OF assms])
qed

text \<open>The line of the networks.\<close>

lemma networks_plain:
  assumes "n \<in> set (connectedNetworks ns)"
  shows "n \<in> {''Public'', ''Private'', ''DomainAuthenticated''}"
  using assms by (auto simp: connectedNetworks_def categoryName_def split: option.splits if_splits)

lemma set_join_with: "set (join_with d xs) \<subseteq> \<Union> (set ` set xs) \<union> set d"
  by (induction d xs rule: join_with.induct) auto

lemma split_join: "xs \<noteq> [] \<Longrightarrow> (\<And>x. x \<in> set xs \<Longrightarrow> c \<notin> set x) \<Longrightarrow> split_on c (join_with [c] xs) = xs"
  by (induction "[c]" xs rule: join_with.induct) (simp_all add: split_on_plain split_on_append)

lemma last_join_with: "xs \<noteq> [] \<Longrightarrow> [] \<notin> set xs \<Longrightarrow> last (join_with d xs) = last (last xs) \<and> join_with d xs \<noteq> []"
  by (induction d xs rule: join_with.induct) auto

lemma network_line:
  "parse_line env exe (''network|'' @ join_with '','' (connectedNetworks ns)) (st, []) = (st, map profile_name (known_profiles ns))"
proof -
  let ?j = "join_with '','' (connectedNetworks ns)"
  have b: "bar \<notin> set ?j" using set_join_with[of "'',''" "connectedNetworks ns"] networks_plain by (fastforce simp: bar_def)
  have l: "plain_ascii (last (CHR ''n'' # ''etwork|'' @ ?j))"
  proof (cases "connectedNetworks ns = []")
    case False
    then have "last ?j = last (last (connectedNetworks ns)) \<and> ?j \<noteq> []"
      using networks_plain by (intro last_join_with) fastforce+
    moreover have "last (connectedNetworks ns) \<in> {''Public'', ''Private'', ''DomainAuthenticated''}"
      using networks_plain[OF last_in_set[OF False]] .
    ultimately show ?thesis by (auto simp: plain_ascii_def ascii_space_def byte_def)
  qed (simp add: plain_ascii_eval)
  have t: "trim_space (''network|'' @ ?j) = ''network|'' @ ?j"
    using trim_space_plain[OF plain_ascii_eval(3) l] by simp
  have f: "split_on bar (''network|'' @ ?j) = [''network'', ?j]"
    using split_on_append[of bar "''network''" ?j] split_on_plain[OF b] by (simp add: bar_def)
  have "filter (\<lambda>c. c \<noteq> []) (map normalizeProfile (split_on (CHR '','') ?j)) = map profile_name (known_profiles ns)"
  proof (cases "connectedNetworks ns = []")
    case True
    with connectedNetworks_read[of ns] show ?thesis by (simp add: normalizeProfile_eval)
  next
    case False
    have "split_on (CHR '','') ?j = connectedNetworks ns" using networks_plain by (intro split_join False) fastforce
    then have "map normalizeProfile (split_on (CHR '','') ?j) = map profile_name (known_profiles ns)" by (simp only: connectedNetworks_read)
    moreover have "filter (\<lambda>c. c \<noteq> []) (map profile_name ps) = map profile_name ps" for ps
      by (induction ps) (simp_all add: profile_name_def)
    ultimately show ?thesis by simp
  qed
  then show ?thesis unfolding parse_line_def t f by (simp add: parse_fields_def)
qed

text \<open>The line of a rule.\<close>

definition rule_line :: "int \<Rightarrow> int \<Rightarrow> string \<Rightarrow> string" where
  "rule_line a bits program = ''rule|'' @ (if a = 0 then ''Block'' else ''Allow'') @ ''|'' @ profileNames bits @ ''|'' @ program"

text \<open>What a rule of Windows says of the program: \<open>act\<close> is 0 for a block and 1 for an allow.\<close>

definition rule_says :: "(string \<Rightarrow> string) \<Rightarrow> string \<Rightarrow> int \<Rightarrow> int \<Rightarrow> fw_rule \<Rightarrow> bool" where
  "rule_says env exe act bits r \<longleftrightarrow>
     fr_direction r = Some 1 \<and> fr_enabled r = Some True \<and> fr_action r = Some act \<and> fr_profiles r = Some bits
     \<and> (case fr_program r of None \<Rightarrow> False
         | Some p \<Rightarrow> p \<noteq> [] \<and> CHR 0x0D \<notin> set p \<and> newline \<notin> set p \<and> sameProgram env p exe)"

definition plain_rule :: "fw_rule \<Rightarrow> bool" where
  "plain_rule r \<longleftrightarrow> (case fr_program r of None \<Rightarrow> True | Some p \<Rightarrow> bar \<notin> set p \<and> trim_space p = p)"

lemma split_four:
  "c \<notin> set w \<Longrightarrow> c \<notin> set x \<Longrightarrow> c \<notin> set y \<Longrightarrow> c \<notin> set z \<Longrightarrow> split_on c (w @ c # x @ c # y @ c # z) = [w, x, y, z]"
  by (simp add: split_on_append split_on_plain)

lemma set_map_filter_iff: "l \<in> set (List.map_filter f xs) \<longleftrightarrow> (\<exists>x \<in> set xs. f x = Some l)"
  by (induction xs) (auto simp: map_filter_simps split: option.splits)

lemma rule_fields:
  assumes "bar \<notin> set program" and "trim_space program = program"
  shows "split_on bar (trim_space (rule_line a bits program)) = [''rule'', if a = 0 then ''Block'' else ''Allow'', profileNames bits, program]"
proof -
  let ?v = "if a = 0 then ''Block'' else ''Allow''"
  have t: "trim_space (rule_line a bits program) = rule_line a bits program"
    using trim_space_after[of "CHR ''r''" "''ule|'' @ ?v @ ''|'' @ profileNames bits @ ''|''" program] assms(2) plain_ascii_eval
    by (simp add: rule_line_def)
  have v: "bar \<notin> set ?v" "bar \<notin> set ''rule''" by (simp_all add: bar_def)
  have e: "rule_line a bits program = ''rule'' @ bar # ?v @ bar # profileNames bits @ bar # program" by (simp add: rule_line_def bar_def)
  show ?thesis unfolding t unfolding e by (rule split_four[OF v(2) v(1) profileNames_plain(1) assms(1)])
qed

lemma equal_fold_verbs: "equal_fold (trim_space ''Block'') ''Block''" "\<not> equal_fold (trim_space ''Allow'') ''Block''" "equal_fold (trim_space ''Allow'') ''Allow''"
  by code_simp+

lemma writeRule_Some:
  "writeRule r = Some l \<Longrightarrow> \<exists>a bits p. l = rule_line a bits p \<and> fr_direction r = Some 1 \<and> fr_enabled r = Some True \<and> fr_action r = Some a
     \<and> (a = 0 \<or> a = 1) \<and> fr_profiles r = Some bits \<and> fr_program r = Some p \<and> p \<noteq> [] \<and> CHR 0x0D \<notin> set p \<and> newline \<notin> set p"
  by (auto simp: writeRule_def rule_line_def split: if_splits option.splits) (rule exI[of _ 1]; simp)+

lemma writeRule_None:
  "writeRule r = None \<Longrightarrow> a = 0 \<or> a = 1 \<Longrightarrow> \<not> rule_says env exe a bits r"
  by (auto simp: writeRule_def rule_says_def split: if_splits option.splits)

definition fw_blocks :: "(string \<Rightarrow> string) \<Rightarrow> string \<Rightarrow> fw_rule \<Rightarrow> bool" where
  "fw_blocks env exe r \<longleftrightarrow> (\<exists>bits. rule_says env exe 0 bits r)"

definition fw_allows :: "(string \<Rightarrow> string) \<Rightarrow> string \<Rightarrow> int list \<Rightarrow> fw_rule \<Rightarrow> bool" where
  "fw_allows env exe nets r \<longleftrightarrow>
     (\<exists>bits. rule_says env exe 1 bits r \<and> (nets = [] \<or> bits = profileAll \<or> list_ex (profile_bit bits) nets))"

lemma rule_line_step:
  assumes "writeRule r = Some l" and "plain_rule r"
    and "parse_line env exe l (st, map profile_name (known_profiles ns)) = (st', nets')"
  shows "nets' = map profile_name (known_profiles ns) \<and> fs_Owner st' = fs_Owner st \<and> fs_Enabled st' = fs_Enabled st \<and> fs_BlockAll st' = fs_BlockAll st
    \<and> (fs_Blocked st' \<longleftrightarrow> fs_Blocked st \<or> fw_blocks env exe r) \<and> (fs_Allowed st' \<longleftrightarrow> fs_Allowed st \<or> fw_allows env exe (known_profiles ns) r)"
proof -
  obtain a bits p where r: "l = rule_line a bits p" "fr_direction r = Some 1" "fr_enabled r = Some True" "fr_action r = Some a" "a = 0 \<or> a = 1"
    "fr_profiles r = Some bits" "fr_program r = Some p" "p \<noteq> []" "CHR 0x0D \<notin> set p" "newline \<notin> set p"
    using writeRule_Some[OF assms(1)] by blast
  have "bar \<notin> set p" "trim_space p = p" using assms(2) r(7) by (simp_all add: plain_rule_def)
  note f = rule_fields[OF this, of a bits]
  have s: "rule_says env exe k b r \<longleftrightarrow> k = a \<and> b = bits \<and> sameProgram env p exe" for k b
    using r by (auto simp: rule_says_def)
  show ?thesis using assms(3) r(5) unfolding r(1) parse_line_def f
    by (auto simp: parse_fields_def fw_blocks_def fw_allows_def s equal_fold_verbs covers_profileNames split: if_splits)
qed

lemma rules_fold:
  assumes "list_all plain_rule rs"
    and "fold (parse_line env exe) (List.map_filter writeRule rs) (st, map profile_name (known_profiles ns)) = (st', nets')"
  shows "nets' = map profile_name (known_profiles ns) \<and> fs_Owner st' = fs_Owner st \<and> fs_Enabled st' = fs_Enabled st \<and> fs_BlockAll st' = fs_BlockAll st
    \<and> (fs_Blocked st' \<longleftrightarrow> fs_Blocked st \<or> list_ex (fw_blocks env exe) rs) \<and> (fs_Allowed st' \<longleftrightarrow> fs_Allowed st \<or> list_ex (fw_allows env exe (known_profiles ns)) rs)"
  using assms
proof (induction rs arbitrary: st)
  case (Cons r rs)
  show ?case
  proof (cases "writeRule r")
    case None
    then have "\<not> fw_blocks env exe r" "\<not> fw_allows env exe (known_profiles ns) r"
      using writeRule_None by (auto simp: fw_blocks_def fw_allows_def)
    with Cons None show ?thesis by (simp add: map_filter_simps)
  next
    case (Some l)
    obtain st1 n1 where p: "parse_line env exe l (st, map profile_name (known_profiles ns)) = (st1, n1)" by fastforce
    have "plain_rule r" using Cons.prems(1) by simp
    note k = rule_line_step[OF Some this p]
    have "fold (parse_line env exe) (List.map_filter writeRule rs) (st1, map profile_name (known_profiles ns)) = (st', nets')"
      using Cons.prems(2) Some p k by (simp add: map_filter_simps)
    from Cons.IH[OF _ this] Cons.prems(1) k show ?thesis by auto
  qed
qed (simp add: map_filter_simps)

definition plain_owner :: "string \<Rightarrow> bool" where
  "plain_owner o' \<longleftrightarrow> trim_space o' = o' \<and> cleanName o' = o' \<and> newline \<notin> set o'"

text \<open>C30: on Windows the program counts as reachable exactly when another product runs the firewall, or no profile
  of it is on, or no enabled inbound rule blocks the program and one allows it for a network the computer is on (or
  the networks are unknown). Nothing is lost in the report between the two.\<close>

theorem windows_firewall_verdict:
  assumes "plain_owner (firewallOwner (fa_products a))" and "list_all plain_rule (fa_rules a)" and "length (fa_profiles_on a) \<le> 3"
    and "Check_windows env (Some a) exe = Some st"
  shows "Reachable st \<longleftrightarrow> firewallOwner (fa_products a) \<noteq> [] \<or> True \<notin> set (fa_profiles_on a)
    \<or> (\<not> list_ex (fw_blocks env exe) (fa_rules a) \<and> list_ex (fw_allows env exe (known_profiles (fa_networks a))) (fa_rules a))"
proof -
  let ?o = "firewallOwner (fa_products a)" and ?n = "nat (enabledProfiles (fa_profiles_on a))"
  let ?rl = "if ?o = [] \<or> False then List.map_filter writeRule (fa_rules a) else []" and ?nets = "map profile_name (known_profiles (fa_networks a))"
  have "newline \<notin> set l" if "l \<in> set (query_lines False a)" for l
  proof -
    have rule: "newline \<notin> set l" if "l \<in> set (List.map_filter writeRule (fa_rules a))"
      using that profileNames_plain(2) by (auto simp: set_map_filter_iff rule_line_def newline_def dest!: writeRule_Some split: if_splits)
    have net: "newline \<notin> set (join_with '','' (connectedNetworks (fa_networks a)))"
      using set_join_with[of "'',''" "connectedNetworks (fa_networks a)"] networks_plain by (fastforce simp: newline_def)
    from that rule net assms(1) dec_nat_plain(2) show ?thesis
      by (auto simp: query_lines_def plain_owner_def newline_def split: if_splits)
  qed
  then have split: "split_on newline (fw_query False a) = query_lines False a @ [[]]"
    unfolding fw_query_def by (rule split_lines)
  have "length (filter (\<lambda>b. b) (fa_profiles_on a)) \<le> 3" using length_filter_le le_trans assms(3) by blast
  then have n: "int ?n \<le> 9223372036854775807" "0 < ?n \<longleftrightarrow> True \<in> set (fa_profiles_on a)"
    by (auto simp: enabledProfiles_def filter_empty_conv)
  obtain st1 nets1 where f: "fold (parse_line env exe) ?rl (fw_zero\<lparr>fs_Owner := ?o, fs_Enabled := 0 < ?n\<rparr>, ?nets) = (st1, nets1)"
    by (cases "fold (parse_line env exe) ?rl (fw_zero\<lparr>fs_Owner := ?o, fs_Enabled := 0 < ?n\<rparr>, ?nets)") blast
  have empty: "parse_line env exe [] s = s" for s
  proof -
    have "trim_space [] = []" by code_simp
    then show ?thesis by (simp add: parse_line_def parse_fields_def split: prod.split)
  qed
  have "fold (parse_line env exe) (query_lines False a @ [[]]) (fw_zero, []) = (st1, nets1)"
    using owner_line assms(1) enabled_line[OF n(1)] network_line f
    by (simp only: query_lines_def fold_append comp_apply fold.simps append_Cons append_Nil id_apply plain_owner_def empty)
  then have "st = (let st2 = (if nets1 \<noteq> [] then st1\<lparr>fs_Network := nets1 ! 0\<rparr> else st1) in if fs_Allowed st2 then st2\<lparr>fs_Elsewhere := []\<rparr> else st2)"
    using assms(4) split by (simp add: Check_windows_def fw_parse_def)
  then have "Reachable st \<longleftrightarrow> Reachable st1" by (simp add: Reachable_def Let_def split: if_splits)
  also have "\<dots> \<longleftrightarrow> ?o \<noteq> [] \<or> True \<notin> set (fa_profiles_on a)
    \<or> (\<not> list_ex (fw_blocks env exe) (fa_rules a) \<and> list_ex (fw_allows env exe (known_profiles (fa_networks a))) (fa_rules a))"
  proof (cases "?o = []")
    case True
    with rules_fold[OF assms(2), of env exe "fw_zero\<lparr>fs_Owner := ?o, fs_Enabled := 0 < ?n\<rparr>"] f n(2) show ?thesis
      by (auto simp: Reachable_def fw_zero_def)
  next
    case False
    with f show ?thesis by (auto simp: Reachable_def)
  qed
  finally show ?thesis .
qed

definition ex_answers :: fw_answers where
  "ex_answers = \<lparr>fa_products = [None], fa_profiles_on = [True, True, False], fa_networks = [Some 1, None],
     fa_rules = [\<lparr>fr_direction = Some 1, fr_enabled = Some True, fr_action = Some 1, fr_profiles = Some 4, fr_program = Some ''C:/a/freedesk.exe''\<rparr>,
                 \<lparr>fr_direction = Some 1, fr_enabled = Some False, fr_action = Some 0, fr_profiles = Some 4, fr_program = Some ''C:/a/freedesk.exe''\<rparr>]\<rparr>"

definition ex_exe :: string where "ex_exe = ''c:/A/b/../freedesk.exe''"

lemma windows_firewall_verdict_witness:
  "\<exists>st. Check_windows (\<lambda>_. []) (Some ex_answers) ex_exe = Some st \<and> \<not> Reachable st \<and> fs_Elsewhere st = [''Public''] \<and> fs_Network st = ''Private''"
proof -
  obtain st where st: "Check_windows (\<lambda>_. []) (Some ex_answers) ex_exe = Some st" by (simp add: Check_windows_def)
  have e: "map_option fs_Elsewhere (Check_windows (\<lambda>_. []) (Some ex_answers) ex_exe) = Some [''Public'']"
    "map_option fs_Network (Check_windows (\<lambda>_. []) (Some ex_answers) ex_exe) = Some ''Private''" by code_simp+
  have p: "plain_owner (firewallOwner (fa_products ex_answers))" "list_all plain_rule (fa_rules ex_answers)" "length (fa_profiles_on ex_answers) \<le> 3"
    by code_simp+
  have k: "known_profiles (fa_networks ex_answers) = [2]" "firewallOwner (fa_products ex_answers) = []" by code_simp+
  have "\<not> list_ex (fw_allows (\<lambda>_. []) ex_exe [2]) (fa_rules ex_answers)" "True \<in> set (fa_profiles_on ex_answers)"
    by (auto simp: fw_allows_def rule_says_def ex_answers_def profileAll_def profile_bit_def)
  with windows_firewall_verdict[OF p st] k have "\<not> Reachable st" by simp
  with st e show ?thesis by auto
qed

section \<open>The advice\<close>

text \<open>Which of its explanations each platform gives.\<close>

datatype advice = AdviceBlockAll | AdviceBlocked | AdviceElsewhere string string | AdviceNotAllowed

definition Advice_darwin :: "fw_status \<Rightarrow> advice" where
  "Advice_darwin s = (if fs_BlockAll s then AdviceBlockAll else if fs_Blocked s then AdviceBlocked else AdviceNotAllowed)"

definition Advice_windows :: "fw_status \<Rightarrow> advice" where
  "Advice_windows s =
     (if fs_Blocked s then AdviceBlocked
      else if fs_Elsewhere s \<noteq> [] then AdviceElsewhere (join_with '' and '' (fs_Elsewhere s)) (fs_Network s)
      else AdviceNotAllowed)"

section \<open>The macOS firewall\<close>

text \<open>\<open>State = (\\d+)\<close>: the digits after the first place where some follow.\<close>

fun state_number :: "string \<Rightarrow> string option" where
  "state_number [] = None"
| "state_number (c # s) =
     (if has_prefix (c # s) ''State = '' \<and> takeWhile is_digit (drop (length ''State = '') (c # s)) \<noteq> []
      then Some (takeWhile is_digit (drop (length ''State = '') (c # s))) else state_number s)"

definition globalState :: "string \<Rightarrow> int option" where
  "globalState out = Option.bind (state_number out) go_atoi"

definition blocksAll :: "string \<Rightarrow> bool" where
  "blocksAll out =
     (let s = to_lower out
      in if contains_sub s ''disabled'' then False else contains_sub s ''non-essential'' \<or> contains_sub s ''enabled'')"

definition appBlocked :: "string \<Rightarrow> bool" where
  "appBlocked out = has_suffix (trim_right (trim_space out) ''.'') '' is blocked''"

definition appOf :: "string \<Rightarrow> string" where
  "appOf exe =
     (let macOS = path_dir exe; contents = path_dir macOS; app = path_dir contents
      in if path_base macOS \<noteq> ''MacOS'' \<or> path_base contents \<noteq> ''Contents'' \<or> \<not> has_suffix app ''.app'' then [] else app)"

definition add_path :: "string \<Rightarrow> string list \<Rightarrow> string list" where
  "add_path p ps = (if p \<noteq> [] \<and> p \<notin> set ps then ps @ [p] else ps)"

text \<open>\<open>resolved\<close> is \<open>EvalSymlinks\<close> of the program, if it succeeds.\<close>

definition listedAs :: "string \<Rightarrow> string option \<Rightarrow> string list" where
  "listedAs exe resolved =
     fold (\<lambda>p ps. add_path (appOf (path_clean p)) (add_path (path_clean p) ps))
       (exe # (case resolved of None \<Rightarrow> [] | Some r \<Rightarrow> [r])) []"

fun ask_blocked :: "(string \<Rightarrow> string option) \<Rightarrow> string list \<Rightarrow> bool \<Rightarrow> bool option" where
  "ask_blocked ask [] b = Some b"
| "ask_blocked ask (p # ps) b = (case ask p of None \<Rightarrow> None | Some out \<Rightarrow> ask_blocked ask ps (b \<or> appBlocked out))"

text \<open>\<open>Check\<close>: the answers to the three questions, \<open>None\<close> if the command fails.\<close>

definition Check_darwin :: "string option \<Rightarrow> string option \<Rightarrow> (string \<Rightarrow> string option) \<Rightarrow> string \<Rightarrow> string option \<Rightarrow> fw_status option" where
  "Check_darwin global blockall app exe resolved =
     (case Option.bind global globalState of
        None \<Rightarrow> None
      | Some state \<Rightarrow>
          if state \<le> 0 then Some fw_zero
          else (case (if state = 2 then Some True else map_option blocksAll blockall) of
                  None \<Rightarrow> None
                | Some block \<Rightarrow>
                    (case ask_blocked app (listedAs exe resolved) False of
                       None \<Rightarrow> None
                     | Some b \<Rightarrow> Some (fw_zero\<lparr>fs_Enabled := True, fs_BlockAll := block, fs_Blocked := b, fs_Allowed := \<not> b\<rparr>))))"

lemma ask_blocked_Some:
  "ask_blocked app ps b = Some r \<Longrightarrow> r \<longleftrightarrow> b \<or> list_ex (\<lambda>p. map_option appBlocked (app p) = Some True) ps"
  by (induction ps arbitrary: b) (auto split: option.splits)

text \<open>On macOS only a block keeps viewers out: the firewall on, and everything refused or some path the program may
  be listed under blocked.\<close>

lemma darwin_firewall_verdict:
  assumes "Check_darwin global blockall app exe resolved = Some st"
  shows "Reachable st \<longleftrightarrow> \<not> fs_Enabled st \<or> (\<not> fs_BlockAll st \<and> \<not> list_ex (\<lambda>p. map_option appBlocked (app p) = Some True) (listedAs exe resolved))"
  using assms ask_blocked_Some[of app "listedAs exe resolved" False]
  by (auto simp: Check_darwin_def Reachable_def fw_zero_def split: option.splits if_splits)

lemma listedAs_program: "path_clean exe \<noteq> [] \<Longrightarrow> path_clean exe \<in> set (listedAs exe resolved)"
  by (auto simp: listedAs_def add_path_def split: option.split)

lemma ex_words:
  "appBlocked ''Incoming connection to /a is blocked. ''" "globalState ''Firewall is enabled. (State = 1)'' = Some 1"
  "blocksAll ''Block all DISABLED!'' = False" "appOf ''/Applications/FreeDesk.app/Contents/MacOS/freedesk'' = ''/Applications/FreeDesk.app''"
  by code_simp+

end
