(* ===== verification/Update.thy ===== *)
theory Update
  imports Config Json
begin

text \<open>
  Package \<open>update\<close>: whether GitHub has a newer release. The answer of the server is an argument: none, or its
  status and the JSON value of the (limited) body, if that is one. The theory shows that versions are
  ordered like sequences of numbers padded with zeros, and that what the operator can click on comes from
  the configuration alone.
\<close>

section \<open>Versions\<close>

definition versionParts :: "string \<Rightarrow> int list" where
  "versionParts v =
     (let v1 = takeWhile (\<lambda>c. c \<notin> set ''-+'') (trim_prefix (trim_space v) ''v'')
      in map (\<lambda>p. case go_atoi p of None \<Rightarrow> 0 | Some n \<Rightarrow> if n < 0 then 0 else n) (split_on (CHR ''.'') v1))"

fun compare_loop :: "int list \<Rightarrow> int list \<Rightarrow> nat list \<Rightarrow> int" where
  "compare_loop pa pb [] = 0"
| "compare_loop pa pb (i # is) =
     (let x = (if i < length pa then pa ! i else 0); y = (if i < length pb then pb ! i else 0)
      in if x \<noteq> y then (if x < y then - 1 else 1) else compare_loop pa pb is)"

definition compareVersions :: "string \<Rightarrow> string \<Rightarrow> int" where
  "compareVersions a b =
     (let pa = versionParts a; pb = versionParts b in compare_loop pa pb [0..<max (length pa) (length pb)])"

section \<open>The check\<close>

definition apiBase :: string where "apiBase = ''https://api.github.com''"
definition maxBody :: int where "maxBody = 1048576"

record Release =
  rl_Version :: string
  rl_URL :: string

datatype check_err = NoRepository | NoAnswer | HTTPStatus int | Unreadable | NoTag

definition release_url :: "string \<Rightarrow> string \<Rightarrow> string" where
  "release_url base repo = base @ ''/repos/'' @ repo @ ''/releases/latest''"

definition put_tag :: "string \<Rightarrow> jval \<Rightarrow> string \<Rightarrow> string option" where
  "put_tag k v r = (if k = ''tag_name'' then decode_str v r else Some r)"

text \<open>The answer: \<open>None\<close> if the request failed; its status and the value the body decodes to.\<close>

definition update_check :: "(int \<times> jval option) option \<Rightarrow> string \<Rightarrow> string \<Rightarrow> (check_err + Release option)" where
  "update_check resp repo current =
     (if repo = [] then Inl NoRepository
      else (case resp of
              None \<Rightarrow> Inl NoAnswer
            | Some (status, body) \<Rightarrow>
                if status \<noteq> 200 then Inl (HTTPStatus status)
                else (case body of
                        None \<Rightarrow> Inl Unreadable
                      | Some j \<Rightarrow>
                          (case decode_struct [''tag_name''] put_tag j [] of
                             None \<Rightarrow> Inl Unreadable
                           | Some tag \<Rightarrow>
                               (let version = trim_prefix (trim_space tag) ''v''
                                in if version = [] then Inl NoTag
                                   else if compareVersions version current \<le> 0 then Inr None
                                   else Inr (Some \<lparr>rl_Version = version, rl_URL = ''https://github.com/'' @ repo @ ''/releases/latest''\<rparr>))))))"

section \<open>The order of versions\<close>

text \<open>A version as an endless sequence of numbers.\<close>

definition padded :: "int list \<Rightarrow> nat \<Rightarrow> int" where
  "padded p i = (if i < length p then p ! i else 0)"

definition seq_less :: "(nat \<Rightarrow> int) \<Rightarrow> (nat \<Rightarrow> int) \<Rightarrow> bool" where
  "seq_less f g \<longleftrightarrow> (\<exists>k. f k < g k \<and> (\<forall>i < k. f i = g i))"

definition seq_compare :: "(nat \<Rightarrow> int) \<Rightarrow> (nat \<Rightarrow> int) \<Rightarrow> int" where
  "seq_compare f g = (if f = g then 0 else if seq_less f g then - 1 else 1)"

lemma compare_loop_upt:
  assumes "\<forall>i < m. padded pa i = padded pb i" and "length pa \<le> n" and "length pb \<le> n"
  shows "compare_loop pa pb [m..<n] = seq_compare (padded pa) (padded pb)"
  using assms(1)
proof (induction "n - m" arbitrary: m)
  case 0
  then have "padded pa i = padded pb i" for i using assms(2,3) by (cases "i < m") (auto simp: padded_def)
  then have "padded pa = padded pb" by blast
  with 0 show ?case by (simp add: seq_compare_def)
next
  case (Suc d)
  then have u: "[m..<n] = m # [Suc m..<n]" by (simp add: upt_conv_Cons)
  show ?case
  proof (cases "padded pa m = padded pb m")
    case True
    then have "\<forall>i < Suc m. padded pa i = padded pb i" using Suc.prems by (simp add: less_Suc_eq)
    with Suc.hyps(1)[of "Suc m"] Suc.hyps(2) True show ?thesis by (simp add: u padded_def Let_def)
  next
    case False
    have "seq_less (padded pa) (padded pb) \<longleftrightarrow> padded pa m < padded pb m"
    proof
      assume "seq_less (padded pa) (padded pb)"
      then obtain k where k: "padded pa k < padded pb k" "\<forall>i < k. padded pa i = padded pb i" by (auto simp: seq_less_def)
      then have "k = m" using False Suc.prems by (metis linorder_neqE_nat less_irrefl)
      with k(1) show "padded pa m < padded pb m" by simp
    next
      assume "padded pa m < padded pb m"
      with Suc.prems show "seq_less (padded pa) (padded pb)" by (auto simp: seq_less_def)
    qed
    moreover have "padded pa \<noteq> padded pb" using False by metis
    ultimately have "seq_compare (padded pa) (padded pb) = (if padded pa m < padded pb m then - 1 else 1)"
      by (simp add: seq_compare_def)
    then show ?thesis using False by (simp add: u Let_def padded_def[of pa m] padded_def[of pb m])
  qed
qed

text \<open>The comparison of two versions is the lexicographic comparison of their numbers, with missing numbers
  counting as zero.\<close>

theorem compareVersions_lexicographic:
  "compareVersions a b = seq_compare (padded (versionParts a)) (padded (versionParts b))"
  unfolding compareVersions_def Let_def by (rule compare_loop_upt) auto

lemma compare_is_seq: "compareVersions a b = seq_compare (padded (versionParts a)) (padded (versionParts b))"
  unfolding compareVersions_def Let_def by (rule compare_loop_upt) auto

lemma seq_less_irrefl: "\<not> seq_less f f"
  by (simp add: seq_less_def)

lemma seq_less_trans: "seq_less f g \<Longrightarrow> seq_less g h \<Longrightarrow> seq_less f h"
proof -
  assume "seq_less f g" "seq_less g h"
  then obtain k l where k: "f k < g k" "\<forall>i < k. f i = g i" and l: "g l < h l" "\<forall>i < l. g i = h i" by (auto simp: seq_less_def)
  consider "k < l" | "l < k" | "k = l" by linarith
  then show ?thesis
  proof cases
    case 1 with k l show ?thesis unfolding seq_less_def by (intro exI[of _ k]) auto
  next
    case 2 with k l show ?thesis unfolding seq_less_def by (intro exI[of _ l]) auto
  next
    case 3 with k l show ?thesis unfolding seq_less_def by (intro exI[of _ k]) auto
  qed
qed

lemma seq_less_total: "f \<noteq> g \<Longrightarrow> seq_less f g \<or> seq_less g f"
proof -
  assume "f \<noteq> g"
  then have "\<exists>k. f k \<noteq> g k" by blast
  define k where "k = (LEAST k. f k \<noteq> g k)"
  have "f k \<noteq> g k" unfolding k_def by (rule LeastI_ex) fact
  moreover have "\<forall>i < k. f i = g i" unfolding k_def using not_less_Least by blast
  ultimately show ?thesis unfolding seq_less_def by (metis linorder_neqE)
qed

text \<open>So it is a total preorder: what is newer is not older, and newer than newer is newer.\<close>

lemma compareVersions_refl: "compareVersions a a = 0"
  by (simp add: compare_is_seq seq_compare_def)

lemma compareVersions_swap: "compareVersions b a = - compareVersions a b"
proof (cases "padded (versionParts a) = padded (versionParts b)")
  case True
  then show ?thesis by (simp add: compare_is_seq seq_compare_def)
next
  case False
  with seq_less_total[OF False] show ?thesis using seq_less_trans seq_less_irrefl
    unfolding compare_is_seq seq_compare_def by (smt (verit))
qed

lemma compare_less: "compareVersions a b < 0 \<longleftrightarrow> seq_less (padded (versionParts a)) (padded (versionParts b))"
  by (auto simp: compare_is_seq seq_compare_def seq_less_irrefl)

lemma compareVersions_trans: "compareVersions a b < 0 \<Longrightarrow> compareVersions b c < 0 \<Longrightarrow> compareVersions a c < 0"
  unfolding compare_less by (rule seq_less_trans)

text \<open>A release is reported only when it is newer than the program by that order, and the page the
  operator can open is built from the configured repository alone, whatever GitHub answers.\<close>

theorem update_check_sound:
  assumes "update_check resp repo current = Inr (Some r)"
  shows "rl_URL r = ''https://github.com/'' @ repo @ ''/releases/latest'' \<and> 0 < compareVersions (rl_Version r) current
     \<and> rl_Version r \<noteq> [] \<and> repo \<noteq> []"
  using assms by (auto simp: update_check_def Let_def split: if_splits option.splits)

lemma update_check_sound_witness:
  "\<exists>r. update_check (Some (200, Some (JObj [(''tag_name'', JStr ''v0.10.0'')]))) ''a/b'' ''0.9.1-dev'' = Inr (Some r)
     \<and> rl_URL r = ''https://github.com/a/b/releases/latest''"
proof -
  have e: "update_check (Some (200, Some (JObj [(''tag_name'', JStr ''v0.10.0'')]))) ''a/b'' ''0.9.1-dev'' =
      Inr (Some \<lparr>rl_Version = ''0.10.0'', rl_URL = ''https://github.com/a/b/releases/latest''\<rparr>)" by code_simp
  from update_check_sound[OF e] e show ?thesis by simp
qed

end
