(* ===== verification/HostMain.thy ===== *)
theory HostMain
  imports Agent Auth Firewall Update
begin

text \<open>
  The program \<open>cmd/host\<close> from its command line to its exit code: what it starts and in which order, the count
  of running sessions that the shutdown waits for, the watch over the firewall, and where its settings file is.
\<close>

section \<open>The command line and the exit code\<close>

definition licensesRequested :: "string list \<Rightarrow> bool" where
  "licensesRequested args \<longleftrightarrow> list_ex (\<lambda>a. to_lower a \<in> {''--licenses'', ''-licenses'', ''/licenses''}) args"

text \<open>\<open>printLicenses\<close>: which text goes out, and the exit code; \<open>writes\<close> is whether the output takes it.\<close>

definition printLicenses :: "string option \<Rightarrow> bool \<Rightarrow> string option \<times> int" where
  "printLicenses texts writes =
     (case texts of None \<Rightarrow> (None, 1) | Some t \<Rightarrow> (Some t, if writes then 0 else 1))"

definition runMain :: "'e option \<Rightarrow> 'e option \<Rightarrow> bool \<Rightarrow> int" where
  "runMain cfgErr runErr ended =
     (let err = (case cfgErr of Some e \<Rightarrow> Some e | None \<Rightarrow> runErr)
      in if err = None \<or> ended then 0 else 1)"

datatype launch = PrintsLicenses | InConsole | InWindow

text \<open>\<open>main\<close>: \<open>mode\<close> is the approval mode of the configuration, if it loaded, \<open>window\<close> whether one could be
  opened.\<close>

definition host_launch :: "string list \<Rightarrow> string option \<Rightarrow> bool \<Rightarrow> launch" where
  "host_launch args mode window =
     (if licensesRequested args then PrintsLicenses
      else if mode \<noteq> Some ''console'' \<and> window then InWindow
      else InConsole)"

lemma broken_configuration_is_shown: "\<not> licensesRequested args \<Longrightarrow> host_launch args None True = InWindow"
  by (simp add: host_launch_def)

section \<open>The sessions the shutdown waits for\<close>

record tracker =
  tr_running :: nat
  tr_draining :: bool
  tr_drained :: "bool option"

definition tracker_new :: tracker where
  "tracker_new = \<lparr>tr_running = 0, tr_draining = False, tr_drained = None\<rparr>"

definition tracker_start :: "tracker \<Rightarrow> bool \<times> tracker" where
  "tracker_start t = (if tr_draining t then (False, t) else (True, t\<lparr>tr_running := Suc (tr_running t)\<rparr>))"

text \<open>The goroutines of the sessions, the inbox and the shutdown. \<open>drain\<close> waits until no session runs or its
  time is over; \<open>tr_drained\<close> is which of the two it was.\<close>

inductive tracker_step :: "tracker \<Rightarrow> tracker \<Rightarrow> bool" where
  start: "tracker_step t (snd (tracker_start t))"
| ended: "0 < tr_running t \<Longrightarrow> tracker_step t (t\<lparr>tr_running := tr_running t - 1\<rparr>)"
| drain: "tracker_step t (t\<lparr>tr_draining := True\<rparr>)"
| finished: "tr_draining t \<Longrightarrow> tr_drained t = None \<Longrightarrow> tr_running t = 0 \<Longrightarrow> tracker_step t (t\<lparr>tr_drained := Some True\<rparr>)"
| timeout: "tr_draining t \<Longrightarrow> tr_drained t = None \<Longrightarrow> tracker_step t (t\<lparr>tr_drained := Some False\<rparr>)"

inductive_cases tracker_stepE: "tracker_step t t'"

inductive tracker_reach :: "tracker \<Rightarrow> bool" where
  init: "tracker_reach tracker_new"
| step: "tracker_reach t \<Longrightarrow> tracker_step t t' \<Longrightarrow> tracker_reach t'"

lemma tracker_reach_inv:
  "tracker_reach t \<Longrightarrow> (tr_drained t \<noteq> None \<longrightarrow> tr_draining t) \<and> (tr_drained t = Some True \<longrightarrow> tr_running t = 0)"
  by (induction rule: tracker_reach.induct) (auto simp: tracker_new_def tracker_start_def elim!: tracker_stepE split: if_splits)

text \<open>Once the wait for the sessions has ended because none was running, none runs ever again: what the
  shutdown removes next cannot be needed by a session.\<close>

theorem drained_stays_drained:
  assumes "tracker_reach t" and "tr_drained t = Some True" and "tracker_step\<^sup>*\<^sup>* t t'"
  shows "tr_running t' = 0"
proof -
  from assms(3,1) have "tracker_reach t'" by (induction rule: rtranclp_induct) (auto intro: tracker_reach.step)
  moreover from assms(3,2) have "tr_drained t' = Some True"
    by (induction rule: rtranclp_induct) (auto elim!: tracker_stepE simp: tracker_start_def split: if_splits)
  ultimately show ?thesis using tracker_reach_inv by blast
qed

lemma drained_stays_drained_witness:
  "tracker_reach \<lparr>tr_running = 0, tr_draining = True, tr_drained = Some True\<rparr>
   \<and> tr_running (snd (tracker_start \<lparr>tr_running = 0, tr_draining = True, tr_drained = Some True\<rparr>)) = 0"
proof -
  let ?t1 = "\<lparr>tr_running = 0, tr_draining = True, tr_drained = None\<rparr>" and ?t = "\<lparr>tr_running = 0, tr_draining = True, tr_drained = Some True\<rparr>"
  have "tracker_reach ?t1" using tracker_reach.step[OF tracker_reach.init tracker_step.drain] by (simp add: tracker_new_def)
  from tracker_reach.step[OF this tracker_step.finished] have r: "tracker_reach ?t" by simp
  have "tracker_step\<^sup>*\<^sup>* ?t (snd (tracker_start ?t))" by (rule r_into_rtranclp) (rule tracker_step.start)
  from drained_stays_drained[OF r _ this] r show ?thesis by simp
qed

section \<open>The firewall's watch\<close>

datatype fw_note =
    WarnBlocked fw_status
  | StatusBlocking
  | SayUnblocked
  | StatusWaiting
  | TellOwner string

text \<open>One round of \<open>watchFirewall\<close>: the answer, and whether the agent is being shut down right after it and at
  the wait that follows.\<close>

record fw_round =
  wr_answer :: "fw_status option"
  wr_ended :: bool
  wr_stops :: bool

fun watchFirewall :: "bool \<Rightarrow> fw_round list \<Rightarrow> fw_note list" where
  "watchFirewall warned [] = []"
| "watchFirewall warned (r # rs) =
     (case wr_answer r of
        None \<Rightarrow> []
      | Some st \<Rightarrow>
          if fs_Owner st \<noteq> [] then TellOwner (fs_Owner st) # (if warned \<and> \<not> wr_ended r then [StatusWaiting] else [])
          else if Reachable st then (if warned \<and> \<not> wr_ended r then [SayUnblocked, StatusWaiting] else [])
          else (if warned then [] else [WarnBlocked st, StatusBlocking]) @ (if wr_stops r then [] else watchFirewall True rs))"

text \<open>The operator is warned at most once, and about a firewall that really keeps viewers out.\<close>

lemma watchFirewall_warned: "WarnBlocked st \<notin> set (watchFirewall True rs) \<and> StatusBlocking \<notin> set (watchFirewall True rs)"
  by (induction rs) (auto split: option.split)

lemma watchFirewall_warns:
  "WarnBlocked st \<in> set (watchFirewall w rs) \<Longrightarrow> \<not> Reachable st \<and> fs_Owner st = []"
  using watchFirewall_warned by (cases rs) (auto split: option.splits if_splits)

lemma watchFirewall_once: "length (filter (\<lambda>n. n = StatusBlocking) (watchFirewall w rs)) \<le> 1"
proof (cases rs)
  case (Cons r rs')
  have "filter (\<lambda>n. n = StatusBlocking) (watchFirewall True rs') = []"
    using watchFirewall_warned by (auto simp: filter_empty_conv)
  then show ?thesis by (auto simp: Cons split: option.split)
qed simp

section \<open>A newer version\<close>

datatype up_note = LogUpdate string string | ShowUpdate string string

definition notifyUpdate :: "(int \<times> jval option) option \<Rightarrow> string \<Rightarrow> string \<Rightarrow> bool \<Rightarrow> up_note list" where
  "notifyUpdate resp repo appVersion window =
     (case update_check resp repo appVersion of
        Inl e \<Rightarrow> []
      | Inr None \<Rightarrow> []
      | Inr (Some r) \<Rightarrow> LogUpdate (rl_Version r) (rl_URL r) # (if window then [ShowUpdate (rl_Version r) (rl_URL r)] else []))"

section \<open>Where the program is\<close>

definition appBundleParent :: "string \<Rightarrow> string option" where
  "appBundleParent exe =
     (let macOS = path_dir exe; contents = path_dir macOS; app = path_dir contents
      in if path_base macOS \<noteq> ''MacOS'' \<or> path_base contents \<noteq> ''Contents'' \<or> \<not> has_suffix app ''.app'' then None
         else Some (path_dir app))"

text \<open>\<open>os.Executable\<close> and \<open>EvalSymlinks\<close> of it, each of which may fail.\<close>

definition real_exe :: "string \<Rightarrow> string option \<Rightarrow> string" where
  "real_exe exe resolved = (case resolved of Some r \<Rightarrow> r | None \<Rightarrow> exe)"

definition envPath :: "string option \<Rightarrow> (string \<Rightarrow> string option) \<Rightarrow> string" where
  "envPath exe eval =
     (case exe of
        None \<Rightarrow> ''.env''
      | Some e \<Rightarrow> (case appBundleParent (real_exe e (eval e)) of None \<Rightarrow> ''.env'' | Some dir \<Rightarrow> path_join dir ''.env''))"

definition translocated :: "string \<Rightarrow> bool" where
  "translocated exe \<longleftrightarrow> contains_sub exe ''/AppTranslocation/''"

definition placeWarning :: "string option \<Rightarrow> (string \<Rightarrow> string option) \<Rightarrow> (string \<Rightarrow> bool) \<Rightarrow> bool" where
  "placeWarning exe eval volumeReadOnly \<longleftrightarrow>
     (case exe of
        None \<Rightarrow> False
      | Some e0 \<Rightarrow> let e = real_exe e0 (eval e0) in appBundleParent e \<noteq> None \<and> (translocated e \<or> volumeReadOnly e))"

lemma ex_env_paths:
  "envPath (Some ''/Users/a/Apps/FreeDesk.app/Contents/MacOS/freedesk'') (\<lambda>_. None) = ''/Users/a/Apps/.env''"
  "envPath (Some ''/usr/local/bin/freedesk'') (\<lambda>_. None) = ''.env''"
  "translocated ''/T/AppTranslocation/0F/d/FreeDesk.app/Contents/MacOS/freedesk''" "\<not> translocated ''/Users/a/AppTranslocationNotes/FreeDesk.app/x''"
  by code_simp+

section \<open>A run of the agent\<close>

datatype run_act =
    WarnsPlace
  | ListensOn int
  | AnyPort int
  | WatchesFirewall
  | AsksForUpdate string
  | SigningIn
  | SignedIn string
  | PublishingCode
  | RegisteredAs string
  | Tells "notice list"
  | ServesIdentity int
  | NoIdentity int
  | Heartbeats duration
  | NoEncoder
  | NoScreen
  | NoControl
  | SavesTo string
  | NoFiles
  | Sweeps string
  | AsksLocalNetwork
  | WaitsForRequests
  | Stops
  | SessionsLeft
  | NotWithdrawn rtdb_err
  | NotDeleted auth_fail
  | HasShutDown

text \<open>What the rest of the system answers while the program starts and while it stops.\<close>

record run_env =
  rn_exe :: "string option"
  rn_eval :: "string \<Rightarrow> string option"
  rn_readonly :: "string \<Rightarrow> bool"
  rn_udp :: "int option"
  rn_parse :: "string \<Rightarrow> jval option"
  rn_signup :: "(int \<times> string) option"
  rn_signup_at :: int
  rn_fresh :: "nat \<Rightarrow> nat option \<times> call_env"
  rn_listens :: bool
  rn_vpx :: bool
  rn_screen :: bool
  rn_control :: bool
  rn_files :: bool
  rn_downloads :: string
  rn_drained :: bool
  rn_unregister :: call_env
  rn_token_call :: id_call
  rn_delete :: "(int \<times> string) option"

definition run_intro :: "run_env \<Rightarrow> Config \<Rightarrow> run_act list" where
  "run_intro env cfg =
     (if placeWarning (rn_exe env) (rn_eval env) (rn_readonly env) then [WarnsPlace] else [])
     @ [case rn_udp env of None \<Rightarrow> AnyPort (cf_UDPPort cfg) | Some port \<Rightarrow> ListensOn port, WatchesFirewall]
     @ (if cf_UpdateCheck cfg then [AsksForUpdate (cf_GitHubRepo cfg)] else []) @ [SigningIn]"

definition run_checks :: "run_env \<Rightarrow> run_act list" where
  "run_checks env =
     (if \<not> rn_vpx env then [NoEncoder] else []) @ (if \<not> rn_screen env then [NoScreen] else []) @ (if \<not> rn_control env then [NoControl] else [])
     @ [SavesTo (rn_downloads env)] @ (if \<not> rn_files env then [NoFiles] else []) @ [Sweeps (rn_downloads env), AsksLocalNetwork, WaitsForRequests]"

definition run_start ::
  "run_env \<Rightarrow> Config \<Rightarrow> bool \<Rightarrow> string \<Rightarrow> hosts \<Rightarrow> (startup_err + Token \<times> agent_env \<times> agent) \<times> run_act list \<times> hosts" where
  "run_start env cfg win version db =
     (case SignUpAnonymous (rn_parse env) (rn_signup_at env) (rn_signup env) of
        Inl e \<Rightarrow> (Inl SignInFailed, run_intro env cfg, db)
      | Inr tok \<Rightarrow>
          let rt = NewRTDB (cf_DatabaseURL cfg) (cf_DatabaseNamespace cfg);
              su = \<lparr>su_registrar = \<lparr>rg_rtdb = rt, rg_ownerUID = tk_UID tok, rg_version = version\<rparr>, su_cfg = cfg, su_window = win\<rparr>;
              acts = run_intro env cfg @ [SignedIn (tk_UID tok), PublishingCode]
          in (case registerWithFreshCode (su_registrar su) cfg (rn_fresh env) 1 db of
                (Inl err, db') \<Rightarrow> (Inl err, acts, db')
              | (Inr code, db') \<Rightarrow>
                  let api = start_api (rn_listens env) \<lparr>id_Code = code, id_Name = cf_HostName cfg, id_Version = version\<rparr> (cf_WebOrigins cfg)
                  in (Inr (tok, su, agent_start code api),
                      acts @ [RegisteredAs (cf_HostName cfg), Tells (announce win code (SiteURL cfg)),
                              if api = None then NoIdentity (cf_LocalAPIPort cfg) else ServesIdentity (cf_LocalAPIPort cfg),
                              Heartbeats (cf_HeartbeatInterval cfg)] @ run_checks env,
                      db')))"

definition run_stop :: "run_env \<Rightarrow> agent_env \<Rightarrow> Token \<Rightarrow> agent \<times> hosts \<Rightarrow> run_act list \<times> hosts" where
  "run_stop env su tok s =
     (case Unregister (su_registrar su) (rn_unregister env) (ag_code (fst s)) (snd s) of
        (r, db') \<Rightarrow>
          ([Stops] @ (if rn_drained env then [] else [SessionsLeft])
           @ (case r of Inl e \<Rightarrow> [NotWithdrawn e] | Inr _ \<Rightarrow> [])
           @ (case fst (mgr_DeleteAccount (rn_parse env) (rn_token_call env) (rn_delete env) tok) of None \<Rightarrow> [] | Some e \<Rightarrow> [NotDeleted e])
           @ [HasShutDown], db'))"

text \<open>\<open>run\<close>: the start, then whatever happens (\<open>evs\<close>) until the context ends, then the shutdown.\<close>

definition run_agent ::
  "run_env \<Rightarrow> Config \<Rightarrow> bool \<Rightarrow> string \<Rightarrow> agent_ev list \<Rightarrow> hosts \<Rightarrow> startup_err option \<times> run_act list \<times> hosts \<times> agent option" where
  "run_agent env cfg win version evs db =
     (case run_start env cfg win version db of
        (Inl err, acts, db') \<Rightarrow> (Some err, acts, db', None)
      | (Inr (tok, su, a), acts, db') \<Rightarrow>
          (case agent_run su evs (a, db') of
             (a', db'') \<Rightarrow> (case run_stop env su tok (a', db'') of (acts', db3) \<Rightarrow> (None, acts @ acts', db3, Some a'))))"

section \<open>Codes stay codes\<close>

fun rot_ok :: "rotation \<Rightarrow> bool" where
  "rot_ok (Switching streak old fresh) = code_ok fresh"
| "rot_ok _ = True"

definition codes_ok :: "agent \<Rightarrow> bool" where
  "codes_ok a \<longleftrightarrow> code_ok (ag_code a) \<and> list_all rot_ok (ag_rots a)"

lemma list_all_update: "list_all P xs \<Longrightarrow> P x \<Longrightarrow> list_all P (xs[i := x])"
  by (auto simp: list_all_iff dest!: set_update_subset_insert[THEN subsetD])

lemma codes_ok_set_rot: "codes_ok a \<Longrightarrow> rot_ok x \<Longrightarrow> codes_ok (set_rot i x a)"
  by (simp add: codes_ok_def list_all_update)

lemma codes_ok_tell [simp]: "codes_ok (tell ns a) = codes_ok a"
  by (simp add: codes_ok_def)

lemma codes_ok_try:
  assumes "codes_ok a"
  shows "codes_ok (fst (rot_try su i draw e (a, db)))"
proof (cases "ag_rots a ! i")
  case (Picking streak old attempt)
  obtain r d where r: "try_fresh (su_registrar su) (su_cfg su) attempt draw e db = (r, d)" by fastforce
  have "r = Published fresh \<Longrightarrow> code_ok fresh" for fresh
    using try_fresh_Published[of "su_registrar su" "su_cfg su" attempt draw e db fresh d] r by (simp add: host_write_def)
  with assms r show ?thesis by (cases r) (simp_all add: rot_try_def Picking codes_ok_set_rot)
qed (simp_all add: rot_try_def assms)

lemma codes_ok_switch:
  assumes "codes_ok a" and "i < length (ag_rots a)"
  shows "codes_ok (rot_switch su i a)"
proof (cases "ag_rots a ! i")
  case (Switching streak old fresh)
  with assms have "code_ok fresh" by (metis codes_ok_def list_all_length rot_ok.simps(1))
  with assms(1) show ?thesis by (simp add: rot_switch_def Switching codes_ok_def set_rot_def list_all_update)
qed (simp_all add: rot_switch_def assms)

lemma codes_ok_retire: "codes_ok a \<Longrightarrow> codes_ok (fst (rot_retire su i e (a, db)))"
  by (cases "ag_rots a ! i") (simp_all add: rot_retire_def codes_ok_set_rot split: prod.split)

lemma codes_ok_step: "codes_ok (fst s) \<Longrightarrow> codes_ok (fst (agent_step su ev s))"
proof -
  assume a: "codes_ok (fst s)"
  obtain x db where s: "s = (x, db)" by fastforce
  show ?thesis
  proof (cases ev)
    case (BeatCall e ended)
    with a show ?thesis by (auto simp: s beat_call_def codes_ok_def split: option.split prod.split)
  next
    case (RotTry i draw e)
    with a codes_ok_try show ?thesis by (simp add: s)
  next
    case (RotSwitch i)
    with a codes_ok_switch show ?thesis by (simp add: s)
  next
    case (RotRetire i e)
    with a codes_ok_retire show ?thesis by (simp add: s)
  qed (use a in \<open>simp_all add: s codes_ok_def rot_start_def\<close>)
qed

lemma codes_ok_run: "codes_ok (fst s) \<Longrightarrow> codes_ok (fst (agent_run su evs s))"
  by (induction evs arbitrary: s) (simp_all add: agent_run_def codes_ok_step)

lemma registered_code_ok:
  assumes "registerWithFreshCode g cfg env 1 db = (Inr code, db')"
  shows "code_ok code"
proof -
  have "registerWithFreshCode g cfg env n db = (Inr code, db') \<Longrightarrow> code_ok code" for n
  proof (induction g cfg env n db rule: registerWithFreshCode.induct)
    case (1 g cfg env attempt db)
    obtain q db1 where t: "try_fresh g cfg attempt (fst (env attempt)) (snd (env attempt)) db = (q, db1)" by fastforce
    have u: "registerWithFreshCode g cfg env attempt db = (case q of Published code \<Rightarrow> (Inr code, db1) | GiveUp err \<Rightarrow> (Inl err, db1)
        | TryAgain \<Rightarrow> registerWithFreshCode g cfg env (Suc attempt) db1)"
      by (simp add: registerWithFreshCode.simps[of g cfg env attempt db] t split: try_result.split)
    show ?case using 1(2) 1(1)[OF t[symmetric]] try_fresh_Published[of g cfg attempt "fst (env attempt)" "snd (env attempt)" db code db1] t
      by (auto simp: u host_write_def split: try_result.splits)
  qed
  with assms show ?thesis by blast
qed

text \<open>A run that is ended in order, and whose last call reaches the database, leaves no record of this agent
  under the code it was showing, whatever happened in between: replacements, lost calls, other users.\<close>

theorem shutdown_withdraws_code:
  assumes "run_agent env cfg win version evs db = (None, acts, db', Some a)" and "ce_token (rn_unregister env) = Some t"
    and "ce_fate (rn_unregister env) = Reached"
    and "SignUpAnonymous (rn_parse env) (rn_signup_at env) (rn_signup env) = Inr tok"
  shows "map_option hr_owner (db' (ag_code a)) \<noteq> Some (tk_UID tok)"
proof -
  obtain su a0 acts0 db0 where st: "run_start env cfg win version db = (Inr (tok, su, a0), acts0, db0)" and uid: "su_uid su = tk_UID tok"
    and c0: "codes_ok a0"
    using assms(1,4) registered_code_ok
    by (auto simp: run_agent_def run_start_def Let_def codes_ok_def agent_start_def split: prod.splits sum.splits)
  obtain a1 db1 where r: "agent_run su evs (a0, db0) = (a1, db1)" by fastforce
  have c1: "code_ok (ag_code a1)" using codes_ok_run[of "(a0, db0)" su evs] c0 r by (simp add: codes_ok_def)
  obtain q db2 where u: "Unregister (su_registrar su) (rn_unregister env) (ag_code a1) db1 = (q, db2)" by fastforce
  have a: "a = a1" "db' = db2" using assms(1) st r u by (auto simp: run_agent_def run_stop_def split: prod.splits)
  show ?thesis
  proof (cases "map_option hr_owner (db1 (ag_code a1)) = Some (tk_UID tok)")
    case True
    have "host_apply (su_uid su) (ce_now (rn_unregister env)) (ag_code a1) RemoveRecord db1 = Some (db1(ag_code a1 := None))"
      using True c1 uid by (auto simp: host_apply_def host_write_def split: option.split)
    with host_call_ok[OF assms(2,3)] u have "db2 = db1(ag_code a1 := None)" by (simp add: Unregister_def)
    with a show ?thesis by simp
  next
    case False
    with Unregister_db[of "su_registrar su" "rn_unregister env" "ag_code a1" db1] u a show ?thesis by auto
  qed
qed

definition ex_signup :: jval where
  "ex_signup = JObj [(''idToken'', JStr ''a''), (''refreshToken'', JStr ''r''), (''expiresIn'', JStr ''3600''), (''localId'', JStr ''me'')]"

definition ex_run :: run_env where
  "ex_run = \<lparr>rn_exe = None, rn_eval = (\<lambda>_. None), rn_readonly = (\<lambda>_. False), rn_udp = Some 47801, rn_parse = (\<lambda>_. Some ex_signup),
     rn_signup = Some (200, ''{}''), rn_signup_at = 0, rn_fresh = (\<lambda>n. (Some (Suc n), ex_call 1000000)), rn_listens = False, rn_vpx = True,
     rn_screen = True, rn_control = True, rn_files = True, rn_downloads = ''/d'', rn_drained = True, rn_unregister = ex_call 1000001,
     rn_token_call = \<lparr>ic_now = 0, ic_later = 0, ic_resp = None\<rparr>, rn_delete = Some (200, ''{}'')\<rparr>"

lemma ex_try_me: "try_fresh ex_reg ex_cfg (Suc 0) (Some (Suc (Suc 0))) (ex_call 1000000) Map.empty =
    (Published ''000002'', [''000002'' \<mapsto> hostRecord ex_reg ''pc'' 1000000])"
  using ex_codes by (simp add: try_fresh_def ex_agent_defs numeral_2_eq_2)

lemma ex_signed_up: "SignUpAnonymous (\<lambda>_. Some ex_signup) 0 (Some (200, ''{}'')) =
    Inr \<lparr>tk_IDToken = ''a'', tk_RefreshToken = ''r'', tk_UID = ''me'', tk_ExpiresAt = 60 * minute\<rparr>"
  by code_simp

lemma shutdown_withdraws_code_witness:
  "\<exists>acts db' a. run_agent ex_run ex_cfg True ''1.0'' [BeatTick, BeatCall (ex_call 1000000) False] Map.empty = (None, acts, db', Some a)
     \<and> ag_code a = ''000002'' \<and> map_option hr_owner (db' ''000002'') \<noteq> Some ''me''"
proof -
  have reg: "\<lparr>rg_rtdb = NewRTDB ''https://x'' [], rg_ownerUID = ''me'', rg_version = ''1.0''\<rparr> = ex_reg" by code_simp
  have "\<exists>acts0. run_start ex_run ex_cfg True ''1.0'' Map.empty =
    (Inr (\<lparr>tk_IDToken = ''a'', tk_RefreshToken = ''r'', tk_UID = ''me'', tk_ExpiresAt = 60 * minute\<rparr>,
          \<lparr>su_registrar = ex_reg, su_cfg = ex_cfg, su_window = True\<rparr>, agent_start ''000002'' None),
     acts0, [''000002'' \<mapsto> hostRecord ex_reg ''pc'' 1000000])"
    using ex_try_me ex_signed_up reg
    by (simp add: run_start_def ex_run_def Let_def registerWithFreshCode.simps ex_cfg_def start_api_def)
  then obtain acts0 where st: "run_start ex_run ex_cfg True ''1.0'' Map.empty =
    (Inr (\<lparr>tk_IDToken = ''a'', tk_RefreshToken = ''r'', tk_UID = ''me'', tk_ExpiresAt = 60 * minute\<rparr>,
          \<lparr>su_registrar = ex_reg, su_cfg = ex_cfg, su_window = True\<rparr>, agent_start ''000002'' None),
     acts0, [''000002'' \<mapsto> hostRecord ex_reg ''pc'' 1000000])" ..
  let ?r = "run_agent ex_run ex_cfg True ''1.0'' [BeatTick, BeatCall (ex_call 1000000) False] Map.empty"
  obtain e acts db' oa where r: "?r = (e, acts, db', oa)" by (cases ?r) auto
  have "e = None \<and> (\<exists>a. oa = Some a \<and> ag_code a = ''000002'')"
    using r by (subst (asm) run_agent_def) (auto simp: st agent_run_def beat_call_def beat_tick_def agent_start_def split: prod.splits)
  then obtain a where a: "?r = (None, acts, db', Some a)" "ag_code a = ''000002''" using r by blast
  have "map_option hr_owner (db' (ag_code a)) \<noteq> Some ''me''"
    using shutdown_withdraws_code[OF a(1), of "''tok''"] ex_signed_up by (simp add: ex_run_def ex_call_def)
  with a show ?thesis by auto
qed

end
