(* ===== verification/LineEnds.thy ===== *)
theory LineEnds
  imports GoStrings
begin

text \<open>
  The two line ends: \<open>strings.ReplaceAll\<close> of CRLF by LF and of LF by CRLF.
\<close>

definition crlf :: string where "crlf = [CHR 0x0D, CHR 0x0A]"

fun crlf_to_lf :: "string \<Rightarrow> string" where
  "crlf_to_lf (a # b # s) = (if a = CHR 0x0D \<and> b = CHR 0x0A then CHR 0x0A # crlf_to_lf s else a # crlf_to_lf (b # s))"
| "crlf_to_lf s = s"

definition lf_to_crlf :: "string \<Rightarrow> string" where
  "lf_to_crlf s = concat (map (\<lambda>c. if c = CHR 0x0A then crlf else [c]) s)"

lemma crlf_to_lf_inverse: "CHR 0x0D \<notin> set s \<Longrightarrow> crlf_to_lf (lf_to_crlf s) = s"
proof (induction s)
  case (Cons c s)
  then have e: "crlf_to_lf (lf_to_crlf s) = s" by simp
  show ?case
  proof (cases "c = CHR 0x0A")
    case True
    with e show ?thesis by (simp add: lf_to_crlf_def crlf_def)
  next
    case False
    have "lf_to_crlf (c # s) = c # lf_to_crlf s" using False by (simp add: lf_to_crlf_def)
    moreover have "crlf_to_lf (c # lf_to_crlf s) = c # crlf_to_lf (lf_to_crlf s)"
      using Cons.prems by (cases "lf_to_crlf s") auto
    ultimately show ?thesis using e by simp
  qed
qed (simp add: lf_to_crlf_def)

lemma crlf_to_lf_id: "CHR 0x0D \<notin> set t \<Longrightarrow> crlf_to_lf t = t"
  by (induction t rule: crlf_to_lf.induct) auto

text \<open>After the second replacement no LF is without its CR.\<close>

fun no_bare_lf :: "string \<Rightarrow> bool" where
  "no_bare_lf [] = True"
| "no_bare_lf (a # s) = (if a = CHR 0x0A then False else if a = CHR 0x0D then no_bare_lf (if s \<noteq> [] \<and> hd s = CHR 0x0A then tl s else s) else no_bare_lf s)"

lemma lf_to_crlf_no_bare: "no_bare_lf (lf_to_crlf s)"
proof (induction s)
  case (Cons c s)
  have h: "hd (lf_to_crlf s) \<noteq> CHR 0x0A" if "lf_to_crlf s \<noteq> []"
    using that by (cases s) (auto simp: lf_to_crlf_def crlf_def)
  show ?case
  proof (cases "c = CHR 0x0A")
    case True
    with Cons show ?thesis by (simp add: lf_to_crlf_def crlf_def)
  next
    case False
    then have "lf_to_crlf (c # s) = c # lf_to_crlf s" by (simp add: lf_to_crlf_def)
    with Cons False h show ?thesis by auto
  qed
qed (simp add: lf_to_crlf_def)

end
