(* ===== verification/StatusWindow.thy ===== *)
theory StatusWindow
  imports LineEnds Prelude
begin

text \<open>
  Package \<open>ui\<close>: the status window. Other goroutines queue updates and wake the window's thread with a message;
  that thread takes the queue and applies it. The theory models the queue step by step, the life of the window
  from the first request to close it to its end, and the lines of its activity pane. The layout, the
  drawing, the buttons and the licenses window are in \<open>WindowParts\<close>; the limit of a million characters the pane is
  given is not modelled.
\<close>

section \<open>Lines\<close>

definition splitRecord :: "string \<Rightarrow> string list" where
  "splitRecord s =
     (let t = trim_suffix (filter (\<lambda>c. c \<noteq> CHR 0x00) (filter (\<lambda>c. c \<noteq> CHR 0x0D) s)) [CHR 0x0A]
      in if t = [] then [] else split_on (CHR 0x0A) t)"

definition maxActivityLines :: nat where "maxActivityLines = 400"
definition activityDrop :: nat where "activityDrop = 100"

record lineRing =
  lr_max :: nat
  lr_drop :: nat
  lr_lines :: "string list"

definition newLineRing :: lineRing where
  "newLineRing = \<lparr>lr_max = maxActivityLines, lr_drop = activityDrop, lr_lines = []\<rparr>"

definition ring_push :: "string list \<Rightarrow> lineRing \<Rightarrow> bool \<times> lineRing" where
  "ring_push ls r =
     (let all = lr_lines r @ ls
      in if length all \<le> lr_max r then (False, r\<lparr>lr_lines := all\<rparr>)
         else (True, r\<lparr>lr_lines := drop (max (lr_drop r) (length all - lr_max r)) all\<rparr>))"

definition ring_text :: "lineRing \<Rightarrow> string" where
  "ring_text r = join_with crlf (lr_lines r)"

section \<open>The window\<close>

datatype ui_update =
    Line string
  | Code string string
  | Status string
  | Update string string

text \<open>\<open>tee.Write\<close>: each record goes to the window, whatever becomes of the echo.\<close>

definition tee_Write :: "string \<Rightarrow> ui_update list" where
  "tee_Write p = [Line p]"

datatype ui_stage = Creating | Idle | Refreshing | Taking

record view =
  vw_code :: string
  vw_site :: string
  vw_status :: string
  vw_button :: "string option"
  vw_pane :: string
  vw_copy :: bool

record window =
  wn_pending :: "ui_update list"
  wn_hwnd :: bool
  wn_wake :: bool
  wn_refreshes :: nat
  wn_waking :: nat
  wn_sending :: nat
  wn_stage :: ui_stage
  wn_view :: view
  wn_ring :: lineRing
  wn_codeText :: string
  wn_updateURL :: string
  wn_closing :: bool
  wn_done :: bool
  wn_failed :: bool
  wn_exit :: int
  wn_destroyed :: bool
  wn_asked :: nat

definition startingText :: string where "startingText = ''Starting'' @ [CHR 0xE2, CHR 0x80, CHR 0xA6]"

definition window_new :: window where
  "window_new = \<lparr>wn_pending = [], wn_hwnd = False, wn_wake = False, wn_refreshes = 0, wn_waking = 0, wn_sending = 0, wn_stage = Creating,
     wn_view = \<lparr>vw_code = startingText, vw_site = [], vw_status = [], vw_button = None, vw_pane = [], vw_copy = False\<rparr>,
     wn_ring = newLineRing, wn_codeText = [], wn_updateURL = [], wn_closing = False, wn_done = False, wn_failed = False, wn_exit = 0,
     wn_destroyed = False, wn_asked = 0\<rparr>"

subsection \<open>Other goroutines\<close>

text \<open>\<open>post\<close>: the update is queued under the lock, with the handle read there; \<open>wn_waking\<close> counts the callers
  that are about to swap the flag, \<open>wn_sending\<close> those about to post the message.\<close>

definition ui_post :: "ui_update \<Rightarrow> window \<Rightarrow> window" where
  "ui_post u w = w\<lparr>wn_pending := wn_pending w @ [u], wn_waking := (if wn_hwnd w then Suc (wn_waking w) else wn_waking w)\<rparr>"

definition post_swap :: "window \<Rightarrow> window" where
  "post_swap w =
     (if wn_waking w = 0 then w
      else if wn_wake w then w\<lparr>wn_waking := wn_waking w - 1\<rparr>
      else w\<lparr>wn_wake := True, wn_waking := wn_waking w - 1, wn_sending := Suc (wn_sending w)\<rparr>)"

text \<open>The call of \<open>PostMessage\<close>; \<open>ok\<close> is whether the system takes the message.\<close>

definition post_send :: "bool \<Rightarrow> window \<Rightarrow> window" where
  "post_send ok w =
     (if wn_sending w = 0 then w
      else w\<lparr>wn_sending := wn_sending w - 1, wn_refreshes := (if ok then Suc (wn_refreshes w) else wn_refreshes w)\<rparr>)"

subsection \<open>The window's own thread\<close>

definition appendLines :: "string list \<Rightarrow> window \<Rightarrow> window" where
  "appendLines ls w =
     (case ring_push ls (wn_ring w) of
        (trimmed, r) \<Rightarrow>
          w\<lparr>wn_ring := r,
            wn_view := (wn_view w)\<lparr>vw_pane := (if trimmed then ring_text r @ crlf else vw_pane (wn_view w) @ join_with crlf ls @ crlf)\<rparr>\<rparr>)"

fun apply_update :: "ui_update \<Rightarrow> window \<Rightarrow> window" where
  "apply_update (Line r) w = w"
| "apply_update (Code c site) w =
     w\<lparr>wn_codeText := c, wn_view := (wn_view w)\<lparr>vw_code := c, vw_site := ''Web page: '' @ site,
         vw_copy := (if \<not> wn_closing w \<and> \<not> wn_failed w then True else vw_copy (wn_view w))\<rparr>\<rparr>"
| "apply_update (Status t) w = w\<lparr>wn_view := (wn_view w)\<lparr>vw_status := t\<rparr>\<rparr>"
| "apply_update (Update v u) w = w\<lparr>wn_updateURL := u, wn_view := (wn_view w)\<lparr>vw_button := Some (''Update to '' @ v)\<rparr>\<rparr>"

fun batch_lines :: "ui_update list \<Rightarrow> string list" where
  "batch_lines [] = []"
| "batch_lines (Line r # us) = splitRecord r @ batch_lines us"
| "batch_lines (_ # us) = batch_lines us"

definition apply_batch :: "ui_update list \<Rightarrow> window \<Rightarrow> window" where
  "apply_batch us w =
     (let w1 = fold apply_update us w; ls = batch_lines us in if ls \<noteq> [] then appendLines ls w1 else w1)"

text \<open>\<open>drain\<close>: the flag first, then the queue. \<open>take_message\<close> is the loop receiving a refresh.\<close>

definition create_handle :: "window \<Rightarrow> window" where
  "create_handle w = (if wn_stage w = Creating then w\<lparr>wn_hwnd := True, wn_stage := Refreshing\<rparr> else w)"

definition take_message :: "window \<Rightarrow> window" where
  "take_message w =
     (if wn_stage w = Idle \<and> 0 < wn_refreshes w then w\<lparr>wn_refreshes := wn_refreshes w - 1, wn_stage := Refreshing\<rparr> else w)"

definition drain_clear :: "window \<Rightarrow> window" where
  "drain_clear w = (if wn_stage w = Refreshing then w\<lparr>wn_wake := False, wn_stage := Taking\<rparr> else w)"

definition drain_take :: "window \<Rightarrow> window" where
  "drain_take w =
     (if wn_stage w = Taking then apply_batch (wn_pending w) (w\<lparr>wn_pending := [], wn_stage := Idle\<rparr>) else w)"

subsection \<open>Closing\<close>

definition stoppingText :: string where "stoppingText = ''Stopping'' @ [CHR 0xE2, CHR 0x80, CHR 0xA6]"

definition requestClose :: "window \<Rightarrow> window" where
  "requestClose w =
     (if wn_done w then w\<lparr>wn_destroyed := True\<rparr>
      else if wn_closing w then w
      else w\<lparr>wn_closing := True, wn_view := (wn_view w)\<lparr>vw_status := stoppingText, vw_copy := False\<rparr>, wn_asked := Suc (wn_asked w)\<rparr>)"

definition ui_finish :: "int \<Rightarrow> window \<Rightarrow> window" where
  "ui_finish code w =
     (let w1 = w\<lparr>wn_done := True, wn_exit := code\<rparr>
      in if wn_closing w1 \<or> code = 0 then w1\<lparr>wn_destroyed := True\<rparr>
         else w1\<lparr>wn_failed := True,
                 wn_view := (wn_view w1)\<lparr>vw_code := ''Could not start'', vw_status := ''See the activity log below, then close this window.'',
                                          vw_copy := False\<rparr>\<rparr>)"

text \<open>The messages \<open>wndProc\<close> answers, besides the painting.\<close>

datatype ui_msg =
    WmDone int
  | WmClose
  | WmQueryEndSession
  | WmEndSession bool

fun wndProc :: "ui_msg \<Rightarrow> window \<Rightarrow> window" where
  "wndProc (WmDone code) w = ui_finish code w"
| "wndProc WmClose w = requestClose w"
| "wndProc WmQueryEndSession w = requestClose w"
| "wndProc (WmEndSession really) w = (if really then requestClose w else w)"

inductive window_step :: "window \<Rightarrow> window \<Rightarrow> bool" where
  post: "window_step w (ui_post u w)"
| swap: "window_step w (post_swap w)"
| send: "window_step w (post_send True w)"
| create: "window_step w (create_handle w)"
| receive: "window_step w (take_message w)"
| clear: "window_step w (drain_clear w)"
| take: "window_step w (drain_take w)"
| message: "wn_stage w = Idle \<Longrightarrow> \<not> wn_destroyed w \<Longrightarrow> window_step w (wndProc m w)"

inductive_cases window_stepE: "window_step w w'"

inductive ui_reach :: "window \<Rightarrow> bool" where
  start: "ui_reach window_new"
| further: "ui_reach w \<Longrightarrow> window_step w w' \<Longrightarrow> ui_reach w'"

section \<open>Nothing posted is left unseen\<close>

lemma apply_update_frame [simp]:
  "wn_pending (apply_update u w) = wn_pending w" "wn_hwnd (apply_update u w) = wn_hwnd w" "wn_wake (apply_update u w) = wn_wake w"
  "wn_refreshes (apply_update u w) = wn_refreshes w" "wn_waking (apply_update u w) = wn_waking w" "wn_sending (apply_update u w) = wn_sending w"
  "wn_stage (apply_update u w) = wn_stage w" "wn_closing (apply_update u w) = wn_closing w" "wn_done (apply_update u w) = wn_done w"
  "wn_destroyed (apply_update u w) = wn_destroyed w" "wn_asked (apply_update u w) = wn_asked w" "wn_ring (apply_update u w) = wn_ring w"
  "vw_pane (wn_view (apply_update u w)) = vw_pane (wn_view w)"
  by (cases u; simp)+

lemma fold_update_frame [simp]:
  "wn_pending (fold apply_update us w) = wn_pending w" "wn_hwnd (fold apply_update us w) = wn_hwnd w" "wn_wake (fold apply_update us w) = wn_wake w"
  "wn_refreshes (fold apply_update us w) = wn_refreshes w" "wn_waking (fold apply_update us w) = wn_waking w" "wn_sending (fold apply_update us w) = wn_sending w"
  "wn_stage (fold apply_update us w) = wn_stage w" "wn_closing (fold apply_update us w) = wn_closing w" "wn_done (fold apply_update us w) = wn_done w"
  "wn_destroyed (fold apply_update us w) = wn_destroyed w" "wn_asked (fold apply_update us w) = wn_asked w" "wn_ring (fold apply_update us w) = wn_ring w"
  "vw_pane (wn_view (fold apply_update us w)) = vw_pane (wn_view w)"
  by (induction us arbitrary: w; simp)+

lemma apply_batch_frame [simp]:
  "wn_pending (apply_batch us w) = wn_pending w" "wn_hwnd (apply_batch us w) = wn_hwnd w" "wn_wake (apply_batch us w) = wn_wake w"
  "wn_refreshes (apply_batch us w) = wn_refreshes w" "wn_waking (apply_batch us w) = wn_waking w" "wn_sending (apply_batch us w) = wn_sending w"
  "wn_stage (apply_batch us w) = wn_stage w" "wn_closing (apply_batch us w) = wn_closing w" "wn_done (apply_batch us w) = wn_done w"
  "wn_destroyed (apply_batch us w) = wn_destroyed w" "wn_asked (apply_batch us w) = wn_asked w"
  by (simp_all add: apply_batch_def Let_def appendLines_def split: prod.split)

text \<open>A set flag has a message on its way or being received; a queued update has that or a caller about to set it.\<close>

definition queue_inv :: "window \<Rightarrow> bool" where
  "queue_inv w \<longleftrightarrow>
     (wn_wake w \<longrightarrow> 0 < wn_sending w \<or> 0 < wn_refreshes w \<or> wn_stage w = Refreshing)
     \<and> (wn_hwnd w \<and> wn_pending w \<noteq> [] \<longrightarrow> 0 < wn_waking w \<or> wn_wake w \<or> wn_stage w = Refreshing \<or> wn_stage w = Taking)
     \<and> (wn_hwnd w \<longleftrightarrow> wn_stage w \<noteq> Creating)"

lemma queue_inv_step:
  assumes "window_step w w'" and "queue_inv w"
  shows "queue_inv w'"
  using assms
proof (cases rule: window_step.cases)
  case (message m)
  with assms(2) show ?thesis
    by (cases m) (auto simp: queue_inv_def requestClose_def ui_finish_def Let_def)
qed (auto simp: queue_inv_def ui_post_def post_swap_def post_send_def create_handle_def take_message_def drain_clear_def drain_take_def)

lemma ui_reach_queue: "ui_reach w \<Longrightarrow> queue_inv w"
proof (induction rule: ui_reach.induct)
  case start
  then show ?case by (simp add: queue_inv_def window_new_def)
qed (rule queue_inv_step)


text \<open>A message the system does not take (its queue is full) is never made up for: the flag stays set, and no later
  update wakes the window again.\<close>

definition ui_blind :: "window \<Rightarrow> bool" where
  "ui_blind w \<longleftrightarrow> wn_wake w \<and> wn_sending w = 0 \<and> wn_refreshes w = 0 \<and> wn_stage w = Idle"

lemma blind_after_refused_message:
  assumes "wn_wake w" and "wn_sending w = 1" and "wn_refreshes w = 0" and "wn_stage w = Idle"
  shows "ui_blind (post_send False w)"
  using assms by (simp add: ui_blind_def post_send_def)

lemma blind_for_good:
  assumes "window_step w w'" and "ui_blind w"
  shows "ui_blind w'"
  using assms
proof (cases rule: window_step.cases)
  case (message m)
  with assms(2) show ?thesis by (cases m) (auto simp: ui_blind_def requestClose_def ui_finish_def Let_def)
qed (auto simp: ui_blind_def ui_post_def post_swap_def post_send_def create_handle_def take_message_def drain_clear_def drain_take_def)

section \<open>The life of the window\<close>

definition close_inv :: "window \<Rightarrow> bool" where
  "close_inv w \<longleftrightarrow> wn_asked w \<le> 1 \<and> (wn_asked w = 1 \<longleftrightarrow> wn_closing w) \<and> (wn_destroyed w \<longrightarrow> wn_done w)"

lemma close_inv_step:
  assumes "window_step w w'" and "close_inv w"
  shows "close_inv w'"
  using assms
proof (cases rule: window_step.cases)
  case (message m)
  with assms(2) show ?thesis
    by (cases m) (auto simp: close_inv_def requestClose_def ui_finish_def Let_def)
qed (auto simp: close_inv_def ui_post_def post_swap_def post_send_def create_handle_def take_message_def drain_clear_def drain_take_def)

text \<open>The agent is asked to stop at most once, by the first request to close the window, and the window goes only
  after the agent has said it is done.\<close>

theorem window_waits_for_agent:
  assumes "ui_reach w"
  shows "wn_asked w \<le> 1 \<and> (wn_asked w = 1 \<longleftrightarrow> wn_closing w) \<and> (\<not> wn_done w \<longrightarrow> \<not> wn_destroyed w)"
proof -
  from assms have "close_inv w"
  proof (induction rule: ui_reach.induct)
    case start
    then show ?case by (simp add: close_inv_def window_new_def)
  qed (rule close_inv_step)
  then show ?thesis by (auto simp: close_inv_def)
qed

section \<open>The activity pane\<close>

definition pane_of :: "string list \<Rightarrow> string" where
  "pane_of ls = concat (map (\<lambda>l. l @ crlf) ls)"

lemma join_crlf: "ls \<noteq> [] \<Longrightarrow> join_with crlf ls @ crlf = pane_of ls"
  by (induction crlf ls rule: join_with.induct) (simp_all add: pane_of_def)

lemma ring_push_lines: "ring_push ls r = (b, r') \<Longrightarrow> \<exists>k. lr_lines r' = drop k (lr_lines r @ ls) \<and> (b \<longrightarrow> k = max (lr_drop r) (length (lr_lines r @ ls) - lr_max r)) \<and> (\<not> b \<longrightarrow> k = 0)
    \<and> lr_max r' = lr_max r \<and> lr_drop r' = lr_drop r"
  by (auto simp: ring_push_def Let_def split: if_splits)

definition pane_inv :: "window \<Rightarrow> bool" where
  "pane_inv w \<longleftrightarrow> vw_pane (wn_view w) = pane_of (lr_lines (wn_ring w)) \<and> lr_max (wn_ring w) = 400 \<and> lr_drop (wn_ring w) = 100
     \<and> length (lr_lines (wn_ring w)) \<le> 400"

lemma appendLines_pane:
  assumes "pane_inv w" and "ls \<noteq> []"
  shows "pane_inv (appendLines ls w)"
proof -
  obtain b r where p: "ring_push ls (wn_ring w) = (b, r)" by fastforce
  have m: "lr_max (wn_ring w) = 400" "lr_drop (wn_ring w) = 100" using assms(1) by (simp_all add: pane_inv_def)
  show ?thesis
  proof (cases b)
    case True
    let ?all = "lr_lines (wn_ring w) @ ls"
    let ?d = "max 100 (length ?all - 400)"
    from True have l: "400 < length ?all" and r: "lr_lines r = drop ?d ?all" "lr_max r = 400" "lr_drop r = 100"
      using p m by (auto simp: ring_push_def Let_def split: if_splits)
    then have "lr_lines r \<noteq> []" "length (lr_lines r) \<le> 400" unfolding r by (simp_all only: drop_eq_Nil length_drop)
    moreover from this have "ring_text r @ crlf = pane_of (lr_lines r)" using join_crlf[of "lr_lines r"] by (simp add: ring_text_def)
    ultimately show ?thesis using r True p by (simp add: pane_inv_def appendLines_def)
  next
    case False
    then have "r = (wn_ring w)\<lparr>lr_lines := lr_lines (wn_ring w) @ ls\<rparr>" "length (lr_lines (wn_ring w) @ ls) \<le> 400"
      using p m by (auto simp: ring_push_def Let_def split: if_splits)
    with assms False p join_crlf[OF assms(2)] show ?thesis by (simp add: pane_inv_def appendLines_def pane_of_def)
  qed
qed

lemma apply_batch_pane: "pane_inv w \<Longrightarrow> pane_inv (apply_batch us w)"
proof -
  assume "pane_inv w"
  then have "pane_inv (fold apply_update us w)" by (simp add: pane_inv_def)
  then show ?thesis by (auto simp: apply_batch_def Let_def appendLines_pane)
qed

lemma pane_inv_step:
  assumes "window_step w w'" and "pane_inv w"
  shows "pane_inv w'"
  using assms
proof (cases rule: window_step.cases)
  case (message m)
  with assms(2) show ?thesis
    by (cases m) (auto simp: pane_inv_def requestClose_def ui_finish_def Let_def)
next
  case take
  have "pane_inv (w\<lparr>wn_pending := [], wn_stage := Idle\<rparr>)" using assms(2) by (simp add: pane_inv_def)
  with take assms(2) show ?thesis by (simp add: drain_take_def apply_batch_pane)
qed (auto simp: pane_inv_def ui_post_def post_swap_def post_send_def create_handle_def take_message_def drain_clear_def)

text \<open>The pane, written to piece by piece and rewritten only when old lines are dropped, always shows exactly the
  lines of the ring, each on a line of its own, and never more than 400.\<close>

theorem pane_shows_ring:
  assumes "ui_reach w"
  shows "vw_pane (wn_view w) = concat (map (\<lambda>l. l @ crlf) (lr_lines (wn_ring w))) \<and> length (lr_lines (wn_ring w)) \<le> 400"
proof -
  from assms have "pane_inv w"
  proof (induction rule: ui_reach.induct)
    case start
    then show ?case by (simp add: pane_inv_def window_new_def newLineRing_def pane_of_def maxActivityLines_def activityDrop_def)
  qed (rule pane_inv_step)
  then show ?thesis by (simp add: pane_inv_def pane_of_def)
qed

text \<open>The ring keeps the newest lines, and at least 300 of them once there were that many.\<close>

definition ring_run :: "string list list \<Rightarrow> lineRing" where
  "ring_run lls = fold (\<lambda>ls r. snd (ring_push ls r)) lls newLineRing"

lemma ring_run_snoc: "ring_run (lls @ [ls]) = snd (ring_push ls (ring_run lls))"
  by (simp add: ring_run_def)

lemma ring_keeps_newest:
  "lr_max (ring_run lls) = 400 \<and> lr_drop (ring_run lls) = 100 \<and> length (lr_lines (ring_run lls)) \<le> 400
   \<and> (\<exists>k. lr_lines (ring_run lls) = drop k (concat lls) \<and> (k = 0 \<or> 301 \<le> length (drop k (concat lls))))"
proof (induction lls rule: rev_induct)
  case Nil
  then show ?case by (simp add: ring_run_def newLineRing_def maxActivityLines_def activityDrop_def)
next
  case (snoc ls lls)
  then obtain k where k: "lr_lines (ring_run lls) = drop k (concat lls)" "k = 0 \<or> 301 \<le> length (drop k (concat lls))" by blast
  have kl: "k \<le> length (concat lls)" using k(2) by auto
  then have all: "lr_lines (ring_run lls) @ ls = drop k (concat (lls @ [ls]))" using k(1) by simp
  show ?case
  proof (cases "length (lr_lines (ring_run lls) @ ls) \<le> 400")
    case True
    then have "lr_lines (ring_run (lls @ [ls])) = drop k (concat (lls @ [ls]))" using snoc all by (simp add: ring_run_snoc ring_push_def Let_def)
    moreover have "k = 0 \<or> 301 \<le> length (drop k (concat (lls @ [ls])))" using k(2) by auto
    ultimately show ?thesis using snoc True all by (auto simp: ring_run_snoc ring_push_def Let_def)
  next
    case False
    let ?all = "lr_lines (ring_run lls) @ ls"
    let ?d = "max 100 (length ?all - 400)"
    have r: "lr_lines (ring_run (lls @ [ls])) = drop ?d ?all" "lr_max (ring_run (lls @ [ls])) = 400" "lr_drop (ring_run (lls @ [ls])) = 100"
      using snoc False by (simp_all only: ring_run_snoc ring_push_def Let_def if_False snd_conv) simp_all
    have n: "301 \<le> length (drop ?d ?all)" "length (drop ?d ?all) \<le> 400" using False unfolding length_drop by linarith+
    have "drop ?d ?all = drop (?d + k) (concat (lls @ [ls]))" unfolding all drop_drop ..
    with r n show ?thesis by metis
  qed
qed

section \<open>Witnesses\<close>

definition ex_shown :: window where
  "ex_shown = drain_take (drain_clear (take_message (post_send True (post_swap (ui_post (Status ''a'')
     (drain_take (drain_clear (create_handle (ui_post (Line ''b'') window_new)))))))))"

lemma ex_shown_reach: "ui_reach ex_shown"
  unfolding ex_shown_def
  by (rule ui_reach.further[OF _ window_step.take] ui_reach.further[OF _ window_step.clear] ui_reach.further[OF _ window_step.receive]
      ui_reach.further[OF _ window_step.send] ui_reach.further[OF _ window_step.swap] ui_reach.further[OF _ window_step.post]
      ui_reach.further[OF _ window_step.create] ui_reach.start)+

lemma ex_shown_state: "wn_stage ex_shown = Idle" "wn_waking ex_shown = 0" "wn_sending ex_shown = 0" "wn_refreshes ex_shown = 0"
    "vw_status (wn_view ex_shown) = ''a''" "lr_lines (wn_ring ex_shown) = [''b'']"
  by code_simp+


definition ex_closed :: window where
  "ex_closed = wndProc WmClose (wndProc WmQueryEndSession ex_shown)"

lemma window_waits_for_agent_witness: "ui_reach ex_closed \<and> wn_asked ex_closed = 1 \<and> \<not> wn_destroyed ex_closed"
proof -
  have i: "wn_stage ex_shown = Idle" "\<not> wn_destroyed ex_shown" "wn_stage (wndProc WmQueryEndSession ex_shown) = Idle"
    "\<not> wn_destroyed (wndProc WmQueryEndSession ex_shown)" by code_simp+
  have r: "ui_reach ex_closed" unfolding ex_closed_def
    by (intro ui_reach.further[OF ui_reach.further[OF ex_shown_reach window_step.message] window_step.message] i)
  have "wn_closing ex_closed" "\<not> wn_done ex_closed" by code_simp+
  with window_waits_for_agent[OF r] r show ?thesis by simp
qed

lemma pane_shows_ring_witness: "ui_reach ex_shown \<and> vw_pane (wn_view ex_shown) = ''b'' @ crlf"
  using pane_shows_ring[OF ex_shown_reach] ex_shown_state(6) ex_shown_reach by simp

section \<open>The licenses window\<close>

text \<open>\<open>editText\<close>: CRLF line ends and no NUL.\<close>

definition editText :: "string \<Rightarrow> string" where
  "editText s = lf_to_crlf (crlf_to_lf (filter (\<lambda>c. c \<noteq> CHR 0x00) s))"

text \<open>A text whose lines end in LF comes back from the control as it was.\<close>

lemma editText_lines: "CHR 0x0D \<notin> set s \<Longrightarrow> CHR 0x00 \<notin> set s \<Longrightarrow> crlf_to_lf (editText s) = s"
proof -
  assume "CHR 0x0D \<notin> set s" "CHR 0x00 \<notin> set s"
  moreover have "filter (\<lambda>c. c \<noteq> CHR 0x00) s = s" using \<open>CHR 0x00 \<notin> set s\<close> by (auto simp: filter_id_conv)
  ultimately show ?thesis by (simp add: editText_def crlf_to_lf_inverse crlf_to_lf_id)
qed

section \<open>Placing the window\<close>

definition ui_scale :: "int \<Rightarrow> int \<Rightarrow> int" where
  "ui_scale dpi v = i32 (go_div (v * dpi) 96)"

definition ui_centre :: "int \<Rightarrow> int \<Rightarrow> int" where
  "ui_centre screen size' = max (go_div (i32 (screen - size')) 2) 0"

lemma ui_centre_on_screen:
  assumes "0 \<le> size'" and "size' \<le> screen" and "screen \<le> 2147483647"
  shows "0 \<le> ui_centre screen size' \<and> ui_centre screen size' + size' \<le> screen"
proof -
  have "i32 (screen - size') = screen - size'" using assms by (intro i32_id) auto
  then show ?thesis using assms by (simp add: ui_centre_def go_div_nonneg)
qed

end
