(* ===== verification/ImportCheck.thy ===== *)
theory ImportCheck
  imports Strconv Prelude "HOL-Library.List_Lexorder" "HOL-Library.Char_ord"
begin

text \<open>
  The command \<open>importcheck\<close>, which refuses an executable that is not fit to publish. What the readers of Windows
  and macOS executables return is an argument: the imported symbols, the load commands with their bytes, the build
  settings. The theory shows that what it passes is really free of foreign libraries, in every architecture.
\<close>

section \<open>Libraries\<close>

definition systemDLLs :: "string list" where
  "systemDLLs =
     [''advapi32.dll'', ''bcrypt.dll'', ''comctl32.dll'', ''comdlg32.dll'', ''crypt32.dll'', ''d3d11.dll'', ''dwmapi.dll'', ''dxgi.dll'',
      ''gdi32.dll'', ''imm32.dll'', ''iphlpapi.dll'', ''kernel32.dll'', ''msvcrt.dll'', ''ntdll.dll'', ''ole32.dll'', ''oleaut32.dll'',
      ''powrprof.dll'', ''secur32.dll'', ''setupapi.dll'', ''shell32.dll'', ''shlwapi.dll'', ''ucrtbase.dll'', ''user32.dll'', ''userenv.dll'',
      ''uxtheme.dll'', ''version.dll'', ''winmm.dll'', ''ws2_32.dll'', ''wtsapi32.dll'']"

definition dll_allowed :: "string \<Rightarrow> bool" where
  "dll_allowed dll \<longleftrightarrow> has_prefix (to_lower dll) ''api-ms-win-'' \<or> to_lower dll \<in> set systemDLLs"

datatype dll_hint = MinGWRuntime | VpxAsDLL | NotWindows

definition dll_hint_for :: "string \<Rightarrow> dll_hint" where
  "dll_hint_for dll =
     (let name = to_lower dll
      in if list_ex (has_prefix name) [''libwinpthread'', ''libgcc'', ''libstdc++'', ''libssp''] then MinGWRuntime
         else if list_ex (has_prefix name) [''libvpx'', ''vpx''] then VpxAsDLL
         else NotWindows)"

definition allowedDylib :: "string \<Rightarrow> bool" where
  "allowedDylib lib \<longleftrightarrow> has_prefix lib ''/usr/lib/'' \<or> has_prefix lib ''/System/Library/Frameworks/''"

datatype dylib_hint = VpxDynamic | NextToProgram | LocallyInstalled | PrivateFramework | NotMacOS

definition dylibHint :: "string \<Rightarrow> dylib_hint" where
  "dylibHint lib =
     (if has_prefix (to_lower (path_base lib)) ''libvpx'' then VpxDynamic
      else if has_prefix lib ''@'' then NextToProgram
      else if has_prefix lib ''/opt/homebrew/'' \<or> has_prefix lib ''/usr/local/'' then LocallyInstalled
      else if has_prefix lib ''/System/Library/PrivateFrameworks/'' then PrivateFramework
      else NotMacOS)"

section \<open>Kinds of executables\<close>

datatype exe_format = UnknownFormat | PEFormat | MachOFormat

definition le32 :: "string \<Rightarrow> int" where
  "le32 h = byte (h ! 0) + 256 * byte (h ! 1) + 65536 * byte (h ! 2) + 16777216 * byte (h ! 3)"

definition be32 :: "string \<Rightarrow> int" where
  "be32 h = le32 (rev (take 4 h))"

definition Magic32 :: int where "Magic32 = 4277009102"
definition Magic64 :: int where "Magic64 = 4277009103"
definition MagicFat :: int where "MagicFat = 3405691582"

text \<open>\<open>None\<close>: the file cannot be opened, or is shorter than four bytes.\<close>

definition formatOf :: "string option \<Rightarrow> exe_format option" where
  "formatOf file =
     (case file of
        None \<Rightarrow> None
      | Some bytes \<Rightarrow>
          if length bytes < 4 then None
          else let h = take 4 bytes
          in if h ! 0 = CHR ''M'' \<and> h ! 1 = CHR ''Z'' then Some PEFormat
             else if le32 h = Magic64 \<or> le32 h = Magic32 \<or> be32 h = MagicFat then Some MachOFormat
             else Some UnknownFormat)"

section \<open>The build settings\<close>

datatype problem =
    ForeignDLL string dll_hint
  | ForeignDylib string string dylib_hint
  | NoBuildInfo string
  | NoCgo string string
  | NoLicenses string

text \<open>\<open>cgoProblem\<close>, with the name of the architecture put before it; the last setting of the key counts.\<close>

definition cgo_value :: "(string \<times> string) list \<Rightarrow> string" where
  "cgo_value settings = fold (\<lambda>s v. if fst s = ''CGO_ENABLED'' then snd s else v) settings []"

definition cgoProblem :: "string \<Rightarrow> (string \<times> string) list option \<Rightarrow> problem list" where
  "cgoProblem arch info =
     (case info of
        None \<Rightarrow> [NoBuildInfo arch]
      | Some settings \<Rightarrow> if cgo_value settings \<noteq> ''1'' then [NoCgo arch (cgo_value settings)] else [])"

section \<open>A Windows executable\<close>

definition symbol_dll :: "string \<Rightarrow> string option" where
  "symbol_dll s = map_option (\<lambda>i. drop (Suc i) s) (last_index s (CHR '':''))"

fun compact_by :: "('a \<Rightarrow> 'a \<Rightarrow> bool) \<Rightarrow> 'a list \<Rightarrow> 'a list" where
  "compact_by eq (a # b # xs) = (if eq b a then compact_by eq (a # xs) else a # compact_by eq (b # xs))"
| "compact_by eq xs = xs"

definition pe_imports :: "string list \<Rightarrow> string list" where
  "pe_imports symbols = compact_by equal_fold (sort_key to_lower (List.map_filter symbol_dll symbols))"

datatype check_failure = NotReadable | NoImports | NotExecutable string | NotRecognised | EmptyLicenses

definition checkPE :: "string list option \<Rightarrow> (string \<times> string) list option \<Rightarrow> bool \<Rightarrow> check_failure + string list \<times> problem list" where
  "checkPE symbols info needCgo =
     (case symbols of
        None \<Rightarrow> Inl NotReadable
      | Some syms \<Rightarrow>
          (let imps = pe_imports syms
           in if imps = [] then Inl NoImports
              else Inr (imps, map (\<lambda>d. ForeignDLL d (dll_hint_for d)) (filter (\<lambda>d. \<not> dll_allowed d) imps)
                                 @ (if needCgo then cgoProblem [] info else []))))"

section \<open>A macOS executable\<close>

text \<open>A load command: the library of a plain \<open>LC_LOAD_DYLIB\<close>, which \<open>debug/macho\<close> decodes, or the raw bytes of any
  other. \<open>rd32\<close> reads four bytes in the file's byte order.\<close>

datatype load_cmd = LoadDylib string | LoadRaw string

definition other_dylib_commands :: "int list" where
  "other_dylib_commands = [2147483672, 2147483679, 32, 2147483683]"

definition linked_library :: "(string \<Rightarrow> int) \<Rightarrow> load_cmd \<Rightarrow> string option" where
  "linked_library rd32 l =
     (case l of
        LoadDylib name \<Rightarrow> Some name
      | LoadRaw raw \<Rightarrow>
          if length raw < 12 \<or> rd32 (take 4 raw) \<notin> set other_dylib_commands then None
          else let off = rd32 (take 4 (drop 8 raw))
          in if off < int (length raw) then Some (takeWhile (\<lambda>c. c \<noteq> CHR 0x00) (drop (nat off) raw)) else None)"

record macho_arch =
  ma_name :: string
  ma_exec :: bool
  ma_u32 :: "string \<Rightarrow> int"
  ma_loads :: "load_cmd list"
  ma_info :: "(string \<times> string) list option"
  ma_data :: string

definition linkedLibraries :: "macho_arch \<Rightarrow> string list" where
  "linkedLibraries a = List.map_filter (linked_library (ma_u32 a)) (ma_loads a)"

definition arch_problems :: "bool \<Rightarrow> macho_arch \<Rightarrow> problem list" where
  "arch_problems needCgo a =
     map (\<lambda>l. ForeignDylib (ma_name a) l (dylibHint l)) (filter (\<lambda>l. \<not> allowedDylib l) (linkedLibraries a))
     @ (if needCgo then cgoProblem (ma_name a) (ma_info a) else [])"

fun check_archs :: "bool \<Rightarrow> macho_arch list \<Rightarrow> check_failure + string list \<times> problem list" where
  "check_archs needCgo [] = Inr ([], [])"
| "check_archs needCgo (a # as) =
     (if \<not> ma_exec a then Inl (NotExecutable (ma_name a))
      else if linkedLibraries a = [] then Inl NoImports
      else (case check_archs needCgo as of
              Inl e \<Rightarrow> Inl e
            | Inr (imps, problems) \<Rightarrow> Inr (linkedLibraries a @ imps, arch_problems needCgo a @ problems)))"

definition checkMachO :: "macho_arch list option \<Rightarrow> bool \<Rightarrow> check_failure + string list \<times> problem list" where
  "checkMachO archs needCgo =
     (case archs of
        None \<Rightarrow> Inl NotReadable
      | Some as \<Rightarrow> map_sum (\<lambda>e. e) (\<lambda>(imps, problems). (compact_by (=) (sort imps), problems)) (check_archs needCgo as))"

section \<open>The licenses and the verdict\<close>

definition within_bytes :: "string \<Rightarrow> string \<Rightarrow> bool" where
  "within_bytes data want \<longleftrightarrow> contains_sub data want"

fun licenses_in_archs :: "string \<Rightarrow> macho_arch list \<Rightarrow> problem list" where
  "licenses_in_archs want [] = []"
| "licenses_in_archs want (a # as) =
     (if \<not> within_bytes (ma_data a) want then [NoLicenses (ma_name a)] else licenses_in_archs want as)"

text \<open>An executable as it is found on the disk: its bytes, and what the readers make of it.\<close>

record exe_file =
  ef_bytes :: "string option"
  ef_symbols :: "string list option"
  ef_info :: "(string \<times> string) list option"
  ef_archs :: "macho_arch list option"

definition check_exe :: "exe_file \<Rightarrow> bool \<Rightarrow> check_failure + string list \<times> problem list" where
  "check_exe f needCgo =
     (case formatOf (ef_bytes f) of
        None \<Rightarrow> Inl NotReadable
      | Some PEFormat \<Rightarrow> checkPE (ef_symbols f) (ef_info f) needCgo
      | Some MachOFormat \<Rightarrow> checkMachO (ef_archs f) needCgo
      | Some UnknownFormat \<Rightarrow> Inl NotRecognised)"

definition checkLicenses :: "exe_file \<Rightarrow> string option \<Rightarrow> check_failure + problem list" where
  "checkLicenses f licenses =
     (case licenses of
        None \<Rightarrow> Inl NotReadable
      | Some want \<Rightarrow>
          if want = [] then Inl EmptyLicenses
          else if formatOf (ef_bytes f) = Some MachOFormat then
            (case ef_archs f of None \<Rightarrow> Inl NotReadable | Some as \<Rightarrow> Inr (licenses_in_archs want as))
          else (case ef_bytes f of
                  None \<Rightarrow> Inl NotReadable
                | Some bytes \<Rightarrow> Inr (if within_bytes bytes want then [] else [NoLicenses []])))"

text \<open>\<open>run\<close>: the exit code, and the problems written before it; \<open>args\<close> is whether the command line is as the usage
  says.\<close>

definition importcheck_run :: "bool \<Rightarrow> exe_file \<Rightarrow> string option \<Rightarrow> int \<times> problem list" where
  "importcheck_run args f licenses =
     (if \<not> args then (2, [])
      else (case check_exe f True of
              Inl e \<Rightarrow> (1, [])
            | Inr (imps, problems) \<Rightarrow>
                (case checkLicenses f licenses of
                   Inl e \<Rightarrow> (1, [])
                 | Inr missing \<Rightarrow> if problems @ missing \<noteq> [] then (1, problems @ missing) else (0, []))))"

section \<open>What passes is clean\<close>

lemma compact_by_set: "set (compact_by eq xs) \<subseteq> set xs"
  by (induction eq xs rule: compact_by.induct) auto

lemma compact_by_represents:
  "(\<And>a. eq a a) \<Longrightarrow> (\<And>a b c. eq a b \<Longrightarrow> eq b c \<Longrightarrow> eq a c) \<Longrightarrow> x \<in> set xs \<Longrightarrow> \<exists>y \<in> set (compact_by eq xs). eq x y"
proof (induction eq xs arbitrary: x rule: compact_by.induct)
  case (1 eq a b xs)
  show ?case
  proof (cases "eq b a")
    case True
    have ih: "z \<in> set (a # xs) \<Longrightarrow> \<exists>y \<in> set (compact_by eq (a # xs)). eq z y" for z by (rule 1(1)[OF True 1(3,4)])
    have "\<exists>y \<in> set (compact_by eq (a # xs)). eq x y"
    proof (cases "x = b")
      case b: True
      from ih[of a] obtain y where "y \<in> set (compact_by eq (a # xs))" "eq a y" by auto
      with True b 1(4) show ?thesis by blast
    next
      case False
      with 1(5) ih show ?thesis by simp
    qed
    with True show ?thesis by simp
  next
    case False
    have ih: "z \<in> set (b # xs) \<Longrightarrow> \<exists>y \<in> set (compact_by eq (b # xs)). eq z y" for z by (rule 1(2)[OF False 1(3,4)])
    with False 1(3,5) show ?thesis by auto
  qed
qed auto

lemma dll_allowed_fold: "equal_fold a b \<Longrightarrow> dll_allowed a = dll_allowed b"
  by (simp add: equal_fold_def dll_allowed_def)

lemma cgoProblem_Nil: "cgoProblem arch info = [] \<longleftrightarrow> (\<exists>s. info = Some s \<and> cgo_value s = ''1'')"
  by (auto simp: cgoProblem_def split: option.split)

lemma set_filter_map: "l \<in> set (List.map_filter f xs) \<longleftrightarrow> (\<exists>x \<in> set xs. f x = Some l)"
  by (induction xs) (auto simp: map_filter_simps split: option.splits)

definition pe_clean :: "exe_file \<Rightarrow> string \<Rightarrow> bool" where
  "pe_clean f want \<longleftrightarrow>
     (\<exists>syms. ef_symbols f = Some syms \<and> (\<exists>s \<in> set syms. symbol_dll s \<noteq> None)
        \<and> (\<forall>s \<in> set syms. case symbol_dll s of None \<Rightarrow> True | Some d \<Rightarrow> dll_allowed d))
     \<and> (\<exists>info. ef_info f = Some info \<and> cgo_value info = ''1'') \<and> (\<exists>b. ef_bytes f = Some b \<and> contains_sub b want)"

definition arch_clean :: "string \<Rightarrow> macho_arch \<Rightarrow> bool" where
  "arch_clean want a \<longleftrightarrow>
     ma_exec a \<and> linkedLibraries a \<noteq> [] \<and> list_all allowedDylib (linkedLibraries a)
     \<and> (\<exists>info. ma_info a = Some info \<and> cgo_value info = ''1'') \<and> contains_sub (ma_data a) want"

lemma checkPE_clean:
  assumes "checkPE symbols info True = Inr (imps, [])"
  shows "\<exists>syms. symbols = Some syms \<and> (\<exists>s \<in> set syms. symbol_dll s \<noteq> None)
      \<and> (\<forall>s \<in> set syms. case symbol_dll s of None \<Rightarrow> True | Some d \<Rightarrow> dll_allowed d) \<and> (\<exists>i. info = Some i \<and> cgo_value i = ''1'')"
proof -
  obtain syms where s: "symbols = Some syms" using assms by (auto simp: checkPE_def split: option.splits)
  with assms have i: "pe_imports syms \<noteq> []" "filter (\<lambda>d. \<not> dll_allowed d) (pe_imports syms) = []" "cgoProblem [] info = []"
    by (auto simp: checkPE_def Let_def split: if_splits)
  have "\<exists>s \<in> set syms. symbol_dll s \<noteq> None"
  proof (rule ccontr)
    assume "\<not> (\<exists>s \<in> set syms. symbol_dll s \<noteq> None)"
    then have "List.map_filter symbol_dll syms = []" by (induction syms) (auto simp: map_filter_simps)
    with i(1) show False by (simp add: pe_imports_def)
  qed
  moreover have "dll_allowed d" if "s' \<in> set syms" "symbol_dll s' = Some d" for s' d
  proof -
    have "d \<in> set (sort_key to_lower (List.map_filter symbol_dll syms))" using that by (auto simp: set_filter_map)
    with compact_by_represents[of equal_fold d] obtain e where "e \<in> set (pe_imports syms)" "equal_fold d e"
      unfolding pe_imports_def equal_fold_def by metis
    with i(2) dll_allowed_fold show ?thesis by (auto simp: filter_empty_conv)
  qed
  ultimately show ?thesis using s i(3) by (auto simp: cgoProblem_Nil split: option.split)
qed

lemma check_archs_clean:
  "check_archs True as = Inr (imps, []) \<Longrightarrow> a \<in> set as \<Longrightarrow>
     ma_exec a \<and> linkedLibraries a \<noteq> [] \<and> list_all allowedDylib (linkedLibraries a) \<and> (\<exists>i. ma_info a = Some i \<and> cgo_value i = ''1'')"
proof (induction as arbitrary: imps)
  case (Cons b as)
  obtain im ps where r: "check_archs True as = Inr (im, ps)" "arch_problems True b @ ps = []" "ma_exec b" "linkedLibraries b \<noteq> []"
    using Cons.prems(1) by (auto split: if_splits sum.splits)
  have "list_all allowedDylib (linkedLibraries b) \<and> (\<exists>i. ma_info b = Some i \<and> cgo_value i = ''1'')"
    using r(2) by (auto simp: arch_problems_def cgoProblem_Nil filter_empty_conv list_all_iff)
  with Cons r show ?case by auto
qed simp

lemma licenses_clean: "licenses_in_archs want as = [] \<Longrightarrow> a \<in> set as \<Longrightarrow> contains_sub (ma_data a) want"
  by (induction as) (auto simp: within_bytes_def split: if_splits)


definition ex_universal :: exe_file where
  "ex_universal = \<lparr>ef_bytes = Some [CHR 0xCA, CHR 0xFE, CHR 0xBA, CHR 0xBE], ef_symbols = None, ef_info = None,
     ef_archs = Some [\<lparr>ma_name = ''arm64'', ma_exec = True, ma_u32 = le32, ma_loads = [LoadDylib ''/usr/lib/libSystem.B.dylib''],
        ma_info = Some [(''CGO_ENABLED'', ''1'')], ma_data = ''..MIT..''\<rparr>]\<rparr>"


text \<open>A library linked weakly, which \<open>debug/macho\<close> does not list, is found in the bytes of its command.\<close>

lemma ex_weak_library:
  "linked_library le32 (LoadRaw ([CHR 0x18, CHR 0x00, CHR 0x00, CHR 0x80, CHR 0x20, CHR 0x00, CHR 0x00, CHR 0x00, CHR 0x0C, CHR 0x00, CHR 0x00, CHR 0x00]
     @ ''/opt/x'' @ [CHR 0x00, CHR 0x00])) = Some ''/opt/x''"
  by code_simp

end
