(* ===== verification/Notices.thy ===== *)
theory Notices
  imports Config LineEnds "HOL-Library.List_Lexorder" "HOL-Library.Char_ord"
begin

text \<open>
  The command \<open>notices\<close>, which writes the license texts the agent carries. The files it reads and the output of
  the commands it runs are arguments, \<open>None\<close> where that fails.
\<close>

record notice_section =
  ns_title :: string
  ns_about :: string
  ns_text :: string

definition program_name :: "string \<Rightarrow> string" where
  "program_name goos = (if goos = ''windows'' then ''freedesk.exe'' else if goos = ''darwin'' then ''FreeDesk.app'' else ''This program'')"

definition freedeskSection :: "string \<Rightarrow> string option \<Rightarrow> notice_section option" where
  "freedeskSection modulePath license =
     map_option (\<lambda>t. \<lparr>ns_title = ''FreeDesk (this program)'', ns_about = ''https://'' @ trim_suffix modulePath ''/host-agent'', ns_text = t\<rparr>) license"

definition libvpxSection :: "string option \<Rightarrow> string option \<Rightarrow> string option \<Rightarrow> notice_section option" where
  "libvpxSection commit license patents =
     (case (commit, license, patents) of
        (Some c, Some l, Some p) \<Rightarrow>
          Some \<lparr>ns_title = ''libvpx (the VP8 video encoder), commit '' @ trim_space c,
                ns_about = ''https://chromium.googlesource.com/webm/libvpx'', ns_text = l @ [CHR 0x0A] @ p\<rparr>
      | _ \<Rightarrow> None)"

definition mingw_parts :: "(string \<times> string \<times> string) list" where
  "mingw_parts =
     [(''MinGW-w64 runtime'', ''https://www.mingw-w64.org (startup code and C runtime support)'', ''crt/COPYING.MinGW-w64-runtime.txt''),
      (''winpthreads (MinGW-w64 POSIX threads)'', ''https://www.mingw-w64.org (threads used by libvpx)'', ''winpthreads/COPYING''),
      (''GCC runtime library (libgcc)'', ''https://gcc.gnu.org (covered by the GCC Runtime Library Exception)'', ''gcc/COPYING.RUNTIME'')]"

text \<open>\<open>cc\<close> is the compiler's path once it is found.\<close>

fun read_parts :: "(string \<Rightarrow> string option) \<Rightarrow> string \<Rightarrow> (string \<times> string \<times> string) list \<Rightarrow> notice_section list option" where
  "read_parts read dir [] = Some []"
| "read_parts read dir ((t, ab, f) # ps) =
     (case read (path_join dir f) of
        None \<Rightarrow> None
      | Some text' \<Rightarrow> map_option (Cons \<lparr>ns_title = t, ns_about = ab, ns_text = text'\<rparr>) (read_parts read dir ps))"

definition mingwSections :: "(string \<Rightarrow> string option) \<Rightarrow> string option \<Rightarrow> notice_section list option" where
  "mingwSections read cc =
     (case cc of
        None \<Rightarrow> None
      | Some c \<Rightarrow> read_parts read (path_join (path_dir (path_dir c)) ''share/licenses'') mingw_parts)"

fun first_readable :: "(string \<Rightarrow> string option) \<Rightarrow> string \<Rightarrow> string list \<Rightarrow> string option" where
  "first_readable read dir [] = None"
| "first_readable read dir (n # ns) = (case read (path_join dir n) of Some t \<Rightarrow> Some t | None \<Rightarrow> first_readable read dir ns)"

definition licenseIn :: "(string \<Rightarrow> string option) \<Rightarrow> string \<Rightarrow> string option" where
  "licenseIn read dir = first_readable read dir [''LICENSE'', ''LICENSE.md'', ''LICENSE.txt'', ''LICENCE'', ''COPYING'']"

text \<open>\<open>modules\<close>: a section per module, the first line of each, in the order of their titles.\<close>

fun module_sections :: "(string \<Rightarrow> string option) \<Rightarrow> string list \<Rightarrow> string list \<Rightarrow> notice_section list option" where
  "module_sections read seen [] = Some []"
| "module_sections read seen (l # ls) =
     (let f = split_on (CHR 0x09) l
      in if length f \<noteq> 3 \<or> f ! 0 \<in> set seen then module_sections read seen ls
         else (case licenseIn read (f ! 2) of
                 None \<Rightarrow> None
               | Some t \<Rightarrow> map_option (Cons \<lparr>ns_title = f ! 0 @ '' '' @ f ! 1, ns_about = ''https://'' @ f ! 0, ns_text = t\<rparr>)
                             (module_sections read (f ! 0 # seen) ls)))"

definition notice_modules :: "(string \<Rightarrow> string option) \<Rightarrow> string \<Rightarrow> notice_section list option" where
  "notice_modules read lst = map_option (sort_key ns_title) (module_sections read [] (fst (scan_lines (split_on lf lst))))"

definition rule_line78 :: string where "rule_line78 = replicate 78 (CHR ''='')"

definition section_text :: "notice_section \<Rightarrow> string" where
  "section_text s =
     [lf] @ rule_line78 @ [lf] @ ns_title s @ [lf] @ ns_about s @ [lf] @ rule_line78 @ [lf, lf] @ trim_space (ns_text s) @ [lf]"

definition notices_header :: "string \<Rightarrow> string" where
  "notices_header goos =
     ''FreeDesk - licenses'' @ [lf, lf] @ program_name goos @ '' is FreeDesk, under the MIT license below. It also contains'' @ [lf]
     @ ''code from the projects after it, each used under its own license,'' @ [lf] @ ''reproduced here as that license asks.'' @ [lf]"

definition notices_text :: "string \<Rightarrow> notice_section list \<Rightarrow> string" where
  "notices_text goos sections =
     (let t = crlf_to_lf (notices_header goos @ concat (map section_text sections))
      in if goos = ''windows'' then lf_to_crlf t else t)"

text \<open>\<open>build\<close>: every part must be there.\<close>

definition notices_build ::
  "string \<Rightarrow> notice_section option \<Rightarrow> notice_section option \<Rightarrow> notice_section list option \<Rightarrow> string option \<Rightarrow> notice_section list option \<Rightarrow> string option" where
  "notices_build goos own vpx mingw goLicense mods =
     (case (own, vpx, (if goos = ''windows'' then mingw else Some []), goLicense, mods) of
        (Some o', Some v, Some m, Some g, Some ms) \<Rightarrow>
          Some (notices_text goos ([o', v] @ m @ [\<lparr>ns_title = ''The Go standard library'', ns_about = ''https://go.dev'', ns_text = g\<rparr>] @ ms))
      | _ \<Rightarrow> None)"

section \<open>Facts\<close>

text \<open>On Windows no line end is without its CR.\<close>

lemma notices_windows_lines: "notices_build ''windows'' a b c d e = Some t \<Longrightarrow> no_bare_lf t"
  by (auto simp: notices_build_def notices_text_def Let_def lf_to_crlf_no_bare split: option.splits)

lemma contains_sub_append: "contains_sub (a @ b @ c) b"
proof (induction a)
  case Nil
  have "has_prefix (b @ c) b" by (simp add: has_prefix_def)
  then show ?case by (cases "b @ c") simp_all
next
  case (Cons x a)
  then show ?case by simp
qed

text \<open>The license of every part linked in is in the text, as it was read but for the space around it.\<close>

lemma notices_carry_every_license:
  assumes "s \<in> set sections" and "goos \<noteq> ''windows''" and "list_all (\<lambda>x. CHR 0x0D \<notin> set (section_text x)) sections"
  shows "contains_sub (notices_text goos sections) (trim_space (ns_text s))"
proof -
  obtain xs ys where s: "sections = xs @ s # ys" using assms(1) by (auto simp: in_set_conv_decomp)
  have "CHR 0x0D \<noteq> lf" by code_simp
  then have "CHR 0x0D \<notin> set (notices_header goos)" by (simp add: notices_header_def program_name_def)
  moreover have "CHR 0x0D \<notin> set (concat (map section_text sections))" using assms(3) by (auto simp: list_all_iff)
  ultimately have "CHR 0x0D \<notin> set (notices_header goos @ concat (map section_text sections))" by simp
  from crlf_to_lf_id[OF this] have t: "notices_text goos sections = notices_header goos @ concat (map section_text sections)"
    using assms(2) by (simp add: notices_text_def)
  let ?p = "notices_header goos @ concat (map section_text xs) @ [lf] @ rule_line78 @ [lf] @ ns_title s @ [lf] @ ns_about s @ [lf] @ rule_line78 @ [lf, lf]"
  have "notices_text goos sections = ?p @ trim_space (ns_text s) @ [lf] @ concat (map section_text ys)"
    unfolding t unfolding s by (simp add: section_text_def)
  then show ?thesis using contains_sub_append[of ?p] by metis
qed

text \<open>A module linked in without a license file stops the build.\<close>

lemma length_three: "length xs = 3 \<Longrightarrow> \<exists>a b c. xs = [a, b, c]"
  by (auto simp: length_Suc_conv numeral_3_eq_3)

lemma module_needs_license:
  assumes "l \<in> set ls" and "split_on (CHR 0x09) l = [p, v, d]" and "licenseIn read d = None" and "p \<notin> set seen"
    and "\<And>l' p' v' d'. l' \<in> set ls \<Longrightarrow> split_on (CHR 0x09) l' = [p', v', d'] \<Longrightarrow> p' = p \<Longrightarrow> d' = d"
  shows "module_sections read seen ls = None"
  using assms
proof (induction ls arbitrary: seen)
  case (Cons k ls)
  show ?case
  proof (cases "length (split_on (CHR 0x09) k) \<noteq> 3 \<or> split_on (CHR 0x09) k ! 0 \<in> set seen")
    case True
    then have "k \<noteq> l" using Cons.prems(2,4) by auto
    then have "l \<in> set ls" using Cons.prems(1) by simp
    from Cons.IH[OF this Cons.prems(2-4)] Cons.prems(5) have "module_sections read seen ls = None" by (meson list.set_intros(2))
    with True show ?thesis by (simp add: Let_def)
  next
    case False
    then have "length (split_on (CHR 0x09) k) = 3" and fresh: "split_on (CHR 0x09) k ! 0 \<notin> set seen" by blast+
    from length_three[OF this(1)] obtain p' v' d' where f: "split_on (CHR 0x09) k = [p', v', d']" by blast
    show ?thesis
    proof (cases "p' = p")
      case True
      then have "d' = d" using Cons.prems(5)[OF list.set_intros(1) f] by blast
      with Cons.prems(3) f fresh show ?thesis by (simp add: Let_def)
    next
      case False
      then have "k \<noteq> l" using f Cons.prems(2) by auto
      then have l: "l \<in> set ls" and n: "p \<notin> set (p' # seen)" using Cons.prems(1,4) False by auto
      from Cons.IH[OF l Cons.prems(2,3) n] Cons.prems(5) have "module_sections read (p' # seen) ls = None" by (meson list.set_intros(2))
      with f fresh show ?thesis by (simp add: Let_def split: option.split)
    qed
  qed
next
  case Nil
  from Nil.prems(1) show ?case by simp
qed

end
