(* ===== verification/Convert.thy ===== *)
theory Convert
  imports Prelude "HOL-Library.Monad_Syntax"
begin

text \<open>
  \<open>vpx/convert.c\<close>: the area-averaging scaler and the conversion from BGRA to I420. An array is a list, and an access
  outside it, which C leaves undefined, is \<open>None\<close>; so a run that returns \<open>Some\<close> has stayed inside its memory.
  What C stores in a \<open>uint8_t\<close> or a \<open>uint16_t\<close> is reduced to its width. The theory shows that the weights of the
  scaler sum to 256 for every shrinking up to 23 times, that nothing is read or written out of bounds, that no
  intermediate result wraps, and which pixel values come out.
\<close>

section \<open>Memory\<close>

definition u8 :: "int \<Rightarrow> int" where "u8 x = x mod 2 ^ 8"

definition rd :: "'a list \<Rightarrow> nat \<Rightarrow> 'a option" where
  "rd xs i = (if i < length xs then Some (xs ! i) else None)"

definition wr :: "nat \<Rightarrow> 'a \<Rightarrow> 'a list \<Rightarrow> 'a list option" where
  "wr i v xs = (if i < length xs then Some (xs[i := v]) else None)"

lemma rd_Some [simp]: "i < length xs \<Longrightarrow> rd xs i = Some (xs ! i)"
  by (simp add: rd_def)

lemma wr_Some [simp]: "i < length xs \<Longrightarrow> wr i v xs = Some (xs[i := v])"
  by (simp add: wr_def)

lemma u8_id: "0 \<le> x \<Longrightarrow> x < 256 \<Longrightarrow> u8 x = x"
  by (simp add: u8_def)

section \<open>One axis of the scaler\<close>

record axis =
  ax_taps :: nat
  ax_first :: "nat list"
  ax_weight :: "int list list"

text \<open>The pixel \<open>i\<close> of the output is the interval from \<open>i * src\<close> to \<open>(i + 1) * src\<close>, in units of \<open>1 / dst\<close>.
  The products of two ints are computed in 64 bits, which hold them.\<close>

definition axis_first :: "nat \<Rightarrow> nat \<Rightarrow> nat \<Rightarrow> nat" where
  "axis_first src dst i = (i * src) div dst"

definition axis_count :: "nat \<Rightarrow> nat \<Rightarrow> nat \<Rightarrow> nat" where
  "axis_count src dst i = ((i + 1) * src - 1) div dst - (i * src) div dst + 1"

definition axis_taps :: "nat \<Rightarrow> nat \<Rightarrow> nat" where
  "axis_taps src dst = fold (\<lambda>i taps. if taps < axis_count src dst i then axis_count src dst i else taps) [0..<dst] 1"

definition tap_weight :: "nat \<Rightarrow> nat \<Rightarrow> nat \<Rightarrow> nat \<Rightarrow> int" where
  "tap_weight src dst i k =
     (let lo = int (i * src); hi = int ((i + 1) * src); a = int ((axis_first src dst i + k) * dst); b = a + int dst;
          o' = (if b < hi then b else hi) - (if lo < a then a else lo)
      in (o' * 256 + int src div 2) div int src)"

definition weigh_tap :: "nat \<Rightarrow> nat \<Rightarrow> nat \<Rightarrow> nat \<Rightarrow> int list \<times> int \<times> nat \<Rightarrow> int list \<times> int \<times> nat" where
  "weigh_tap src dst i k st =
     (case st of (w, tot, big) \<Rightarrow>
        (let wk = tap_weight src dst i k; w' = w[k := u16 wk]
         in (w', tot + wk, if w' ! big < wk then k else big)))"

definition axis_row :: "nat \<Rightarrow> nat \<Rightarrow> nat \<Rightarrow> int list" where
  "axis_row src dst i =
     (case fold (weigh_tap src dst i) [0..<axis_count src dst i] (replicate (axis_taps src dst) 0, 0, 0) of
        (w, tot, big) \<Rightarrow> w[big := u16 (w ! big + 256 - tot)])"

definition build_axis :: "bool \<Rightarrow> int \<Rightarrow> int \<Rightarrow> axis option" where
  "build_axis memory src dst =
     (if src \<le> 0 \<or> dst \<le> 0 then None
      else if \<not> memory then None
      else Some \<lparr>ax_taps = axis_taps (nat src) (nat dst),
                 ax_first = map (axis_first (nat src) (nat dst)) [0..<nat dst],
                 ax_weight = map (axis_row (nat src) (nat dst)) [0..<nat dst]\<rparr>)"

section \<open>Scaling a picture\<close>

record scaler =
  sc_src_w :: nat
  sc_src_h :: nat
  sc_dst_w :: nat
  sc_dst_h :: nat
  sc_x :: axis
  sc_y :: axis

definition fd_scaler_new :: "(nat \<Rightarrow> bool) \<Rightarrow> int \<Rightarrow> int \<Rightarrow> int \<Rightarrow> int \<Rightarrow> scaler option" where
  "fd_scaler_new memory src_w src_h dst_w dst_h =
     (if \<not> memory 0 then None
      else do {
        x \<leftarrow> build_axis (memory 1) src_w dst_w;
        y \<leftarrow> build_axis (memory 2) src_h dst_h;
        if \<not> memory 3 then None
        else Some \<lparr>sc_src_w = nat src_w, sc_src_h = nat src_h, sc_dst_w = nat dst_w, sc_dst_h = nat dst_h, sc_x = x, sc_y = y\<rparr>
      })"

text \<open>A row of \<open>n\<close> bytes from \<open>base\<close> on.\<close>

definition row_bytes :: "int list \<Rightarrow> nat \<Rightarrow> nat \<Rightarrow> int list option" where
  "row_bytes src base n = those (map (\<lambda>i. rd src (base + i)) [0..<n])"

text \<open>The vertical pass: the taps after the first, from tap \<open>k\<close> on, added into \<open>acc\<close>.\<close>

fun vpass_rest :: "int list \<Rightarrow> nat \<Rightarrow> nat \<Rightarrow> nat \<Rightarrow> nat \<Rightarrow> int list \<Rightarrow> int list \<Rightarrow> int list option" where
  "vpass_rest src stride t n k [] acc = Some acc"
| "vpass_rest src stride t n k (wk # ws) acc =
     (if wk = 0 then vpass_rest src stride t n (k + 1) ws acc
      else do {
        row \<leftarrow> row_bytes src ((t + k) * stride) n;
        vpass_rest src stride t n (k + 1) ws (map2 (\<lambda>a p. u16 (a + p * wk)) acc row)
      })"

definition vpass :: "int list \<Rightarrow> nat \<Rightarrow> nat \<Rightarrow> nat \<Rightarrow> int list \<Rightarrow> int list option" where
  "vpass src stride t n wy =
     do {
       w0 \<leftarrow> rd wy 0;
       row \<leftarrow> row_bytes src (t * stride) n;
       vpass_rest src stride t n 1 (tl wy) (map (\<lambda>p. u16 (p * w0)) row)
     }"

text \<open>The horizontal pass. \<open>FD_HPASS\<close> sums one channel of one pixel in 32 bits.\<close>

fun hpass_sum :: "int list \<Rightarrow> nat \<Rightarrow> int list \<Rightarrow> int \<Rightarrow> int option" where
  "hpass_sum acc at [] s = Some s"
| "hpass_sum acc at (wk # ws) s =
     do {
       a \<leftarrow> rd acc at;
       hpass_sum acc (at + 4) ws (u32 (s + a * wk))
     }"

definition hpass_pixel :: "int list \<Rightarrow> nat \<Rightarrow> int list \<Rightarrow> int list option" where
  "hpass_pixel acc first ws =
     do {
       b \<leftarrow> hpass_sum acc (4 * first) ws 0;
       g \<leftarrow> hpass_sum acc (4 * first + 1) ws 0;
       r \<leftarrow> hpass_sum acc (4 * first + 2) ws 0;
       Some (map (\<lambda>s. u8 (u32 (s + 32768) div 2 ^ 16)) [b, g, r] @ [255])
     }"

definition scale_row :: "scaler \<Rightarrow> int list \<Rightarrow> nat \<Rightarrow> nat \<Rightarrow> int list option" where
  "scale_row s src stride oy =
     do {
       acc \<leftarrow> vpass src stride (ax_first (sc_y s) ! oy) (sc_src_w s * 4) (ax_weight (sc_y s) ! oy);
       pixels \<leftarrow> those (map (\<lambda>ox. hpass_pixel (acc @ replicate (4 * ax_taps (sc_x s)) 0) (ax_first (sc_x s) ! ox) (ax_weight (sc_x s) ! ox))
                      [0..<sc_dst_w s]);
       Some (concat pixels)
     }"

definition fd_scale_bgra :: "scaler \<Rightarrow> int list \<Rightarrow> nat \<Rightarrow> int list option" where
  "fd_scale_bgra s src stride =
     do {
       rows \<leftarrow> those (map (scale_row s src stride) [0..<sc_dst_h s]);
       Some (concat rows)
     }"

section \<open>The weights\<close>

lemma axis_taps_ge: "1 \<le> axis_taps src dst \<and> (\<forall>i < dst. axis_count src dst i \<le> axis_taps src dst)"
proof -
  have "t \<le> fold (\<lambda>i t. if t < f i then f i else t) is t \<and> (\<forall>i \<in> set is. f i \<le> fold (\<lambda>i t. if t < f i then f i else t) is t)"
    for f :: "nat \<Rightarrow> nat" and "is" t
  proof (induction "is" arbitrary: t)
    case (Cons i "is")
    show ?case using Cons[of "if t < f i then f i else t"] by (auto simp del: if_split_asm split: if_splits)
  qed simp
  from this[of 1 "axis_count src dst" "[0..<dst]"] show ?thesis by (simp add: axis_taps_def)
qed

text \<open>Pixel \<open>i\<close> meets \<open>axis_count\<close> pixels of the source, none of them past its end.\<close>

lemma axis_geometry:
  assumes "0 < src" "0 < dst" "i < dst"
  shows "axis_first src dst i + axis_count src dst i \<le> src"
    and "axis_first src dst i * dst \<le> i * src"
    and "(i + 1) * src \<le> (axis_first src dst i + axis_count src dst i) * dst"
    and "\<And>k. k < axis_count src dst i \<Longrightarrow> (axis_first src dst i + k) * dst < (i + 1) * src"
    and "\<And>k. i * src < (axis_first src dst i + k + 1) * dst"
    and "axis_count src dst i \<le> (src - 1) div dst + 2"
proof -
  define f l where "f = (i * src) div dst" and "l = ((i + 1) * src - 1) div dst"
  have hi: "0 < (i + 1) * src" using assms by simp
  have fl: "f \<le> l" unfolding f_def l_def using assms by (intro div_le_mono) simp
  have ends: "axis_first src dst i = f" "axis_first src dst i + axis_count src dst i = l + 1"
    using fl by (simp_all add: axis_first_def axis_count_def f_def l_def)
  have f: "f * dst \<le> i * src" "i * src < (f + 1) * dst"
    using assms by (simp_all add: f_def div_times_less_eq_dividend dividend_less_div_times)
  have l: "l * dst < (i + 1) * src" "(i + 1) * src \<le> (l + 1) * dst"
  proof -
    have "l * dst \<le> (i + 1) * src - 1" "(i + 1) * src - 1 < (l + 1) * dst"
      using assms by (simp_all add: l_def div_times_less_eq_dividend dividend_less_div_times)
    then show "l * dst < (i + 1) * src" "(i + 1) * src \<le> (l + 1) * dst" using hi by linarith+
  qed
  have "(i + 1) * src \<le> dst * src" using assms by (intro mult_right_mono) auto
  with l(1) have "l * dst < dst * src" by (rule less_le_trans)
  then have "l < src" by (metis mult_less_cancel2 mult.commute)
  with ends show "axis_first src dst i + axis_count src dst i \<le> src" by simp
  show "axis_first src dst i * dst \<le> i * src" using f ends by simp
  show "(i + 1) * src \<le> (axis_first src dst i + axis_count src dst i) * dst" using l ends by simp
  show "(axis_first src dst i + k) * dst < (i + 1) * src" if "k < axis_count src dst i" for k
  proof -
    have "axis_first src dst i + k \<le> l" using that ends by linarith
    then have "(axis_first src dst i + k) * dst \<le> l * dst" by simp
    with l show ?thesis by linarith
  qed
  show "i * src < (axis_first src dst i + k + 1) * dst" for k
  proof -
    have "(f + 1) * dst \<le> (f + k + 1) * dst" by (rule mult_right_mono) simp_all
    with f(2) have "i * src < (f + k + 1) * dst" by (rule less_le_trans)
    then show ?thesis by (simp only: ends(1))
  qed
  have e: "(i + 1) * src - 1 = i * src + (src - 1)" using assms by (simp add: algebra_simps)
  have "(i * src mod dst + (src - 1) mod dst) div dst < 2"
    using mod_less_divisor[OF assms(2), of "i * src"] mod_less_divisor[OF assms(2), of "src - 1"] by (intro less_mult_imp_div_less) linarith
  then have "l \<le> f + (src - 1) div dst + 1"
    unfolding l_def f_def e using div_add1_eq[of "i * src" "src - 1" dst] by linarith
  with ends show "axis_count src dst i \<le> (src - 1) div dst + 2" by linarith
qed

text \<open>The overlaps of pixel \<open>i\<close> with the source's pixels add up to its whole width.\<close>

definition overlap :: "nat \<Rightarrow> nat \<Rightarrow> nat \<Rightarrow> nat \<Rightarrow> int" where
  "overlap src dst i k =
     min (int ((axis_first src dst i + k) * dst) + int dst) (int ((i + 1) * src)) - max (int ((axis_first src dst i + k) * dst)) (int (i * src))"

lemma tap_weight_overlap: "tap_weight src dst i k = (overlap src dst i k * 256 + int src div 2) div int src"
proof -
  have "(if b < c then b else c) = min b c" "(if d < a then a else d) = max a d" for a b c d :: int by (simp_all add: min_def max_def)
  then show ?thesis by (simp only: tap_weight_def overlap_def Let_def)
qed

lemma overlap_nonneg:
  assumes "0 < src" "0 < dst" "i < dst" "k < axis_count src dst i"
  shows "0 \<le> overlap src dst i k"
proof -
  have "int ((axis_first src dst i + k) * dst) < int ((i + 1) * src)" "int (i * src) < int ((axis_first src dst i + k + 1) * dst)"
    using axis_geometry(4,5)[OF assms(1-3)] assms(4) by (simp_all only: of_nat_less_iff)
  moreover have "int ((axis_first src dst i + k + 1) * dst) = int ((axis_first src dst i + k) * dst) + int dst" by (simp add: algebra_simps)
  moreover have "int (i * src) \<le> int ((i + 1) * src)" by simp
  ultimately show ?thesis unfolding overlap_def by linarith
qed

lemma overlap_sum:
  assumes "0 < src" "0 < dst" "i < dst" "n \<le> axis_count src dst i"
  shows "(\<Sum>k<n. overlap src dst i k) =
    max (int (i * src)) (min (int ((i + 1) * src)) (int ((axis_first src dst i + n) * dst))) - int (i * src)"
  using assms(4)
proof (induction n)
  case 0
  have "int (axis_first src dst i * dst) \<le> int (i * src)" using axis_geometry(2)[OF assms(1-3)] by (simp only: of_nat_le_iff)
  then show ?case by simp
next
  case (Suc n)
  define a where "a = int ((axis_first src dst i + n) * dst)"
  have "a < int ((i + 1) * src)" unfolding a_def using axis_geometry(4)[OF assms(1-3), of n] Suc.prems by (simp only: of_nat_less_iff)
  moreover have "int (i * src) < int ((axis_first src dst i + n + 1) * dst)"
    using axis_geometry(5)[OF assms(1-3)] by (simp only: of_nat_less_iff)
  moreover have "int ((axis_first src dst i + n + 1) * dst) = a + int dst" by (simp add: a_def algebra_simps)
  moreover have "int (i * src) \<le> int ((i + 1) * src)" by simp
  ultimately show ?case using Suc unfolding overlap_def by (simp add: a_def[symmetric] max_def min_def)
qed

lemma overlap_total:
  assumes "0 < src" "0 < dst" "i < dst"
  shows "(\<Sum>k<axis_count src dst i. overlap src dst i k) = int src"
proof -
  have "int ((i + 1) * src) \<le> int ((axis_first src dst i + axis_count src dst i) * dst)"
    using axis_geometry(3)[OF assms] by (simp only: of_nat_le_iff)
  moreover have "int ((i + 1) * src) = int (i * src) + int src" by (simp add: algebra_simps)
  ultimately show ?thesis using overlap_sum[OF assms order_refl] by linarith
qed

text \<open>Rounding moves each weight by at most a half, so the sum by at most half the number of taps.\<close>

lemma tap_weight_bounds:
  assumes "0 < src" "0 < dst" "i < dst" "k < axis_count src dst i"
  shows "0 \<le> tap_weight src dst i k" and "2 * \<bar>tap_weight src dst i k * int src - 256 * overlap src dst i k\<bar> \<le> int src"
proof -
  let ?n = "overlap src dst i k * 256 + int src div 2"
  have "0 \<le> ?n" using overlap_nonneg[OF assms] assms(1) by simp
  then show "0 \<le> tap_weight src dst i k" using assms(1) by (simp add: tap_weight_overlap pos_imp_zdiv_nonneg_iff)
  define q r where "q = int src * (?n div int src)" and "r = ?n mod int src"
  have near: "2 * \<bar>x - y\<bar> \<le> z" if "x + r = y + h" "0 \<le> r" "r < z" "2 * h \<le> z" "z \<le> 2 * h + 1" for x y z h r :: int
    using that by arith
  have "2 * \<bar>q - overlap src dst i k * 256\<bar> \<le> int src"
    by (rule near[of _ r _ "int src div 2"]) (use assms(1) in \<open>simp_all add: q_def r_def\<close>)
  then show "2 * \<bar>tap_weight src dst i k * int src - 256 * overlap src dst i k\<bar> \<le> int src"
    unfolding tap_weight_overlap q_def by (simp only: mult.commute)
qed

lemma tap_weight_sum:
  assumes "0 < src" "0 < dst" "i < dst"
  shows "2 * \<bar>(\<Sum>k<axis_count src dst i. tap_weight src dst i k) - 256\<bar> \<le> int (axis_count src dst i)"
proof -
  let ?c = "axis_count src dst i"
  have d: "(\<Sum>k<?c. tap_weight src dst i k * int src - 256 * overlap src dst i k) = ((\<Sum>k<?c. tap_weight src dst i k) - 256) * int src"
    by (simp add: sum_subtractf sum_distrib_left[symmetric] sum_distrib_right[symmetric] overlap_total[OF assms] algebra_simps)
  have "2 * \<bar>\<Sum>k<?c. tap_weight src dst i k * int src - 256 * overlap src dst i k\<bar>
      \<le> (\<Sum>k<?c. 2 * \<bar>tap_weight src dst i k * int src - 256 * overlap src dst i k\<bar>)"
    unfolding sum_distrib_left[symmetric] using sum_abs by (intro mult_left_mono) auto
  also have "\<dots> \<le> (\<Sum>k<?c. int src)" using tap_weight_bounds(2)[OF assms] by (intro sum_mono) auto
  finally have "2 * \<bar>(\<Sum>k<?c. tap_weight src dst i k) - 256\<bar> * int src \<le> int ?c * int src" unfolding d by (simp add: abs_mult)
  then show ?thesis using assms(1) mult_le_cancel_right[of _ "int src"] by (simp add: mult.assoc)
qed

lemma tap_weight_le:
  assumes "0 < src" "0 < dst" "i < dst" "k < axis_count src dst i"
  shows "tap_weight src dst i k \<le> 256"
proof -
  have "overlap src dst i k \<le> (\<Sum>k<axis_count src dst i. overlap src dst i k)"
    using assms(4) overlap_nonneg[OF assms(1-3)] by (intro member_le_sum) auto
  then have "overlap src dst i k * 256 + int src div 2 < 257 * int src"
    unfolding overlap_total[OF assms(1-3)] using assms(1) by linarith
  moreover have "tap_weight src dst i k * int src \<le> overlap src dst i k * 256 + int src div 2"
    unfolding tap_weight_overlap using assms(1) div_mult_mod_eq[of "overlap src dst i k * 256 + int src div 2" "int src"]
      pos_mod_sign[of "int src" "overlap src dst i k * 256 + int src div 2"] by linarith
  ultimately have "tap_weight src dst i k * int src < 257 * int src" by linarith
  then show ?thesis using mult_less_cancel_right_disj[of "tap_weight src dst i k" "int src" 257] by simp
qed

lemma weigh_loop:
  assumes "0 < src" "0 < dst" "i < dst" "n \<le> axis_count src dst i"
  shows "\<exists>big. fold (weigh_tap src dst i) [0..<n] (replicate (axis_taps src dst) 0, 0, 0) =
      (map (tap_weight src dst i) [0..<n] @ replicate (axis_taps src dst - n) 0, \<Sum>k<n. tap_weight src dst i k, big)
    \<and> (n \<noteq> 0 \<longrightarrow> big < n) \<and> (n = 0 \<longrightarrow> big = 0) \<and> (\<forall>k < n. tap_weight src dst i k \<le> tap_weight src dst i big)"
  using assms(4)
proof (induction n)
  case (Suc n)
  then obtain big where f: "fold (weigh_tap src dst i) [0..<n] (replicate (axis_taps src dst) 0, 0, 0) =
      (map (tap_weight src dst i) [0..<n] @ replicate (axis_taps src dst - n) 0, \<Sum>k<n. tap_weight src dst i k, big)"
    and b: "n \<noteq> 0 \<Longrightarrow> big < n" "n = 0 \<Longrightarrow> big = 0" "\<forall>k < n. tap_weight src dst i k \<le> tap_weight src dst i big" by auto
  have w: "0 \<le> tap_weight src dst i n" "tap_weight src dst i n \<le> 256"
    using tap_weight_bounds(1)[OF assms(1-3)] tap_weight_le[OF assms(1-3)] Suc.prems by simp_all
  have t: "n < axis_taps src dst" using axis_taps_ge[of src dst] assms(3) Suc.prems by (meson Suc_le_lessD order_trans)
  let ?w = "map (tap_weight src dst i) [0..<Suc n] @ replicate (axis_taps src dst - Suc n) 0"
  have up: "(map (tap_weight src dst i) [0..<n] @ replicate (axis_taps src dst - n) 0)[n := u16 (tap_weight src dst i n)] = ?w"
    using t w by (cases "axis_taps src dst - n") (simp_all add: list_update_append u16_id nth_append Suc_diff_Suc)
  have at: "?w ! k = tap_weight src dst i k" if "k \<le> n" for k
    using that by (simp add: nth_append del: upt_Suc)
  have big: "big \<le> n" using b by (cases "n = 0") auto
  have e: "fold (weigh_tap src dst i) [0..<Suc n] st = weigh_tap src dst i n (fold (weigh_tap src dst i) [0..<n] st)" for st by simp
  show ?case
  proof (intro exI conjI)
    show "fold (weigh_tap src dst i) [0..<Suc n] (replicate (axis_taps src dst) 0, 0, 0) =
        (?w, \<Sum>k<Suc n. tap_weight src dst i k, if tap_weight src dst i big < tap_weight src dst i n then n else big)"
      unfolding e f weigh_tap_def Let_def prod.case up at[OF big] by simp
  qed (use b big in \<open>auto simp: less_Suc_eq\<close>)
qed simp

lemma sum_list_update_int: "k < length xs \<Longrightarrow> sum_list (xs[k := x]) = sum_list xs + x - (xs ! k :: int)"
  by (induction xs arbitrary: k) (auto split: nat.splits)

text \<open>The weights of every output pixel are never negative and sum to exactly 256, as long as no more than 24
  source pixels meet in one, which shrinking by at most 23 guarantees.\<close>

theorem axis_row_sound:
  assumes "0 < src" "0 < dst" "i < dst" "axis_count src dst i \<le> 24"
  shows "length (axis_row src dst i) = axis_taps src dst"
    and "\<forall>w \<in> set (axis_row src dst i). 0 \<le> w \<and> w \<le> 256"
    and "sum_list (axis_row src dst i) = 256"
    and "\<forall>k. axis_count src dst i \<le> k \<longrightarrow> k < axis_taps src dst \<longrightarrow> axis_row src dst i ! k = 0"
proof -
  let ?c = "axis_count src dst i"
  define S where "S = (\<Sum>k<?c. tap_weight src dst i k)"
  have c: "0 < ?c" by (simp add: axis_count_def)
  obtain big where f: "fold (weigh_tap src dst i) [0..<?c] (replicate (axis_taps src dst) 0, 0, 0) =
      (map (tap_weight src dst i) [0..<?c] @ replicate (axis_taps src dst - ?c) 0, S, big)"
    and big: "big < ?c" "\<forall>k < ?c. tap_weight src dst i k \<le> tap_weight src dst i big"
    using weigh_loop[OF assms(1-3) order_refl] c unfolding S_def by blast
  have near: "2 * \<bar>S - 256\<bar> \<le> int ?c" unfolding S_def by (rule tap_weight_sum[OF assms(1-3)])
  have "S \<le> (\<Sum>k<?c. tap_weight src dst i big)" unfolding S_def using big by (intro sum_mono) auto
  then have S: "S \<le> int ?c * tap_weight src dst i big" by simp
  have pos: "0 \<le> tap_weight src dst i k" if "k < ?c" for k using that by (rule tap_weight_bounds(1)[OF assms(1-3)])
  define v where "v = tap_weight src dst i big + 256 - S"
  have v0: "0 \<le> v"
  proof (rule ccontr)
    assume "\<not> 0 \<le> v"
    moreover have "2 * (S - 256) \<le> int ?c" using near by arith
    moreover have "int ?c \<le> 24" using assms(4) by simp
    ultimately have m: "tap_weight src dst i big \<le> 11" "256 < S" "tap_weight src dst i big < S - 256"
      using pos[OF big(1)] unfolding v_def by arith+
    have mul: "int ?c * tap_weight src dst i big \<le> 24 * t" if "tap_weight src dst i big \<le> t" for t
      using that assms(4) pos[OF big(1)] by (intro mult_mono) auto
    have "tap_weight src dst i big \<le> 7" using mul[OF m(1)] S m(3) by linarith
    from mul[OF this] show False using S m(2) by linarith
  qed
  have rest: "S - tap_weight src dst i big = (\<Sum>k\<in>{..<?c} - {big}. tap_weight src dst i k)"
    unfolding S_def using big(1) by (simp add: sum_diff1)
  have "0 \<le> S - tap_weight src dst i big" unfolding rest using pos by (intro sum_nonneg) auto
  then have v1: "v \<le> 256" by (simp add: v_def)
  have row: "axis_row src dst i = (map (tap_weight src dst i) [0..<?c])[big := v] @ replicate (axis_taps src dst - ?c) 0"
    using big(1) v0 v1 by (simp add: axis_row_def f nth_append list_update_append v_def[symmetric] u16_id)
  have taps: "?c \<le> axis_taps src dst" using axis_taps_ge assms(3) by blast
  then show "length (axis_row src dst i) = axis_taps src dst" by (simp add: row)
  show "\<forall>w \<in> set (axis_row src dst i). 0 \<le> w \<and> w \<le> 256"
    using v0 v1 pos tap_weight_le[OF assms(1-3)] set_update_subset_insert[of "map (tap_weight src dst i) [0..<?c]" big v]
    by (fastforce simp: row)
  have "sum_list ((map (tap_weight src dst i) [0..<?c])[big := v]) = S + v - tap_weight src dst i big"
    using big(1) by (simp add: sum_list_update_int S_def interv_sum_list_conv_sum_set_nat atLeast0LessThan)
  then show "sum_list (axis_row src dst i) = 256" by (simp add: row v_def sum_list_replicate)
  show "\<forall>k. ?c \<le> k \<longrightarrow> k < axis_taps src dst \<longrightarrow> axis_row src dst i ! k = 0" by (simp add: row nth_append)
qed

section \<open>The passes\<close>

lemma those_map_Some: "(\<And>x. x \<in> set xs \<Longrightarrow> f x = Some (g x)) \<Longrightarrow> those (map f xs) = Some (map g xs)"
  by (induction xs) auto

lemma row_bytes_Some: "base + n \<le> length src \<Longrightarrow> row_bytes src base n = Some (map (\<lambda>i. src ! (base + i)) [0..<n])"
  unfolding row_bytes_def by (rule those_map_Some) simp

text \<open>What the taps \<open>ws\<close> of an output row make of byte \<open>i\<close> of the source's rows from \<open>r\<close> on.\<close>

definition vsum :: "int list \<Rightarrow> nat \<Rightarrow> nat \<Rightarrow> int list \<Rightarrow> nat \<Rightarrow> int" where
  "vsum src stride r ws i = (\<Sum>j<length ws. ws ! j * src ! ((r + j) * stride + i))"

lemma vsum_Cons: "vsum src stride r (w # ws) i = w * src ! (r * stride + i) + vsum src stride (r + 1) ws i"
  unfolding vsum_def by (simp add: sum.lessThan_Suc_shift del: sum.lessThan_Suc)

definition bytes :: "int list \<Rightarrow> bool" where
  "bytes src \<longleftrightarrow> (\<forall>p \<in> set src. 0 \<le> p \<and> p \<le> 255)"

lemma bytes_nth: "bytes src \<Longrightarrow> i < length src \<Longrightarrow> 0 \<le> src ! i \<and> src ! i \<le> 255"
  by (simp add: bytes_def)

lemma vpass_rest_exact:
  assumes "bytes src" "\<forall>w \<in> set ws. 0 \<le> w" "a + sum_list ws \<le> 256" "0 \<le> a"
    and "\<forall>j < length ws. ws ! j \<noteq> 0 \<longrightarrow> (t + k + j) * stride + n \<le> length src"
    and "length acc = n" "\<forall>i < n. 0 \<le> acc ! i \<and> acc ! i \<le> 255 * a"
  shows "vpass_rest src stride t n k ws acc = Some (map (\<lambda>i. acc ! i + vsum src stride (t + k) ws i) [0..<n])"
  using assms(2-)
proof (induction ws arbitrary: k acc a)
  case Nil
  then show ?case using map_nth[of acc] by (simp add: vsum_def)
next
  case (Cons w ws)
  have r: "\<forall>j < length ws. ws ! j \<noteq> 0 \<longrightarrow> (t + (k + 1) + j) * stride + n \<le> length src"
    using Cons.prems(4) by (metis Suc_less_eq add.assoc add_Suc_shift length_Cons nth_Cons_Suc plus_1_eq_Suc)
  have w: "0 \<le> w" "\<forall>w \<in> set ws. 0 \<le> w" "a + w + sum_list ws \<le> 256" using Cons.prems(1,2) by simp_all
  show ?case
  proof (cases "w = 0")
    case True
    have "vpass_rest src stride t n (k + 1) ws acc = Some (map (\<lambda>i. acc ! i + vsum src stride (t + (k + 1)) ws i) [0..<n])"
      by (rule Cons.IH[of a]) (use Cons.prems w r True in simp_all)
    with True show ?thesis by (simp add: vsum_Cons)
  next
    case False
    with Cons.prems(4) have len: "(t + k) * stride + n \<le> length src" by force
    define acc' where "acc' = map (\<lambda>i. acc ! i + src ! ((t + k) * stride + i) * w) [0..<n]"
    have "sum_list ws \<ge> 0" using w(2) by (intro sum_list_nonneg_int) auto
    then have aw: "a + w \<le> 256" using w(3) by linarith
    have bound: "0 \<le> acc' ! i \<and> acc' ! i \<le> 255 * (a + w)" if "i < n" for i
    proof -
      have p: "0 \<le> src ! ((t + k) * stride + i)" "src ! ((t + k) * stride + i) \<le> 255" using bytes_nth[OF assms(1)] len that by auto
      have "src ! ((t + k) * stride + i) * w \<le> 255 * w" "0 \<le> src ! ((t + k) * stride + i) * w"
        using p w(1) by (simp_all add: mult_right_mono)
      moreover have "0 \<le> acc ! i" "acc ! i \<le> 255 * a" using Cons.prems(6) that by auto
      ultimately show ?thesis using that by (simp add: acc'_def algebra_simps)
    qed
    have step: "map2 (\<lambda>a p. u16 (a + p * w)) acc (map (\<lambda>i. src ! ((t + k) * stride + i)) [0..<n]) = acc'"
    proof (rule nth_equalityI)
      show "length (map2 (\<lambda>a p. u16 (a + p * w)) acc (map (\<lambda>i. src ! ((t + k) * stride + i)) [0..<n])) = length acc'"
        using Cons.prems(5) by (simp add: acc'_def)
      fix i assume "i < length (map2 (\<lambda>a p. u16 (a + p * w)) acc (map (\<lambda>i. src ! ((t + k) * stride + i)) [0..<n]))"
      then have i: "i < n" using Cons.prems(5) by simp
      have "255 * (a + w) < 2 ^ 16" using aw by simp
      with bound[OF i] have "u16 (acc' ! i) = acc' ! i" by (intro u16_id) auto
      then show "map2 (\<lambda>a p. u16 (a + p * w)) acc (map (\<lambda>i. src ! ((t + k) * stride + i)) [0..<n]) ! i = acc' ! i"
        using i Cons.prems(5) by (simp add: acc'_def)
    qed
    have "vpass_rest src stride t n (k + 1) ws acc' = Some (map (\<lambda>i. acc' ! i + vsum src stride (t + (k + 1)) ws i) [0..<n])"
      by (rule Cons.IH[of "a + w"]) (use Cons.prems w r bound in \<open>simp_all add: acc'_def\<close>)
    then show ?thesis using False len
      by (simp add: row_bytes_Some step) (simp add: acc'_def vsum_Cons algebra_simps)
  qed
qed

lemma vpass_exact:
  assumes "bytes src" "wy \<noteq> []" "\<forall>w \<in> set wy. 0 \<le> w" "sum_list wy \<le> 256" "t * stride + n \<le> length src"
    and "\<forall>j < length wy. wy ! j \<noteq> 0 \<longrightarrow> (t + j) * stride + n \<le> length src"
  shows "vpass src stride t n wy = Some (map (vsum src stride t wy) [0..<n])"
proof -
  obtain w ws where wy: "wy = w # ws" using assms(2) by (cases wy) auto
  have w: "0 \<le> w" "\<forall>w \<in> set ws. 0 \<le> w" "w + sum_list ws \<le> 256" using assms(3,4) by (simp_all add: wy)
  have "0 \<le> sum_list ws" using w(2) by (intro sum_list_nonneg_int) auto
  then have "w \<le> 256" using w by linarith
  have p: "0 \<le> src ! (t * stride + i) * w \<and> src ! (t * stride + i) * w \<le> 255 * w" if "i < n" for i
    using bytes_nth[OF assms(1), of "t * stride + i"] assms(5) that w(1) by (simp add: mult_right_mono)
  have first: "map (\<lambda>p. u16 (p * w)) (map (\<lambda>i. src ! (t * stride + i)) [0..<n]) = map (\<lambda>i. src ! (t * stride + i) * w) [0..<n]"
  proof -
    have "u16 (src ! (t * stride + i) * w) = src ! (t * stride + i) * w" if "i < n" for i
      using p[OF that] \<open>w \<le> 256\<close> by (intro u16_id) auto
    then show ?thesis by simp
  qed
  have "vpass_rest src stride t n 1 ws (map (\<lambda>i. src ! (t * stride + i) * w) [0..<n])
      = Some (map (\<lambda>i. map (\<lambda>i. src ! (t * stride + i) * w) [0..<n] ! i + vsum src stride (t + 1) ws i) [0..<n])"
    by (rule vpass_rest_exact[of _ _ w]) (use assms w p in \<open>auto simp: wy\<close>)
  moreover have "vpass src stride t n wy = vpass_rest src stride t n 1 ws (map (\<lambda>p. u16 (p * w)) (map (\<lambda>i. src ! (t * stride + i)) [0..<n]))"
    by (simp add: vpass_def wy row_bytes_Some[OF assms(5)])
  ultimately show ?thesis unfolding first by (simp add: wy vsum_Cons mult.commute)
qed

text \<open>A weighted sum stays between the weighted bounds of the values that count.\<close>

lemma weighted_between:
  fixes lo hi :: int
  assumes "\<forall>w \<in> set ws. 0 \<le> w" "\<And>j. j < length ws \<Longrightarrow> ws ! j \<noteq> 0 \<Longrightarrow> lo \<le> x j \<and> x j \<le> hi"
  shows "lo * sum_list ws \<le> (\<Sum>j<length ws. ws ! j * x j)" and "(\<Sum>j<length ws. ws ! j * x j) \<le> hi * sum_list ws"
proof -
  have s: "c * sum_list ws = (\<Sum>j<length ws. ws ! j * c)" for c :: int
    by (simp add: sum_list_sum_nth sum_distrib_left atLeast0LessThan mult.commute)
  have t: "ws ! j * lo \<le> ws ! j * x j \<and> ws ! j * x j \<le> ws ! j * hi" if "j < length ws" for j
    using assms(1) assms(2)[OF that] that by (cases "ws ! j = 0") (auto simp: mult_left_mono)
  show "lo * sum_list ws \<le> (\<Sum>j<length ws. ws ! j * x j)" unfolding s using t by (intro sum_mono) auto
  show "(\<Sum>j<length ws. ws ! j * x j) \<le> hi * sum_list ws" unfolding s using t by (intro sum_mono) auto
qed

definition hsum :: "int list \<Rightarrow> nat \<Rightarrow> int list \<Rightarrow> int" where
  "hsum acc at ws = (\<Sum>j<length ws. ws ! j * acc ! (at + 4 * j))"

lemma hpass_sum_exact:
  assumes "\<forall>w \<in> set ws. 0 \<le> w" "b + sum_list ws \<le> 256" "0 \<le> b" "0 \<le> s" "s \<le> 65280 * b"
    and "\<forall>j < length ws. at + 4 * j < length acc \<and> 0 \<le> acc ! (at + 4 * j) \<and> acc ! (at + 4 * j) \<le> 65280"
  shows "hpass_sum acc at ws s = Some (s + hsum acc at ws)"
  using assms
proof (induction ws arbitrary: at s b)
  case (Cons w ws)
  have a: "at < length acc" "0 \<le> acc ! at" "acc ! at \<le> 65280" using Cons.prems(6) by force+
  have w: "0 \<le> w" "\<forall>w \<in> set ws. 0 \<le> w" "b + w + sum_list ws \<le> 256" using Cons.prems(1,2) by simp_all
  have "0 \<le> sum_list ws" using w(2) by (intro sum_list_nonneg_int) auto
  then have bw: "b + w \<le> 256" using w by linarith
  have "acc ! at * w \<le> 65280 * w" "0 \<le> acc ! at * w" using a w(1) by (simp_all add: mult_right_mono)
  then have s': "0 \<le> s + acc ! at * w" "s + acc ! at * w \<le> 65280 * (b + w)" using Cons.prems(4,5) by (simp_all add: algebra_simps)
  moreover have "65280 * (b + w) < 2 ^ 32" using bw by simp
  ultimately have u: "u32 (s + acc ! at * w) = s + acc ! at * w" by (simp add: u32_def)
  have r: "\<forall>j < length ws. at + 4 + 4 * j < length acc \<and> 0 \<le> acc ! (at + 4 + 4 * j) \<and> acc ! (at + 4 + 4 * j) \<le> 65280"
  proof (intro allI impI)
    fix j assume "j < length ws"
    with Cons.prems(6)[rule_format, of "Suc j"]
    show "at + 4 + 4 * j < length acc \<and> 0 \<le> acc ! (at + 4 + 4 * j) \<and> acc ! (at + 4 + 4 * j) \<le> 65280" by (simp add: algebra_simps)
  qed
  have "hpass_sum acc (at + 4) ws (s + acc ! at * w) = Some (s + acc ! at * w + hsum acc (at + 4) ws)"
    by (rule Cons.IH[of "b + w"]) (use w s' r Cons.prems(3) in simp_all)
  moreover have "hsum acc at (w # ws) = acc ! at * w + hsum acc (at + 4) ws"
    by (simp add: hsum_def sum.lessThan_Suc_shift add_ac mult.commute del: sum.lessThan_Suc)
  ultimately show ?case using a(1) u by simp
qed (simp add: hsum_def)

text \<open>The reference: one colour of one output pixel is the average of the source under it, each byte weighed by its two
  weights, rounded half up.\<close>

definition scaled_value :: "scaler \<Rightarrow> int list \<Rightarrow> nat \<Rightarrow> nat \<Rightarrow> nat \<Rightarrow> nat \<Rightarrow> int" where
  "scaled_value s src stride oy ox c =
     (let wx = ax_weight (sc_x s) ! ox; wy = ax_weight (sc_y s) ! oy
      in ((\<Sum>k<length wx. wx ! k * (\<Sum>j<length wy. wy ! j *
              src ! ((ax_first (sc_y s) ! oy + j) * stride + 4 * (ax_first (sc_x s) ! ox + k) + c))) + 32768) div 2 ^ 16)"

definition axis_ok :: "nat \<Rightarrow> nat \<Rightarrow> axis \<Rightarrow> bool" where
  "axis_ok src dst a \<longleftrightarrow> (\<forall>i < dst. ax_first a ! i < src \<and> length (ax_weight a ! i) = ax_taps a \<and> 1 \<le> ax_taps a
      \<and> (\<forall>w \<in> set (ax_weight a ! i). 0 \<le> w \<and> w \<le> 256) \<and> sum_list (ax_weight a ! i) = 256
      \<and> (\<forall>k < ax_taps a. ax_weight a ! i ! k \<noteq> 0 \<longrightarrow> ax_first a ! i + k < src))"

lemma build_axis_ok:
  assumes "build_axis m src dst = Some a" "src \<le> 23 * dst"
  shows "axis_ok (nat src) (nat dst) a"
proof -
  have pos: "0 < nat src" "0 < nat dst" "nat src \<le> 23 * nat dst" and a: "a = \<lparr>ax_taps = axis_taps (nat src) (nat dst),
      ax_first = map (axis_first (nat src) (nat dst)) [0..<nat dst], ax_weight = map (axis_row (nat src) (nat dst)) [0..<nat dst]\<rparr>"
    using assms by (auto simp: build_axis_def split: if_splits)
  have "(nat src - 1) div nat dst < 23" using pos by (intro less_mult_imp_div_less) linarith
  then have c: "axis_count (nat src) (nat dst) i \<le> 24" if "i < nat dst" for i using axis_geometry(6)[OF pos(1,2) that] by linarith
  have inside: "axis_first (nat src) (nat dst) i + k < nat src" if "i < nat dst" "k < axis_count (nat src) (nat dst) i" for i k
    using axis_geometry(1)[OF pos(1,2) that(1)] that(2) by linarith
  have f: "axis_first (nat src) (nat dst) i < nat src" if "i < nat dst" for i
    using inside[OF that, of 0] by (simp add: axis_count_def)
  have z: "axis_first (nat src) (nat dst) i + k < nat src"
    if "i < nat dst" "k < axis_taps (nat src) (nat dst)" "axis_row (nat src) (nat dst) i ! k \<noteq> 0" for i k
    using axis_row_sound(4)[OF pos(1,2) that(1) c[OF that(1)]] that(2,3) inside[OF that(1)] by (meson not_less)
  show ?thesis unfolding axis_ok_def
    using axis_row_sound(1-3)[OF pos(1,2) _ c] f z axis_taps_ge[of "nat src" "nat dst"] by (simp add: a)
qed

text \<open>A picture the scaler may be given: bytes, in rows \<open>stride\<close> apart that hold the width.\<close>

definition bgra_ok :: "int list \<Rightarrow> nat \<Rightarrow> nat \<Rightarrow> nat \<Rightarrow> bool" where
  "bgra_ok src stride w h \<longleftrightarrow> bytes src \<and> 4 * w \<le> stride \<and> (h - 1) * stride + 4 * w \<le> length src"

lemma picture_row: "bgra_ok src stride w h \<Longrightarrow> r < h \<Longrightarrow> r * stride + 4 * w \<le> length src"
proof -
  assume p: "bgra_ok src stride w h" and "r < h"
  then have "r * stride \<le> (h - 1) * stride" by (intro mult_right_mono) auto
  with p show ?thesis unfolding bgra_ok_def by linarith
qed

lemma vsum_between:
  assumes "axis_ok sh dh ay" "oy < dh" "bgra_ok src stride w sh" "i < 4 * w"
    and "\<And>r. r < sh \<Longrightarrow> lo \<le> src ! (r * stride + i) \<and> src ! (r * stride + i) \<le> hi"
  shows "256 * lo \<le> vsum src stride (ax_first ay ! oy) (ax_weight ay ! oy) i"
    and "vsum src stride (ax_first ay ! oy) (ax_weight ay ! oy) i \<le> 256 * hi"
proof -
  let ?ws = "ax_weight ay ! oy" and ?t = "ax_first ay ! oy"
  have ws: "\<forall>w \<in> set ?ws. 0 \<le> w" "sum_list ?ws = 256" using assms(1,2) by (auto simp: axis_ok_def)
  have "lo \<le> src ! ((?t + j) * stride + i) \<and> src ! ((?t + j) * stride + i) \<le> hi" if "j < length ?ws" "?ws ! j \<noteq> 0" for j
    using assms(1,2) that by (intro assms(5)) (auto simp: axis_ok_def)
  from weighted_between[OF ws(1), of lo "\<lambda>j. src ! ((?t + j) * stride + i)" hi, OF this] show "256 * lo \<le> vsum src stride ?t ?ws i" "vsum src stride ?t ?ws i \<le> 256 * hi"
    by (simp_all add: vsum_def ws(2) mult.commute)
qed

lemma picture_byte: "bgra_ok src stride w h \<Longrightarrow> r < h \<Longrightarrow> i < 4 * w \<Longrightarrow> 0 \<le> src ! (r * stride + i) \<and> src ! (r * stride + i) \<le> 255"
  using picture_row[of src stride w h r] bytes_nth[of src "r * stride + i"] by (auto simp: bgra_ok_def)

lemma scale_pixel_exact:
  assumes x: "axis_ok (sc_src_w s) (sc_dst_w s) (sc_x s)" and y: "axis_ok (sc_src_h s) (sc_dst_h s) (sc_y s)"
    and p: "bgra_ok src stride (sc_src_w s) (sc_src_h s)" and o: "oy < sc_dst_h s" "ox < sc_dst_w s"
  defines "acc \<equiv> map (vsum src stride (ax_first (sc_y s) ! oy) (ax_weight (sc_y s) ! oy)) [0..<sc_src_w s * 4] @ replicate (4 * ax_taps (sc_x s)) 0"
  shows "hpass_pixel acc (ax_first (sc_x s) ! ox) (ax_weight (sc_x s) ! ox)
    = Some (map (scaled_value s src stride oy ox) [0, 1, 2] @ [255])"
proof -
  let ?f = "ax_first (sc_x s) ! ox" and ?wx = "ax_weight (sc_x s) ! ox" and ?fy = "ax_first (sc_y s) ! oy" and ?wy = "ax_weight (sc_y s) ! oy"
  have wx: "?f < sc_src_w s" "length ?wx = ax_taps (sc_x s)" "\<forall>w \<in> set ?wx. 0 \<le> w" "sum_list ?wx = 256"
    "\<And>k. k < ax_taps (sc_x s) \<Longrightarrow> ?wx ! k \<noteq> 0 \<Longrightarrow> ?f + k < sc_src_w s"
    using x o by (auto simp: axis_ok_def)
  have v: "0 \<le> vsum src stride ?fy ?wy i \<and> vsum src stride ?fy ?wy i \<le> 65280" if "i < 4 * sc_src_w s" for i
    using vsum_between[OF y o(1) p that, of 0 255] picture_byte[OF p _ that] by auto
  have acc: "at < length acc \<and> 0 \<le> acc ! at \<and> acc ! at \<le> 65280" if "at < 4 * sc_src_w s + 4 * ax_taps (sc_x s)" for at
    using v that by (auto simp: acc_def nth_append)
  have one: "hpass_sum acc (4 * ?f + c) ?wx 0 = Some (hsum acc (4 * ?f + c) ?wx)"
    and val: "0 \<le> hsum acc (4 * ?f + c) ?wx" "hsum acc (4 * ?f + c) ?wx \<le> 65280 * 256"
    and reference: "(hsum acc (4 * ?f + c) ?wx + 32768) div 2 ^ 16 = scaled_value s src stride oy ox c" if c: "c < 4" for c
  proof -
    have at: "4 * ?f + c + 4 * k < 4 * sc_src_w s + 4 * ax_taps (sc_x s)" if "k < length ?wx" for k using that wx(1,2) c by linarith
    then show "hpass_sum acc (4 * ?f + c) ?wx 0 = Some (hsum acc (4 * ?f + c) ?wx)"
      using hpass_sum_exact[OF wx(3), of 0 0 "4 * ?f + c" acc] wx(4) acc by simp
    show "0 \<le> hsum acc (4 * ?f + c) ?wx" "hsum acc (4 * ?f + c) ?wx \<le> 65280 * 256"
      using weighted_between[OF wx(3), of 0 "\<lambda>k. acc ! (4 * ?f + c + 4 * k)" 65280] acc at wx(4) by (simp_all add: hsum_def)
    have "?wx ! k * acc ! (4 * ?f + c + 4 * k) = ?wx ! k * vsum src stride ?fy ?wy (4 * (?f + k) + c)" if "k < length ?wx" for k
    proof (cases "?wx ! k = 0")
      case False
      with wx(2,5) that c have "4 * ?f + c + 4 * k < sc_src_w s * 4" by fastforce
      then show ?thesis by (simp add: acc_def nth_append algebra_simps)
    qed simp
    then have "hsum acc (4 * ?f + c) ?wx = (\<Sum>k<length ?wx. ?wx ! k * vsum src stride ?fy ?wy (4 * (?f + k) + c))"
      unfolding hsum_def by (intro sum.cong) auto
    then show "(hsum acc (4 * ?f + c) ?wx + 32768) div 2 ^ 16 = scaled_value s src stride oy ox c"
      by (simp add: scaled_value_def vsum_def Let_def add.assoc)
  qed
  have small: "u8 (u32 (h + 32768) div 2 ^ 16) = (h + 32768) div 2 ^ 16" if "0 \<le> h" "h \<le> 65280 * 256" for h
  proof -
    have "u32 (h + 32768) = h + 32768" using that by (simp add: u32_def)
    moreover have "(h + 32768) div 65536 < 256" using that by linarith
    ultimately show ?thesis using that by (simp add: u8_id)
  qed
  show ?thesis unfolding hpass_pixel_def
    using one[of 0] one[of 1] one[of 2] small[OF val[of 0]] small[OF val[of 1]] small[OF val[of 2]] reference[of 0] reference[of 1] reference[of 2]
    by simp
qed

lemma nth_concat_equal:
  assumes "\<forall>xs \<in> set xss. length xs = n" "i < length xss" "j < n"
  shows "concat xss ! (i * n + j) = xss ! i ! j"
  using assms
proof (induction xss arbitrary: i)
  case (Cons xs xss)
  then show ?case by (cases i) (simp_all add: nth_append add.assoc)
qed simp

lemma length_concat_equal: "\<forall>xs \<in> set xss. length xs = n \<Longrightarrow> length (concat xss) = length xss * n"
  by (induction xss) auto

lemma scale_total:
  assumes x: "axis_ok (sc_src_w s) (sc_dst_w s) (sc_x s)" and y: "axis_ok (sc_src_h s) (sc_dst_h s) (sc_y s)"
    and p: "bgra_ok src stride (sc_src_w s) (sc_src_h s)"
  shows "fd_scale_bgra s src stride =
    Some (concat (map (\<lambda>oy. concat (map (\<lambda>ox. map (scaled_value s src stride oy ox) [0, 1, 2] @ [255]) [0..<sc_dst_w s])) [0..<sc_dst_h s]))"
proof -
  have "scale_row s src stride oy = Some (concat (map (\<lambda>ox. map (scaled_value s src stride oy ox) [0, 1, 2] @ [255]) [0..<sc_dst_w s]))"
    if oy: "oy < sc_dst_h s" for oy
  proof -
    let ?t = "ax_first (sc_y s) ! oy" and ?wy = "ax_weight (sc_y s) ! oy"
    have wy: "?t < sc_src_h s" "?wy \<noteq> []" "\<forall>w \<in> set ?wy. 0 \<le> w" "sum_list ?wy \<le> 256"
      "\<forall>j < length ?wy. ?wy ! j \<noteq> 0 \<longrightarrow> ?t + j < sc_src_h s"
      using y oy by (auto simp: axis_ok_def)
    have "vpass src stride ?t (sc_src_w s * 4) ?wy = Some (map (vsum src stride ?t ?wy) [0..<sc_src_w s * 4])"
    proof (rule vpass_exact)
      have row: "r * stride + sc_src_w s * 4 \<le> length src" if "r < sc_src_h s" for r
        using picture_row[OF p that] unfolding mult.commute[of 4] .
      show "?t * stride + sc_src_w s * 4 \<le> length src" by (rule row[OF wy(1)])
      show "\<forall>j < length ?wy. ?wy ! j \<noteq> 0 \<longrightarrow> (?t + j) * stride + sc_src_w s * 4 \<le> length src" using row wy(5) by blast
    qed (use wy p in \<open>simp_all add: bgra_ok_def\<close>)
    moreover have "those (map (\<lambda>ox. hpass_pixel (map (vsum src stride ?t ?wy) [0..<sc_src_w s * 4] @ replicate (4 * ax_taps (sc_x s)) 0)
        (ax_first (sc_x s) ! ox) (ax_weight (sc_x s) ! ox)) [0..<sc_dst_w s])
      = Some (map (\<lambda>ox. map (scaled_value s src stride oy ox) [0, 1, 2] @ [255]) [0..<sc_dst_w s])"
      by (rule those_map_Some) (rule scale_pixel_exact[OF x y p oy], simp)
    ultimately show ?thesis unfolding scale_row_def by simp
  qed
  then have "those (map (scale_row s src stride) [0..<sc_dst_h s])
      = Some (map (\<lambda>oy. concat (map (\<lambda>ox. map (scaled_value s src stride oy ox) [0, 1, 2] @ [255]) [0..<sc_dst_w s])) [0..<sc_dst_h s])"
    by (intro those_map_Some) simp
  then show ?thesis by (simp add: fd_scale_bgra_def)
qed

lemma fd_scaler_new_ok:
  assumes "fd_scaler_new memory src_w src_h dst_w dst_h = Some s" "src_w \<le> 23 * dst_w" "src_h \<le> 23 * dst_h"
  shows "axis_ok (sc_src_w s) (sc_dst_w s) (sc_x s)" "axis_ok (sc_src_h s) (sc_dst_h s) (sc_y s)"
    and "sc_src_w s = nat src_w" "sc_src_h s = nat src_h" "sc_dst_w s = nat dst_w" "sc_dst_h s = nat dst_h"
proof -
  obtain x y where "build_axis (memory 1) src_w dst_w = Some x" "build_axis (memory 2) src_h dst_h = Some y"
    and s: "s = \<lparr>sc_src_w = nat src_w, sc_src_h = nat src_h, sc_dst_w = nat dst_w, sc_dst_h = nat dst_h, sc_x = x, sc_y = y\<rparr>"
    using assms(1) by (auto simp: fd_scaler_new_def bind_eq_Some_conv split: if_splits)
  then show "axis_ok (sc_src_w s) (sc_dst_w s) (sc_x s)" "axis_ok (sc_src_h s) (sc_dst_h s) (sc_y s)"
    using build_axis_ok assms(2,3) by simp_all
qed (use assms(1) in \<open>auto simp: fd_scaler_new_def bind_eq_Some_conv split: if_splits\<close>)

text \<open>C34: for every shrinking up to 23 times and every picture whose rows hold its width, the scaler stays inside the
  picture, its tables and its scratch row; no sum wraps, and every colour byte of the result is the exact weighted
  average of the source under it, rounded half up, with alpha 255.\<close>

theorem scale_exact:
  assumes "fd_scaler_new memory src_w src_h dst_w dst_h = Some s" "src_w \<le> 23 * dst_w" "src_h \<le> 23 * dst_h"
    and "bgra_ok src stride (nat src_w) (nat src_h)"
  shows "\<exists>out. fd_scale_bgra s src stride = Some out \<and> length out = nat dst_h * nat dst_w * 4
    \<and> (\<forall>oy < nat dst_h. \<forall>ox < nat dst_w. \<forall>c < 4.
          out ! ((oy * nat dst_w + ox) * 4 + c) = (if c = 3 then 255 else scaled_value s src stride oy ox c))"
proof -
  note ok = fd_scaler_new_ok[OF assms(1-3)]
  define px where "px oy ox = map (scaled_value s src stride oy ox) [0, 1, 2] @ [255]" for oy ox
  define row where "row oy = concat (map (px oy) [0..<nat dst_w])" for oy
  have px: "\<forall>xs \<in> set (map (px oy) [0..<nat dst_w]). length xs = 4" for oy by (auto simp: px_def)
  have len: "length (row oy) = nat dst_w * 4" for oy using length_concat_equal[OF px] by (simp add: row_def)
  then have rows: "\<forall>xs \<in> set (map row [0..<nat dst_h]). length xs = nat dst_w * 4" by auto
  have run: "fd_scale_bgra s src stride = Some (concat (map row [0..<nat dst_h]))"
    unfolding row_def px_def using scale_total[OF ok(1,2), of src stride] assms(4) by (simp add: ok(3-6))
  have "concat (map row [0..<nat dst_h]) ! ((oy * nat dst_w + ox) * 4 + c) = (if c = 3 then 255 else scaled_value s src stride oy ox c)"
    if "oy < nat dst_h" "ox < nat dst_w" "c < 4" for oy ox c
  proof -
    have "ox * 4 + c < nat dst_w * 4" using that(2,3) by linarith
    then have "concat (map row [0..<nat dst_h]) ! (oy * (nat dst_w * 4) + (ox * 4 + c)) = row oy ! (ox * 4 + c)"
      using nth_concat_equal[OF rows, of oy "ox * 4 + c"] that(1) by simp
    moreover have "row oy ! (ox * 4 + c) = px oy ox ! c"
      using nth_concat_equal[OF px[of oy], of ox c] that(2,3) by (simp add: row_def)
    moreover have "px oy ox ! c = (if c = 3 then 255 else scaled_value s src stride oy ox c)"
    proof -
      have "c = 0 \<or> c = 1 \<or> c = 2 \<or> c = 3" using that(3) by linarith
      then show ?thesis by (elim disjE) (simp_all add: px_def)
    qed
    ultimately show ?thesis by (simp add: algebra_simps)
  qed
  with run length_concat_equal[OF rows] show ?thesis by auto
qed

lemma scale_exact_witness:
  "\<exists>s. fd_scaler_new (\<lambda>_. True) 3 2 2 1 = Some s \<and> length (the (fd_scale_bgra s (replicate 24 100) 12)) = 8"
proof -
  obtain s where s: "fd_scaler_new (\<lambda>_. True) 3 2 2 1 = Some s" by (simp add: fd_scaler_new_def build_axis_def)
  have "bgra_ok (replicate 24 100) 12 (nat 3) (nat 2)" by (simp add: bgra_ok_def bytes_def)
  from scale_exact[OF s _ _ this] s show ?thesis by auto
qed

text \<open>An average: every colour stays between the least and the greatest of its values in the source, so an even surface
  comes out even.\<close>

lemma scaled_value_between:
  assumes x: "axis_ok (sc_src_w s) (sc_dst_w s) (sc_x s)" and y: "axis_ok (sc_src_h s) (sc_dst_h s) (sc_y s)"
    and p: "bgra_ok src stride (sc_src_w s) (sc_src_h s)" and o: "oy < sc_dst_h s" "ox < sc_dst_w s" "c < 4"
    and b: "\<And>r i. r < sc_src_h s \<Longrightarrow> i < sc_src_w s \<Longrightarrow> lo \<le> src ! (r * stride + (4 * i + c)) \<and> src ! (r * stride + (4 * i + c)) \<le> hi"
  shows "lo \<le> scaled_value s src stride oy ox c \<and> scaled_value s src stride oy ox c \<le> hi"
proof -
  let ?f = "ax_first (sc_x s) ! ox" and ?wx = "ax_weight (sc_x s) ! ox" and ?fy = "ax_first (sc_y s) ! oy" and ?wy = "ax_weight (sc_y s) ! oy"
  have wx: "\<forall>w \<in> set ?wx. 0 \<le> w" "sum_list ?wx = 256" "\<And>k. k < length ?wx \<Longrightarrow> ?wx ! k \<noteq> 0 \<Longrightarrow> ?f + k < sc_src_w s"
    using x o by (auto simp: axis_ok_def)
  have v: "256 * lo \<le> vsum src stride ?fy ?wy (4 * (?f + k) + c) \<and> vsum src stride ?fy ?wy (4 * (?f + k) + c) \<le> 256 * hi"
    if "k < length ?wx" "?wx ! k \<noteq> 0" for k
  proof -
    have i: "?f + k < sc_src_w s" by (rule wx(3)[OF that])
    then have "4 * (?f + k) + c < 4 * sc_src_w s" using o(3) by presburger
    from vsum_between[OF y o(1) p this, of lo hi] b[OF _ i] show ?thesis by blast
  qed
  define S where "S = (\<Sum>k<length ?wx. ?wx ! k * vsum src stride ?fy ?wy (4 * (?f + k) + c))"
  have "256 * lo * 256 \<le> S" "S \<le> 256 * hi * 256"
    using weighted_between[OF wx(1), of "256 * lo" "\<lambda>k. vsum src stride ?fy ?wy (4 * (?f + k) + c)" "256 * hi", OF v] by (simp_all add: S_def wx(2))
  then have "lo \<le> (S + 32768) div 65536" "(S + 32768) div 65536 \<le> hi" by linarith+
  moreover have "scaled_value s src stride oy ox c = (S + 32768) div 65536"
    by (simp add: scaled_value_def S_def vsum_def Let_def add.assoc)
  ultimately show ?thesis by simp
qed

text \<open>Beyond 24 source pixels to one the correction of the largest weight can make it negative: it is stored as a huge
  one, and the weights no longer sum to 256.\<close>

lemma weights_wrap: "axis_row 30 1 0 ! 0 = 65531" and "sum_list (axis_row 30 1 0) \<noteq> 256"
proof -
  have "axis_row 30 1 0 = 65531 # replicate 29 9" by code_simp
  then show "axis_row 30 1 0 ! 0 = 65531" "sum_list (axis_row 30 1 0) \<noteq> 256" by (simp_all add: sum_list_replicate)
qed

end
