(* ===== verification/I420.thy ===== *)
theory I420
  imports Convert
begin

text \<open>
  \<open>fd_bgra_to_i420\<close> of \<open>vpx/convert.c\<close>: every 2 x 2 block of BGRA pixels becomes four bytes of luma and one of each
  chroma. The theory shows that the whole of the three planes is written, exactly once per byte and with the BT.601
  values, without leaving the picture or the planes, and that no value needs clamping.
\<close>

definition FD_Y :: "int \<Rightarrow> int \<Rightarrow> int \<Rightarrow> int" where
  "FD_Y r g b = u8 ((66 * r + 129 * g + 25 * b + 0x1080) div 2 ^ 8)"

definition FD_U :: "int \<Rightarrow> int \<Rightarrow> int \<Rightarrow> int" where
  "FD_U r g b = u8 ((112 * b - 74 * g - 38 * r + 0x8080) div 2 ^ 8)"

definition FD_V :: "int \<Rightarrow> int \<Rightarrow> int \<Rightarrow> int" where
  "FD_V r g b = u8 ((112 * r - 94 * g - 18 * b + 0x8080) div 2 ^ 8)"

type_synonym planes = "int list \<times> int list \<times> int list"

definition pixel_at :: "int list \<Rightarrow> nat \<Rightarrow> (int \<times> int \<times> int) option" where
  "pixel_at src a =
     do {
       b \<leftarrow> rd src a;
       g \<leftarrow> rd src (a + 1);
       r \<leftarrow> rd src (a + 2);
       Some (r, g, b)
     }"

text \<open>The body of the two loops, for one block; \<open>>> 2\<close> of what is never negative divides.\<close>

definition i420_block :: "int list \<Rightarrow> nat \<Rightarrow> nat \<Rightarrow> nat \<Rightarrow> nat \<times> nat \<Rightarrow> planes \<Rightarrow> planes option" where
  "i420_block src stride y_stride uv_stride at ps =
     (case at of (row, x) \<Rightarrow> case ps of (y, u, v) \<Rightarrow>
        do {
          (r00, g00, b00) \<leftarrow> pixel_at src (row * stride + x * 4);
          (r01, g01, b01) \<leftarrow> pixel_at src (row * stride + x * 4 + 4);
          (r10, g10, b10) \<leftarrow> pixel_at src (row * stride + stride + x * 4);
          (r11, g11, b11) \<leftarrow> pixel_at src (row * stride + stride + x * 4 + 4);
          y \<leftarrow> wr (row * y_stride + x) (FD_Y r00 g00 b00) y;
          y \<leftarrow> wr (row * y_stride + x + 1) (FD_Y r01 g01 b01) y;
          y \<leftarrow> wr (row * y_stride + y_stride + x) (FD_Y r10 g10 b10) y;
          y \<leftarrow> wr (row * y_stride + y_stride + x + 1) (FD_Y r11 g11 b11) y;
          let bb = (b00 + b01 + b10 + b11 + 2) div 4;
          let gg = (g00 + g01 + g10 + g11 + 2) div 4;
          let rr = (r00 + r01 + r10 + r11 + 2) div 4;
          u \<leftarrow> wr (row div 2 * uv_stride + x div 2) (FD_U rr gg bb) u;
          v \<leftarrow> wr (row div 2 * uv_stride + x div 2) (FD_V rr gg bb) v;
          Some (y, u, v)
        })"

fun i420_blocks :: "int list \<Rightarrow> nat \<Rightarrow> nat \<Rightarrow> nat \<Rightarrow> (nat \<times> nat) list \<Rightarrow> planes \<Rightarrow> planes option" where
  "i420_blocks src stride y_stride uv_stride [] ps = Some ps"
| "i420_blocks src stride y_stride uv_stride (at # ats) ps =
     do { ps \<leftarrow> i420_block src stride y_stride uv_stride at ps; i420_blocks src stride y_stride uv_stride ats ps }"

text \<open>The values of \<open>for (i = 0; i < n; i += 2)\<close>.\<close>

definition by_two :: "nat \<Rightarrow> nat list" where
  "by_two n = map (\<lambda>i. 2 * i) [0..<(n + 1) div 2]"

definition fd_bgra_to_i420 :: "int list \<Rightarrow> nat \<Rightarrow> nat \<Rightarrow> nat \<Rightarrow> nat \<Rightarrow> nat \<Rightarrow> planes \<Rightarrow> planes option" where
  "fd_bgra_to_i420 src stride width height y_stride uv_stride ps =
     i420_blocks src stride y_stride uv_stride (concat (map (\<lambda>row. map (\<lambda>x. (row, x)) (by_two width)) (by_two height))) ps"

section \<open>The colours\<close>

lemma FD_exact:
  assumes "0 \<le> r" "r \<le> 255" "0 \<le> g" "g \<le> 255" "0 \<le> b" "b \<le> 255"
  shows "FD_Y r g b = (66 * r + 129 * g + 25 * b + 4224) div 256" "16 \<le> FD_Y r g b" "FD_Y r g b \<le> 235"
    and "FD_U r g b = (112 * b - 74 * g - 38 * r + 32896) div 256" "16 \<le> FD_U r g b" "FD_U r g b \<le> 240"
    and "FD_V r g b = (112 * r - 94 * g - 18 * b + 32896) div 256" "16 \<le> FD_V r g b" "FD_V r g b \<le> 240"
proof -
  have y: "16 \<le> (66 * r + 129 * g + 25 * b + 4224) div 256" "(66 * r + 129 * g + 25 * b + 4224) div 256 \<le> 235" using assms by linarith+
  have u: "16 \<le> (112 * b - 74 * g - 38 * r + 32896) div 256" "(112 * b - 74 * g - 38 * r + 32896) div 256 \<le> 240" using assms by linarith+
  have v: "16 \<le> (112 * r - 94 * g - 18 * b + 32896) div 256" "(112 * r - 94 * g - 18 * b + 32896) div 256 \<le> 240" using assms by linarith+
  show e: "FD_Y r g b = (66 * r + 129 * g + 25 * b + 4224) div 256" "FD_U r g b = (112 * b - 74 * g - 38 * r + 32896) div 256"
    "FD_V r g b = (112 * r - 94 * g - 18 * b + 32896) div 256"
    using y u v by (simp_all add: FD_Y_def FD_U_def FD_V_def u8_id)
  show "16 \<le> FD_Y r g b" "FD_Y r g b \<le> 235" "16 \<le> FD_U r g b" "FD_U r g b \<le> 240" "16 \<le> FD_V r g b" "FD_V r g b \<le> 240"
    using y u v unfolding e by blast+
qed

text \<open>A grey pixel has neutral chroma.\<close>

lemma FD_grey: "0 \<le> c \<Longrightarrow> c \<le> 255 \<Longrightarrow> FD_U c c c = 128 \<and> FD_V c c c = 128"
  by (simp add: FD_exact)

section \<open>The planes\<close>

text \<open>What each byte of the planes should be, by its position.\<close>

definition luma_at :: "int list \<Rightarrow> nat \<Rightarrow> nat \<Rightarrow> nat \<Rightarrow> int" where
  "luma_at src stride w p = (let a = p div w * stride + p mod w * 4 in FD_Y (src ! (a + 2)) (src ! (a + 1)) (src ! a))"

definition block_mean :: "int list \<Rightarrow> nat \<Rightarrow> nat \<Rightarrow> nat \<Rightarrow> nat \<Rightarrow> int" where
  "block_mean src stride i j c =
     (let a = 2 * i * stride + 8 * j + c
      in (src ! a + src ! (a + 4) + src ! (a + stride) + src ! (a + stride + 4) + 2) div 4)"

definition chroma_at :: "(int \<Rightarrow> int \<Rightarrow> int \<Rightarrow> int) \<Rightarrow> int list \<Rightarrow> nat \<Rightarrow> nat \<Rightarrow> nat \<Rightarrow> int" where
  "chroma_at f src stride w2 p =
     (let i = p div w2; j = p mod w2 in f (block_mean src stride i j 2) (block_mean src stride i j 1) (block_mean src stride i j 0))"

text \<open>The invariant of the loops: the positions in \<open>done_y\<close> and \<open>done_uv\<close> hold what they should.\<close>

definition planes_ok :: "int list \<Rightarrow> nat \<Rightarrow> nat \<Rightarrow> nat \<Rightarrow> nat set \<Rightarrow> nat set \<Rightarrow> planes \<Rightarrow> bool" where
  "planes_ok src stride w h done_y done_uv ps \<longleftrightarrow>
     (case ps of (y, u, v) \<Rightarrow>
        length y = w * h \<and> length u = (w div 2) * (h div 2) \<and> length v = (w div 2) * (h div 2)
      \<and> (\<forall>p \<in> done_y. p < w * h \<longrightarrow> y ! p = luma_at src stride w p)
      \<and> (\<forall>p \<in> done_uv. p < (w div 2) * (h div 2) \<longrightarrow>
            u ! p = chroma_at FD_U src stride (w div 2) p \<and> v ! p = chroma_at FD_V src stride (w div 2) p))"

lemma update_done: "\<forall>p \<in> D. p < length y \<longrightarrow> y ! p = f p \<Longrightarrow> c = f q \<Longrightarrow> \<forall>p \<in> insert q D. p < length y \<longrightarrow> y[q := c] ! p = f p"
  by (metis insertE nth_list_update_eq nth_list_update_neq)

lemma luma_pos: "x < w \<Longrightarrow> luma_at src stride w (r * w + x) = FD_Y (src ! (r * stride + x * 4 + 2)) (src ! (r * stride + x * 4 + 1)) (src ! (r * stride + x * 4))"
  by (simp add: luma_at_def Let_def add.assoc)

lemma block_step:
  assumes "even w" "even h" "bgra_ok src stride w h" "i < h div 2" "j < w div 2" "planes_ok src stride w h Dy Duv ps"
  shows "\<exists>ps'. i420_block src stride w (w div 2) (2 * i, 2 * j) ps = Some ps'
    \<and> planes_ok src stride w h ({2 * i * w + 2 * j, 2 * i * w + 2 * j + 1, (2 * i + 1) * w + 2 * j, (2 * i + 1) * w + 2 * j + 1} \<union> Dy)
        (insert (i * (w div 2) + j) Duv) ps'"
proof -
  obtain y u v where ps: "ps = (y, u, v)" by (cases ps)
  have len: "length y = w * h" "length u = (w div 2) * (h div 2)" "length v = (w div 2) * (h div 2)"
    using assms(6) by (simp_all add: planes_ok_def ps)
  have ij: "2 * i + 1 < h" "2 * j + 1 < w" using assms(4,5) by linarith+
  have rows: "2 * i * stride + 4 * w \<le> length src" "(2 * i + 1) * stride + 4 * w \<le> length src"
    using ij by (intro picture_row[OF assms(3)]; linarith)+
  define a where "a = 2 * i * stride + 2 * j * 4"
  have src: "a + 6 < length src" "a + stride + 6 < length src" using rows ij unfolding a_def by (simp_all add: algebra_simps)
  have yp: "(2 * i + 1) * w + 2 * j + 1 < w * h"
  proof -
    have "(2 * i + 1) * w + 2 * j + 1 < (2 * i + 1) * w + w" using ij by linarith
    also have "\<dots> = w * (2 * i + 2)" by (simp add: algebra_simps)
    also have "\<dots> \<le> w * h" using ij by (intro mult_left_mono) auto
    finally show ?thesis .
  qed
  have up: "i * (w div 2) + j < (w div 2) * (h div 2)"
  proof -
    have "i * (w div 2) + j < (i + 1) * (w div 2)" using assms(5) by simp
    also have "\<dots> \<le> (h div 2) * (w div 2)" using assms(4) by (intro mult_right_mono) auto
    finally show ?thesis by (simp add: mult.commute)
  qed
  define R G B where "R = (\<lambda>k. src ! (k + 2))" and "G = (\<lambda>k. src ! (k + 1))" and "B = (\<lambda>k. src ! k)"
  have px: "pixel_at src k = Some (R k, G k, B k)" if "k + 2 < length src" for k
    using that by (simp add: pixel_at_def R_def G_def B_def)
  define q where "q = 2 * i * w + 2 * j"
  define y' where "y' = y[q := luma_at src stride w q, q + 1 := luma_at src stride w (q + 1),
      q + w := luma_at src stride w (q + w), q + w + 1 := luma_at src stride w (q + w + 1)]"
  have lum: "luma_at src stride w q = FD_Y (R a) (G a) (B a)" "luma_at src stride w (q + 1) = FD_Y (R (a + 4)) (G (a + 4)) (B (a + 4))"
    "luma_at src stride w (q + w) = FD_Y (R (a + stride)) (G (a + stride)) (B (a + stride))"
    "luma_at src stride w (q + w + 1) = FD_Y (R (a + stride + 4)) (G (a + stride + 4)) (B (a + stride + 4))"
    using luma_pos[of "2 * j" w src stride "2 * i"] luma_pos[of "2 * j + 1" w src stride "2 * i"]
      luma_pos[of "2 * j" w src stride "2 * i + 1"] luma_pos[of "2 * j + 1" w src stride "2 * i + 1"] ij
    by (simp_all add: q_def a_def R_def G_def B_def algebra_simps)
  have mean: "block_mean src stride i j c = (src ! (a + c) + src ! (a + 4 + c) + src ! (a + stride + c) + src ! (a + stride + 4 + c) + 2) div 4" for c
    by (simp add: block_mean_def a_def Let_def algebra_simps)
  define cu cv where "cu = chroma_at FD_U src stride (w div 2) (i * (w div 2) + j)" and "cv = chroma_at FD_V src stride (w div 2) (i * (w div 2) + j)"
  have pos: "(i * (w div 2) + j) div (w div 2) = i" "(i * (w div 2) + j) mod (w div 2) = j" using assms(5) by simp_all
  have chroma: "FD_U ((R a + R (a + 4) + R (a + stride) + R (a + stride + 4) + 2) div 4) ((G a + G (a + 4) + G (a + stride) + G (a + stride + 4) + 2) div 4)
      ((B a + B (a + 4) + B (a + stride) + B (a + stride + 4) + 2) div 4) = cu"
    "FD_V ((R a + R (a + 4) + R (a + stride) + R (a + stride + 4) + 2) div 4) ((G a + G (a + 4) + G (a + stride) + G (a + stride + 4) + 2) div 4)
      ((B a + B (a + 4) + B (a + stride) + B (a + stride + 4) + 2) div 4) = cv"
    unfolding cu_def cv_def chroma_at_def Let_def pos mean R_def G_def B_def by simp_all
  have run: "i420_block src stride w (w div 2) (2 * i, 2 * j) ps = Some (y', u[i * (w div 2) + j := cu], v[i * (w div 2) + j := cv])"
  proof -
    have addr: "2 * i * stride + 2 * j * 4 = a" "2 * i * stride + stride + 2 * j * 4 = a + stride" "2 * i * w + 2 * j = q"
      "2 * i * w + w + 2 * j = q + w" "2 * i div 2 * (w div 2) + 2 * j div 2 = i * (w div 2) + j" by (simp_all add: a_def q_def)
    have in_y: "q + w + 1 < length y" using yp len(1) by (simp add: q_def algebra_simps)
    have at: "pixel_at src a = Some (R a, G a, B a)" "pixel_at src (a + 4) = Some (R (a + 4), G (a + 4), B (a + 4))"
      "pixel_at src (a + stride) = Some (R (a + stride), G (a + stride), B (a + stride))"
      "pixel_at src (a + stride + 4) = Some (R (a + stride + 4), G (a + stride + 4), B (a + stride + 4))"
      by (rule px, use src in linarith)+
    have wy: "wr k c z = Some (z[k := c])" if "length z = length y" "k \<le> q + w + 1" for z k and c :: int
      using that in_y by simp
    have le: "q \<le> q + w + 1" "q + 1 \<le> q + w + 1" "q + w \<le> q + w + 1" "q + w + 1 \<le> q + w + 1" by simp_all
    have wu: "wr (i * (w div 2) + j) c u = Some (u[i * (w div 2) + j := c])" "wr (i * (w div 2) + j) c v = Some (v[i * (w div 2) + j := c])" for c
      using up len by simp_all
    show ?thesis
      unfolding i420_block_def prod.case ps addr Let_def chroma[symmetric] y'_def lum
      by (simp only: at Option.bind.simps(2) prod.case wy le wu length_list_update Let_def)
  qed
  have ly: "length y' = w * h" by (simp add: y'_def len)
  have up1: "(\<forall>p \<in> insert r D. p < w * h \<longrightarrow> z[r := luma_at src stride w r] ! p = luma_at src stride w p) \<and> length (z[r := luma_at src stride w r]) = w * h"
    if "(\<forall>p \<in> D. p < w * h \<longrightarrow> z ! p = luma_at src stride w p) \<and> length z = w * h" for D r z
    using update_done[of D z "luma_at src stride w", OF _ refl] that by simp
  have "(\<forall>p \<in> Dy. p < w * h \<longrightarrow> y ! p = luma_at src stride w p) \<and> length y = w * h" using assms(6) by (simp add: planes_ok_def ps len(1))
  from up1[OF up1[OF up1[OF up1[OF this, of q], of "q + 1"], of "q + w"], of "q + w + 1"]
  have "\<forall>p \<in> insert (q + w + 1) (insert (q + w) (insert (q + 1) (insert q Dy))). p < w * h \<longrightarrow> y' ! p = luma_at src stride w p"
    unfolding y'_def by (rule conjunct1)
  then have Y: "\<forall>p \<in> {2 * i * w + 2 * j, 2 * i * w + 2 * j + 1, (2 * i + 1) * w + 2 * j, (2 * i + 1) * w + 2 * j + 1} \<union> Dy.
      p < w * h \<longrightarrow> y' ! p = luma_at src stride w p"
    by (simp add: q_def algebra_simps)
  have "\<forall>p \<in> Duv. p < length u \<longrightarrow> u ! p = chroma_at FD_U src stride (w div 2) p" "\<forall>p \<in> Duv. p < length v \<longrightarrow> v ! p = chroma_at FD_V src stride (w div 2) p"
    using assms(6) by (simp_all add: planes_ok_def ps len)
  from update_done[OF this(1) cu_def] update_done[OF this(2) cv_def] ly Y len
  show ?thesis unfolding run by (simp add: planes_ok_def)
qed

lemma blocks_step:
  assumes "even w" "even h" "bgra_ok src stride w h" "\<forall>(i, j) \<in> set ijs. i < h div 2 \<and> j < w div 2" "planes_ok src stride w h Dy Duv ps"
  shows "\<exists>ps' Dy' Duv'. i420_blocks src stride w (w div 2) (map (\<lambda>(i, j). (2 * i, 2 * j)) ijs) ps = Some ps'
    \<and> planes_ok src stride w h Dy' Duv' ps' \<and> Dy \<subseteq> Dy' \<and> Duv \<subseteq> Duv'
    \<and> (\<forall>(i, j) \<in> set ijs. {2 * i * w + 2 * j, 2 * i * w + 2 * j + 1, (2 * i + 1) * w + 2 * j, (2 * i + 1) * w + 2 * j + 1} \<subseteq> Dy'
         \<and> i * (w div 2) + j \<in> Duv')"
  using assms(4,5)
proof (induction ijs arbitrary: ps Dy Duv)
  case (Cons ij ijs)
  obtain i j where ij: "ij = (i, j)" by (cases ij)
  let ?D = "{2 * i * w + 2 * j, 2 * i * w + 2 * j + 1, (2 * i + 1) * w + 2 * j, (2 * i + 1) * w + 2 * j + 1}"
  have "i < h div 2" "j < w div 2" using Cons.prems(1) by (simp_all add: ij)
  from block_step[OF assms(1-3) this Cons.prems(2)] obtain ps1 where s: "i420_block src stride w (w div 2) (2 * i, 2 * j) ps = Some ps1"
    and ok: "planes_ok src stride w h (?D \<union> Dy) (insert (i * (w div 2) + j) Duv) ps1" by blast
  from Cons.IH[OF _ ok] Cons.prems(1) obtain ps' Dy' Duv' where
    r: "i420_blocks src stride w (w div 2) (map (\<lambda>(i, j). (2 * i, 2 * j)) ijs) ps1 = Some ps'"
      "planes_ok src stride w h Dy' Duv' ps'" "?D \<union> Dy \<subseteq> Dy'" "insert (i * (w div 2) + j) Duv \<subseteq> Duv'"
      "\<forall>(i, j) \<in> set ijs. {2 * i * w + 2 * j, 2 * i * w + 2 * j + 1, (2 * i + 1) * w + 2 * j, (2 * i + 1) * w + 2 * j + 1} \<subseteq> Dy'
         \<and> i * (w div 2) + j \<in> Duv'" by auto
  show ?case
  proof (intro exI conjI)
    show "i420_blocks src stride w (w div 2) (map (\<lambda>(i, j). (2 * i, 2 * j)) (ij # ijs)) ps = Some ps'" using s r(1) by (simp add: ij)
    show "planes_ok src stride w h Dy' Duv' ps'" by (rule r(2))
  qed (use r(3-5) ij in auto)
qed auto

lemma by_two_even: "even n \<Longrightarrow> by_two n = map (\<lambda>i. 2 * i) [0..<n div 2]"
  by (elim evenE) (simp add: by_two_def)

text \<open>Converting a picture with even sides stays inside the picture and the three planes, and afterwards every byte
  of the planes is the BT.601 value of its pixel or of the mean of its 2 x 2 block; luma lies in 16 to 235 and chroma in
  16 to 240.\<close>

theorem i420_exact:
  assumes "even w" "even h" "bgra_ok src stride w h"
    and "length y = w * h" "length u = (w div 2) * (h div 2)" "length v = (w div 2) * (h div 2)"
  shows "\<exists>y' u' v'. fd_bgra_to_i420 src stride w h w (w div 2) (y, u, v) = Some (y', u', v')
    \<and> length y' = w * h \<and> length u' = (w div 2) * (h div 2) \<and> length v' = (w div 2) * (h div 2)
    \<and> (\<forall>p < w * h. y' ! p = luma_at src stride w p)
    \<and> (\<forall>p < (w div 2) * (h div 2). u' ! p = chroma_at FD_U src stride (w div 2) p \<and> v' ! p = chroma_at FD_V src stride (w div 2) p)"
proof -
  define ijs where "ijs = concat (map (\<lambda>i. map (Pair i) [0..<w div 2]) [0..<h div 2])"
  have ij: "(i, j) \<in> set ijs \<longleftrightarrow> i < h div 2 \<and> j < w div 2" for i j by (auto simp: ijs_def image_iff)
  have blocks: "concat (map (\<lambda>row. map (\<lambda>x. (row, x)) (by_two w)) (by_two h)) = map (\<lambda>(i, j). (2 * i, 2 * j)) ijs"
    using assms(1,2) by (simp add: by_two_even ijs_def map_concat comp_def)
  have "planes_ok src stride w h {} {} (y, u, v)" using assms(4-6) by (simp add: planes_ok_def)
  moreover have "\<forall>(i, j) \<in> set ijs. i < h div 2 \<and> j < w div 2" using ij by blast
  ultimately obtain ps Dy Duv where
    run: "fd_bgra_to_i420 src stride w h w (w div 2) (y, u, v) = Some ps" and ok: "planes_ok src stride w h Dy Duv ps"
    and DD: "\<forall>(i, j) \<in> set ijs.
        {2 * i * w + 2 * j, 2 * i * w + 2 * j + 1, (2 * i + 1) * w + 2 * j, (2 * i + 1) * w + 2 * j + 1} \<subseteq> Dy \<and> i * (w div 2) + j \<in> Duv"
    using blocks_step[OF assms(1-3)] unfolding fd_bgra_to_i420_def blocks by blast
  have D: "{2 * i * w + 2 * j, 2 * i * w + 2 * j + 1, (2 * i + 1) * w + 2 * j, (2 * i + 1) * w + 2 * j + 1} \<subseteq> Dy \<and> i * (w div 2) + j \<in> Duv"
    if "i < h div 2" "j < w div 2" for i j
    using bspec[OF DD, of "(i, j)"] that ij by simp
  have Dy: "p \<in> Dy" if "p < w * h" for p
  proof -
    have w: "0 < w" using that by (cases w) auto
    define r x where "r = p div w" and "x = p mod w"
    have p: "p = r * w + x" by (simp add: r_def x_def)
    have rx: "r < h" "x < w" using that w by (simp_all add: r_def x_def less_mult_imp_div_less mult.commute)
    then have "r div 2 < h div 2" "x div 2 < w div 2" using assms(1,2) by (auto elim!: evenE)
    from D[OF this] have d: "{2 * (r div 2) * w + 2 * (x div 2), 2 * (r div 2) * w + 2 * (x div 2) + 1,
        (2 * (r div 2) + 1) * w + 2 * (x div 2), (2 * (r div 2) + 1) * w + 2 * (x div 2) + 1} \<subseteq> Dy" by blast
    have "r = 2 * (r div 2) \<or> r = 2 * (r div 2) + 1" "x = 2 * (x div 2) \<or> x = 2 * (x div 2) + 1" by linarith+
    then show ?thesis using d unfolding p by (metis (no_types, lifting) add.assoc insert_subset)
  qed
  have Duv: "p \<in> Duv" if "p < (w div 2) * (h div 2)" for p
  proof -
    have "0 < w div 2" using that by (cases "w div 2") auto
    then have "p div (w div 2) < h div 2" "p mod (w div 2) < w div 2" using that by (simp_all add: less_mult_imp_div_less mult.commute)
    from D[OF this] have "p div (w div 2) * (w div 2) + p mod (w div 2) \<in> Duv" by blast
    then show ?thesis unfolding div_mult_mod_eq .
  qed
  obtain y' u' v' where "ps = (y', u', v')" by (cases ps)
  with run ok Dy Duv show ?thesis by (simp add: planes_ok_def)
qed

lemma i420_exact_witness:
  "\<exists>y' u' v'. fd_bgra_to_i420 (replicate 16 255) 8 2 2 2 1 ([0, 0, 0, 0], [0], [0]) = Some (y', u', v') \<and> y' ! 3 = 235 \<and> u' ! 0 = 128"
proof -
  have "bgra_ok (replicate 16 255) 8 2 2" by (simp add: bgra_ok_def bytes_def)
  from i420_exact[of 2 2, OF _ _ this, of "[0, 0, 0, 0]" "[0]" "[0]"] obtain y' u' v' where
    "fd_bgra_to_i420 (replicate 16 255) 8 2 2 2 1 ([0, 0, 0, 0], [0], [0]) = Some (y', u', v')"
    "y' ! 3 = luma_at (replicate 16 255) 8 2 3" "u' ! 0 = chroma_at FD_U (replicate 16 255) 8 1 0" by auto
  then show ?thesis by (simp add: luma_at_def chroma_at_def block_mean_def FD_exact Let_def)
qed

text \<open>Whatever the picture holds, the bytes are in the range of a video level.\<close>

lemma luma_range:
  assumes "bgra_ok src stride w h" "p < w * h"
  shows "16 \<le> luma_at src stride w p \<and> luma_at src stride w p \<le> 235"
proof -
  have "0 < w" using assms(2) by (cases w) auto
  then have "p div w < h" "p mod w < w" using assms(2) by (simp_all add: less_mult_imp_div_less mult.commute)
  then have "0 \<le> src ! (p div w * stride + (p mod w * 4 + c)) \<and> src ! (p div w * stride + (p mod w * 4 + c)) \<le> 255" if "c < 4" for c
    using picture_byte[OF assms(1), of "p div w" "p mod w * 4 + c"] that by simp
  from this[of 0] this[of 1] this[of 2] show ?thesis
    by (simp add: luma_at_def Let_def FD_exact(2,3) add.assoc)
qed

end
