(* ===== verification/Encoder.thy ===== *)
theory Encoder
  imports Capture I420
begin

text \<open>
  Package \<open>vpx\<close> on the builds that have an encoder: \<open>encoder_cgo.go\<close> and the C functions of \<open>fdvpx.c\<close> it calls.
  What libvpx and the allocator answer are arguments. \<open>Strays\<close> is a memory access outside an array, which Go's part
  of the code could not notice; the theory shows that a converter never does that with a picture of its source's
  size, and what it makes of it, and that the encoder is opened and closed in pairs.
\<close>

section \<open>The converter\<close>

text \<open>\<open>vpx.Image\<close> with its planes (\<open>image\<close> in \<open>Capture\<close> leaves them abstract).\<close>

record Image =
  im_Width :: int
  im_Height :: int
  im_Y :: "int list"
  im_U :: "int list"
  im_V :: "int list"

definition NewPlanes :: "int \<Rightarrow> int \<Rightarrow> Image" where
  "NewPlanes w h = \<lparr>im_Width = w, im_Height = h, im_Y = replicate (nat (w * h)) 0,
     im_U = replicate (nat (go_div (w * h) 4)) 0, im_V = replicate (nat (go_div (w * h) 4)) 0\<rparr>"

record Converter =
  cv_scaler :: "scaler option"
  cv_scaled :: "int list"
  cv_srcW :: int
  cv_srcH :: int
  cv_w :: int
  cv_h :: int

datatype vpx_error = NothingToEncode int int | OutOfMemory int int | WrongImage int int int int | LibVpx

definition NewConverter :: "(nat \<Rightarrow> bool) \<Rightarrow> int \<Rightarrow> int \<Rightarrow> int \<Rightarrow> vpx_error + Converter" where
  "NewConverter memory srcW srcH maxWidth =
     (case OutputSize srcW srcH maxWidth of (w, h) \<Rightarrow>
        if w \<le> 0 \<or> h \<le> 0 then Inl (NothingToEncode srcW srcH)
        else (let c = \<lparr>cv_scaler = None, cv_scaled = [], cv_srcW = srcW, cv_srcH = srcH, cv_w = w, cv_h = h\<rparr>
              in if even_floor srcW \<noteq> w \<or> even_floor srcH \<noteq> h
                 then (case fd_scaler_new memory (i32 srcW) (i32 srcH) (i32 w) (i32 h) of
                         None \<Rightarrow> Inl (OutOfMemory srcW srcH)
                       | Some s \<Rightarrow> Inr (c\<lparr>cv_scaler := Some s, cv_scaled := replicate (nat (w * h * 4)) 0\<rparr>))
                 else Inr c))"

datatype 'a outcome = Panics | Strays | Finished 'a

text \<open>\<open>fd_scale_bgra\<close> writes its result over the start of \<open>scaled\<close>.\<close>

definition scale_into :: "scaler \<Rightarrow> int list \<Rightarrow> nat \<Rightarrow> int list \<Rightarrow> int list option" where
  "scale_into s src stride buf =
     do { out \<leftarrow> fd_scale_bgra s src stride; if length out \<le> length buf then Some (out @ drop (length out) buf) else None }"

definition Convert :: "Converter \<Rightarrow> Image \<Rightarrow> int list \<Rightarrow> nat \<Rightarrow> (Converter \<times> Image) outcome" where
  "Convert c dst pixels stride =
     (if im_Width dst \<noteq> cv_w c \<or> im_Height dst \<noteq> cv_h c then Panics
      else if cv_scaler c \<noteq> None \<and> cv_scaled c = [] then Panics
      else (case (case cv_scaler c of
                    None \<Rightarrow> Some (c, pixels, stride)
                  | Some s \<Rightarrow> do { buf \<leftarrow> scale_into s pixels stride (cv_scaled c); Some (c\<lparr>cv_scaled := buf\<rparr>, buf, nat (cv_w c * 4)) }) of
              None \<Rightarrow> Strays
            | Some (c', src, stride') \<Rightarrow>
                if im_Y dst = [] \<or> im_U dst = [] \<or> im_V dst = [] then Panics
                else (case fd_bgra_to_i420 src stride' (nat (cv_w c)) (nat (cv_h c)) (nat (im_Width dst)) (nat (go_div (im_Width dst) 2))
                             (im_Y dst, im_U dst, im_V dst) of
                        None \<Rightarrow> Strays
                      | Some (y, u, v) \<Rightarrow> Finished (c', dst\<lparr>im_Y := y, im_U := u, im_V := v\<rparr>))))"

text \<open>\<open>Close\<close> frees the scaler, if there still is one; the number is how many were freed.\<close>

definition Converter_Close :: "Converter \<Rightarrow> nat \<times> Converter" where
  "Converter_Close c = (case cv_scaler c of None \<Rightarrow> (0, c) | Some _ \<Rightarrow> (1, c\<lparr>cv_scaler := None\<rparr>))"

section \<open>The encoder\<close>

datatype vpx_call =
    CallocEncoder
  | CodecInit rateControl int int
  | CodecControl nat int
  | CodecDestroy
  | FreeEncoder

record encoder_lib =
  el_memory :: bool
  el_config :: bool
  el_init :: bool
  el_control :: "nat \<Rightarrow> bool"

definition fd_vpx_close :: "bool \<Rightarrow> vpx_call list" where
  "fd_vpx_close codec_open = (if codec_open then [CodecDestroy] else []) @ [FreeEncoder]"

text \<open>The controls are tried in order up to the first that fails.\<close>

fun controls :: "(nat \<Rightarrow> bool) \<Rightarrow> nat \<Rightarrow> int list \<Rightarrow> vpx_call list \<times> bool" where
  "controls ok k [] = ([], True)"
| "controls ok k (v # vs) =
     (if ok k then (case controls ok (k + 1) vs of (calls, good) \<Rightarrow> (CodecControl k v # calls, good))
      else ([CodecControl k v], False))"

text \<open>The encoder as \<open>fd_vpx_open\<close> leaves it: its size, or nothing; and the calls it made.\<close>

definition fd_vpx_open :: "encoder_lib \<Rightarrow> rateControl \<Rightarrow> int \<Rightarrow> int \<Rightarrow> (int \<times> int) option \<times> vpx_call list" where
  "fd_vpx_open lib rc width height =
     (if width \<le> 0 \<or> height \<le> 0 \<or> odd width \<or> odd height then (None, [])
      else if \<not> el_memory lib then (None, [])
      else if \<not> el_config lib then (None, CallocEncoder # fd_vpx_close False)
      else if \<not> el_init lib then (None, CallocEncoder # fd_vpx_close False)
      else (case controls (el_control lib) 0 [rc_cpuUsed rc, 0, 0, 0, rc_maxIntraPct rc] of
              (calls, good) \<Rightarrow>
                 (if good then Some (width, height) else None,
                  CallocEncoder # CodecInit rc width height # calls @ (if good then [] else fd_vpx_close True))))"

record Encoder =
  ec_open :: bool
  ec_w :: int
  ec_h :: int

definition NewEncoder :: "encoder_lib \<Rightarrow> int \<Rightarrow> Settings \<Rightarrow> (vpx_error + Encoder) \<times> vpx_call list" where
  "NewEncoder lib numCPU s =
     (case fd_vpx_open lib (rateControlFor numCPU s) (i32 (se_Width s)) (i32 (se_Height s)) of
        (None, calls) \<Rightarrow> (Inl LibVpx, calls)
      | (Some _, calls) \<Rightarrow> (Inr \<lparr>ec_open = True, ec_w = se_Width s, ec_h = se_Height s\<rparr>, calls))"

record Packet =
  pk_Data :: string
  pk_Keyframe :: bool

text \<open>What one call hands to libvpx, and what libvpx answers: whether the image could be described, whether encoding
  worked, and the frames it gave, each with its bytes and whether it is a keyframe.\<close>

record encode_call =
  eq_y_stride :: int
  eq_uv_stride :: int
  eq_pts :: int
  eq_duration :: int
  eq_force :: bool

record encode_answer =
  ea_wrap :: bool
  ea_encode :: bool
  ea_frames :: "(string \<times> bool) list"

definition fd_vpx_encode :: "encode_answer \<Rightarrow> (string \<times> bool) option" where
  "fd_vpx_encode a =
     (if \<not> ea_wrap a \<or> \<not> ea_encode a then None
      else if 1 < length (ea_frames a) then None
      else Some (if ea_frames a = [] then ([], False) else last (ea_frames a)))"

definition vpx_Encode :: "encode_answer \<Rightarrow> Image \<Rightarrow> duration \<Rightarrow> duration \<Rightarrow> bool \<Rightarrow> Encoder \<Rightarrow> (vpx_error + Packet) \<times> encode_call option" where
  "vpx_Encode a img pts dur keyframe e =
     (if im_Width img \<noteq> ec_w e \<or> im_Height img \<noteq> ec_h e
      then (Inl (WrongImage (im_Width img) (im_Height img) (ec_w e) (ec_h e)), None)
      else ((case fd_vpx_encode a of
               None \<Rightarrow> Inl LibVpx
             | Some (data, key) \<Rightarrow> Inr (if data = [] then \<lparr>pk_Data = [], pk_Keyframe = False\<rparr> else \<lparr>pk_Data = data, pk_Keyframe = key\<rparr>)),
            Some \<lparr>eq_y_stride = i32 (im_Width img), eq_uv_stride = i32 (go_div (im_Width img) 2), eq_pts = vpx_ticks pts,
                  eq_duration = max (vpx_ticks dur) 1, eq_force = keyframe\<rparr>))"

definition Encoder_Close :: "Encoder \<Rightarrow> vpx_call list \<times> Encoder" where
  "Encoder_Close e = (if ec_open e then (fd_vpx_close True, e\<lparr>ec_open := False\<rparr>) else ([], e))"

section \<open>Conversion\<close>

lemma even_i64: "even x \<Longrightarrow> even (i64 x)"
  by (simp add: i64_def dvd_mod_iff)

lemma OutputSize_even: "OutputSize srcW srcH maxWidth = (w, h) \<Longrightarrow> even w \<and> even h"
  using even_floor_props(1) by (auto simp: OutputSize_def Let_def max_def even_i64 split: if_splits)

lemma NewConverter_Inr:
  assumes "NewConverter memory srcW srcH maxWidth = Inr c"
  shows "OutputSize srcW srcH maxWidth = (cv_w c, cv_h c)" "0 < cv_w c" "0 < cv_h c" "even (cv_w c)" "even (cv_h c)" "cv_srcW c = srcW" "cv_srcH c = srcH"
    and "cv_scaler c = None \<Longrightarrow> even_floor srcW = cv_w c \<and> even_floor srcH = cv_h c"
    and "\<And>s. cv_scaler c = Some s \<Longrightarrow> fd_scaler_new memory (i32 srcW) (i32 srcH) (i32 (cv_w c)) (i32 (cv_h c)) = Some s
          \<and> cv_scaled c = replicate (nat (cv_w c * cv_h c * 4)) 0"
proof -
  obtain w h where o: "OutputSize srcW srcH maxWidth = (w, h)" by (cases "OutputSize srcW srcH maxWidth")
  have "even w \<and> even h" by (rule OutputSize_even[OF o])
  then show "OutputSize srcW srcH maxWidth = (cv_w c, cv_h c)" "0 < cv_w c" "0 < cv_h c" "even (cv_w c)" "even (cv_h c)" "cv_srcW c = srcW" "cv_srcH c = srcH"
    "cv_scaler c = None \<Longrightarrow> even_floor srcW = cv_w c \<and> even_floor srcH = cv_h c"
    "\<And>s. cv_scaler c = Some s \<Longrightarrow> fd_scaler_new memory (i32 srcW) (i32 srcH) (i32 (cv_w c)) (i32 (cv_h c)) = Some s
          \<and> cv_scaled c = replicate (nat (cv_w c * cv_h c * 4)) 0"
    using assms by (auto simp: NewConverter_def o Let_def split: if_splits option.splits)
qed

text \<open>The reference for a converter: the picture the I420 conversion sees. Scaled, it is the averages of \<open>scaled_value\<close>.\<close>

definition scaled_picture :: "scaler \<Rightarrow> int list \<Rightarrow> nat \<Rightarrow> int list" where
  "scaled_picture s src stride =
     concat (map (\<lambda>oy. concat (map (\<lambda>ox. map (scaled_value s src stride oy ox) [0, 1, 2] @ [255]) [0..<sc_dst_w s])) [0..<sc_dst_h s])"

definition converted_from :: "Converter \<Rightarrow> int list \<Rightarrow> nat \<Rightarrow> int list \<times> nat" where
  "converted_from c pixels stride =
     (case cv_scaler c of None \<Rightarrow> (pixels, stride) | Some s \<Rightarrow> (scaled_picture s pixels stride, nat (cv_w c * 4)))"

lemma scaled_picture_ok:
  assumes x: "axis_ok (sc_src_w s) (sc_dst_w s) (sc_x s)" and y: "axis_ok (sc_src_h s) (sc_dst_h s) (sc_y s)"
    and p: "bgra_ok src stride (sc_src_w s) (sc_src_h s)" and h: "0 < sc_dst_h s"
  shows "length (scaled_picture s src stride) = sc_dst_h s * (sc_dst_w s * 4)"
    and "bgra_ok (scaled_picture s src stride) (sc_dst_w s * 4) (sc_dst_w s) (sc_dst_h s)"
proof -
  define row where "row oy = concat (map (\<lambda>ox. map (scaled_value s src stride oy ox) [0, 1, 2] @ [255]) [0..<sc_dst_w s])" for oy
  have "length (row oy) = sc_dst_w s * 4" for oy
    unfolding row_def using length_concat_equal[of "map (\<lambda>ox. map (scaled_value s src stride oy ox) [0, 1, 2] @ [255]) [0..<sc_dst_w s]" 4] by simp
  then show len: "length (scaled_picture s src stride) = sc_dst_h s * (sc_dst_w s * 4)"
    unfolding scaled_picture_def row_def[symmetric] using length_concat_equal[of "map row [0..<sc_dst_h s]" "sc_dst_w s * 4"] by simp
  have v: "0 \<le> scaled_value s src stride oy ox c \<and> scaled_value s src stride oy ox c \<le> 255" if "oy < sc_dst_h s" "ox < sc_dst_w s" "c < 4" for oy ox c
  proof (rule scaled_value_between[OF x y p that])
    fix r i assume "r < sc_src_h s" "i < sc_src_w s"
    then show "0 \<le> src ! (r * stride + (4 * i + c)) \<and> src ! (r * stride + (4 * i + c)) \<le> 255"
      using picture_byte[OF p, of r "4 * i + c"] that(3) by simp
  qed
  have "bytes (scaled_picture s src stride)" unfolding bytes_def scaled_picture_def using v by auto
  moreover have "(sc_dst_h s - 1) * (sc_dst_w s * 4) + 4 * sc_dst_w s \<le> length (scaled_picture s src stride)"
    unfolding len using h by (cases "sc_dst_h s") simp_all
  ultimately show "bgra_ok (scaled_picture s src stride) (sc_dst_w s * 4) (sc_dst_w s) (sc_dst_h s)" by (simp add: bgra_ok_def)
qed

text \<open>An image of a size, and a converter as it is between two calls.\<close>

definition image_ok :: "Image \<Rightarrow> int \<Rightarrow> int \<Rightarrow> bool" where
  "image_ok img w h \<longleftrightarrow> im_Width img = w \<and> im_Height img = h \<and> length (im_Y img) = nat w * nat h
     \<and> length (im_U img) = (nat w div 2) * (nat h div 2) \<and> length (im_V img) = (nat w div 2) * (nat h div 2)"

lemma NewPlanes_ok: "0 < w \<Longrightarrow> 0 < h \<Longrightarrow> even w \<Longrightarrow> even h \<Longrightarrow> image_ok (NewPlanes w h) w h"
  by (elim evenE) (simp add: image_ok_def NewPlanes_def nat_mult_distrib go_div_nonneg)

lemma image_planes:
  assumes "image_ok img w h" "0 < w" "0 < h" "even w" "even h"
  shows "im_Y img \<noteq> []" "im_U img \<noteq> []" "im_V img \<noteq> []"
proof -
  have "1 < w" "1 < h" using assms(2-5) by (auto elim!: evenE)
  then have "0 < nat w * nat h" "0 < (nat w div 2) * (nat h div 2)" by auto
  then show "im_Y img \<noteq> []" "im_U img \<noteq> []" "im_V img \<noteq> []" using assms(1) by (auto simp: image_ok_def simp del: mult_eq_0_iff)
qed

lemma cropped_picture_ok: "bgra_ok src stride w h \<Longrightarrow> w' \<le> w \<Longrightarrow> h' \<le> h \<Longrightarrow> bgra_ok src stride w' h'"
proof -
  assume p: "bgra_ok src stride w h" and "w' \<le> w" "h' \<le> h"
  then have "(h' - 1) * stride \<le> (h - 1) * stride" by (intro mult_right_mono) auto
  with p \<open>w' \<le> w\<close> show ?thesis unfolding bgra_ok_def by linarith
qed

lemma converted_ok:
  assumes c: "NewConverter memory srcW srcH maxWidth = Inr c" and small: "srcW < 2 ^ 31" "srcH < 2 ^ 31" "cv_w c < 2 ^ 31" "cv_h c < 2 ^ 31"
    and ratio: "srcW \<le> 23 * cv_w c" "srcH \<le> 23 * cv_h c" and pic: "bgra_ok pixels stride (nat srcW) (nat srcH)"
  shows "bgra_ok (fst (converted_from c pixels stride)) (snd (converted_from c pixels stride)) (nat (cv_w c)) (nat (cv_h c))"
    and "\<And>s. cv_scaler c = Some s \<Longrightarrow> fd_scale_bgra s pixels stride = Some (scaled_picture s pixels stride)
          \<and> length (scaled_picture s pixels stride) = length (cv_scaled c) \<and> cv_scaled c \<noteq> []"
proof -
  note N = NewConverter_Inr[OF c]
  have pos: "0 < srcW" "0 < srcH"
    using N(1-3) by (auto simp: OutputSize_def split: if_splits)
  have S: "bgra_ok (scaled_picture s pixels stride) (nat (cv_w c * 4)) (nat (cv_w c)) (nat (cv_h c))
      \<and> fd_scale_bgra s pixels stride = Some (scaled_picture s pixels stride)
      \<and> length (scaled_picture s pixels stride) = length (cv_scaled c) \<and> cv_scaled c \<noteq> []" if s: "cv_scaler c = Some s" for s
  proof -
    have new: "fd_scaler_new memory srcW srcH (cv_w c) (cv_h c) = Some s" using N(9)[OF s] small pos N(2,3) by (simp add: i32_id)
    note ok = fd_scaler_new_ok[OF new ratio]
    have p: "bgra_ok pixels stride (sc_src_w s) (sc_src_h s)" using pic by (simp add: ok)
    have h: "0 < sc_dst_h s" using N(3) by (simp add: ok)
    have len: "length (scaled_picture s pixels stride) = nat (cv_w c * cv_h c * 4)"
      using scaled_picture_ok(1)[OF ok(1,2) p h] N(2,3) by (simp add: ok nat_mult_distrib)
    moreover have "0 < cv_w c * cv_h c * 4" using N(2,3) by simp
    ultimately show ?thesis
      using scaled_picture_ok(2)[OF ok(1,2) p h] scale_total[OF ok(1,2) p, folded scaled_picture_def] N(2) N(9)[OF s]
      by (simp add: ok(5,6) nat_mult_distrib[of _ 4])
  qed
  then show "\<And>s. cv_scaler c = Some s \<Longrightarrow> fd_scale_bgra s pixels stride = Some (scaled_picture s pixels stride)
          \<and> length (scaled_picture s pixels stride) = length (cv_scaled c) \<and> cv_scaled c \<noteq> []" by blast
  show "bgra_ok (fst (converted_from c pixels stride)) (snd (converted_from c pixels stride)) (nat (cv_w c)) (nat (cv_h c))"
  proof (cases "cv_scaler c")
    case None
    from N(8)[OF this] have "cv_w c \<le> srcW" "cv_h c \<le> srcH" using even_floor_props(2) by metis+
    then show ?thesis using cropped_picture_ok[OF pic, of "nat (cv_w c)" "nat (cv_h c)"] None by (simp add: converted_from_def)
  next
    case (Some s)
    then show ?thesis using S by (simp add: converted_from_def)
  qed
qed

text \<open>C35: a converter takes any picture of its source's size without leaving it: shrunk at most 23 times it makes of it
  the I420 image of the averaged picture, or of the picture itself without an odd last row or column where nothing is
  scaled; neither panics nor strays, and the converter is ready for the next picture.\<close>

theorem convert_exact:
  assumes "NewConverter memory srcW srcH maxWidth = Inr c" "srcW < 2 ^ 31" "srcH < 2 ^ 31" "cv_w c < 2 ^ 31" "cv_h c < 2 ^ 31"
    and "srcW \<le> 23 * cv_w c" "srcH \<le> 23 * cv_h c"
    and "bgra_ok pixels stride (nat srcW) (nat srcH)" "image_ok dst (cv_w c) (cv_h c)" "length buf = length (cv_scaled c)"
    and "converted_from c pixels stride = (src, str)"
  shows "\<exists>buf' img. Convert (c\<lparr>cv_scaled := buf\<rparr>) dst pixels stride = Finished (c\<lparr>cv_scaled := buf'\<rparr>, img)
    \<and> length buf' = length (cv_scaled c) \<and> image_ok img (cv_w c) (cv_h c)
    \<and> (\<forall>p < nat (cv_w c) * nat (cv_h c). im_Y img ! p = luma_at src str (nat (cv_w c)) p)
    \<and> (\<forall>p < (nat (cv_w c) div 2) * (nat (cv_h c) div 2).
          im_U img ! p = chroma_at FD_U src str (nat (cv_w c) div 2) p \<and> im_V img ! p = chroma_at FD_V src str (nat (cv_w c) div 2) p)"
proof -
  note N = NewConverter_Inr[OF assms(1)] and ok = converted_ok[OF assms(1-8)]
  have even: "even (nat (cv_w c))" "even (nat (cv_h c))" using N(2-5) by (simp_all add: even_nat_iff)
  have pic: "bgra_ok src str (nat (cv_w c)) (nat (cv_h c))" using ok(1) by (simp add: assms(11))
  have im: "length (im_Y dst) = nat (cv_w c) * nat (cv_h c)" "length (im_U dst) = (nat (cv_w c) div 2) * (nat (cv_h c) div 2)"
    "length (im_V dst) = (nat (cv_w c) div 2) * (nat (cv_h c) div 2)" "im_Width dst = cv_w c" "im_Height dst = cv_h c"
    using assms(9) by (simp_all add: image_ok_def)
  note planes = image_planes[OF assms(9) N(2-5)]
  from i420_exact[OF even pic im(1-3)] obtain y u v where
    run: "fd_bgra_to_i420 src str (nat (cv_w c)) (nat (cv_h c)) (nat (cv_w c)) (nat (cv_w c) div 2) (im_Y dst, im_U dst, im_V dst) = Some (y, u, v)"
    and res: "length y = nat (cv_w c) * nat (cv_h c)" "length u = (nat (cv_w c) div 2) * (nat (cv_h c) div 2)"
      "length v = (nat (cv_w c) div 2) * (nat (cv_h c) div 2)"
      "\<forall>p < nat (cv_w c) * nat (cv_h c). y ! p = luma_at src str (nat (cv_w c)) p"
      "\<forall>p < (nat (cv_w c) div 2) * (nat (cv_h c) div 2). u ! p = chroma_at FD_U src str (nat (cv_w c) div 2) p \<and> v ! p = chroma_at FD_V src str (nat (cv_w c) div 2) p"
    by blast
  have half: "nat (go_div (cv_w c) 2) = nat (cv_w c) div 2" using N(2) by (simp add: go_div_nonneg nat_div_distrib)
  have fin: "image_ok (dst\<lparr>im_Y := y, im_U := u, im_V := v\<rparr>) (cv_w c) (cv_h c)" using res im by (simp add: image_ok_def)
  show ?thesis
  proof (cases "cv_scaler c")
    case None
    with assms(11) have "src = pixels" "str = stride" by (simp_all add: converted_from_def)
    then have "Convert (c\<lparr>cv_scaled := buf\<rparr>) dst pixels stride = Finished (c\<lparr>cv_scaled := buf\<rparr>, dst\<lparr>im_Y := y, im_U := u, im_V := v\<rparr>)"
      using None run planes im by (simp add: Convert_def half)
    then show ?thesis using fin res(4,5) assms(10)
      by (intro exI[of _ buf] exI[of _ "dst\<lparr>im_Y := y, im_U := u, im_V := v\<rparr>"]) simp
  next
    case (Some s)
    with assms(11) have s: "src = scaled_picture s pixels stride" "str = nat (cv_w c * 4)" by (simp_all add: converted_from_def)
    from ok(2)[OF Some] have "scale_into s pixels stride buf = Some src" "buf \<noteq> []" "length src = length (cv_scaled c)"
      using assms(10) by (auto simp: scale_into_def s(1))
    then have "Convert (c\<lparr>cv_scaled := buf\<rparr>) dst pixels stride = Finished (c\<lparr>cv_scaled := src\<rparr>, dst\<lparr>im_Y := y, im_U := u, im_V := v\<rparr>)"
      using Some run planes im by (simp add: Convert_def half s(2)[symmetric])
    then show ?thesis using fin res(4,5) \<open>length src = length (cv_scaled c)\<close>
      by (intro exI[of _ src] exI[of _ "dst\<lparr>im_Y := y, im_U := u, im_V := v\<rparr>"]) simp
  qed
qed

lemma convert_exact_witness:
  "\<exists>c buf img. NewConverter (\<lambda>_. True) 4 4 2 = Inr c \<and> Convert c (NewPlanes 2 2) (replicate 64 255) 16 = Finished (c\<lparr>cv_scaled := buf\<rparr>, img) \<and> image_ok img 2 2"
proof -
  have o: "OutputSize 4 4 2 = (2, 2)" by (simp add: OutputSize_def even_floor_def go_div_nonneg in_i64_def Let_def)
  obtain s where s: "fd_scaler_new (\<lambda>_. True) 4 4 2 2 = Some s" by (simp add: fd_scaler_new_def build_axis_def)
  define c where "c = \<lparr>cv_scaler = Some s, cv_scaled = replicate 16 0, cv_srcW = 4, cv_srcH = 4, cv_w = 2, cv_h = 2\<rparr>"
  have n: "NewConverter (\<lambda>_. True) 4 4 2 = Inr c" by (simp add: NewConverter_def o s even_floor_def i32_id c_def)
  have p: "bgra_ok (replicate 64 255) 16 (nat 4) (nat 4)" by (simp add: bgra_ok_def bytes_def)
  have i: "image_ok (NewPlanes 2 2) (cv_w c) (cv_h c)" by (simp add: c_def NewPlanes_ok)
  obtain src str where "converted_from c (replicate 64 255) 16 = (src, str)" by (cases "converted_from c (replicate 64 255) 16")
  from convert_exact[OF n _ _ _ _ _ _ p i refl this] obtain buf img where
    "Convert (c\<lparr>cv_scaled := cv_scaled c\<rparr>) (NewPlanes 2 2) (replicate 64 255) 16 = Finished (c\<lparr>cv_scaled := buf\<rparr>, img)" "image_ok img 2 2"
    by (auto simp: c_def)
  with n show ?thesis by auto
qed

section \<open>Opening and closing\<close>

text \<open>How often a call occurs less how often its opposite does.\<close>

definition codecs_open :: "vpx_call list \<Rightarrow> int" where
  "codecs_open cs = int (length (filter (\<lambda>c. \<exists>rc w h. c = CodecInit rc w h) cs)) - int (length (filter (\<lambda>c. c = CodecDestroy) cs))"

definition encoders_held :: "vpx_call list \<Rightarrow> int" where
  "encoders_held cs = int (length (filter (\<lambda>c. c = CallocEncoder) cs)) - int (length (filter (\<lambda>c. c = FreeEncoder) cs))"

lemma controls_plain: "controls ok k vs = (cs, good) \<Longrightarrow> \<forall>c \<in> set cs. \<exists>n v. c = CodecControl n v"
  by (induction vs arbitrary: k cs good) (auto split: if_splits prod.splits)

lemma controls_count:
  assumes "controls ok k vs = (cs, good)"
  shows "codecs_open cs = 0" "encoders_held cs = 0"
proof -
  have "filter (\<lambda>c. \<exists>rc w h. c = CodecInit rc w h) cs = []" "filter (\<lambda>c. c = CodecDestroy) cs = []"
    "filter (\<lambda>c. c = CallocEncoder) cs = []" "filter (\<lambda>c. c = FreeEncoder) cs = []"
    using controls_plain[OF assms] by (auto simp: filter_empty_conv)
  then show "codecs_open cs = 0" "encoders_held cs = 0" by (simp_all add: codecs_open_def encoders_held_def)
qed

lemma opened_append: "codecs_open (a @ b) = codecs_open a + codecs_open b" "encoders_held (a @ b) = encoders_held a + encoders_held b"
  by (simp_all add: codecs_open_def encoders_held_def)

text \<open>Opening leaves exactly one codec and one allocation behind if it succeeds and none if it fails, at whatever point;
  closing once or several times takes them back once.\<close>

lemma encoder_paired:
  assumes "NewEncoder lib numCPU s = (r, cs)"
  shows "case r of Inl _ \<Rightarrow> codecs_open cs = 0 \<and> encoders_held cs = 0
     | Inr e \<Rightarrow> codecs_open cs = 1 \<and> encoders_held cs = 1
         \<and> codecs_open (cs @ fst (Encoder_Close e) @ fst (Encoder_Close (snd (Encoder_Close e)))) = 0
         \<and> encoders_held (cs @ fst (Encoder_Close e) @ fst (Encoder_Close (snd (Encoder_Close e)))) = 0"
proof -
  have one: "codecs_open [CallocEncoder] = 0" "encoders_held [CallocEncoder] = 1"
    "codecs_open [CodecInit rc w h] = 1" "encoders_held [CodecInit rc w h] = 0" "codecs_open [CodecDestroy] = -1" "encoders_held [CodecDestroy] = 0"
    "codecs_open [FreeEncoder] = 0" "encoders_held [FreeEncoder] = -1" "codecs_open [] = 0" "encoders_held [] = 0" for rc w h
    by (simp_all add: codecs_open_def encoders_held_def)
  have cons: "x # xs = [x] @ xs" for x :: vpx_call and xs by simp
  have count: "codecs_open (CallocEncoder # xs) = codecs_open xs" "encoders_held (CallocEncoder # xs) = 1 + encoders_held xs"
    "codecs_open (CodecInit rc w h # xs) = 1 + codecs_open xs" "encoders_held (CodecInit rc w h # xs) = encoders_held xs"
    "codecs_open (CodecDestroy # xs) = codecs_open xs - 1" "encoders_held (CodecDestroy # xs) = encoders_held xs"
    "codecs_open (FreeEncoder # xs) = codecs_open xs" "encoders_held (FreeEncoder # xs) = encoders_held xs - 1" for rc w h xs
    unfolding cons[of _ xs] opened_append one by simp_all
  obtain o' cs' where o: "fd_vpx_open lib (rateControlFor numCPU s) (i32 (se_Width s)) (i32 (se_Height s)) = (o', cs')" by fastforce
  have "cs' = cs" and r: "r = (case o' of None \<Rightarrow> Inl LibVpx | Some _ \<Rightarrow> Inr \<lparr>ec_open = True, ec_w = se_Width s, ec_h = se_Height s\<rparr>)"
    using assms by (auto simp: NewEncoder_def o split: option.splits)
  moreover have "if o' = None then codecs_open cs' = 0 \<and> encoders_held cs' = 0 else codecs_open cs' = 1 \<and> encoders_held cs' = 1"
    using o controls_count by (auto simp: fd_vpx_open_def fd_vpx_close_def count one opened_append simp del: controls.simps split: if_splits prod.splits)
  ultimately show ?thesis
    by (auto simp: Encoder_Close_def fd_vpx_close_def count one opened_append split: option.splits if_splits)
qed

end
