(* ===== verification/Dialogs.thy ===== *)
theory Dialogs
  imports Consent "HOL-Library.Word"
begin

unbundle bit_operations_syntax

text \<open>
  The native dialogs: the registry of open dialogs on macOS (\<open>macos/dialogs_darwin.go\<close>), the Windows message box with
  the goroutine that keeps it visible and the click that withdraws it (\<open>consent/dialog_windows.go\<close>), and the file
  pickers (\<open>picker_windows.go\<close>, \<open>picker_darwin.go\<close>). The operator, the clock and the systems' answers are arguments or
  steps anything can take. The theory shows that only the operator's Yes counts as one, that the main thread never
  waits for a caller that has left, that a box is raised without ever taking the keyboard, and for which dialogs a
  dialog on screen means that remote input is held back.
\<close>

section \<open>Dialogs on macOS\<close>

definition FD_DLG_YES :: int where "FD_DLG_YES = 1"
definition FD_DLG_TIMED_OUT :: int where "FD_DLG_TIMED_OUT = 3"
definition FD_DLG_WITHDRAWN :: int where "FD_DLG_WITHDRAWN = 4"
definition FD_DLG_CHOSEN :: int where "FD_DLG_CHOSEN = 5"

record dialog_end =
  de_result :: int
  de_paths :: "string list"

datatype dialog_caller = Asking | Choosing

datatype dialog_result = Answered mac_answer | Chosen "string list" bool

text \<open>What the caller makes of an end it received.\<close>

definition end_result :: "dialog_caller \<Rightarrow> dialog_end \<Rightarrow> dialog_result" where
  "end_result c e =
     (case c of
        Asking \<Rightarrow> Answered (if de_result e = FD_DLG_YES then AnswerYes
                            else if de_result e = FD_DLG_TIMED_OUT then AnswerTimedOut
                            else if de_result e = FD_DLG_WITHDRAWN then AnswerWithdrawn
                            else AnswerNo)
      | Choosing \<Rightarrow> Chosen (de_paths e) (de_result e = FD_DLG_CHOSEN \<and> de_paths e \<noteq> []))"

text \<open>Before a dialog is started: the answer there is without one.\<close>

definition ask_without_dialog :: "bool \<Rightarrow> bool \<Rightarrow> mac_answer option" where
  "ask_without_dialog app_open ctx_done =
     (if \<not> app_open then Some AnswerNo else if ctx_done then Some AnswerWithdrawn else None)"

definition choose_without_dialog :: "bool \<Rightarrow> (string list \<times> bool) option" where
  "choose_without_dialog app_open = (if \<not> app_open then Some ([], False) else None)"

text \<open>A caller waits for the end, or withdraws the dialog and waits a little, then forgets the token and returns.\<close>

datatype dialog_pc =
    Waiting dialog_caller
  | Withdrawing dialog_result
  | Leaving dialog_result
  | LeftWith dialog_result

text \<open>The registry. A token names its channel, which has room for one end; \<open>dg_sending\<close> are the ends whose channel the
  main thread has taken from the registry and is about to send on; \<open>dg_log\<close> is what the system reported, ever. Tokens
  are 64-bit numbers, of which no run uses up all.\<close>

record dialogs =
  dg_last :: nat
  dg_waiting :: "nat set"
  dg_chan :: "nat \<Rightarrow> dialog_end list"
  dg_sending :: "(nat \<times> dialog_end) list"
  dg_pc :: "nat \<Rightarrow> dialog_pc option"
  dg_log :: "(nat \<times> dialog_end) list"

definition dialogs_init :: dialogs where
  "dialogs_init = \<lparr>dg_last = 0, dg_waiting = {}, dg_chan = \<lambda>_. [], dg_sending = [], dg_pc = \<lambda>_. None, dg_log = []\<rparr>"

definition startDialog :: "dialog_caller \<Rightarrow> dialogs \<Rightarrow> dialogs" where
  "startDialog c s =
     (let t = dg_last s + 1
      in s\<lparr>dg_last := t, dg_waiting := insert t (dg_waiting s), dg_chan := (dg_chan s)(t := []), dg_pc := (dg_pc s)(t \<mapsto> Waiting c)\<rparr>)"

definition forgetDialog :: "nat \<Rightarrow> dialogs \<Rightarrow> dialogs" where
  "forgetDialog t s = s\<lparr>dg_waiting := dg_waiting s - {t}\<rparr>"

definition set_pc :: "nat \<Rightarrow> dialog_pc \<Rightarrow> dialogs \<Rightarrow> dialogs" where
  "set_pc t p s = s\<lparr>dg_pc := (dg_pc s)(t \<mapsto> p)\<rparr>"

text \<open>\<open>fdDialogEnded\<close>: under the lock the channel is looked up and the token deleted; the send comes after.\<close>

definition fdDialogEnded :: "nat \<Rightarrow> dialog_end \<Rightarrow> dialogs \<Rightarrow> dialogs" where
  "fdDialogEnded t e s =
     (let s' = s\<lparr>dg_log := (t, e) # dg_log s\<rparr>
      in if t \<in> dg_waiting s then s'\<lparr>dg_waiting := dg_waiting s - {t}, dg_sending := (t, e) # dg_sending s\<rparr> else s')"

definition send_end :: "nat \<Rightarrow> dialog_end \<Rightarrow> dialogs \<Rightarrow> dialogs" where
  "send_end t e s = s\<lparr>dg_sending := remove1 (t, e) (dg_sending s), dg_chan := (dg_chan s)(t := dg_chan s t @ [e])\<rparr>"

definition receive :: "nat \<Rightarrow> dialogs \<Rightarrow> dialogs" where
  "receive t s = s\<lparr>dg_chan := (dg_chan s)(t := tl (dg_chan s t))\<rparr>"

inductive dlg_step :: "dialogs \<Rightarrow> dialogs \<Rightarrow> bool" where
  start: "dlg_step s (startDialog c s)"
| ended: "dlg_step s (fdDialogEnded t e s)"
| sends: "(t, e) \<in> set (dg_sending s) \<Longrightarrow> dg_chan s t = [] \<Longrightarrow> dlg_step s (send_end t e s)"
| receives: "dg_pc s t = Some (Waiting c) \<Longrightarrow> dg_chan s t = e # es \<Longrightarrow>
     dlg_step s (set_pc t (Leaving (end_result c e)) (receive t s))"
| cancelled: "dg_pc s t = Some (Waiting c) \<Longrightarrow>
     dlg_step s (set_pc t (Withdrawing (case c of Asking \<Rightarrow> Answered AnswerWithdrawn | Choosing \<Rightarrow> Chosen [] False)) s)"
| late: "dg_pc s t = Some (Waiting Asking) \<Longrightarrow> dlg_step s (set_pc t (Withdrawing (Answered AnswerTimedOut)) s)"
| gone: "dg_pc s t = Some (Withdrawing r) \<Longrightarrow> dg_chan s t = e # es \<Longrightarrow> dlg_step s (set_pc t (Leaving r) (receive t s))"
| grace: "dg_pc s t = Some (Withdrawing r) \<Longrightarrow> dlg_step s (set_pc t (Leaving r) s)"
| leaves: "dg_pc s t = Some (Leaving r) \<Longrightarrow> dlg_step s (set_pc t (LeftWith r) (forgetDialog t s))"

inductive_cases dlg_stepE: "dlg_step s s'"

text \<open>A result that lets something happen was reported by the system under the caller's own token.\<close>

fun result_ok :: "(nat \<times> dialog_end) list \<Rightarrow> nat \<Rightarrow> dialog_result \<Rightarrow> bool" where
  "result_ok l t (Answered a) \<longleftrightarrow> (a = AnswerYes \<longrightarrow> (\<exists>e. (t, e) \<in> set l \<and> de_result e = FD_DLG_YES))"
| "result_ok l t (Chosen ps ok) \<longleftrightarrow> (ok \<longrightarrow> (\<exists>e. (t, e) \<in> set l \<and> de_result e = FD_DLG_CHOSEN \<and> de_paths e = ps))"

fun pc_result :: "dialog_pc \<Rightarrow> dialog_result option" where
  "pc_result (Waiting _) = None"
| "pc_result (Withdrawing r) = Some r"
| "pc_result (Leaving r) = Some r"
| "pc_result (LeftWith r) = Some r"

definition dlg_ok :: "dialogs \<Rightarrow> bool" where
  "dlg_ok s \<longleftrightarrow>
     (\<forall>t \<in> dg_waiting s. t \<le> dg_last s \<and> dg_chan s t = [] \<and> t \<notin> fst ` set (dg_sending s) \<and> dg_pc s t \<noteq> None \<and> (\<forall>r. dg_pc s t \<noteq> Some (LeftWith r)))
   \<and> distinct (map fst (dg_sending s))
   \<and> (\<forall>(t, e) \<in> set (dg_sending s). t \<le> dg_last s \<and> dg_chan s t = [] \<and> (t, e) \<in> set (dg_log s))
   \<and> (\<forall>t e. e \<in> set (dg_chan s t) \<longrightarrow> t \<le> dg_last s \<and> (t, e) \<in> set (dg_log s))
   \<and> (\<forall>t. dg_last s < t \<longrightarrow> dg_pc s t = None)
   \<and> (\<forall>t p r. dg_pc s t = Some p \<longrightarrow> pc_result p = Some r \<longrightarrow> result_ok (dg_log s) t r)"

lemma result_ok_log: "result_ok l t r \<Longrightarrow> result_ok (x # l) t r"
  by (cases r) auto

lemma end_result_ok: "(t, e) \<in> set l \<Longrightarrow> result_ok l t (end_result c e)"
  by (cases c) (auto simp: end_result_def)

lemma remove1_key:
  assumes "distinct (map fst xs)" "(t, e) \<in> set xs"
  shows "set (remove1 (t, e) xs) = {p \<in> set xs. fst p \<noteq> t}" and "distinct (map fst (remove1 (t, e) xs))"
proof -
  have "set (remove1 (t, e) xs) = {p \<in> set xs. fst p \<noteq> t} \<and> distinct (map fst (remove1 (t, e) xs))"
    using assms by (induction xs) (auto simp: image_iff)
  then show "set (remove1 (t, e) xs) = {p \<in> set xs. fst p \<noteq> t}" "distinct (map fst (remove1 (t, e) xs))" by auto
qed

lemma dlg_okI:
  assumes "\<And>t. t \<in> dg_waiting s \<Longrightarrow> t \<le> dg_last s \<and> dg_chan s t = [] \<and> t \<notin> fst ` set (dg_sending s)"
    and "\<And>t. t \<in> dg_waiting s \<Longrightarrow> dg_pc s t \<noteq> None \<and> (\<forall>r. dg_pc s t \<noteq> Some (LeftWith r))"
    and "distinct (map fst (dg_sending s))"
    and "\<And>t e. (t, e) \<in> set (dg_sending s) \<Longrightarrow> t \<le> dg_last s \<and> dg_chan s t = [] \<and> (t, e) \<in> set (dg_log s)"
    and "\<And>t e. e \<in> set (dg_chan s t) \<Longrightarrow> t \<le> dg_last s \<and> (t, e) \<in> set (dg_log s)"
    and "\<And>t. dg_last s < t \<Longrightarrow> dg_pc s t = None"
    and "\<And>t p r. dg_pc s t = Some p \<Longrightarrow> pc_result p = Some r \<Longrightarrow> result_ok (dg_log s) t r"
  shows "dlg_ok s"
  unfolding dlg_ok_def using assms by blast

lemma dlg_okD:
  assumes "dlg_ok s"
  shows "\<And>t. t \<in> dg_waiting s \<Longrightarrow> t \<le> dg_last s \<and> dg_chan s t = [] \<and> t \<notin> fst ` set (dg_sending s)"
    and "\<And>t. t \<in> dg_waiting s \<Longrightarrow> dg_pc s t \<noteq> None \<and> (\<forall>r. dg_pc s t \<noteq> Some (LeftWith r))"
    and "distinct (map fst (dg_sending s))"
    and "\<And>t e. (t, e) \<in> set (dg_sending s) \<Longrightarrow> t \<le> dg_last s \<and> dg_chan s t = [] \<and> (t, e) \<in> set (dg_log s)"
    and "\<And>t e. e \<in> set (dg_chan s t) \<Longrightarrow> t \<le> dg_last s \<and> (t, e) \<in> set (dg_log s)"
    and "\<And>t. dg_last s < t \<Longrightarrow> dg_pc s t = None"
    and "\<And>t p r. dg_pc s t = Some p \<Longrightarrow> pc_result p = Some r \<Longrightarrow> result_ok (dg_log s) t r"
  using assms unfolding dlg_ok_def by blast+

lemma dlg_ok_pc: "dlg_ok s \<Longrightarrow> dg_pc s t = Some p \<Longrightarrow> t \<le> dg_last s"
  by (rule ccontr) (use dlg_okD(6)[of s t] in simp)

lemma set_pc_ok:
  assumes "dlg_ok s" "t \<le> dg_last s" "\<And>r. pc_result p = Some r \<Longrightarrow> result_ok (dg_log s) t r" "\<And>r. p = LeftWith r \<Longrightarrow> t \<notin> dg_waiting s"
  shows "dlg_ok (set_pc t p s)"
  by (rule dlg_okI) (use dlg_okD[OF assms(1)] assms(2-) in \<open>auto simp: set_pc_def split: if_splits\<close>)

lemma receive_ok:
  assumes "dlg_ok s"
  shows "dlg_ok (receive t s)"
proof -
  have "t \<le> dg_last s \<and> (t, e) \<in> set (dg_log s)" if "e \<in> set (tl (dg_chan s t))" for e
    using that dlg_okD(5)[OF assms, of e t] by (cases "dg_chan s t") auto
  then show ?thesis by (intro dlg_okI) (use dlg_okD[OF assms] in \<open>auto simp: receive_def split: if_splits\<close>)
qed

lemma forget_ok: "dlg_ok s \<Longrightarrow> dlg_ok (forgetDialog t s)"
  by (rule dlg_okI) (use dlg_okD[of s] in \<open>auto simp: forgetDialog_def\<close>)

lemma start_ok:
  assumes "dlg_ok s"
  shows "dlg_ok (startDialog c s)"
proof -
  note D = dlg_okD[OF assms]
  have new: "Suc (dg_last s) \<notin> fst ` set (dg_sending s)" using D(4) by force
  have old: "dg_chan s (Suc (dg_last s)) = []"
  proof (rule ccontr)
    assume "dg_chan s (Suc (dg_last s)) \<noteq> []"
    then obtain e where "e \<in> set (dg_chan s (Suc (dg_last s)))" by (cases "dg_chan s (Suc (dg_last s))") auto
    from D(5)[OF this] show False by simp
  qed
  have sel: "dg_last (startDialog c s) = Suc (dg_last s)" "dg_waiting (startDialog c s) = insert (Suc (dg_last s)) (dg_waiting s)"
    "dg_chan (startDialog c s) = dg_chan s" "dg_sending (startDialog c s) = dg_sending s"
    "dg_pc (startDialog c s) = (dg_pc s)(Suc (dg_last s) \<mapsto> Waiting c)" "dg_log (startDialog c s) = dg_log s"
    using old by (simp_all add: startDialog_def Let_def fun_upd_idem)
  show ?thesis
  proof (rule dlg_okI, unfold sel)
    fix t assume "t \<in> insert (Suc (dg_last s)) (dg_waiting s)"
    then show "t \<le> Suc (dg_last s) \<and> dg_chan s t = [] \<and> t \<notin> fst ` set (dg_sending s)" using D(1)[of t] new old by auto
  next
    fix t assume "t \<in> insert (Suc (dg_last s)) (dg_waiting s)"
    then show "((dg_pc s)(Suc (dg_last s) \<mapsto> Waiting c)) t \<noteq> None \<and> (\<forall>r. ((dg_pc s)(Suc (dg_last s) \<mapsto> Waiting c)) t \<noteq> Some (LeftWith r))"
      using D(2)[of t] by auto
  next
    fix t assume "Suc (dg_last s) < t"
    then show "((dg_pc s)(Suc (dg_last s) \<mapsto> Waiting c)) t = None" using D(6)[of t] by simp
  next
    fix t p r assume "((dg_pc s)(Suc (dg_last s) \<mapsto> Waiting c)) t = Some p" "pc_result p = Some r"
    then show "result_ok (dg_log s) t r" using D(7)[of t p r] by (auto split: if_splits)
  qed (use D(3,4,5) le_SucI in blast)+
qed

lemma ended_ok:
  assumes "dlg_ok s"
  shows "dlg_ok (fdDialogEnded t e s)"
  by (rule dlg_okI)
    (use dlg_okD[OF assms] result_ok_log in \<open>auto simp: fdDialogEnded_def Let_def split: if_splits\<close>)

lemma dlg_step_ok:
  assumes "dlg_step s s'" "dlg_ok s"
  shows "dlg_ok s'"
  using assms(1)
proof cases
  case (start c)
  then show ?thesis using start_ok[OF assms(2)] by simp
next
  case (ended t e)
  then show ?thesis using ended_ok[OF assms(2)] by simp
next
  case (sends t e)
  have "distinct (map fst (dg_sending s))" using assms(2) by (simp add: dlg_ok_def)
  note rm = remove1_key[OF this sends(2)]
  have "t \<notin> dg_waiting s" using dlg_okD(1)[OF assms(2), of t] sends(2) by force
  then show ?thesis
    by (intro dlg_okI) (use dlg_okD[OF assms(2)] sends rm in \<open>auto simp: send_end_def split: if_splits\<close>)
next
  case (receives t c e es)
  have "(t, e) \<in> set (dg_log s)" using dlg_okD(5)[OF assms(2)] receives(3) by (metis list.set_intros(1))
  then show ?thesis unfolding receives(1)
    using dlg_ok_pc[OF assms(2) receives(2)] end_result_ok by (intro set_pc_ok receive_ok assms(2)) (auto simp: receive_def)
next
  case (cancelled t c)
  show ?thesis unfolding cancelled(1)
    using dlg_ok_pc[OF assms(2) cancelled(2)] by (intro set_pc_ok assms(2)) (auto split: dialog_caller.splits)
next
  case (late t)
  show ?thesis unfolding late(1) using dlg_ok_pc[OF assms(2) late(2)] by (intro set_pc_ok assms(2)) auto
next
  case (gone t r e es)
  show ?thesis unfolding gone(1)
    using dlg_ok_pc[OF assms(2) gone(2)] dlg_okD(7)[OF assms(2) gone(2)] by (intro set_pc_ok receive_ok assms(2)) (auto simp: receive_def)
next
  case (grace t r)
  show ?thesis unfolding grace(1) using dlg_ok_pc[OF assms(2) grace(2)] dlg_okD(7)[OF assms(2) grace(2)] by (intro set_pc_ok assms(2)) auto
next
  case (leaves t r)
  show ?thesis unfolding leaves(1)
    using dlg_ok_pc[OF assms(2) leaves(2)] dlg_okD(7)[OF assms(2) leaves(2)] by (intro set_pc_ok forget_ok assms(2)) (auto simp: forgetDialog_def)
qed

lemma dialogs_reachable_ok: "dlg_step\<^sup>*\<^sup>* dialogs_init s \<Longrightarrow> dlg_ok s"
proof (induction rule: rtranclp_induct)
  case base
  show ?case by (simp add: dialogs_init_def dlg_ok_def)
next
  case (step s s')
  then show ?case by (blast intro: dlg_step_ok)
qed

text \<open>C33: whatever the system reports, however often, and whoever stops waiting when: the main thread never finds a
  dialog's channel full, a question is answered Yes only if the system reported a Yes for that very question, files are
  chosen only as it reported them for that panel, and a caller that has returned is in the registry no more.\<close>

theorem dialog_answers_reported:
  assumes "dlg_step\<^sup>*\<^sup>* dialogs_init s"
  shows "(\<forall>t e. (t, e) \<in> set (dg_sending s) \<longrightarrow> dg_chan s t = [])
    \<and> (\<forall>t. dg_pc s t = Some (LeftWith (Answered AnswerYes)) \<longrightarrow> (\<exists>e. (t, e) \<in> set (dg_log s) \<and> de_result e = FD_DLG_YES))
    \<and> (\<forall>t ps. dg_pc s t = Some (LeftWith (Chosen ps True)) \<longrightarrow>
          (\<exists>e. (t, e) \<in> set (dg_log s) \<and> de_result e = FD_DLG_CHOSEN \<and> de_paths e = ps))
    \<and> (\<forall>t r. dg_pc s t = Some (LeftWith r) \<longrightarrow> t \<notin> dg_waiting s)"
proof -
  note D = dlg_okD[OF dialogs_reachable_ok[OF assms]]
  have "\<exists>e. (t, e) \<in> set (dg_log s) \<and> de_result e = FD_DLG_YES" if "dg_pc s t = Some (LeftWith (Answered AnswerYes))" for t
    using D(7)[OF that] by simp
  moreover have "\<exists>e. (t, e) \<in> set (dg_log s) \<and> de_result e = FD_DLG_CHOSEN \<and> de_paths e = ps" if "dg_pc s t = Some (LeftWith (Chosen ps True))" for t ps
    using D(7)[OF that] by simp
  ultimately show ?thesis using D(2,4) by blast
qed

definition ex_yes :: dialog_end where "ex_yes = \<lparr>de_result = 1, de_paths = []\<rparr>"

lemma dialog_answers_reported_witness:
  "\<exists>(s :: dialogs) (e :: dialog_end). dg_pc s 1 = Some (LeftWith (Answered AnswerYes)) \<and> (1, e) \<in> set (dg_log s) \<and> de_result e = FD_DLG_YES"
proof -
  define s1 where "s1 = startDialog Asking dialogs_init"
  define s2 where "s2 = fdDialogEnded 1 ex_yes s1"
  define s3 where "s3 = send_end 1 ex_yes s2"
  define s4 where "s4 = set_pc 1 (Leaving (Answered AnswerYes)) (receive 1 s3)"
  define s5 where "s5 = set_pc 1 (LeftWith (Answered AnswerYes)) (forgetDialog 1 s4)"
  note defs = s1_def s2_def s3_def s4_def s5_def startDialog_def fdDialogEnded_def send_end_def receive_def set_pc_def forgetDialog_def
    dialogs_init_def Let_def
  have "dlg_step dialogs_init s1" unfolding s1_def by (rule dlg_step.start)
  moreover have "dlg_step s1 s2" unfolding s2_def by (rule dlg_step.ended)
  moreover have "dlg_step s2 s3" unfolding s3_def by (rule dlg_step.sends) (simp_all add: defs)
  moreover have "dlg_step s3 (set_pc 1 (Leaving (end_result Asking ex_yes)) (receive 1 s3))"
    by (rule dlg_step.receives[of _ _ _ _ "[]"]) (simp_all add: defs)
  then have "dlg_step s3 s4" by (simp add: s4_def end_result_def ex_yes_def FD_DLG_YES_def)
  moreover have "dlg_step s4 s5" unfolding s5_def by (rule dlg_step.leaves) (simp add: defs)
  ultimately have r: "dlg_step\<^sup>*\<^sup>* dialogs_init s5" by (meson converse_rtranclp_into_rtranclp rtranclp.rtrancl_refl)
  have "dg_pc s5 1 = Some (LeftWith (Answered AnswerYes))" by (simp add: s5_def set_pc_def)
  moreover obtain e where "(1, e) \<in> set (dg_log s5)" "de_result e = FD_DLG_YES"
    using dialog_answers_reported[OF r] calculation by meson
  ultimately show ?thesis by blast
qed

section \<open>The Windows message box\<close>

definition swpNoSize :: "32 word" where "swpNoSize = 0x0001"
definition swpNoMove :: "32 word" where "swpNoMove = 0x0002"
definition swpNoActivate :: "32 word" where "swpNoActivate = 0x0010"
definition swpShowWindow :: "32 word" where "swpShowWindow = 0x0040"
definition flashwAll :: "32 word" where "flashwAll = 0x00000003"
definition flashwTimerNoFG :: "32 word" where "flashwTimerNoFG = 0x0000000C"
definition raisePoll :: duration where "raisePoll = 25 * millisecond"
definition raiseInterval :: duration where "raiseInterval = 300 * millisecond"
definition raiseGrace :: duration where "raiseGrace = 3 * second"
definition wmCommand :: int where "wmCommand = 0x0111"
definition idNo :: int where "idNo = 7"

text \<open>One pass of \<open>raise\<close> looks at the clock, for the box with its title (0: none) and whether that is visible.\<close>

record look =
  lk_now :: instant
  lk_hwnd :: nat
  lk_visible :: bool

datatype box_call =
    SetWindowPos nat "32 word"
  | FlashWindowEx nat "32 word"
  | SleepFor duration
  | PostMessage nat int int

definition isWindowVisible :: "look \<Rightarrow> bool" where
  "isWindowVisible l \<longleftrightarrow> lk_visible l"

fun raise_loop :: "instant \<Rightarrow> bool \<Rightarrow> bool \<Rightarrow> look list \<Rightarrow> box_call list" where
  "raise_loop deadline seen flashed [] = []"
| "raise_loop deadline seen flashed (l # ls) =
     (if \<not> lk_now l < deadline then []
      else if lk_hwnd l = 0 \<or> \<not> isWindowVisible l then
        (if seen \<and> lk_hwnd l = 0 then [] else SleepFor raisePoll # raise_loop deadline seen flashed ls)
      else SetWindowPos (lk_hwnd l) (swpNoMove OR swpNoSize OR swpNoActivate OR swpShowWindow)
           # (if flashed then [] else [FlashWindowEx (lk_hwnd l) (flashwAll OR flashwTimerNoFG)])
           @ SleepFor raiseInterval # raise_loop deadline True True ls)"

definition raise_box :: "instant \<Rightarrow> duration \<Rightarrow> look list \<Rightarrow> box_call list" where
  "raise_box now timeout ls = raise_loop (now + (timeout + raiseGrace)) False False ls"

text \<open>\<open>dismiss\<close>: ten looks for the box; the first that finds it presses No.\<close>

fun dismiss :: "nat list \<Rightarrow> box_call list" where
  "dismiss [] = []"
| "dismiss (hwnd # hs) =
     (if hwnd \<noteq> 0 then [PostMessage hwnd wmCommand idNo] else SleepFor (50 * millisecond) # dismiss hs)"

definition dismiss_box :: "nat list \<Rightarrow> box_call list" where
  "dismiss_box looks = dismiss (take 10 looks)"

definition is_flash :: "box_call \<Rightarrow> bool" where
  "is_flash c \<longleftrightarrow> (\<exists>h f. c = FlashWindowEx h f)"

lemma raise_calls:
  "(\<forall>h f. SetWindowPos h f \<in> set (raise_loop d seen flashed ls) \<longrightarrow>
      f = swpNoMove OR swpNoSize OR swpNoActivate OR swpShowWindow \<and> (\<exists>l \<in> set ls. lk_hwnd l = h \<and> lk_visible l \<and> lk_now l < d \<and> h \<noteq> 0))
   \<and> (\<forall>h m w. PostMessage h m w \<notin> set (raise_loop d seen flashed ls))
   \<and> length (filter is_flash (raise_loop d seen flashed ls)) \<le> (if flashed then 0 else 1)"
proof (induction ls arbitrary: seen flashed)
  case (Cons l ls)
  show ?case using Cons[of seen flashed] Cons[of True True] by (auto simp: isWindowVisible_def is_flash_def)
qed simp

text \<open>As long as a message box is up it is put on top, flashed at most once, and never activated: every call that
  moves it carries the flag that keeps the keyboard where it is, and reaches a window with the box's own title; nothing
  \<open>raise\<close> does can press a button.\<close>

theorem raise_never_activates:
  "(\<forall>h f. SetWindowPos h f \<in> set (raise_box now timeout ls) \<longrightarrow>
      f AND swpNoActivate = swpNoActivate \<and> f AND swpShowWindow = swpShowWindow
      \<and> (\<exists>l \<in> set ls. lk_hwnd l = h \<and> h \<noteq> 0 \<and> lk_visible l \<and> lk_now l < now + timeout + raiseGrace))
   \<and> (\<forall>h m w. PostMessage h m w \<notin> set (raise_box now timeout ls))
   \<and> length (filter is_flash (raise_box now timeout ls)) \<le> 1"
proof -
  have "(swpNoMove OR swpNoSize OR swpNoActivate OR swpShowWindow) AND swpNoActivate = swpNoActivate"
    "(swpNoMove OR swpNoSize OR swpNoActivate OR swpShowWindow) AND swpShowWindow = swpShowWindow"
    by (simp_all add: swpNoMove_def swpNoSize_def swpNoActivate_def swpShowWindow_def)
  then show ?thesis using raise_calls[of "now + (timeout + raiseGrace)" False False ls] unfolding raise_box_def
    by (auto simp: add.assoc)
qed

text \<open>The loop ends on the clock: a sleep lasts at least what it was asked for, so there are at most as many of them as
  polls fit into the time the box may be up, and one more.\<close>

fun spaced_looks :: "instant \<Rightarrow> look list \<Rightarrow> bool" where
  "spaced_looks t [] = True"
| "spaced_looks t (l # ls) = (t \<le> lk_now l \<and> spaced_looks (lk_now l + raisePoll) ls)"

definition is_sleep :: "box_call \<Rightarrow> bool" where
  "is_sleep c \<longleftrightarrow> (\<exists>d. c = SleepFor d)"

lemma is_sleep_simps [simp]:
  "is_sleep (SleepFor d)" "\<not> is_sleep (SetWindowPos h f)" "\<not> is_sleep (FlashWindowEx h f)" "\<not> is_sleep (PostMessage h m w)"
  by (simp_all add: is_sleep_def)

lemma raise_loop_ends:
  "spaced_looks t ls \<Longrightarrow> int (length (filter is_sleep (raise_loop d seen flashed ls))) * raisePoll < max 0 (d - t) + raisePoll"
proof (induction ls arbitrary: t seen flashed)
  case Nil
  then show ?case by (simp add: raisePoll_def time_units)
next
  case (Cons l ls)
  have poll: "0 < raisePoll" by (simp add: raisePoll_def time_units)
  have rest: "int (length (filter is_sleep (raise_loop d sn fl ls))) * raisePoll < max 0 (d - (lk_now l + raisePoll)) + raisePoll" for sn fl
    using Cons by simp
  show ?case
  proof (cases "lk_now l < d")
    case False
    then show ?thesis using poll by simp
  next
    case True
    have "int (Suc (length (filter is_sleep (raise_loop d sn fl ls)))) * raisePoll < max 0 (d - t) + raisePoll" for sn fl
    proof -
      have count: "n * 25000000 < d - t" if "n * 25000000 < max 0 (d - (now + 25000000)) + 25000000" "now < d" "t \<le> now" for n now :: int
        using that by arith
      show ?thesis using count[OF _ True] rest[of sn fl] Cons.prems True unfolding raisePoll_def time_units by simp
    qed
    then show ?thesis using True poll by auto
  qed
qed

lemma raise_ends:
  "spaced_looks now ls \<Longrightarrow> 0 \<le> timeout \<Longrightarrow>
   int (length (filter is_sleep (raise_box now timeout ls))) * raisePoll < timeout + raiseGrace + raisePoll"
  using raise_loop_ends[of now ls "now + (timeout + raiseGrace)" False False]
  by (simp add: raise_box_def raiseGrace_def time_units)

text \<open>Withdrawing a question presses No, on a window found by the box's title, once at most.\<close>

lemma dismiss_only_no:
  "(\<forall>c \<in> set (dismiss_box looks). c = SleepFor (50 * millisecond) \<or> (\<exists>h \<in> set looks. h \<noteq> 0 \<and> c = PostMessage h wmCommand idNo))
   \<and> length (filter (\<lambda>c. \<not> is_sleep c) (dismiss_box looks)) \<le> 1 \<and> length (dismiss_box looks) \<le> 10"
proof -
  have "(\<forall>c \<in> set (dismiss hs). c = SleepFor (50 * millisecond) \<or> (\<exists>h \<in> set hs. h \<noteq> 0 \<and> c = PostMessage h wmCommand idNo))
      \<and> length (filter (\<lambda>c. \<not> is_sleep c) (dismiss hs)) \<le> 1 \<and> length (dismiss hs) \<le> length hs" for hs
    by (induction hs) auto
  from this[of "take 10 looks"] show ?thesis by (fastforce simp: dismiss_box_def dest: in_set_takeD)
qed

section \<open>The approvers and pickers of the platforms\<close>

datatype approver = ConsoleApprover | DialogApprover

definition newPlatformApprover_windows :: "string \<Rightarrow> approver" where
  "newPlatformApprover_windows mode = (if mode = ''console'' then ConsoleApprover else DialogApprover)"

definition newPlatformApprover_darwin :: "bool \<Rightarrow> string \<Rightarrow> approver" where
  "newPlatformApprover_darwin app_open mode = (if mode = ''console'' \<or> \<not> app_open then ConsoleApprover else DialogApprover)"

definition newPlatformPicker_darwin :: "bool \<Rightarrow> picker" where
  "newPlatformPicker_darwin app_open = (if \<not> app_open then UnavailablePicker else NativePicker)"

text \<open>\<open>show\<close> on Windows: the dialog returned, or the session ended first, which leaves it on the screen (the last
  component). On macOS the panel was told to close.\<close>

datatype picker_event = DialogReturned bool | SessionEnded

definition show_windows :: "picker_event \<Rightarrow> string \<Rightarrow> (string list \<times> bool) \<times> bool" where
  "show_windows ev buf =
     (case ev of
        DialogReturned ok \<Rightarrow> if \<not> ok then (([], False), False) else (let paths = parseSelection buf in ((paths, paths \<noteq> []), False))
      | SessionEnded \<Rightarrow> (([], False), True))"

definition show_darwin :: "string list \<times> bool \<Rightarrow> bool \<Rightarrow> string list \<times> bool" where
  "show_darwin chosen ctx_done = (if ctx_done then ([], False) else if \<not> snd chosen then ([], False) else (fst chosen, True))"

text \<open>\<open>utf16Filter\<close>: the characters of the filter, which are ASCII, and a final NUL.\<close>

definition utf16Filter :: "string \<Rightarrow> nat list" where
  "utf16Filter s = map of_char s @ [0]"

lemma show_windows_paths:
  "show_windows ev buf = ((paths, True), l) \<Longrightarrow> paths \<noteq> [] \<and> paths = parseSelection buf \<and> \<not> l"
  by (auto simp: show_windows_def Let_def split: picker_event.splits if_splits)

section \<open>What is on the screen\<close>

text \<open>The callers of \<open>exclusive\<close> on Windows with their dialogs. The message box's caller always waits for its result, also
  after pressing No on it; the picker's returns when the session ends.\<close>

record screen =
  sn_ui :: ui_state
  sn_boxes :: "nat set"
  sn_pickers :: "nat set"

definition screen_init :: screen where
  "screen_init = \<lparr>sn_ui = ui_init, sn_boxes = {}, sn_pickers = {}\<rparr>"

inductive screen_step :: "screen \<Rightarrow> screen \<Rightarrow> bool" where
  enters: "ui_step (sn_ui s) u \<Longrightarrow> ui_inside (sn_ui s) \<subseteq> ui_inside u \<Longrightarrow> screen_step s (s\<lparr>sn_ui := u\<rparr>)"
| leaves: "ui_step (sn_ui s) u \<Longrightarrow> ui_inside (sn_ui s) - ui_inside u = {k} \<Longrightarrow> k \<notin> sn_boxes s \<Longrightarrow> screen_step s (s\<lparr>sn_ui := u\<rparr>)"
| box_opens: "k \<in> ui_inside (sn_ui s) \<Longrightarrow> screen_step s (s\<lparr>sn_boxes := insert k (sn_boxes s)\<rparr>)"
| box_closes: "screen_step s (s\<lparr>sn_boxes := sn_boxes s - {k}\<rparr>)"
| picker_opens: "k \<in> ui_inside (sn_ui s) \<Longrightarrow> screen_step s (s\<lparr>sn_pickers := insert k (sn_pickers s)\<rparr>)"
| picker_closes: "screen_step s (s\<lparr>sn_pickers := sn_pickers s - {k}\<rparr>)"

definition screen_ok :: "screen \<Rightarrow> bool" where
  "screen_ok s \<longleftrightarrow> ui_ok (sn_ui s) \<and> sn_boxes s \<subseteq> ui_inside (sn_ui s)"

lemma screen_step_ok: "screen_step s s' \<Longrightarrow> screen_ok s \<Longrightarrow> screen_ok s'"
proof (induction rule: screen_step.induct)
  case (leaves s u k)
  then have "ui_inside (sn_ui s) \<subseteq> insert k (ui_inside u)" by blast
  then show ?case using leaves ui_step_ok by (auto simp: screen_ok_def)
qed (auto simp: screen_ok_def dest: ui_step_ok)

text \<open>On Windows, in every interleaving of questions and pickers, a message box on the screen means that remote input
  is held back, and there is one at most.\<close>

theorem box_holds_input:
  assumes "screen_step\<^sup>*\<^sup>* screen_init s"
  shows "(sn_boxes s \<noteq> {} \<longrightarrow> Busy (sn_ui s)) \<and> (\<exists>k. sn_boxes s \<subseteq> {k})"
proof -
  have "screen_ok s" using assms
  proof (induction rule: rtranclp_induct)
    case base
    show ?case by (simp add: screen_ok_def screen_init_def ui_ok_def ui_init_def)
  qed (rule screen_step_ok)
  then show ?thesis by (fastforce simp: screen_ok_def ui_ok_def Busy_def)
qed

text \<open>A caller entering and leaving, as steps of the screen.\<close>

lemma screen_enter:
  assumes "sn_ui s = ui_init"
  shows "screen_step\<^sup>*\<^sup>* s (s\<lparr>sn_ui := \<lparr>ui_holder = Some k, ui_attention = 1, ui_inside = {k}\<rparr>\<rparr>)"
proof -
  have "screen_step s (s\<lparr>sn_ui := ui_init\<lparr>ui_holder := Some k\<rparr>\<rparr>)"
    using assms ui_step.lock[of ui_init k] by (intro screen_step.enters) (simp_all add: ui_init_def)
  moreover have "ui_step (ui_init\<lparr>ui_holder := Some k\<rparr>) \<lparr>ui_holder = Some k, ui_attention = 1, ui_inside = {k}\<rparr>"
    using ui_step.enter[of "ui_init\<lparr>ui_holder := Some k\<rparr>" k] by (simp add: ui_init_def)
  then have "screen_step (s\<lparr>sn_ui := ui_init\<lparr>ui_holder := Some k\<rparr>\<rparr>) (s\<lparr>sn_ui := \<lparr>ui_holder = Some k, ui_attention = 1, ui_inside = {k}\<rparr>\<rparr>)"
    using screen_step.enters[of "s\<lparr>sn_ui := ui_init\<lparr>ui_holder := Some k\<rparr>\<rparr>"] by (simp add: ui_init_def)
  ultimately show ?thesis by (meson converse_rtranclp_into_rtranclp r_into_rtranclp)
qed

lemma screen_leave:
  assumes "sn_ui s = \<lparr>ui_holder = Some k, ui_attention = 1, ui_inside = {k}\<rparr>" "k \<notin> sn_boxes s"
  shows "screen_step s (s\<lparr>sn_ui := ui_init\<rparr>)"
proof (rule screen_step.leaves)
  show "ui_step (sn_ui s) ui_init" unfolding assms(1)
    using ui_step.leave[of "\<lparr>ui_holder = Some k, ui_attention = 1, ui_inside = {k}\<rparr>" k] by (simp add: ui_init_def)
qed (use assms in \<open>simp_all add: ui_init_def\<close>)

lemma box_holds_input_witness:
  "\<exists>s. screen_step\<^sup>*\<^sup>* screen_init s \<and> sn_boxes s = {7} \<and> Busy (sn_ui s)"
proof -
  let ?s = "screen_init\<lparr>sn_ui := \<lparr>ui_holder = Some 7, ui_attention = 1, ui_inside = {7}\<rparr>\<rparr>"
  have "screen_step\<^sup>*\<^sup>* screen_init ?s" by (rule screen_enter) (simp add: screen_init_def)
  moreover have "screen_step ?s (?s\<lparr>sn_boxes := {7}\<rparr>)" using screen_step.box_opens[of 7 ?s] by (simp add: screen_init_def)
  ultimately have r: "screen_step\<^sup>*\<^sup>* screen_init (?s\<lparr>sn_boxes := {7}\<rparr>)" by (rule rtranclp.rtrancl_into_rtrancl)
  from box_holds_input[OF r] r show ?thesis by (intro exI[of _ "?s\<lparr>sn_boxes := {7}\<rparr>"]) simp
qed

text \<open>Not so for pickers: one whose session ended stays on the screen while nothing holds remote input back, and the next
  session's picker opens beside it.\<close>

lemma pickers_pile_up:
  "\<exists>s. screen_step\<^sup>*\<^sup>* screen_init s \<and> sn_pickers s = {1, 2} \<and> \<not> Busy (sn_ui s)"
proof -
  have open_leave: "screen_step\<^sup>*\<^sup>* s (s\<lparr>sn_pickers := insert k (sn_pickers s)\<rparr>)" if "sn_ui s = ui_init" "sn_boxes s = {}" for s k
  proof -
    let ?t = "s\<lparr>sn_ui := \<lparr>ui_holder = Some k, ui_attention = 1, ui_inside = {k}\<rparr>\<rparr>"
    have "screen_step ?t (?t\<lparr>sn_pickers := insert k (sn_pickers s)\<rparr>)" using screen_step.picker_opens[of k ?t] by simp
    moreover have "screen_step (?t\<lparr>sn_pickers := insert k (sn_pickers s)\<rparr>) (s\<lparr>sn_pickers := insert k (sn_pickers s)\<rparr>)"
      using screen_leave[of "?t\<lparr>sn_pickers := insert k (sn_pickers s)\<rparr>" k] that by (cases s) simp
    ultimately show ?thesis using screen_enter[OF that(1), of k] by (meson rtranclp.rtrancl_into_rtrancl)
  qed
  have "screen_step\<^sup>*\<^sup>* screen_init (screen_init\<lparr>sn_pickers := {1}\<rparr>)"
    using open_leave[of screen_init 1] by (simp add: screen_init_def)
  moreover have "screen_step\<^sup>*\<^sup>* (screen_init\<lparr>sn_pickers := {1}\<rparr>) (screen_init\<lparr>sn_pickers := {1, 2}\<rparr>)"
    using open_leave[of "screen_init\<lparr>sn_pickers := {1}\<rparr>" 2] by (simp add: screen_init_def insert_commute)
  ultimately have "screen_step\<^sup>*\<^sup>* screen_init (screen_init\<lparr>sn_pickers := {1, 2}\<rparr>)" by (rule rtranclp_trans)
  then show ?thesis by (intro exI[of _ "screen_init\<lparr>sn_pickers := {1, 2}\<rparr>"]) (simp add: screen_init_def Busy_def ui_init_def)
qed

end
