(* ===== verification/FirewallCom.thy ===== *)
theory FirewallCom
  imports Firewall "HOL-Library.Multiset"
begin

text \<open>
  How the Windows firewall is really asked: the COM calls of \<open>firewall/com_windows.go\<close> and of \<open>firewall_windows.go\<close>
  (\<open>ask\<close>, \<open>query\<close> and below), one by one. What each call returns is an argument: its HRESULT and what it put into its
  out parameter; a pointer is a number, 0 is nil. What the code obtains, uses and gives back is logged. The theory
  shows that nothing leaks, nothing is given back twice or used after that, and that the report is the one \<open>Firewall\<close>
  derives from the plain answers.
\<close>

section \<open>Calls and their log\<close>

datatype com_resource = Apartment | Object nat | Bstr nat | VariantVar nat

datatype com_event = Obtain com_resource | Release com_resource | Use com_resource

text \<open>A log read from the front, with what is held: \<open>None\<close> when something is used or given back that is not held.\<close>

fun run_log :: "com_event list \<Rightarrow> com_resource multiset \<Rightarrow> com_resource multiset option" where
  "run_log [] h = Some h"
| "run_log (Obtain r # l) h = run_log l (add_mset r h)"
| "run_log (Release r # l) h = (if r \<in># h then run_log l (h - {#r#}) else None)"
| "run_log (Use r # l) h = (if r \<in># h then run_log l h else None)"

definition com_failed :: "int \<Rightarrow> bool" where
  "com_failed r \<longleftrightarrow> i32 (u32 r) < 0"

definition sOK :: int where "sOK = 0"
definition sFalse :: int where "sFalse = 1"
definition rpcEChangedMode :: int where "rpcEChangedMode = 0x80010106"
definition vtI2 :: int where "vtI2 = 2"
definition vtI4 :: int where "vtI4 = 3"
definition vtDispatch :: int where "vtDispatch = 9"
definition vtVariant :: int where "vtVariant = 12"
definition vtUnknown :: int where "vtUnknown = 13"
definition vtUI1 :: int where "vtUI1 = 17"
definition vtUI2 :: int where "vtUI2 = 18"
definition vtUI4 :: int where "vtUI4 = 19"
definition vtInt :: int where "vtInt = 22"
definition vtUInt :: int where "vtUInt = 23"
definition vtArray :: int where "vtArray = 0x2000"
definition maxArrayLen :: int where "maxArrayLen = 64"

text \<open>A call's HRESULT with what it put into the out parameter.\<close>

type_synonym 'a answer = "int \<times> 'a"

definition fw_release :: "nat \<Rightarrow> com_event list" where
  "fw_release p = (if p \<noteq> 0 then [Release (Object p)] else [])"

definition fw_obtain :: "nat answer \<Rightarrow> nat option \<times> com_event list" where
  "fw_obtain a = (if com_failed (fst a) \<or> snd a = 0 then (None, []) else (Some (snd a), [Obtain (Object (snd a))]))"

definition com_create :: "nat answer \<Rightarrow> nat option \<times> com_event list" where
  "com_create a = fw_obtain a"

definition queryInterface :: "nat \<Rightarrow> nat answer \<Rightarrow> nat option \<times> com_event list" where
  "queryInterface obj a = (case fw_obtain a of (p, l) \<Rightarrow> (p, Use (Object obj) # l))"

definition getInt32 :: "nat \<Rightarrow> int answer \<Rightarrow> int option \<times> com_event list" where
  "getInt32 obj a = (if com_failed (fst a) then None else Some (snd a), [Use (Object obj)])"

definition getBool :: "nat \<Rightarrow> int answer \<Rightarrow> bool option \<times> com_event list" where
  "getBool obj a = (if com_failed (fst a) then None else Some (snd a \<noteq> 0), [Use (Object obj)])"

text \<open>A BSTR: where it is, and the text there.\<close>

definition getString :: "nat \<Rightarrow> (nat \<times> string) answer \<Rightarrow> string option \<times> com_event list" where
  "getString obj a =
     (if com_failed (fst a) then (None, [Use (Object obj)])
      else (case snd a of (b, s) \<Rightarrow>
              if b = 0 then (Some [], [Use (Object obj)])
              else (Some s, [Use (Object obj), Obtain (Bstr b), Use (Bstr b), Release (Bstr b)])))"

section \<open>Variants\<close>

text \<open>The union's first word decides; the rest of a variant is padding here.\<close>

record variant =
  va_vt :: int
  va_val :: "64 word"

definition variant_int :: "variant \<Rightarrow> int option" where
  "variant_int v =
     (if va_vt v = vtI2 then Some (sint (ucast (va_val v) :: 16 word))
      else if va_vt v = vtI4 \<or> va_vt v = vtInt then Some (sint (ucast (va_val v) :: 32 word))
      else if va_vt v = vtUI1 then Some (uint (ucast (va_val v) :: 8 word))
      else if va_vt v = vtUI2 then Some (uint (ucast (va_val v) :: 16 word))
      else if va_vt v = vtUI4 \<or> va_vt v = vtUInt then Some (uint (ucast (va_val v) :: 32 word))
      else None)"

text \<open>What the SAFEARRAY functions answer about the array a variant points to.\<close>

record safearray =
  sa_lower :: "int answer"
  sa_upper :: "int answer"
  sa_variant :: "int \<Rightarrow> variant answer"
  sa_long :: "int \<Rightarrow> int answer"

text \<open>\<open>v.vt & vtArray\<close> and \<open>v.vt &^ vtArray\<close> of a 16-bit tag.\<close>

definition is_array :: "int \<Rightarrow> bool" where "is_array vt \<longleftrightarrow> vt div vtArray mod 2 = 1"

definition element_type :: "int \<Rightarrow> int" where "element_type vt = (if is_array vt then vt - vtArray else vt)"

definition array_element :: "safearray \<Rightarrow> int \<Rightarrow> int \<Rightarrow> int list \<times> com_event list" where
  "array_element sa ty i =
     (if ty = vtVariant then
        (case sa_variant sa i of (r, e) \<Rightarrow>
           if com_failed r then ([], [])
           else ((case variant_int e of Some n \<Rightarrow> [n] | None \<Rightarrow> []), [Obtain (VariantVar 1), Release (VariantVar 1)]))
      else if ty = vtI4 \<or> ty = vtInt then
        (case sa_long sa i of (r, n) \<Rightarrow> (if com_failed r then [] else [n], []))
      else ([], []))"

text \<open>\<open>for i := lo; i <= hi && i-lo < maxArrayLen; i++\<close> in 32-bit arithmetic.\<close>

lemma i32_step: "i32 (i - lo) < 64 \<Longrightarrow> i32 (i32 (i + 1) - lo) = i32 (i - lo) + 1"
proof -
  assume a: "i32 (i - lo) < 64"
  define d where "d = (i - lo + 2 ^ 31) mod 2 ^ 32"
  have d: "0 \<le> d" "d < 2 ^ 31 + 64" using a by (simp_all add: d_def i32_def)
  have "i32 (i32 (i + 1) - lo) = (i + 1 - lo + 2 ^ 31) mod 2 ^ 32 - 2 ^ 31"
    unfolding i32_def by (simp add: mod_simps algebra_simps)
  also have "(i + 1 - lo + 2 ^ 31) mod 2 ^ 32 = (d + 1) mod 2 ^ 32" unfolding d_def by (simp add: mod_simps algebra_simps)
  also have "\<dots> = d + 1" using d by simp
  finally show ?thesis by (simp add: d_def i32_def)
qed

function array_ints :: "safearray \<Rightarrow> int \<Rightarrow> int \<Rightarrow> int \<Rightarrow> int \<Rightarrow> int list \<times> com_event list" where
  "array_ints sa ty lo hi i =
     (if i \<le> hi \<and> i32 (i - lo) < maxArrayLen
      then (case array_element sa ty i of (xs, l) \<Rightarrow> case array_ints sa ty lo hi (i32 (i + 1)) of (ys, m) \<Rightarrow> (xs @ ys, l @ m))
      else ([], []))"
  by pat_completeness auto

termination
  by (relation "measure (\<lambda>(sa, ty, lo, hi, i). nat (64 - i32 (i - lo)))") (simp_all add: maxArrayLen_def i32_step)

declare array_ints.simps [simp del]

definition variant_ints :: "variant \<Rightarrow> safearray \<Rightarrow> int list \<times> com_event list" where
  "variant_ints v sa =
     (if \<not> is_array (va_vt v) then ((case variant_int v of Some n \<Rightarrow> [n] | None \<Rightarrow> []), [])
      else if va_val v = 0 then ([], [])
      else if com_failed (fst (sa_lower sa)) \<or> com_failed (fst (sa_upper sa)) then ([], [])
      else array_ints sa (element_type (va_vt v)) (snd (sa_lower sa)) (snd (sa_upper sa)) (snd (sa_lower sa)))"

section \<open>The query\<close>

record raw_product =
  rp_item :: "nat answer"
  rp_categories :: "variant answer"
  rp_array :: safearray
  rp_name :: "(nat \<times> string) answer"

record raw_network =
  rn_next :: "(int \<times> nat) answer"
  rn_category :: "int answer"

record raw_rule =
  rr_vt :: int
  rr_val :: nat
  rr_interface :: "nat answer"
  rr_direction :: "int answer"
  rr_enabled :: "int answer"
  rr_action :: "int answer"
  rr_profiles :: "int answer"
  rr_name :: "(nat \<times> string) answer"

text \<open>One turn of the loop over the rules: whether the context has ended, what \<open>Next\<close> returned and fetched.\<close>

record raw_next =
  nx_ctx :: bool
  nx_next :: "int answer"
  nx_rule :: raw_rule

record raw_query =
  rq_init :: int
  rq_products :: "nat answer"
  rq_count :: "int answer"
  rq_product :: "nat \<Rightarrow> raw_product"
  rq_policy :: "nat answer"
  rq_enabled :: "nat \<Rightarrow> int answer"
  rq_manager :: "nat answer"
  rq_networks :: "nat answer"
  rq_network :: "nat \<Rightarrow> raw_network"
  rq_rules :: "nat answer"
  rq_enum :: "nat answer"
  rq_each :: "nat answer"
  rq_next :: "raw_next list"

definition firewallProduct_com :: "nat \<Rightarrow> raw_product \<Rightarrow> string \<times> com_event list" where
  "firewallProduct_com product rp =
     (if com_failed (fst (rp_categories rp)) then ([], [Use (Object product)])
      else (case variant_ints (snd (rp_categories rp)) (rp_array rp) of (cats, l) \<Rightarrow>
              let before = [Use (Object product), Obtain (VariantVar 0)] @ l @ [Release (VariantVar 0)]
              in if ruleCategoryFirewall \<notin> set cats then ([], before)
                 else (case getString product (rp_name rp) of
                         (None, m) \<Rightarrow> ([], before @ m)
                       | (Some name, m) \<Rightarrow> (cleanName name, before @ m))))"

fun owner_loop :: "nat \<Rightarrow> (nat \<Rightarrow> raw_product) \<Rightarrow> nat list \<Rightarrow> string \<times> com_event list" where
  "owner_loop products rp [] = ([], [])"
| "owner_loop products rp (i # is) =
     (case fw_obtain (rp_item (rp i)) of
        (None, l) \<Rightarrow> (case owner_loop products rp is of (name, m) \<Rightarrow> (name, Use (Object products) # l @ m))
      | (Some product, l) \<Rightarrow>
          (case firewallProduct_com product (rp i) of (name, k) \<Rightarrow>
             let sofar = Use (Object products) # l @ k @ fw_release product
             in if name \<noteq> [] then (name, sofar)
                else (case owner_loop products rp is of (name', m) \<Rightarrow> (name', sofar @ m))))"

definition firewallOwner_com :: "raw_query \<Rightarrow> string \<times> com_event list" where
  "firewallOwner_com q =
     (case com_create (rq_products q) of
        (None, l) \<Rightarrow> ([], l)
      | (Some products, l) \<Rightarrow>
          (case getInt32 products (rq_count q) of
             (None, k) \<Rightarrow> ([], l @ k @ fw_release products)
           | (Some n, k) \<Rightarrow>
               (case owner_loop products (rq_product q) [0..<nat (min n (int maxProducts))] of
                  (name, m) \<Rightarrow> (name, l @ k @ m @ fw_release products))))"

datatype com_error =
    CoInitializeFailed int
  | NoPolicy
  | FirewallEnabledFailed int
  | RulesFailed int
  | NoRules
  | NewEnumFailed int
  | NoEnumerator
  | NoInterface
  | NextFailed int
  | ContextEnded

fun enabled_loop :: "nat \<Rightarrow> (nat \<Rightarrow> int answer) \<Rightarrow> nat list \<Rightarrow> int \<Rightarrow> (com_error + int) \<times> com_event list" where
  "enabled_loop policy en [] on = (Inr on, [])"
| "enabled_loop policy en (p # ps) on =
     (if com_failed (fst (en p)) then (Inl (FirewallEnabledFailed (fst (en p))), [Use (Object policy)])
      else (case enabled_loop policy en ps (if snd (en p) \<noteq> 0 then on + 1 else on) of (r, l) \<Rightarrow> (r, Use (Object policy) # l)))"

definition enabledProfiles_com :: "nat \<Rightarrow> raw_query \<Rightarrow> (com_error + int) \<times> com_event list" where
  "enabledProfiles_com policy q = enabled_loop policy (rq_enabled q) [1, 2, 4] 0"

fun network_loop :: "nat \<Rightarrow> (nat \<Rightarrow> raw_network) \<Rightarrow> nat list \<Rightarrow> string list \<times> com_event list" where
  "network_loop networks rn [] = ([], [])"
| "network_loop networks rn (i # is) =
     (case rn_next (rn i) of (r, fetched, network) \<Rightarrow>
        if com_failed r \<or> fetched = 0 \<or> network = 0 then ([], [Use (Object networks)])
        else (case getInt32 network (rn_category (rn i)) of (c, k) \<Rightarrow>
                case network_loop networks rn is of (names, m) \<Rightarrow>
                  let sofar = [Use (Object networks), Obtain (Object network)] @ k @ fw_release network @ m
                  in case c of
                       None \<Rightarrow> (names, sofar)
                     | Some category \<Rightarrow> (if categoryName category \<noteq> [] then categoryName category # names else names, sofar)))"

definition connectedNetworks_com :: "raw_query \<Rightarrow> string list \<times> com_event list" where
  "connectedNetworks_com q =
     (case com_create (rq_manager q) of
        (None, l) \<Rightarrow> ([], l)
      | (Some nlm, l) \<Rightarrow>
          (case fw_obtain (rq_networks q) of
             (None, k) \<Rightarrow> ([], l @ Use (Object nlm) # k @ fw_release nlm)
           | (Some networks, k) \<Rightarrow>
               (case network_loop networks (rq_network q) [0..<maxNetworks] of
                  (names, m) \<Rightarrow> (names, l @ Use (Object nlm) # k @ m @ fw_release networks @ fw_release nlm))))"

text \<open>\<open>writeRule\<close>: the line for the rule, if any.\<close>

definition writeRule_com :: "raw_rule \<Rightarrow> string option \<times> com_event list" where
  "writeRule_com rr =
     (if (rr_vt rr \<noteq> vtDispatch \<and> rr_vt rr \<noteq> vtUnknown) \<or> rr_val rr = 0 then (None, [])
      else (case fw_obtain (rr_interface rr) of
              (None, l) \<Rightarrow> (None, Use (VariantVar 2) # l)
            | (Some rule, l) \<Rightarrow>
                let opening = Use (VariantVar 2) # l; done' = fw_release rule
                in case getInt32 rule (rr_direction rr) of (dir, l1) \<Rightarrow>
                     if dir \<noteq> Some 1 then (None, opening @ l1 @ done')
                     else (case getBool rule (rr_enabled rr) of (enabled, l2) \<Rightarrow>
                       if enabled \<noteq> Some True then (None, opening @ l1 @ l2 @ done')
                       else (case getInt32 rule (rr_action rr) of (action, l3) \<Rightarrow>
                         if action \<noteq> Some 0 \<and> action \<noteq> Some 1 then (None, opening @ l1 @ l2 @ l3 @ done')
                         else (case getInt32 rule (rr_profiles rr) of
                           (None, l4) \<Rightarrow> (None, opening @ l1 @ l2 @ l3 @ l4 @ done')
                         | (Some bits, l4) \<Rightarrow>
                             (case getString rule (rr_name rr) of (program, l5) \<Rightarrow>
                                (case program of
                                   None \<Rightarrow> None
                                 | Some p \<Rightarrow> if p = [] \<or> CHR 0x0D \<in> set p \<or> newline \<in> set p then None
                                     else Some (''rule|'' @ (if action = Some 0 then ''Block'' else ''Allow'') @ ''|'' @ profileNames bits @ ''|'' @ p),
                                 opening @ l1 @ l2 @ l3 @ l4 @ l5 @ done')))))))"

text \<open>The loop over the rules; the first component is \<open>None\<close> while it has not come to an end.\<close>

fun rules_loop :: "nat \<Rightarrow> raw_next list \<Rightarrow> (com_error + string list) option \<times> com_event list" where
  "rules_loop each [] = (None, [])"
| "rules_loop each (x # xs) =
     (if nx_ctx x then (Some (Inl ContextEnded), [])
      else if com_failed (fst (nx_next x)) then (Some (Inl (NextFailed (fst (nx_next x)))), [Use (Object each)])
      else if snd (nx_next x) = 0 then (Some (Inr []), [Use (Object each)])
      else (case writeRule_com (nx_rule x) of (line, l) \<Rightarrow>
              case rules_loop each xs of (r, m) \<Rightarrow>
                (case r of Some (Inr lines) \<Rightarrow> Some (Inr ((case line of None \<Rightarrow> [] | Some s \<Rightarrow> [s]) @ lines)) | _ \<Rightarrow> r,
                 [Use (Object each), Obtain (VariantVar 2)] @ l @ [Release (VariantVar 2)] @ m)))"

definition inboundRules_com :: "nat \<Rightarrow> raw_query \<Rightarrow> (com_error + string list) option \<times> com_event list" where
  "inboundRules_com policy q =
     (if com_failed (fst (rq_rules q)) then (Some (Inl (RulesFailed (fst (rq_rules q)))), [Use (Object policy)])
      else (case fw_obtain (rq_rules q) of
        (None, l) \<Rightarrow> (Some (Inl NoRules), Use (Object policy) # l)
      | (Some rules, l) \<Rightarrow>
          let start = Use (Object policy) # l
          in if com_failed (fst (rq_enum q)) then (Some (Inl (NewEnumFailed (fst (rq_enum q)))), start @ Use (Object rules) # fw_release rules)
             else (case fw_obtain (rq_enum q) of
               (None, k) \<Rightarrow> (Some (Inl NoEnumerator), start @ Use (Object rules) # k @ fw_release rules)
             | (Some unknown, k) \<Rightarrow>
                 (case queryInterface unknown (rq_each q) of
                    (None, m) \<Rightarrow> (Some (Inl NoInterface), start @ Use (Object rules) # k @ m @ fw_release unknown @ fw_release rules)
                  | (Some each, m) \<Rightarrow>
                      (case rules_loop each (rq_next q) of (r, n) \<Rightarrow>
                         (r, start @ Use (Object rules) # k @ m @ fw_release unknown @ n
                             @ (if r = None then [] else fw_release each @ fw_release rules)))))))"

text \<open>\<open>query\<close>. An owner other than "" makes the rules irrelevant, unless all are asked for.\<close>

definition query_com :: "bool \<Rightarrow> raw_query \<Rightarrow> (com_error + string) option \<times> com_event list" where
  "query_com allRules q =
     (if u32 (rq_init q) \<noteq> sOK \<and> u32 (rq_init q) \<noteq> sFalse \<and> u32 (rq_init q) \<noteq> rpcEChangedMode
      then (Some (Inl (CoInitializeFailed (rq_init q))), [])
      else (let apartment = (u32 (rq_init q) \<noteq> rpcEChangedMode);
                start = (if apartment then [Obtain Apartment] else []); end' = (if apartment then [Release Apartment] else [])
            in case firewallOwner_com q of (owner, l1) \<Rightarrow>
               case com_create (rq_policy q) of
                 (None, l2) \<Rightarrow> (Some (Inl NoPolicy), start @ l1 @ l2 @ end')
               | (Some policy, l2) \<Rightarrow>
                   (case enabledProfiles_com policy q of
                      (Inl e, l3) \<Rightarrow> (Some (Inl e), start @ l1 @ l2 @ l3 @ fw_release policy @ end')
                    | (Inr on, l3) \<Rightarrow>
                        (case connectedNetworks_com q of (networks, l4) \<Rightarrow>
                           let head = [''owner|'' @ owner, ''enabled|'' @ dec_nat (nat on), ''network|'' @ join_with '','' networks]
                           in if owner = [] \<or> allRules
                              then (case inboundRules_com policy q of (r, l5) \<Rightarrow>
                                      (case r of
                                         None \<Rightarrow> None
                                       | Some (Inl e) \<Rightarrow> Some (Inl e)
                                       | Some (Inr lines) \<Rightarrow> Some (Inr (concat (map (\<lambda>l. l @ [newline]) (head @ lines)))),
                                       start @ l1 @ l2 @ l3 @ l4 @ l5 @ (if r = None then [] else fw_release policy @ end')))
                              else (Some (Inr (concat (map (\<lambda>l. l @ [newline]) head))),
                                    start @ l1 @ l2 @ l3 @ l4 @ fw_release policy @ end')))))"

text \<open>\<open>ask\<close>: the answer or the end of the context, whichever comes first.\<close>

datatype ask_event = AnswerCame "com_error + string" | AskCancelled

definition ask_select :: "ask_event \<Rightarrow> string option" where
  "ask_select ev = (case ev of AnswerCame (Inr report) \<Rightarrow> Some report | _ \<Rightarrow> None)"

definition Check_com :: "(string \<Rightarrow> string) \<Rightarrow> ask_event \<Rightarrow> string \<Rightarrow> fw_status option" where
  "Check_com env ev exe = map_option (\<lambda>report. fw_parse env report exe) (ask_select ev)"

section \<open>What the calls say, plainly\<close>

definition plain :: "'a answer \<Rightarrow> 'a option" where
  "plain a = (if com_failed (fst a) then None else Some (snd a))"

definition plain_string :: "(nat \<times> string) answer \<Rightarrow> string option" where
  "plain_string a = map_option (\<lambda>(b, s). if b = 0 then [] else s) (plain a)"

definition plain_product :: "raw_product \<Rightarrow> (int list option \<times> string option) option" where
  "plain_product rp =
     (if fst (fw_obtain (rp_item rp)) = None then None
      else Some (map_option (\<lambda>v. fst (variant_ints v (rp_array rp))) (plain (rp_categories rp)), plain_string (rp_name rp)))"

definition network_there :: "raw_network \<Rightarrow> bool" where
  "network_there rn \<longleftrightarrow> (case rn_next rn of (r, fetched, p) \<Rightarrow> \<not> com_failed r \<and> fetched \<noteq> 0 \<and> p \<noteq> 0)"

definition plain_rule_of :: "raw_rule \<Rightarrow> fw_rule" where
  "plain_rule_of rr =
     (if (rr_vt rr \<noteq> vtDispatch \<and> rr_vt rr \<noteq> vtUnknown) \<or> rr_val rr = 0 \<or> fst (fw_obtain (rr_interface rr)) = None
      then \<lparr>fr_direction = None, fr_enabled = None, fr_action = None, fr_profiles = None, fr_program = None\<rparr>
      else \<lparr>fr_direction = plain (rr_direction rr), fr_enabled = map_option (\<lambda>v. v \<noteq> 0) (plain (rr_enabled rr)), fr_action = plain (rr_action rr),
            fr_profiles = plain (rr_profiles rr), fr_program = plain_string (rr_name rr)\<rparr>)"

definition plain_answers :: "raw_query \<Rightarrow> fw_answers" where
  "plain_answers q =
     \<lparr>fa_products = (if fst (com_create (rq_products q)) = None \<or> plain (rq_count q) = None then []
                     else map (\<lambda>i. plain_product (rq_product q i)) [0..<nat (min (snd (rq_count q)) (int maxProducts))]),
      fa_profiles_on = map (\<lambda>p. snd (rq_enabled q p) \<noteq> 0) [1, 2, 4],
      fa_networks = (if fst (com_create (rq_manager q)) = None \<or> fst (fw_obtain (rq_networks q)) = None then []
                     else map (\<lambda>rn. plain (rn_category rn)) (takeWhile network_there (map (rq_network q) [0..<maxNetworks]))),
      fa_rules = map (\<lambda>x. plain_rule_of (nx_rule x)) (takeWhile (\<lambda>x. snd (nx_next x) \<noteq> 0) (rq_next q))\<rparr>"

section \<open>Nothing leaks\<close>

text \<open>A stretch of the log that needs the resources \<open>R\<close> to be held and leaves everything as it was.\<close>

definition keeps :: "com_resource set \<Rightarrow> com_event list \<Rightarrow> bool" where
  "keeps R l \<longleftrightarrow> (\<forall>h. R \<subseteq> set_mset h \<longrightarrow> run_log l h = Some h)"

lemma run_log_append: "run_log (a @ b) h = Option.bind (run_log a h) (run_log b)"
  by (induction a h rule: run_log.induct) auto

lemma keeps_Nil [intro, simp]: "keeps R []"
  by (simp add: keeps_def)

lemma keeps_append [intro]: "keeps R a \<Longrightarrow> keeps R b \<Longrightarrow> keeps R (a @ b)"
  by (simp add: keeps_def run_log_append)

lemma keeps_Use [simp]: "r \<in> R \<Longrightarrow> keeps R (Use r # l) = keeps R l"
  by (auto simp: keeps_def)

lemma keeps_mono: "keeps R l \<Longrightarrow> R \<subseteq> S \<Longrightarrow> keeps S l"
  by (auto simp: keeps_def)

lemma keeps_bracket: "keeps (insert r R) l \<Longrightarrow> keeps R (Obtain r # l @ [Release r])"
  unfolding keeps_def
proof (intro allI impI)
  fix h
  assume l: "\<forall>h. insert r R \<subseteq> set_mset h \<longrightarrow> run_log l h = Some h" and "R \<subseteq> set_mset h"
  then have "run_log l (add_mset r h) = Some (add_mset r h)" by (intro l[rule_format]) auto
  then show "run_log (Obtain r # l @ [Release r]) h = Some h" by (simp add: run_log_append)
qed

lemma keeps_bracket_append: "keeps (insert r R) a \<Longrightarrow> keeps R b \<Longrightarrow> keeps R (Obtain r # a @ Release r # b)"
  using keeps_append[OF keeps_bracket[of r R a], of b] by simp

lemma fw_obtain_cases:
  obtains "fw_obtain a = (None, [])" "fst (fw_obtain a) = None"
  | p where "fw_obtain a = (Some p, [Obtain (Object p)])" "p \<noteq> 0"
  by (cases "com_failed (fst a) \<or> snd a = 0") (auto simp: fw_obtain_def)

lemma fw_release_obj: "p \<noteq> 0 \<Longrightarrow> fw_release p = [Release (Object p)]"
  by (simp add: fw_release_def)

lemma keeps_getInt32: "Object p \<in> R \<Longrightarrow> keeps R (snd (getInt32 p a))"
  by (auto simp: getInt32_def)

lemma keeps_getBool: "Object p \<in> R \<Longrightarrow> keeps R (snd (getBool p a))"
  by (auto simp: getBool_def)

lemma keeps_getString: "Object p \<in> R \<Longrightarrow> keeps R (snd (getString p a))"
  using keeps_bracket[of "Bstr (fst (snd a))" R "[Use (Bstr (fst (snd a)))]"] by (simp add: getString_def split_beta)

lemma keeps_array_ints: "keeps R (snd (array_ints sa ty lo hi i))"
proof (induction sa ty lo hi i rule: array_ints.induct)
  case (1 sa ty lo hi i)
  have "keeps R (snd (array_element sa ty i))"
    using keeps_bracket[of "VariantVar 1" R "[]"] by (auto simp: array_element_def split: prod.splits)
  moreover have "keeps R (snd (array_ints sa ty lo hi (i32 (i + 1))))" if "i \<le> hi \<and> i32 (i - lo) < maxArrayLen"
    using 1[OF that] by (metis prod.collapse)
  ultimately show ?case by (subst array_ints.simps) (simp add: split_beta keeps_append)
qed

lemma keeps_variant_ints: "keeps R (snd (variant_ints v sa))"
  by (simp add: variant_ints_def keeps_array_ints)

lemma keeps_firewallProduct: "Object p \<in> R \<Longrightarrow> keeps R (snd (firewallProduct_com p rp))"
proof -
  assume p: "Object p \<in> R"
  obtain cats l where v: "variant_ints (snd (rp_categories rp)) (rp_array rp) = (cats, l)" by fastforce
  have "keeps (insert (VariantVar 0) R) l" using keeps_variant_ints[of _ "snd (rp_categories rp)" "rp_array rp"] by (simp add: v)
  then have b: "keeps R ([Use (Object p), Obtain (VariantVar 0)] @ l @ [Release (VariantVar 0)])"
    using p keeps_bracket by simp
  from keeps_append[OF b keeps_getString[OF p, of "rp_name rp"]] b p show ?thesis
    by (auto simp: firewallProduct_com_def v Let_def split: prod.splits option.splits)
qed

lemma keeps_owner_loop: "Object ps \<in> R \<Longrightarrow> keeps R (snd (owner_loop ps rp is))"
proof (induction "is")
  case (Cons i "is")
  show ?case
  proof (cases "rp_item (rp i)" rule: fw_obtain_cases)
    case 1
    then show ?thesis using Cons by (simp add: split_beta)
  next
    case (2 p)
    have "keeps (insert (Object p) R) (snd (firewallProduct_com p (rp i)))" by (rule keeps_firewallProduct) simp
    from keeps_bracket[OF this] keeps_bracket_append[OF this Cons.IH[OF Cons.prems]] 2 Cons.prems show ?thesis
      by (simp add: fw_release_obj Let_def split_beta)
  qed
qed simp

lemma keeps_firewallOwner: "keeps R (snd (firewallOwner_com q))"
proof (cases "rq_products q" rule: fw_obtain_cases)
  case 1
  then show ?thesis by (simp add: firewallOwner_com_def com_create_def)
next
  case (2 p)
  let ?R = "insert (Object p) R"
  have "keeps ?R (snd (getInt32 p (rq_count q)))" "keeps ?R (snd (owner_loop p (rq_product q) is))" for "is"
    by (auto intro: keeps_getInt32 keeps_owner_loop)
  from keeps_bracket[OF this(1)] keeps_bracket[OF keeps_append[OF this]] 2 show ?thesis
    by (simp add: firewallOwner_com_def com_create_def fw_release_obj split_beta split: option.split)
qed

lemma keeps_enabled: "Object p \<in> R \<Longrightarrow> keeps R (snd (enabled_loop p en ps n))"
  by (induction ps arbitrary: n) (simp_all add: split_beta)

lemma keeps_network_loop: "Object ns \<in> R \<Longrightarrow> keeps R (snd (network_loop ns rn is))"
proof (induction "is")
  case (Cons i "is")
  obtain r f n where x: "rn_next (rn i) = (r, f, n)" by (cases "rn_next (rn i)") auto
  have "keeps (insert (Object n) R) (snd (getInt32 n (rn_category (rn i))))" by (rule keeps_getInt32) simp
  from keeps_bracket_append[OF this Cons.IH[OF Cons.prems]] Cons.prems x show ?case
    by (simp add: fw_release_def Let_def split_beta split: option.split)
qed simp

lemma keeps_connectedNetworks: "keeps R (snd (connectedNetworks_com q))"
proof (cases "rq_manager q" rule: fw_obtain_cases)
  case 1
  then show ?thesis by (simp add: connectedNetworks_com_def com_create_def)
next
  case (2 p)
  let ?R = "insert (Object p) R"
  have none: "keeps R (Obtain (Object p) # [Use (Object p)] @ [Release (Object p)])" by (rule keeps_bracket) auto
  show ?thesis
  proof (cases "rq_networks q" rule: fw_obtain_cases)
    case 1
    with 2 none show ?thesis by (simp add: connectedNetworks_com_def com_create_def fw_release_obj)
  next
    case (2 n)
    have "keeps (insert (Object n) ?R) (snd (network_loop n (rq_network q) [0..<maxNetworks]))" by (rule keeps_network_loop) simp
    from keeps_bracket[OF this] have "keeps ?R (Use (Object p) # Obtain (Object n) # snd (network_loop n (rq_network q) [0..<maxNetworks]) @ [Release (Object n)])"
      by simp
    from keeps_bracket[OF this] 2 \<open>fw_obtain (rq_manager q) = (Some p, [Obtain (Object p)])\<close> \<open>p \<noteq> 0\<close> show ?thesis
      by (simp add: connectedNetworks_com_def com_create_def fw_release_obj split_beta)
  qed
qed

lemma keeps_writeRule: "VariantVar 2 \<in> R \<Longrightarrow> keeps R (snd (writeRule_com rr))"
proof (cases "rr_interface rr" rule: fw_obtain_cases)
  case 1
  then show "VariantVar 2 \<in> R \<Longrightarrow> keeps R (snd (writeRule_com rr))" by (auto simp: writeRule_com_def)
next
  case (2 p)
  assume v: "VariantVar 2 \<in> R"
  let ?R = "insert (Object p) R"
  define l1 l2 l3 l4 l5 where "l1 = snd (getInt32 p (rr_direction rr))" and "l2 = snd (getBool p (rr_enabled rr))"
    and "l3 = snd (getInt32 p (rr_action rr))" and "l4 = snd (getInt32 p (rr_profiles rr))" and "l5 = snd (getString p (rr_name rr))"
  have k: "keeps ?R l1" "keeps ?R l2" "keeps ?R l3" "keeps ?R l4" "keeps ?R l5"
    unfolding l1_def l2_def l3_def l4_def l5_def by (auto intro: keeps_getInt32 keeps_getBool keeps_getString)
  have br: "keeps R (Use (VariantVar 2) # Obtain (Object p) # l @ [Release (Object p)])" if "keeps ?R l" for l
    using keeps_bracket[OF that] v by simp
  have logs: "keeps R (Use (VariantVar 2) # Obtain (Object p) # l1 @ [Release (Object p)])"
    "keeps R (Use (VariantVar 2) # Obtain (Object p) # l1 @ l2 @ [Release (Object p)])"
    "keeps R (Use (VariantVar 2) # Obtain (Object p) # l1 @ l2 @ l3 @ [Release (Object p)])"
    "keeps R (Use (VariantVar 2) # Obtain (Object p) # l1 @ l2 @ l3 @ l4 @ [Release (Object p)])"
    "keeps R (Use (VariantVar 2) # Obtain (Object p) # l1 @ l2 @ l3 @ l4 @ l5 @ [Release (Object p)])"
    using br[OF k(1)] br[OF keeps_append[OF k(1,2)]] br[OF keeps_append[OF k(1) keeps_append[OF k(2,3)]]]
      br[OF keeps_append[OF k(1) keeps_append[OF k(2) keeps_append[OF k(3,4)]]]]
      br[OF keeps_append[OF k(1) keeps_append[OF k(2) keeps_append[OF k(3) keeps_append[OF k(4,5)]]]]] by simp_all
  obtain r1 r2 r3 r4 r5 where e: "getInt32 p (rr_direction rr) = (r1, l1)" "getBool p (rr_enabled rr) = (r2, l2)" "getInt32 p (rr_action rr) = (r3, l3)"
    "getInt32 p (rr_profiles rr) = (r4, l4)" "getString p (rr_name rr) = (r5, l5)"
    unfolding l1_def l2_def l3_def l4_def l5_def by (metis surjective_pairing)
  show "keeps R (snd (writeRule_com rr))"
    using 2 logs by (simp add: writeRule_com_def e fw_release_obj Let_def split: option.splits)
qed

lemma keeps_rules_loop: "Object e \<in> R \<Longrightarrow> keeps R (snd (rules_loop e xs))"
proof (induction xs)
  case (Cons x xs)
  have "keeps (insert (VariantVar 2) R) (snd (writeRule_com (nx_rule x)))" by (rule keeps_writeRule) simp
  from keeps_bracket_append[OF this Cons.IH[OF Cons.prems]] Cons.prems show ?case by (simp add: split_beta)
qed simp

section \<open>The report\<close>

lemma getString_plain: "fst (getString p a) = plain_string a"
  by (auto simp: getString_def plain_string_def plain_def split: prod.splits)

lemma getInt32_plain: "fst (getInt32 p a) = plain a"
  by (simp add: getInt32_def plain_def)

lemma getBool_plain: "fst (getBool p a) = map_option (\<lambda>v. v \<noteq> 0) (plain a)"
  by (simp add: getBool_def plain_def)

lemma firewallProduct_plain:
  "fst (firewallProduct_com p rp) = firewallProduct (map_option (\<lambda>v. fst (variant_ints v (rp_array rp))) (plain (rp_categories rp)), plain_string (rp_name rp))"
  unfolding getString_plain[symmetric, of _ p]
  by (auto simp: firewallProduct_com_def firewallProduct_def plain_def Let_def split: prod.splits option.splits)

lemma owner_loop_plain: "fst (owner_loop p rp is) = first_owner (map (\<lambda>i. plain_product (rp i)) is)"
proof (induction "is")
  case (Cons i "is")
  show ?case
  proof (cases "rp_item (rp i)" rule: fw_obtain_cases)
    case (2 q)
    then show ?thesis using Cons firewallProduct_plain[of q "rp i"] by (simp add: plain_product_def split_beta Let_def)
  qed (use Cons in \<open>simp add: plain_product_def split_beta\<close>)
qed simp

lemma firewallOwner_plain: "fst (firewallOwner_com q) = firewallOwner (fa_products (plain_answers q))"
proof (cases "rq_products q" rule: fw_obtain_cases)
  case (2 p)
  have "nat (min n (int maxProducts)) \<le> maxProducts" for n by simp
  then show ?thesis using 2
    by (auto simp: firewallOwner_com_def firewallOwner_def com_create_def plain_answers_def getInt32_def plain_def owner_loop_plain split_beta)
qed (simp add: firewallOwner_com_def firewallOwner_def com_create_def plain_answers_def)

lemma enabled_loop_plain: "fst (enabled_loop p en ps n) = Inr on \<Longrightarrow> on = n + int (length (filter (\<lambda>i. snd (en i) \<noteq> 0) ps))"
proof (induction ps arbitrary: n)
  case (Cons i ps)
  from Cons.prems have "fst (enabled_loop p en ps (if snd (en i) \<noteq> 0 then n + 1 else n)) = Inr on" by (auto simp: split_beta split: if_splits)
  from Cons.IH[OF this] show ?case by simp
qed simp

lemma enabledProfiles_plain: "fst (enabledProfiles_com p q) = Inr on \<Longrightarrow> on = enabledProfiles (fa_profiles_on (plain_answers q))"
proof -
  assume "fst (enabledProfiles_com p q) = Inr on"
  from enabled_loop_plain[OF this[unfolded enabledProfiles_com_def]] show ?thesis
    by (simp add: enabledProfiles_def plain_answers_def)
qed

lemma network_loop_plain:
  "fst (network_loop p rn is) = filter (\<lambda>n. n \<noteq> []) (map (\<lambda>c. case c of None \<Rightarrow> [] | Some k \<Rightarrow> categoryName k)
     (map (\<lambda>x. plain (rn_category x)) (takeWhile network_there (map rn is))))"
proof (induction "is")
  case (Cons i "is")
  obtain r f n where "rn_next (rn i) = (r, f, n)" by (cases "rn_next (rn i)") auto
  then show ?case using Cons by (auto simp: network_there_def getInt32_def plain_def split_beta Let_def)
qed simp

lemma connectedNetworks_plain: "fst (connectedNetworks_com q) = connectedNetworks (fa_networks (plain_answers q))"
proof -
  have len: "take maxNetworks (map f (takeWhile P (map g [0..<maxNetworks]))) = map f (takeWhile P (map g [0..<maxNetworks]))" for f g and P :: "raw_network \<Rightarrow> bool"
    using length_takeWhile_le[of P "map g [0..<maxNetworks]"] by (intro take_all) simp
  show ?thesis
  proof (cases "rq_manager q" rule: fw_obtain_cases)
    case 1
    then show ?thesis by (simp add: connectedNetworks_com_def connectedNetworks_def com_create_def plain_answers_def)
  next
    case (2 p)
    then show ?thesis
      by (cases "rq_networks q" rule: fw_obtain_cases)
        (simp_all add: connectedNetworks_com_def connectedNetworks_def com_create_def plain_answers_def len network_loop_plain split_beta del: map_map)
  qed
qed

lemma writeRule_plain: "fst (writeRule_com rr) = writeRule (plain_rule_of rr)"
proof (cases "(rr_vt rr \<noteq> vtDispatch \<and> rr_vt rr \<noteq> vtUnknown) \<or> rr_val rr = 0")
  case True
  then have "plain_rule_of rr = \<lparr>fr_direction = None, fr_enabled = None, fr_action = None, fr_profiles = None, fr_program = None\<rparr>"
    unfolding plain_rule_of_def by (intro if_P) blast
  with True show ?thesis by (simp add: writeRule_com_def writeRule_def)
next
  case dispatch: False
  show ?thesis
  proof (cases "rr_interface rr" rule: fw_obtain_cases)
    case 1
    then show ?thesis using dispatch by (auto simp: writeRule_com_def plain_rule_of_def writeRule_def)
  next
    case (2 p)
    define d e a b n where "d = plain (rr_direction rr)" and "e = map_option (\<lambda>v. v \<noteq> 0) (plain (rr_enabled rr))" and "a = plain (rr_action rr)"
      and "b = plain (rr_profiles rr)" and "n = plain_string (rr_name rr)"
    define l1 l2 l3 l4 l5 where "l1 = snd (getInt32 p (rr_direction rr))" and "l2 = snd (getBool p (rr_enabled rr))"
      and "l3 = snd (getInt32 p (rr_action rr))" and "l4 = snd (getInt32 p (rr_profiles rr))" and "l5 = snd (getString p (rr_name rr))"
    have g: "getInt32 p (rr_direction rr) = (d, l1)" "getBool p (rr_enabled rr) = (e, l2)" "getInt32 p (rr_action rr) = (a, l3)"
      "getInt32 p (rr_profiles rr) = (b, l4)" "getString p (rr_name rr) = (n, l5)"
      by (simp_all add: prod_eq_iff getInt32_plain getBool_plain getString_plain d_def e_def a_def b_def n_def l1_def l2_def l3_def l4_def l5_def)
    have r: "plain_rule_of rr = \<lparr>fr_direction = d, fr_enabled = e, fr_action = a, fr_profiles = b, fr_program = n\<rparr>"
      using dispatch 2 by (auto simp: plain_rule_of_def d_def e_def a_def b_def n_def)
    have disp: "((rr_vt rr \<noteq> vtDispatch \<and> rr_vt rr \<noteq> vtUnknown) \<or> rr_val rr = 0) = False" using dispatch by blast
    show ?thesis unfolding r writeRule_com_def disp using 2
      by (simp add: writeRule_def g Let_def split: option.split)
  qed
qed

lemma rules_loop_plain:
  "fst (rules_loop e xs) = Some (Inr lines) \<Longrightarrow>
   lines = List.map_filter writeRule (map (\<lambda>x. plain_rule_of (nx_rule x)) (takeWhile (\<lambda>x. snd (nx_next x) \<noteq> 0) xs))"
proof (induction xs arbitrary: lines)
  case (Cons x xs)
  show ?case
  proof (cases "nx_ctx x \<or> com_failed (fst (nx_next x)) \<or> snd (nx_next x) = 0")
    case True
    then show ?thesis using Cons.prems by (auto simp: map_filter_simps split: if_splits)
  next
    case False
    with Cons.prems obtain ls where "fst (rules_loop e xs) = Some (Inr ls)"
      "lines = (case fst (writeRule_com (nx_rule x)) of None \<Rightarrow> [] | Some s \<Rightarrow> [s]) @ ls"
      by (auto simp: split_beta split: option.splits sum.splits)
    with Cons.IH[OF this(1)] False show ?thesis by (auto simp: writeRule_plain map_filter_simps split: option.splits)
  qed
qed simp

lemma rules_loop_ends:
  "\<exists>x \<in> set xs. nx_ctx x \<or> com_failed (fst (nx_next x)) \<or> snd (nx_next x) = 0 \<Longrightarrow> fst (rules_loop e xs) \<noteq> None"
proof (induction xs)
  case (Cons x xs)
  show ?case
  proof (cases "nx_ctx x \<or> com_failed (fst (nx_next x)) \<or> snd (nx_next x) = 0")
    case False
    with Cons.prems have "\<exists>x \<in> set xs. nx_ctx x \<or> com_failed (fst (nx_next x)) \<or> snd (nx_next x) = 0" by auto
    then show ?thesis using Cons.IH False by (auto simp: split_beta split: option.splits sum.splits)
  qed auto
qed simp

lemma keeps_inboundRules:
  assumes "fst (inboundRules_com policy q) \<noteq> None" "Object policy \<in> R"
  shows "keeps R (snd (inboundRules_com policy q))"
proof (cases "com_failed (fst (rq_rules q))")
  case True
  then show ?thesis using assms(2) by (simp add: inboundRules_com_def)
next
  case ok: False
  show ?thesis
  proof (cases "rq_rules q" rule: fw_obtain_cases)
    case 1
    then show ?thesis using ok assms(2) by (simp add: inboundRules_com_def)
  next
    case (2 rules)
    let ?R = "insert (Object rules) R"
    have only: "keeps R (Obtain (Object rules) # [Use (Object rules)] @ [Release (Object rules)])" by (rule keeps_bracket) simp
    show ?thesis
    proof (cases "com_failed (fst (rq_enum q))")
      case True
      then show ?thesis using ok 2 assms(2) only by (simp add: inboundRules_com_def fw_release_obj Let_def)
    next
      case enum: False
      show ?thesis
      proof (cases "rq_enum q" rule: fw_obtain_cases)
        case 1
        then show ?thesis using ok 2 enum assms(2) only by (simp add: inboundRules_com_def fw_release_obj Let_def)
      next
        case u: (2 unknown)
        show ?thesis
        proof (cases "rq_each q" rule: fw_obtain_cases)
          case 1
          have "keeps ?R (Obtain (Object unknown) # [Use (Object unknown)] @ [Release (Object unknown)])" by (rule keeps_bracket) simp
          then have "keeps ?R (Use (Object rules) # Obtain (Object unknown) # [Use (Object unknown)] @ [Release (Object unknown)])" by simp
          from keeps_bracket[OF this] show ?thesis using ok 1 2 enum u assms(2)
            by (simp add: inboundRules_com_def queryInterface_def fw_release_obj Let_def)
        next
          case e: (2 each)
          let ?l = "snd (rules_loop each (rq_next q))"
          obtain rs where some: "fst (rules_loop each (rq_next q)) = Some rs"
            using assms(1) ok 2 enum u e by (auto simp: inboundRules_com_def queryInterface_def Let_def split_beta)
          have "keeps (insert (Object each) ?R) ?l" by (rule keeps_rules_loop) simp
          then have inner: "keeps ?R (Obtain (Object each) # ?l @ [Release (Object each)])" by (rule keeps_bracket)
          have swap: "run_log (Obtain (Object unknown) # Use (Object unknown) # Obtain (Object each) # Release (Object unknown) # l') h
              = run_log (Obtain (Object each) # l') h" for l' h
            by (cases "each = unknown") (simp_all add: add_mset_commute)
          have "keeps ?R (Use (Object rules) # Obtain (Object unknown) # Use (Object unknown) # Obtain (Object each) # Release (Object unknown) # ?l @ [Release (Object each)])"
            using inner by (simp add: keeps_def swap)
          from keeps_bracket[OF this] show ?thesis using ok 2 enum u e assms(2) some
            by (simp add: inboundRules_com_def queryInterface_def fw_release_obj Let_def split_beta)
        qed
      qed
    qed
  qed
qed

lemma inboundRules_plain:
  "fst (inboundRules_com policy q) = Some (Inr lines) \<Longrightarrow> lines = List.map_filter writeRule (fa_rules (plain_answers q))"
  using rules_loop_plain
  by (auto simp: inboundRules_com_def plain_answers_def Let_def split_beta split: if_splits option.splits)

lemma inboundRules_ends:
  "\<exists>x \<in> set (rq_next q). nx_ctx x \<or> com_failed (fst (nx_next x)) \<or> snd (nx_next x) = 0 \<Longrightarrow> fst (inboundRules_com policy q) \<noteq> None"
  using rules_loop_ends
  by (auto simp: inboundRules_com_def Let_def split_beta split: option.splits)

text \<open>C36: when the enumeration of the rules comes to an end, \<open>query\<close> returns, having given back all it obtained from
  COM exactly once and used nothing after that, whatever fails on the way; and if it returns a report, that is the
  report of the plain answers.\<close>

theorem query_com_refines:
  assumes "\<exists>x \<in> set (rq_next q). nx_ctx x \<or> com_failed (fst (nx_next x)) \<or> snd (nx_next x) = 0"
  shows "\<exists>r l. query_com allRules q = (Some r, l) \<and> run_log l {#} = Some {#}
    \<and> (\<forall>report. r = Inr report \<longrightarrow> report = fw_query allRules (plain_answers q))"
proof -
  have owner: "fst (firewallOwner_com q) = firewallOwner (fa_products (plain_answers q))" by (rule firewallOwner_plain)
  have nets: "fst (connectedNetworks_com q) = connectedNetworks (fa_networks (plain_answers q))" by (rule connectedNetworks_plain)
  define ap where "ap \<longleftrightarrow> u32 (rq_init q) \<noteq> rpcEChangedMode"
  have apart: "keeps {} ((if ap then [Obtain Apartment] else []) @ l @ (if ap then [Release Apartment] else []))" if "keeps {} l" for l
    using keeps_bracket[of Apartment "{}" l] keeps_mono[OF that, of "{Apartment}"] that by simp
  have done': "\<exists>r l'. query_com allRules q = (Some r, l') \<and> run_log l' {#} = Some {#} \<and> (\<forall>report. r = Inr report \<longrightarrow> report = fw_query allRules (plain_answers q))"
    if "query_com allRules q = (Some r, (if ap then [Obtain Apartment] else []) @ l @ (if ap then [Release Apartment] else []))" "keeps {} l"
      "\<And>report. r = Inr report \<Longrightarrow> report = fw_query allRules (plain_answers q)" for r l
    using that(1,3) apart[OF that(2)] by (auto simp: keeps_def)
  show ?thesis
  proof (cases "u32 (rq_init q) \<noteq> sOK \<and> u32 (rq_init q) \<noteq> sFalse \<and> u32 (rq_init q) \<noteq> rpcEChangedMode")
    case True
    then show ?thesis by (simp add: query_com_def)
  next
    case init: False
    let ?o = "snd (firewallOwner_com q)" and ?n = "snd (connectedNetworks_com q)"
    show ?thesis
    proof (cases "rq_policy q" rule: fw_obtain_cases)
      case 1
      have "query_com allRules q = (Some (Inl NoPolicy), (if ap then [Obtain Apartment] else []) @ ?o @ (if ap then [Release Apartment] else []))"
        using init 1 by (simp add: query_com_def com_create_def ap_def Let_def split_beta)
      then show ?thesis by (rule done') (simp_all add: keeps_firewallOwner)
    next
      case p: (2 policy)
      let ?e = "snd (enabledProfiles_com policy q)"
      have e: "keeps {Object policy} ?e" unfolding enabledProfiles_com_def by (rule keeps_enabled) simp
      show ?thesis
      proof (cases "fst (enabledProfiles_com policy q)")
        case (Inl err)
        have "query_com allRules q = (Some (Inl err), (if ap then [Obtain Apartment] else [])
            @ (?o @ Obtain (Object policy) # ?e @ [Release (Object policy)]) @ (if ap then [Release Apartment] else []))"
          using init p Inl by (simp add: query_com_def com_create_def ap_def Let_def split_beta fw_release_obj)
        then show ?thesis by (rule done') (use keeps_append[OF keeps_firewallOwner keeps_bracket[OF e]] in simp_all)
      next
        case on: (Inr on)
        note on' = enabledProfiles_plain[OF on]
        have en: "keeps {Object policy} (?e @ ?n)" using e keeps_connectedNetworks by (rule keeps_append)
        show ?thesis
        proof (cases "fst (firewallOwner_com q) = [] \<or> allRules")
          case False
          have "query_com allRules q = (Some (Inr (fw_query allRules (plain_answers q))), (if ap then [Obtain Apartment] else [])
              @ (?o @ Obtain (Object policy) # (?e @ ?n) @ [Release (Object policy)]) @ (if ap then [Release Apartment] else []))"
            using init p on False owner nets on'
            by (simp add: query_com_def com_create_def ap_def Let_def split_beta fw_release_obj fw_query_def query_lines_def)
          then show ?thesis by (rule done') (use keeps_append[OF keeps_firewallOwner keeps_bracket[OF en]] in simp_all)
        next
          case rules: True
          obtain r where r: "fst (inboundRules_com policy q) = Some r" using inboundRules_ends[OF assms, of policy] by auto
          let ?i = "snd (inboundRules_com policy q)"
          have i: "keeps {Object policy} ((?e @ ?n) @ ?i)" using en by (rule keeps_append) (rule keeps_inboundRules, simp_all add: r)
          define res where "res = (case r of Inl err \<Rightarrow> Inl err | Inr lines \<Rightarrow> Inr (fw_query allRules (plain_answers q)))"
          have "query_com allRules q = (Some res, (if ap then [Obtain Apartment] else [])
              @ (?o @ Obtain (Object policy) # ((?e @ ?n) @ ?i) @ [Release (Object policy)]) @ (if ap then [Release Apartment] else []))"
          proof (cases r)
            case (Inl err)
            then show ?thesis using init p on rules r
              by (simp add: query_com_def com_create_def ap_def Let_def split_beta fw_release_obj res_def)
          next
            case (Inr lines)
            from inboundRules_plain[of policy q lines] r Inr have "lines = List.map_filter writeRule (fa_rules (plain_answers q))" by simp
            then show ?thesis using init p on rules r Inr owner nets on'
              by (simp add: query_com_def com_create_def ap_def Let_def split_beta fw_release_obj fw_query_def query_lines_def res_def)
          qed
          then show ?thesis
            by (rule done') (use keeps_append[OF keeps_firewallOwner keeps_bracket[OF i]] in \<open>auto simp: res_def split: sum.splits\<close>)
        qed
      qed
    qed
  qed
qed

text \<open>A computer with one product that is not a firewall, a network and one rule for the program.\<close>

definition ex_product :: raw_product where
  "ex_product = \<lparr>rp_item = (0, 11), rp_categories = (0, \<lparr>va_vt = 3, va_val = 1\<rparr>),
     rp_array = \<lparr>sa_lower = (0, 0), sa_upper = (0, 0), sa_variant = \<lambda>_. (0, \<lparr>va_vt = 3, va_val = 1\<rparr>), sa_long = \<lambda>_. (0, 0)\<rparr>, rp_name = (0, 12, ''P'')\<rparr>"

definition ex_raw_rule :: raw_rule where
  "ex_raw_rule = \<lparr>rr_vt = 9, rr_val = 30, rr_interface = (0, 31), rr_direction = (0, 1), rr_enabled = (0, -1), rr_action = (0, 1), rr_profiles = (0, 2),
     rr_name = (0, 32, ''c:/f.exe'')\<rparr>"

definition ex_query :: raw_query where
  "ex_query = \<lparr>rq_init = 0, rq_products = (0, 10), rq_count = (0, 1), rq_product = \<lambda>_. ex_product, rq_policy = (0, 20), rq_enabled = \<lambda>_. (0, -1),
     rq_manager = (0, 21), rq_networks = (0, 22),
     rq_network = \<lambda>i. (if i = 0 then \<lparr>rn_next = (0, 1, 23), rn_category = (0, 1)\<rparr> else \<lparr>rn_next = (1, 0, 0), rn_category = (0, 0)\<rparr>),
     rq_rules = (0, 24), rq_enum = (0, 25), rq_each = (0, 26),
     rq_next = [\<lparr>nx_ctx = False, nx_next = (0, 1), nx_rule = ex_raw_rule\<rparr>, \<lparr>nx_ctx = False, nx_next = (1, 0), nx_rule = ex_raw_rule\<rparr>]\<rparr>"

lemma query_com_refines_witness:
  "\<exists>l. query_com False ex_query = (Some (Inr (fw_query False (plain_answers ex_query))), l) \<and> run_log l {#} = Some {#}"
proof -
  have "\<exists>x \<in> set (rq_next ex_query). nx_ctx x \<or> com_failed (fst (nx_next x)) \<or> snd (nx_next x) = 0" by (simp add: ex_query_def)
  from query_com_refines[OF this, of False] obtain r l where q: "query_com False ex_query = (Some r, l)" "run_log l {#} = Some {#}"
    and r: "\<And>report. r = Inr report \<Longrightarrow> report = fw_query False (plain_answers ex_query)" by blast
  have "\<not> isl (the (fst (query_com False ex_query)))" by code_simp
  then obtain report where "r = Inr report" using q(1) by (cases r) auto
  with r q show ?thesis by blast
qed

section \<open>Arrays\<close>

lemma array_ints_bound: "length (fst (array_ints sa ty lo hi i)) \<le> nat (64 - i32 (i - lo))"
proof (induction sa ty lo hi i rule: array_ints.induct)
  case (1 sa ty lo hi i)
  have one: "length (fst (array_element sa ty i)) \<le> 1" by (auto simp: array_element_def split: prod.splits option.splits)
  show ?case
  proof (cases "i \<le> hi \<and> i32 (i - lo) < maxArrayLen")
    case True
    then have "length (fst (array_ints sa ty lo hi (i32 (i + 1)))) \<le> nat (64 - i32 (i32 (i + 1) - lo))" using 1 by (metis prod.collapse)
    moreover have "i32 (i32 (i + 1) - lo) = i32 (i - lo) + 1" using True by (intro i32_step) (simp add: maxArrayLen_def)
    moreover have "nat (64 - i32 (i - lo)) = Suc (nat (63 - i32 (i - lo)))"
      using True Suc_nat_eq_nat_zadd1[of "63 - i32 (i - lo)"] by (simp add: maxArrayLen_def)
    ultimately show ?thesis using one True by (subst array_ints.simps) (simp add: split_beta maxArrayLen_def)
  next
    case False
    then show ?thesis by (subst array_ints.simps) auto
  qed
qed

text \<open>At most 64 numbers are read from a variant, whatever bounds its array claims.\<close>

lemma variant_ints_bound: "length (fst (variant_ints v sa)) \<le> 64"
proof -
  have "i32 0 = 0" by (simp add: i32_def)
  then have "length (fst (array_ints sa ty lo hi lo)) \<le> 64" for ty lo hi using array_ints_bound[of sa ty lo hi lo] by simp
  then show ?thesis by (auto simp: variant_ints_def split: option.splits)
qed

text \<open>An array whose upper bound is the greatest 32-bit number is read past it: the index wraps, and the loop goes on below
  the lower bound up to its limit.\<close>

lemma array_wraps: "length (fst (array_ints \<lparr>sa_lower = (0, 0), sa_upper = (0, 0), sa_variant = \<lambda>_. (0, \<lparr>va_vt = 3, va_val = 1\<rparr>), sa_long = \<lambda>i. (0, i)\<rparr> vtI4
      (2 ^ 31 - 1) (2 ^ 31 - 1) (2 ^ 31 - 1))) > 1"
proof -
  have a: "i32 (2 ^ 31 - 1 - (2 ^ 31 - 1)) = 0" "i32 (2 ^ 31 - 1 + 1) = - (2 ^ 31)" "i32 (- (2 ^ 31) - (2 ^ 31 - 1)) = 1" by (simp_all add: i32_def)
  show ?thesis
    by (subst array_ints.simps, subst array_ints.simps) (simp add: a split_beta array_element_def com_failed_def i32_def u32_def vtI4_def vtVariant_def maxArrayLen_def)
qed

end
