(* ===== verification/Live.thy ===== *)
theory Live
  imports Coordinator Peer TransferSafety Clipboard InputHandler
begin

text \<open>
  \<open>live\<close>, \<open>prepare\<close> and the end of \<open>run\<close> in \<open>session/coordinator.go\<close>: how the parts of one session hang together. The
  handlers that \<open>prepare\<close> gives the data channels route every frame by the channel's label, to the input handler, the
  clipboard or the transfers; the operator's yes adds the clipboard; the end lets everything go. Channel events,
  frames, the operator's decision and the goroutines of the parts are steps in any order; that frames come on open
  channels only, and that only an open channel closes, is what pion does. The theory shows that each part of a
  session makes a run of its own theory, whatever the others do, and that nothing is left of a session that is over.
\<close>

section \<open>The session\<close>

datatype channel_state = ChannelNew | ChannelOpen | ChannelClosed

datatype live_pc = LvPrepared | LvApproved | LvConnected | LvReleasing | LvOver

text \<open>\<open>lv_channels\<close> and \<open>lv_sent\<close> are the channels handed to the session, with what it sent on each beside files and
  clipboard texts; \<open>lv_calls\<close> is what was injected; the board is the operator's clipboard.\<close>

record live_session =
  lv_pc :: live_pc
  lv_input :: Handler
  lv_calls :: "inj_call list"
  lv_transfers :: sys
  lv_clip :: "Sync option"
  lv_board :: board
  lv_fileChannel :: "nat option"
  lv_channels :: "nat \<Rightarrow> (string \<times> channel_state) option"
  lv_sent :: "(nat \<times> jval) list"
  lv_closed :: bool
  lv_released :: bool
  lv_peer_closes :: nat

definition markClosed :: "live_session \<Rightarrow> live_session" where
  "markClosed s = s\<lparr>lv_closed := True\<rparr>"

text \<open>The state \<open>prepare\<close> builds, with the operator's clipboard as it is then; a failure to make the track or the
  peer closes the transfers again.\<close>

definition live_init :: "Dest \<Rightarrow> disk \<Rightarrow> board \<Rightarrow> live_session" where
  "live_init d dk b =
     \<lparr>lv_pc = LvPrepared, lv_input = newHandler, lv_calls = [], lv_transfers = sys_init d dk, lv_clip = None, lv_board = b,
      lv_fileChannel = None, lv_channels = \<lambda>_. None, lv_sent = [], lv_closed = False, lv_released = False, lv_peer_closes = 0\<rparr>"

definition transfers_Close :: "live_session \<Rightarrow> live_session" where
  "transfers_Close s = s\<lparr>lv_transfers := (lv_transfers s)\<lparr>sy_s := CloseSession (sy_s (lv_transfers s))\<rparr>\<rparr>"

definition prepare :: "bool \<Rightarrow> bool \<Rightarrow> Dest \<Rightarrow> disk \<Rightarrow> board \<Rightarrow> bool \<times> live_session" where
  "prepare track_ok peer_ok d dk b =
     (let s = live_init d dk b in if \<not> track_ok then (False, transfers_Close s) else if \<not> peer_ok then (False, transfers_Close s) else (True, s))"

definition stop_clip :: "live_session \<Rightarrow> live_session" where
  "stop_clip s = s\<lparr>lv_clip := map_option clip_Stop (lv_clip s)\<rparr>"

text \<open>\<open>live.release\<close>.\<close>

definition release :: "live_session \<Rightarrow> live_session" where
  "release s =
     (if lv_released s then s
      else (let s' = stop_clip (transfers_Close s) in s'\<lparr>lv_released := True, lv_peer_closes := lv_peer_closes s' + 1\<rparr>))"

definition release_input :: "live_session \<Rightarrow> live_session" where
  "release_input s = (case ReleaseAll (lv_input s) of (cs, h) \<Rightarrow> s\<lparr>lv_input := h, lv_calls := lv_calls s @ cs\<rparr>)"

section \<open>The handlers\<close>

text \<open>\<open>OnDataChannel\<close>, \<open>OnOpen\<close>, \<open>OnMessage\<close>, \<open>OnClose\<close>. A frame is text, with the JSON value in it if any, or bytes.\<close>

datatype frame = TextFrame "jval option" | BinaryFrame string

definition OnDataChannel :: "nat \<Rightarrow> string \<Rightarrow> live_session \<Rightarrow> live_session" where
  "OnDataChannel i label s =
     (let s' = s\<lparr>lv_channels := (lv_channels s)(i \<mapsto> (label, ChannelNew))\<rparr>
      in if label = FileChannelLabel
         then s'\<lparr>lv_transfers := (lv_transfers s')\<lparr>sy_s := Attach (sy_s (lv_transfers s'))\<rparr>, lv_fileChannel := Some i\<rparr>
         else s')"

definition OnOpen :: "jval \<Rightarrow> nat \<Rightarrow> string \<Rightarrow> live_session \<Rightarrow> live_session" where
  "OnOpen hello i label s =
     (let s' = s\<lparr>lv_channels := (lv_channels s)(i \<mapsto> (label, ChannelOpen))\<rparr>
      in if label \<noteq> InputChannelLabel then s' else s'\<lparr>lv_sent := lv_sent s' @ [(i, hello)]\<rparr>)"

text \<open>\<open>transfers.Handle\<close>: up to the end of the lock region; \<open>finishFile\<close> is a step of its own.\<close>

definition transfers_Handle :: "os_err option \<Rightarrow> instant \<Rightarrow> frame \<Rightarrow> sys \<Rightarrow> sys" where
  "transfers_Handle werr now f y =
     (case f of
        TextFrame data \<Rightarrow> (case handleControl data (sy_s y) of (js, t) \<Rightarrow> y\<lparr>sy_s := t, sy_jobs := sy_jobs y @ start_jobs js\<rparr>)
      | BinaryFrame data \<Rightarrow> (case handleChunk werr now data (sy_s y) of (full, t) \<Rightarrow> y\<lparr>sy_s := t, sy_finish := full\<rparr>))"

record frame_env =
  fe_busy :: bool
  fe_werr :: "os_err option"
  fe_now :: instant
  fe_write :: write_result

definition OnInput :: "frame_env \<Rightarrow> frame \<Rightarrow> live_session \<Rightarrow> live_session" where
  "OnInput e f s =
     (case f of
        TextFrame data \<Rightarrow> (case applyInput (fe_busy e) data (lv_input s) of (cs, h) \<Rightarrow> s\<lparr>lv_input := h, lv_calls := lv_calls s @ cs\<rparr>)
      | BinaryFrame _ \<Rightarrow> s)"

definition is_clip_frame :: "frame \<Rightarrow> live_session \<Rightarrow> bool" where
  "is_clip_frame f s \<longleftrightarrow> (case f of TextFrame data \<Rightarrow> lv_clip s \<noteq> None \<and> peekType data = clip_Type | BinaryFrame _ \<Rightarrow> False)"

definition clip_does :: "clip_event \<Rightarrow> live_session \<Rightarrow> live_session" where
  "clip_does ev s =
     (case lv_clip s of
        None \<Rightarrow> s
      | Some y \<Rightarrow> (case clip_step ev (lv_board s, y) of (b, y') \<Rightarrow> s\<lparr>lv_board := b, lv_clip := Some y'\<rparr>))"

definition OnFile :: "frame_env \<Rightarrow> frame \<Rightarrow> live_session \<Rightarrow> live_session" where
  "OnFile e f s =
     (case f of
        TextFrame data \<Rightarrow>
          if is_clip_frame f s then clip_does (CeFrame (fe_write e) data) s
          else s\<lparr>lv_transfers := transfers_Handle (fe_werr e) (fe_now e) f (lv_transfers s)\<rparr>
      | BinaryFrame _ \<Rightarrow> s\<lparr>lv_transfers := transfers_Handle (fe_werr e) (fe_now e) f (lv_transfers s)\<rparr>)"

definition OnMessage :: "frame_env \<Rightarrow> string \<Rightarrow> frame \<Rightarrow> live_session \<Rightarrow> live_session" where
  "OnMessage e label f s =
     (if label = InputChannelLabel then OnInput e f s else if label = FileChannelLabel then OnFile e f s else s)"

definition OnClose :: "nat \<Rightarrow> string \<Rightarrow> live_session \<Rightarrow> live_session" where
  "OnClose i label s =
     (let s' = s\<lparr>lv_channels := (lv_channels s)(i \<mapsto> (label, ChannelClosed))\<rparr>
      in if label = InputChannelLabel then release_input s'
         else if label = FileChannelLabel then stop_clip (transfers_Close s')
         else s')"

text \<open>The operator said yes: \<open>run\<close> starts the clipboard, when text is shared and the system lets it.\<close>

definition start_clip :: "string \<Rightarrow> bool \<Rightarrow> live_session \<Rightarrow> live_session" where
  "start_clip mode clip_ok s =
     (if mode = ModeText \<and> clip_ok then s\<lparr>lv_clip := NewSync mode True (lv_board s)\<rparr> else s)"

section \<open>Any order\<close>

text \<open>\<open>settled\<close> says whether the frame goroutine of the transfers is between two lock regions, in which case it takes no
  frame. \<open>hello\<close> is the greeting of this agent.\<close>

inductive live_step :: "string \<Rightarrow> jval \<Rightarrow> live_session \<Rightarrow> live_session \<Rightarrow> bool" for mode :: string and hello :: jval where
  channel: "lv_channels s i = None \<Longrightarrow> live_step mode hello s (OnDataChannel i label s)"
| opens: "lv_channels s i = Some (label, ChannelNew) \<Longrightarrow> live_step mode hello s (OnOpen hello i label s)"
| message: "lv_channels s i = Some (label, ChannelOpen) \<Longrightarrow> (label = FileChannelLabel \<Longrightarrow> \<not> sy_finish (lv_transfers s)) \<Longrightarrow>
     (\<And>data. f = BinaryFrame data \<Longrightarrow> slice_ok data) \<Longrightarrow> live_step mode hello s (OnMessage e label f s)"
| closes: "lv_channels s i = Some (label, ChannelOpen) \<Longrightarrow> live_step mode hello s (OnClose i label s)"
| peer_gone: "live_step mode hello s (markClosed s)"
| transfers: "tstep (lv_transfers s) y \<Longrightarrow> live_step mode hello s (s\<lparr>lv_transfers := y\<rparr>)"
| worker: "live_step mode hello s (clip_does (CePoll fe te) s)"
| pasted: "live_step mode hello s (clip_does (CePut w paths) s)"
| copied: "live_step mode hello s (case lv_clip s of None \<Rightarrow> s\<lparr>lv_board := b\<rparr> | Some _ \<Rightarrow> clip_does (CeCopy text' files priv) s)"
| no: "lv_pc s = LvPrepared \<Longrightarrow> live_step mode hello s ((release s)\<lparr>lv_pc := LvOver\<rparr>)"
| yes: "lv_pc s = LvPrepared \<Longrightarrow> live_step mode hello s ((start_clip mode ok s)\<lparr>lv_pc := LvApproved\<rparr>)"
| negotiation_fails: "lv_pc s = LvApproved \<Longrightarrow> live_step mode hello s ((release s)\<lparr>lv_pc := LvOver\<rparr>)"
| connected: "lv_pc s = LvApproved \<Longrightarrow> live_step mode hello s (s\<lparr>lv_pc := LvConnected\<rparr>)"
| ends: "lv_pc s = LvConnected \<Longrightarrow> live_step mode hello s ((release_input s)\<lparr>lv_pc := LvReleasing\<rparr>)"
| released: "lv_pc s = LvReleasing \<Longrightarrow> live_step mode hello s ((release s)\<lparr>lv_pc := LvOver\<rparr>)"
| again: "lv_pc s = LvOver \<Longrightarrow> live_step mode hello s (release s)"

inductive_cases live_stepE: "live_step mode hello s s'"

definition live_reach :: "string \<Rightarrow> jval \<Rightarrow> Dest \<Rightarrow> disk \<Rightarrow> board \<Rightarrow> live_session \<Rightarrow> bool" where
  "live_reach mode hello d dk b s \<longleftrightarrow> (live_step mode hello)\<^sup>*\<^sup>* (live_init d dk b) s"

section \<open>What each operation leaves alone\<close>

lemmas live_ops =
  OnDataChannel_def OnOpen_def OnMessage_def OnInput_def OnFile_def OnClose_def markClosed_def transfers_Close_def stop_clip_def
  release_def release_input_def start_clip_def

lemma clip_does_sel [simp]:
  "lv_pc (clip_does ev s) = lv_pc s" "lv_input (clip_does ev s) = lv_input s" "lv_calls (clip_does ev s) = lv_calls s"
  "lv_transfers (clip_does ev s) = lv_transfers s" "lv_channels (clip_does ev s) = lv_channels s" "lv_sent (clip_does ev s) = lv_sent s"
  "lv_released (clip_does ev s) = lv_released s" "lv_peer_closes (clip_does ev s) = lv_peer_closes s"
  by (simp_all add: clip_does_def split: option.splits prod.splits)

lemma transfers_Close_sel [simp]:
  "lv_pc (transfers_Close s) = lv_pc s" "lv_input (transfers_Close s) = lv_input s" "lv_calls (transfers_Close s) = lv_calls s"
  "lv_clip (transfers_Close s) = lv_clip s" "lv_board (transfers_Close s) = lv_board s" "lv_channels (transfers_Close s) = lv_channels s"
  "lv_sent (transfers_Close s) = lv_sent s" "lv_released (transfers_Close s) = lv_released s" "lv_peer_closes (transfers_Close s) = lv_peer_closes s"
  by (simp_all add: transfers_Close_def)

lemma stop_clip_sel [simp]:
  "lv_pc (stop_clip s) = lv_pc s" "lv_input (stop_clip s) = lv_input s" "lv_calls (stop_clip s) = lv_calls s"
  "lv_transfers (stop_clip s) = lv_transfers s" "lv_board (stop_clip s) = lv_board s" "lv_channels (stop_clip s) = lv_channels s"
  "lv_sent (stop_clip s) = lv_sent s" "lv_released (stop_clip s) = lv_released s" "lv_peer_closes (stop_clip s) = lv_peer_closes s"
  by (simp_all add: stop_clip_def)

lemma release_sel [simp]:
  "lv_pc (release s) = lv_pc s" "lv_input (release s) = lv_input s" "lv_calls (release s) = lv_calls s" "lv_board (release s) = lv_board s"
  "lv_channels (release s) = lv_channels s" "lv_sent (release s) = lv_sent s" "lv_released (release s)"
  by (simp_all add: release_def Let_def)

lemma release_input_sel [simp]:
  "lv_pc (release_input s) = lv_pc s" "lv_input (release_input s) = snd (ReleaseAll (lv_input s))"
  "lv_calls (release_input s) = lv_calls s @ fst (ReleaseAll (lv_input s))" "lv_transfers (release_input s) = lv_transfers s"
  "lv_clip (release_input s) = lv_clip s" "lv_board (release_input s) = lv_board s" "lv_channels (release_input s) = lv_channels s"
  "lv_sent (release_input s) = lv_sent s" "lv_released (release_input s) = lv_released s" "lv_peer_closes (release_input s) = lv_peer_closes s"
  by (simp_all add: release_input_def split: prod.split)

lemma OnInput_sel [simp]:
  "lv_pc (OnInput e f s) = lv_pc s" "lv_transfers (OnInput e f s) = lv_transfers s" "lv_clip (OnInput e f s) = lv_clip s"
  "lv_board (OnInput e f s) = lv_board s" "lv_channels (OnInput e f s) = lv_channels s" "lv_sent (OnInput e f s) = lv_sent s"
  "lv_released (OnInput e f s) = lv_released s" "lv_peer_closes (OnInput e f s) = lv_peer_closes s"
  by (simp_all add: OnInput_def split: frame.split prod.split)

lemma OnFile_sel [simp]:
  "lv_pc (OnFile e f s) = lv_pc s" "lv_input (OnFile e f s) = lv_input s" "lv_calls (OnFile e f s) = lv_calls s"
  "lv_channels (OnFile e f s) = lv_channels s" "lv_sent (OnFile e f s) = lv_sent s"
  "lv_released (OnFile e f s) = lv_released s" "lv_peer_closes (OnFile e f s) = lv_peer_closes s"
  by (simp_all add: OnFile_def split: frame.split)

lemma start_clip_sel [simp]:
  "lv_pc (start_clip mode ok s) = lv_pc s" "lv_input (start_clip mode ok s) = lv_input s" "lv_calls (start_clip mode ok s) = lv_calls s"
  "lv_transfers (start_clip mode ok s) = lv_transfers s" "lv_board (start_clip mode ok s) = lv_board s" "lv_channels (start_clip mode ok s) = lv_channels s"
  "lv_sent (start_clip mode ok s) = lv_sent s" "lv_released (start_clip mode ok s) = lv_released s"
  "lv_peer_closes (start_clip mode ok s) = lv_peer_closes s"
  by (simp_all add: start_clip_def)

lemma labels_differ [simp]: "InputChannelLabel \<noteq> FileChannelLabel" "FileChannelLabel \<noteq> InputChannelLabel"
  by (simp_all add: InputChannelLabel_def FileChannelLabel_def)

section \<open>The input\<close>

definition input_open :: "live_session \<Rightarrow> bool" where
  "input_open s \<longleftrightarrow> (\<exists>i. lv_channels s i = Some (InputChannelLabel, ChannelOpen))"

definition input_part :: "live_session \<Rightarrow> bool" where
  "input_part s \<longleftrightarrow>
     (\<exists>evs. input_run evs newHandler = (lv_calls s, lv_input s))
     \<and> (input_open s \<or> hd_keySet (lv_input s) = {} \<and> held_buttons (lv_input s) = {})"

lemma input_part_ok:
  assumes "input_part s"
  shows "hd_ok (lv_input s)"
proof -
  obtain evs where "input_run evs newHandler = (lv_calls s, lv_input s)" using assms unfolding input_part_def by blast
  then show ?thesis using input_run_agrees[of newHandler evs] by (simp add: agrees_def)
qed

lemma input_part_event:
  assumes "input_part s" and "lv_calls s' = lv_calls s @ fst (input_event ev (lv_input s))" and "lv_input s' = snd (input_event ev (lv_input s))"
  shows "\<exists>evs. input_run evs newHandler = (lv_calls s', lv_input s')"
proof -
  obtain evs where "input_run evs newHandler = (lv_calls s, lv_input s)" using assms(1) by (auto simp: input_part_def)
  then have "input_run (evs @ [ev]) newHandler = (lv_calls s', lv_input s')"
    using assms(2,3) by (simp add: input_run_append split_beta prod_eq_iff)
  then show ?thesis by blast
qed

lemma input_part_same:
  assumes "input_part s" and "lv_calls s' = lv_calls s" and "lv_input s' = lv_input s" and "input_open s \<Longrightarrow> input_open s'"
  shows "input_part s'"
  using assms(1,4) unfolding input_part_def assms(2,3) by blast

lemma input_part_same_channels:
  "input_part s \<Longrightarrow> lv_calls s' = lv_calls s \<Longrightarrow> lv_input s' = lv_input s \<Longrightarrow> lv_channels s' = lv_channels s \<Longrightarrow> input_part s'"
  by (erule input_part_same) (simp_all add: input_open_def)

lemma input_part_release:
  assumes "input_part s" and "lv_calls s' = lv_calls s @ fst (ReleaseAll (lv_input s))" and "lv_input s' = snd (ReleaseAll (lv_input s))"
  shows "input_part s'"
  using input_part_event[OF assms(1), of s' Release] ReleaseAll_agrees(2,3)[OF input_part_ok[OF assms(1)]]
  unfolding input_part_def by (simp add: assms(2,3) input_event_def)

lemma channel_keeps_open:
  assumes "input_open s" and "lv_channels s i \<noteq> Some (InputChannelLabel, ChannelOpen)" and "lv_channels s' = (lv_channels s)(i := c)"
  shows "input_open s'"
proof -
  obtain k where k: "lv_channels s k = Some (InputChannelLabel, ChannelOpen)" using assms(1) unfolding input_open_def by blast
  then have "k \<noteq> i" using assms(2) by blast
  with k have "lv_channels s' k = Some (InputChannelLabel, ChannelOpen)" by (simp add: assms(3))
  then show ?thesis unfolding input_open_def by blast
qed

lemma input_part_frame:
  assumes "input_part s" and "lv_channels s i = Some (InputChannelLabel, ChannelOpen)"
  shows "input_part (OnInput e f s)"
proof (cases f)
  case (TextFrame data)
  have c: "lv_calls (OnInput e f s) = lv_calls s @ fst (applyInput (fe_busy e) data (lv_input s))"
    "lv_input (OnInput e f s) = snd (applyInput (fe_busy e) data (lv_input s))"
    by (simp_all add: OnInput_def TextFrame split: prod.split)
  have "\<exists>evs. input_run evs newHandler = (lv_calls (OnInput e f s), lv_input (OnInput e f s))"
    by (rule input_part_event[OF assms(1), where ev = "Frame (fe_busy e) data"]) (simp_all add: c input_event_def)
  with assms(2) show ?thesis by (auto simp: input_part_def input_open_def)
next
  case (BinaryFrame data)
  with assms(1) show ?thesis by (simp add: OnInput_def)
qed

lemma On_sel [simp]:
  "lv_calls (OnDataChannel i label s) = lv_calls s" "lv_input (OnDataChannel i label s) = lv_input s"
  "lv_channels (OnDataChannel i label s) = (lv_channels s)(i \<mapsto> (label, ChannelNew))"
  "lv_calls (OnOpen hello i label s) = lv_calls s" "lv_input (OnOpen hello i label s) = lv_input s"
  "lv_channels (OnOpen hello i label s) = (lv_channels s)(i \<mapsto> (label, ChannelOpen))"
  "lv_channels (OnClose i label s) = (lv_channels s)(i \<mapsto> (label, ChannelClosed))"
  by (simp_all add: OnDataChannel_def OnOpen_def OnClose_def Let_def)

lemma live_step_input:
  assumes "live_step mode hello s s'" and "input_part s"
  shows "input_part s'"
  using assms
proof (induction rule: live_step.induct)
  case (channel s i label)
  show ?case by (rule input_part_same[OF channel(2)]) (simp_all add: channel_keeps_open[of s i] channel(1))
next
  case (opens s i label)
  show ?case by (rule input_part_same[OF opens(2)]) (simp_all add: channel_keeps_open[of s i] opens(1))
next
  case (message s i label f e)
  show ?case
  proof (cases "label = InputChannelLabel")
    case True
    with message(1,4) show ?thesis by (simp add: OnMessage_def input_part_frame)
  next
    case False
    show ?thesis by (rule input_part_same_channels[OF message(4)]) (simp_all add: OnMessage_def False)
  qed
next
  case (closes s i label)
  show ?case
  proof (cases "label = InputChannelLabel")
    case True
    show ?thesis by (rule input_part_release[OF closes(2)]) (simp_all add: OnClose_def Let_def True)
  next
    case False
    show ?thesis
      by (rule input_part_same[OF closes(2)]) (simp_all add: OnClose_def Let_def False channel_keeps_open[of s i] closes(1))
  qed
next
  case (ends s)
  show ?case by (rule input_part_release[OF ends(2)]) simp_all
qed (erule input_part_same_channels; simp add: markClosed_def split: option.split)+

section \<open>The transfers\<close>

lemma transfers_Handle_step:
  assumes "\<not> sy_finish y" and "\<And>data. f = BinaryFrame data \<Longrightarrow> slice_ok data"
  shows "tstep y (transfers_Handle werr now f y)"
proof (cases f)
  case (TextFrame data)
  obtain js t where "handleControl data (sy_s y) = (js, t)" by fastforce
  from tstep.control[OF assms(1) this] show ?thesis by (simp add: transfers_Handle_def TextFrame \<open>handleControl data (sy_s y) = (js, t)\<close>)
next
  case (BinaryFrame data)
  obtain full t where h: "handleChunk werr now data (sy_s y) = (full, t)" by fastforce
  from tstep.chunk[OF assms(1) assms(2)[OF BinaryFrame] h] show ?thesis by (simp add: transfers_Handle_def BinaryFrame h)
qed

lemma transfers_moved:
  assumes "live_step mode hello s s'"
  shows "tstep\<^sup>*\<^sup>* (lv_transfers s) (lv_transfers s')"
  using assms
proof (induction rule: live_step.induct)
  case (channel s i label)
  show ?case using tstep.attach[of "lv_transfers s"] by (simp add: OnDataChannel_def Let_def r_into_rtranclp)
next
  case (message s i label f e)
  show ?case
  proof (cases "label = FileChannelLabel \<and> \<not> is_clip_frame f s")
    case True
    then have "lv_transfers (OnMessage e label f s) = transfers_Handle (fe_werr e) (fe_now e) f (lv_transfers s)"
      by (cases f) (simp_all add: OnMessage_def OnFile_def)
    with True transfers_Handle_step[OF message(2,3)] show ?thesis by (simp add: r_into_rtranclp)
  next
    case False
    then have "lv_transfers (OnMessage e label f s) = lv_transfers s"
      by (auto simp: OnMessage_def OnFile_def is_clip_frame_def split: frame.splits)
    then show ?thesis by simp
  qed
next
  case (closes s i label)
  show ?case using tstep.close[of "lv_transfers s"]
    by (simp add: OnClose_def Let_def transfers_Close_def stop_clip_def r_into_rtranclp)
next
  case (copied s b text' files priv)
  show ?case by (simp split: option.split)
next
  case (no s)
  show ?case using tstep.close[of "lv_transfers s"] by (simp add: release_def Let_def transfers_Close_def stop_clip_def r_into_rtranclp)
next
  case (negotiation_fails s)
  show ?case using tstep.close[of "lv_transfers s"] by (simp add: release_def Let_def transfers_Close_def stop_clip_def r_into_rtranclp)
next
  case (released s)
  show ?case using tstep.close[of "lv_transfers s"] by (simp add: release_def Let_def transfers_Close_def stop_clip_def r_into_rtranclp)
next
  case (again s)
  show ?case using tstep.close[of "lv_transfers s"] by (simp add: release_def Let_def transfers_Close_def stop_clip_def r_into_rtranclp)
qed (simp_all add: OnOpen_def Let_def markClosed_def)

text \<open>A closed session with no batch stays closed.\<close>

lemma tstep_closed:
  assumes "tstep y y'" and "ss_closed (sy_s y)" and "ss_rx (sy_s y) = None"
  shows "ss_closed (sy_s y')"
  using assms
proof (induction rule: tstep.induct)
  case (control y data js s')
  from control_cases(1)[OF control(2)] control(3,4) show ?case by (auto simp: abort_def cancelSend_def split: option.split)
next
  case (offer y xs j ys answer ft s' js)
  show ?case
  proof (cases "\<exists>m ns. j = OBegin m ns")
    case True
    with offer show ?thesis by (auto simp: offer_step_def beginBatch_def split: prod.splits if_splits)
  next
    case False
    with offer_step_quiet(5)[OF offer(2)] offer(3) show ?thesis by simp
  qed
qed (auto simp: handleChunk_def finishFile_def claimSend_def clearSend_def set_offer_def Attach_def CloseSession_def send_msg_def
      split: if_splits option.splits)

lemma tsteps_closed:
  assumes "t_reach d dk y" and "tstep\<^sup>*\<^sup>* y y'" and "ss_closed (sy_s y)"
  shows "ss_closed (sy_s y')"
  using assms(2,3)
proof (induction rule: rtranclp_induct)
  case (step y1 y2)
  then have r: "t_reach d dk y1" using assms(1) by (auto simp: t_reach_def)
  have c: "ss_closed (sy_s y1)" using step by simp
  with t_reach_sess[OF r] have "ss_rx (sy_s y1) = None" by (simp add: sess_inv_def)
  from tstep_closed[OF step(2) c this] show ?case .
qed

section \<open>The clipboard\<close>

lemma clip_step_stopped: "sy_stopped (snd bs) \<Longrightarrow> sy_stopped (snd (clip_step ev bs))"
  by (cases ev) (auto simp: clip_step_def clip_Handle_def PutFiles_def clip_Stop_def write_text_def mark_own_def Let_def
      split: option.splits write_result.splits)

text \<open>A run of the clipboard alone that ends in this state; each frame in it is a clipboard frame.\<close>

definition clip_runs :: "string \<Rightarrow> board \<Rightarrow> Sync \<Rightarrow> bool" where
  "clip_runs mode b y \<longleftrightarrow>
     (\<exists>b0 s0 evs. NewSync mode True b0 = Some s0 \<and> clip_run evs (b0, s0) = (b, y)
        \<and> (\<forall>w data. CeFrame w data \<in> set evs \<longrightarrow> peekType data = clip_Type))"

definition clip_part :: "string \<Rightarrow> live_session \<Rightarrow> bool" where
  "clip_part mode s \<longleftrightarrow> (\<forall>y. lv_clip s = Some y \<longrightarrow> lv_pc s \<noteq> LvPrepared \<and> clip_runs mode (lv_board s) y)"

lemma clip_runs_step:
  assumes "clip_runs mode b y" and "clip_step ev (b, y) = (b', y')" and "\<And>w data. ev = CeFrame w data \<Longrightarrow> peekType data = clip_Type"
  shows "clip_runs mode b' y'"
proof -
  obtain b0 s0 evs where r: "NewSync mode True b0 = Some s0" "clip_run evs (b0, s0) = (b, y)"
    "\<forall>w data. CeFrame w data \<in> set evs \<longrightarrow> peekType data = clip_Type" using assms(1) unfolding clip_runs_def by blast
  have "clip_run (evs @ [ev]) (b0, s0) = (b', y')" using r(2) assms(2) by (simp add: clip_run_def)
  moreover have "\<forall>w data. CeFrame w data \<in> set (evs @ [ev]) \<longrightarrow> peekType data = clip_Type" using r(3) assms(3) by auto
  ultimately show ?thesis using r(1) unfolding clip_runs_def by blast
qed

lemma clip_part_does:
  assumes "clip_part mode s" and "\<And>w data. ev = CeFrame w data \<Longrightarrow> peekType data = clip_Type"
  shows "clip_part mode (clip_does ev s)"
proof (cases "lv_clip s")
  case (Some y)
  obtain b' y' where st: "clip_step ev (lv_board s, y) = (b', y')" by fastforce
  from assms(1) Some have p: "lv_pc s \<noteq> LvPrepared" "clip_runs mode (lv_board s) y" by (simp_all add: clip_part_def)
  have "clip_runs mode b' y'" by (rule clip_runs_step[OF p(2) st assms(2)])
  with p st Some show ?thesis by (simp add: clip_part_def clip_does_def)
qed (use assms in \<open>simp add: clip_part_def clip_does_def\<close>)

lemma clip_part_stop:
  assumes "clip_part mode s"
  shows "clip_part mode (stop_clip s)"
proof (cases "lv_clip s")
  case (Some y)
  have "clip_step CeStop (lv_board s, y) = (lv_board s, clip_Stop y)" by (simp add: clip_step_def)
  moreover from assms Some have p: "lv_pc s \<noteq> LvPrepared" "clip_runs mode (lv_board s) y" by (simp_all add: clip_part_def)
  ultimately have "clip_runs mode (lv_board s) (clip_Stop y)" using clip_runs_step by blast
  with p Some show ?thesis by (simp add: clip_part_def stop_clip_def)
qed (use assms in \<open>simp add: clip_part_def stop_clip_def\<close>)

lemma clip_part_same:
  "clip_part mode s \<Longrightarrow> lv_clip s' = lv_clip s \<Longrightarrow> lv_board s' = lv_board s \<Longrightarrow> (lv_pc s \<noteq> LvPrepared \<Longrightarrow> lv_pc s' \<noteq> LvPrepared) \<Longrightarrow> clip_part mode s'"
  by (simp add: clip_part_def)

lemma release_clip: "lv_clip (release s) = (if lv_released s then lv_clip s else lv_clip (stop_clip s))"
  by (simp add: release_def Let_def stop_clip_def)

lemma clip_part_release:
  assumes "clip_part mode s" and "lv_clip s' = lv_clip (release s)" and "lv_board s' = lv_board s" and "lv_pc s' \<noteq> LvPrepared"
  shows "clip_part mode s'"
proof -
  from clip_part_stop[OF assms(1)] assms(1) have "lv_clip (release s) = Some y \<Longrightarrow> clip_runs mode (lv_board s) y" for y
    by (cases "lv_released s") (simp_all add: clip_part_def release_clip)
  with assms show ?thesis by (simp add: clip_part_def)
qed

lemma clip_part_file:
  assumes "clip_part mode s"
  shows "clip_part mode (OnFile e f s)"
proof (cases "is_clip_frame f s")
  case True
  then obtain data where f: "f = TextFrame data" "peekType data = clip_Type" by (cases f) (auto simp: is_clip_frame_def)
  have "clip_part mode (clip_does (CeFrame (fe_write e) data) s)" by (rule clip_part_does[OF assms]) (simp add: f)
  then show ?thesis using f True by (simp add: OnFile_def)
next
  case False
  then show ?thesis by (intro clip_part_same[OF assms]) (cases f; simp add: OnFile_def)+
qed

lemma live_step_clip:
  assumes "live_step mode hello s s'" and "clip_part mode s"
  shows "clip_part mode s'"
  using assms
proof (induction rule: live_step.induct)
  case (message s i label f e)
  then show ?case by (auto simp: OnMessage_def intro: clip_part_file clip_part_same)
next
  case (closes s i label)
  have p: "clip_part mode (s\<lparr>lv_channels := (lv_channels s)(i \<mapsto> (label, ChannelClosed))\<rparr>)"
    by (rule clip_part_same[OF closes(2)]) simp_all
  have "clip_part mode (transfers_Close (s\<lparr>lv_channels := (lv_channels s)(i \<mapsto> (label, ChannelClosed))\<rparr>))"
    by (rule clip_part_same[OF p]) simp_all
  then have "clip_part mode (stop_clip (transfers_Close (s\<lparr>lv_channels := (lv_channels s)(i \<mapsto> (label, ChannelClosed))\<rparr>)))"
    by (rule clip_part_stop)
  with p show ?case by (auto simp: OnClose_def Let_def intro: clip_part_same)
next
  case (worker s fe te)
  show ?case by (rule clip_part_does[OF worker]) simp
next
  case (pasted s w paths)
  show ?case by (rule clip_part_does[OF pasted]) simp
next
  case (copied s b text' files priv)
  show ?case
  proof (cases "lv_clip s")
    case None
    then show ?thesis by (simp add: clip_part_def)
  next
    case (Some y)
    have "clip_part mode (clip_does (CeCopy text' files priv) s)" by (rule clip_part_does[OF copied]) simp
    with Some show ?thesis by simp
  qed
next
  case (yes s ok)
  show ?case
  proof (cases "mode = ModeText \<and> ok")
    case True
    then obtain y where y: "NewSync mode True (lv_board s) = Some y" by (simp add: NewSync_def)
    then have "clip_runs mode (lv_board s) y" unfolding clip_runs_def
      by (intro exI[of _ "lv_board s"] exI[of _ y] exI[of _ "[]"]) (simp add: clip_run_def)
    with True y show ?thesis by (simp add: start_clip_def clip_part_def)
  next
    case False
    show ?thesis by (rule clip_part_same[OF yes(2)]) (use False yes(1) in \<open>auto simp: start_clip_def\<close>)
  qed
next
  case (no s)
  show ?case by (rule clip_part_release[OF no(2)]) simp_all
next
  case (negotiation_fails s)
  show ?case by (rule clip_part_release[OF negotiation_fails(2)]) simp_all
next
  case (released s)
  show ?case by (rule clip_part_release[OF released(2)]) simp_all
next
  case (again s)
  show ?case by (rule clip_part_release[OF again(2)]) (simp_all add: again(1))
qed (auto simp: OnDataChannel_def OnOpen_def Let_def markClosed_def elim!: clip_part_same)

section \<open>The end\<close>

definition all_stopped :: "live_session \<Rightarrow> bool" where
  "all_stopped s \<longleftrightarrow> ss_closed (sy_s (lv_transfers s)) \<and> (\<forall>y. lv_clip s = Some y \<longrightarrow> sy_stopped y)"

definition over_part :: "live_session \<Rightarrow> bool" where
  "over_part s \<longleftrightarrow>
     (lv_released s \<longleftrightarrow> lv_pc s = LvOver) \<and> lv_peer_closes s = (if lv_released s then 1 else 0) \<and> (lv_released s \<longrightarrow> all_stopped s)"

lemma CloseSession_closed [simp]: "ss_closed (CloseSession s)"
  by (simp add: CloseSession_def abortSendLocked_def abortLocked_def split: option.split)

lemma release_stops: "over_part s \<Longrightarrow> all_stopped (release s)"
  by (auto simp: over_part_def all_stopped_def release_def Let_def stop_clip_def transfers_Close_def clip_Stop_def)

lemma release_closes: "over_part s \<Longrightarrow> lv_peer_closes (release s) = 1"
  by (simp add: over_part_def release_def Let_def)

lemma over_release:
  assumes "over_part s" and "s' = (release s)\<lparr>lv_pc := LvOver\<rparr>"
  shows "over_part s'"
  using release_stops[OF assms(1)] release_closes[OF assms(1)] unfolding assms(2)
  by (simp add: over_part_def all_stopped_def)

text \<open>Nothing that is stopped starts again.\<close>

lemma live_step_stopped:
  assumes "live_step mode hello s s'" and "all_stopped s" and "t_reach d dk (lv_transfers s)" and "lv_pc s = LvOver"
  shows "all_stopped s'"
proof -
  have "ss_closed (sy_s (lv_transfers s'))"
    using tsteps_closed[OF assms(3) transfers_moved[OF assms(1)]] assms(2) by (simp add: all_stopped_def)
  moreover have d: "sy_stopped y" if "lv_clip (clip_does ev s) = Some y" "all_stopped s" for ev s y
  proof (cases "lv_clip s")
    case (Some z)
    have "sy_stopped z" using that(2) Some by (simp add: all_stopped_def)
    with clip_step_stopped[of "(lv_board s, z)" ev] that(1) Some show ?thesis by (simp add: clip_does_def split: prod.splits)
  qed (use that in \<open>simp add: clip_does_def\<close>)
  have st: "sy_stopped y" if "lv_clip (stop_clip s) = Some y" for s y using that by (auto simp: stop_clip_def clip_Stop_def)
  have "\<forall>y. lv_clip s' = Some y \<longrightarrow> sy_stopped y"
    using assms(1,2,4)
  proof (induction rule: live_step.induct)
    case (message s i label f e)
    then show ?case using d[of _ s]
      by (cases f) (auto simp: OnMessage_def OnFile_def all_stopped_def split: if_splits)
  next
    case (closes s i label)
    then show ?case by (auto simp: OnClose_def Let_def all_stopped_def intro: st)
  next
    case (again s)
    then show ?case by (auto simp: release_clip all_stopped_def intro: st)
  next
    case (copied s b text' files priv)
    then show ?case using d[of _ s] by (cases "lv_clip s") simp_all
  qed (auto simp: OnDataChannel_def OnOpen_def Let_def markClosed_def all_stopped_def intro: d)
  ultimately show ?thesis by (simp add: all_stopped_def)
qed

lemma clip_does_over: "lv_pc s' = lv_pc s \<Longrightarrow> lv_released s' = lv_released s \<Longrightarrow> lv_peer_closes s' = lv_peer_closes s \<Longrightarrow>
   \<not> lv_released s \<Longrightarrow> over_part s \<Longrightarrow> over_part s'"
  by (simp add: over_part_def)

lemma live_step_over:
  assumes "live_step mode hello s s'" and "over_part s" and "t_reach d dk (lv_transfers s)"
  shows "over_part s'"
proof (cases "lv_pc s = LvOver")
  case True
  then have o: "lv_released s" "lv_peer_closes s = 1" "all_stopped s" using assms(2) by (simp_all add: over_part_def)
  have "lv_pc s' = LvOver \<and> lv_released s' \<and> lv_peer_closes s' = 1"
    using assms(1) True o
    by (induction rule: live_step.induct)
       (auto simp: OnDataChannel_def OnOpen_def OnMessage_def OnClose_def Let_def markClosed_def release_def split: option.split)
  with live_step_stopped[OF assms(1) o(3) assms(3) True] show ?thesis by (simp add: over_part_def)
next
  case False
  then have n: "\<not> lv_released s" using assms(2) by (simp add: over_part_def)
  show ?thesis using assms(1,2) False n
  proof (induction rule: live_step.induct)
    case (no s)
    show ?case by (rule over_release[OF no(2) refl])
  next
    case (negotiation_fails s)
    show ?case by (rule over_release[OF negotiation_fails(2) refl])
  next
    case (released s)
    show ?case by (rule over_release[OF released(2) refl])
  qed (auto simp: over_part_def OnDataChannel_def OnOpen_def OnMessage_def OnClose_def Let_def markClosed_def split: option.split)
qed

section \<open>The greeting\<close>

definition greeted :: "jval \<Rightarrow> live_session \<Rightarrow> bool" where
  "greeted hello s \<longleftrightarrow>
     distinct (map fst (lv_sent s)) \<and> snd ` set (lv_sent s) \<subseteq> {hello}
     \<and> fst ` set (lv_sent s) = {i. \<exists>c. lv_channels s i = Some (InputChannelLabel, c) \<and> c \<noteq> ChannelNew}"

lemma greeted_same: "greeted hello s \<Longrightarrow> lv_sent s' = lv_sent s \<Longrightarrow>
    (\<And>i. (\<exists>c. lv_channels s' i = Some (InputChannelLabel, c) \<and> c \<noteq> ChannelNew) = (\<exists>c. lv_channels s i = Some (InputChannelLabel, c) \<and> c \<noteq> ChannelNew)) \<Longrightarrow>
    greeted hello s'"
  by (simp add: greeted_def)

lemma live_step_greeted:
  assumes "live_step mode hello s s'" and "greeted hello s"
  shows "greeted hello s'"
  using assms
proof (induction rule: live_step.induct)
  case (channel s i label)
  show ?case by (rule greeted_same[OF channel(2)]) (auto simp: OnDataChannel_def Let_def channel(1))
next
  case (opens s i label)
  show ?case
  proof (cases "label = InputChannelLabel")
    case True
    have "i \<notin> fst ` set (lv_sent s)" using opens by (simp add: greeted_def)
    with opens True show ?thesis by (auto simp: greeted_def OnOpen_def Let_def)
  next
    case False
    show ?thesis by (rule greeted_same[OF opens(2)]) (use False opens(1) in \<open>auto simp: OnOpen_def Let_def\<close>)
  qed
next
  case (closes s i label)
  show ?case by (rule greeted_same[OF closes(2)]) (use closes(1) in \<open>auto simp: OnClose_def Let_def\<close>)
qed (erule greeted_same; simp add: OnMessage_def markClosed_def split: option.split)+

section \<open>Every session\<close>

text \<open>\<open>prepare\<close> either gives the state all this starts from, or leaves nothing open.\<close>

lemma prepare_gives:
  "prepare track_ok peer_ok d dk b = (ok, s) \<Longrightarrow> if ok then s = live_init d dk b else ss_closed (sy_s (lv_transfers s)) \<and> lv_clip s = None"
  by (auto simp: prepare_def Let_def transfers_Close_def live_init_def split: if_splits)

lemma live_init_parts:
  "input_part (live_init d dk b)" "clip_part mode (live_init d dk b)" "over_part (live_init d dk b)" "greeted hello (live_init d dk b)"
  "t_reach d dk (lv_transfers (live_init d dk b))"
proof -
  show "input_part (live_init d dk b)"
    unfolding input_part_def by (auto simp: live_init_def intro: exI[of _ "[]"])
qed (simp_all add: clip_part_def over_part_def greeted_def live_init_def t_reach_def)

lemma live_reach_parts:
  assumes "live_reach mode hello d dk b s"
  shows "input_part s \<and> clip_part mode s \<and> over_part s \<and> greeted hello s \<and> t_reach d dk (lv_transfers s)"
  using assms unfolding live_reach_def
proof (induction rule: rtranclp_induct)
  case base
  show ?case by (simp add: live_init_parts)
next
  case (step s1 s2)
  then have "t_reach d dk (lv_transfers s2)" using transfers_moved[OF step(2)] by (auto simp: t_reach_def)
  with step live_step_input[OF step(2)] live_step_clip[OF step(2)] live_step_over[OF step(2)] live_step_greeted[OF step(2)]
  show ?case by blast
qed

text \<open>Every input channel that opened was greeted once, before anything else, and no other channel was.\<close>

lemma greeted_once:
  "live_reach mode hello d dk b s \<Longrightarrow>
   distinct (map fst (lv_sent s)) \<and> snd ` set (lv_sent s) \<subseteq> {hello}
   \<and> fst ` set (lv_sent s) = {i. \<exists>c. lv_channels s i = Some (InputChannelLabel, c) \<and> c \<noteq> ChannelNew}"
  using live_reach_parts[of mode hello d dk b s] by (simp add: greeted_def)

text \<open>C10: whatever the other parts of the session do, and in whatever order, each part makes a run of its own theory: what
  was injected is what the input handler makes of some sequence of frames and releases, the transfers are in a state
  their own steps reach, and the clipboard, of which there is none before the operator's yes, has seen only frames
  addressed to it.\<close>

theorem session_composes:
  assumes "live_reach mode hello d dk b s"
  shows "(\<exists>evs. input_run evs newHandler = (lv_calls s, lv_input s)) \<and> t_reach d dk (lv_transfers s)
     \<and> (lv_clip s = None \<or> lv_pc s \<noteq> LvPrepared \<and> mode = ModeText
          \<and> (\<exists>b0 s0 evs. NewSync mode True b0 = Some s0 \<and> clip_run evs (b0, s0) = (lv_board s, the (lv_clip s))
               \<and> (\<forall>w data. CeFrame w data \<in> set evs \<longrightarrow> peekType data = clip_Type)))"
proof -
  note p = live_reach_parts[OF assms]
  have "lv_clip s = None \<or> lv_pc s \<noteq> LvPrepared \<and> clip_runs mode (lv_board s) (the (lv_clip s))"
    using p by (cases "lv_clip s") (simp_all add: clip_part_def)
  moreover have "clip_runs mode c y \<Longrightarrow> mode = ModeText" for c y by (auto simp: clip_runs_def NewSync_def split: if_splits)
  ultimately show ?thesis using p unfolding input_part_def clip_runs_def by blast
qed

text \<open>C11: once a session is over, however it went, its peer was closed exactly once, no batch and no outbound offer is left,
  its clipboard has stopped, and as soon as no input channel is open nothing it pressed is still down.\<close>

theorem session_lets_go:
  assumes "live_reach mode hello d dk b s" and "lv_pc s = LvOver"
  shows "lv_peer_closes s = 1 \<and> ss_rx (sy_s (lv_transfers s)) = None \<and> ss_tx (sy_s (lv_transfers s)) = None
     \<and> (lv_clip s = None \<or> sy_stopped (the (lv_clip s)))
     \<and> (input_open s \<or> pressed_keys (lv_calls s) = {} \<and> pressed_buttons (lv_calls s) = {})"
proof -
  note p = live_reach_parts[OF assms(1)]
  then have o: "lv_peer_closes s = 1" "all_stopped s" using assms(2) by (simp_all add: over_part_def)
  have t: "ss_rx (sy_s (lv_transfers s)) = None" "ss_tx (sy_s (lv_transfers s)) = None"
    using t_reach_sess[of d dk "lv_transfers s"] p o(2) by (simp_all add: sess_inv_def all_stopped_def)
  obtain evs where e: "input_run evs newHandler = (lv_calls s, lv_input s)" using p unfolding input_part_def by blast
  have "pressed_keys (lv_calls s) = hd_keySet (lv_input s)" "pressed_buttons (lv_calls s) = held_buttons (lv_input s)"
    using input_run_pressed[of evs] by (simp_all add: e)
  then have "input_open s \<or> pressed_keys (lv_calls s) = {} \<and> pressed_buttons (lv_calls s) = {}"
    using p unfolding input_part_def by simp
  with o t show ?thesis by (cases "lv_clip s") (simp_all add: all_stopped_def)
qed

definition ex_key_down :: jval where
  "ex_key_down = JObj [(''t'', JStr ''kd''), (''code'', JStr ''KeyA'')]"

definition ex_frame_env :: frame_env where
  "ex_frame_env = \<lparr>fe_busy = False, fe_werr = None, fe_now = 0, fe_write = Wrote\<rparr>"

definition ex_typed :: live_session where
  "ex_typed = OnMessage ex_frame_env InputChannelLabel (TextFrame (Some ex_key_down))
     ((start_clip ModeText True (OnOpen JNull 0 InputChannelLabel (OnDataChannel 0 InputChannelLabel (live_init ex_dest ex_disk ex_board))))\<lparr>lv_pc := LvApproved\<rparr>)"

definition ex_over :: live_session where
  "ex_over = OnClose 0 InputChannelLabel ((release ((release_input (ex_typed\<lparr>lv_pc := LvConnected\<rparr>))\<lparr>lv_pc := LvReleasing\<rparr>))\<lparr>lv_pc := LvOver\<rparr>)"

lemma live_reach_refl: "live_reach mode hello d dk b (live_init d dk b)"
  by (simp add: live_reach_def)

lemma live_reach_step: "live_reach mode hello d dk b s \<Longrightarrow> live_step mode hello s s' \<Longrightarrow> live_reach mode hello d dk b s'"
  unfolding live_reach_def by (rule rtranclp.rtrancl_into_rtrancl)

lemma ex_typed_reach: "live_reach ModeText JNull ex_dest ex_disk ex_board ex_typed"
proof -
  let ?s0 = "live_init ex_dest ex_disk ex_board"
  let ?s1 = "OnDataChannel 0 InputChannelLabel ?s0"
  let ?s2 = "OnOpen JNull 0 InputChannelLabel ?s1"
  let ?s3 = "(start_clip ModeText True ?s2)\<lparr>lv_pc := LvApproved\<rparr>"
  let ?st = "live_step ModeText JNull"
  have a: "?st ?s0 ?s1" by (rule live_step.channel) (simp add: live_init_def)
  have b: "?st ?s1 ?s2" by (rule live_step.opens) (simp add: OnDataChannel_def)
  have c: "?st ?s2 ?s3" by (rule live_step.yes) (simp add: OnOpen_def OnDataChannel_def live_init_def)
  have d: "?st ?s3 ex_typed" unfolding ex_typed_def by (rule live_step.message[where i = 0]) simp_all
  show ?thesis by (rule live_reach_step[OF live_reach_step[OF live_reach_step[OF live_reach_step[OF live_reach_refl a] b] c] d])
qed

lemma session_composes_witness: "\<exists>evs. input_run evs newHandler = (lv_calls ex_typed, lv_input ex_typed)"
  using session_composes[OF ex_typed_reach] by blast

lemma session_lets_go_witness: "lv_peer_closes ex_over = 1 \<and> pressed_keys (lv_calls ex_over) = {}"
proof -
  let ?s4 = "ex_typed\<lparr>lv_pc := LvConnected\<rparr>"
  let ?s5 = "(release_input ?s4)\<lparr>lv_pc := LvReleasing\<rparr>"
  let ?s6 = "(release ?s5)\<lparr>lv_pc := LvOver\<rparr>"
  let ?st = "live_step ModeText JNull"
  have ch: "lv_channels ex_typed 0 = Some (InputChannelLabel, ChannelOpen)" "lv_pc ex_typed = LvApproved"
    by (simp_all add: ex_typed_def OnMessage_def)
  have a: "?st ex_typed ?s4" by (rule live_step.connected) (simp add: ch)
  have b: "?st ?s4 ?s5" by (rule live_step.ends) simp
  have c: "?st ?s5 ?s6" by (rule live_step.released) simp
  have d: "?st ?s6 ex_over" unfolding ex_over_def by (rule live_step.closes) (simp add: ch)
  have r: "live_reach ModeText JNull ex_dest ex_disk ex_board ex_over"
    by (rule live_reach_step[OF live_reach_step[OF live_reach_step[OF live_reach_step[OF ex_typed_reach a] b] c] d])
  have "lv_pc ex_over = LvOver" by (simp add: ex_over_def OnClose_def Let_def)
  moreover have "\<not> input_open ex_over"
    by (auto simp: input_open_def ex_over_def ex_typed_def OnMessage_def live_init_def)
  ultimately show ?thesis using session_lets_go[OF r] by blast
qed

end
