(* ===== verification/WindowParts.thy ===== *)
theory WindowParts
  imports StatusWindow "HOL-Library.Word"
begin

unbundle bit_operations_syntax

text \<open>
  The rest of package \<open>ui\<close> (\<open>window_windows.go\<close>, \<open>licenses_windows.go\<close>, \<open>window_darwin.go\<close>): the controls and where they
  are, the buttons and what they open, the painting, the licenses window and the log of the macOS window. What a Win32
  call answers is an argument. The theory shows that at every scale no control leaves the window or covers another,
  which addresses the window can open, that painting leaves a device context as it found it, and that there is one
  licenses window at most.
\<close>

section \<open>Controls\<close>

definition wsChild :: "32 word" where "wsChild = 0x40000000"
definition wsVisible :: "32 word" where "wsVisible = 0x10000000"
definition wsVScroll :: "32 word" where "wsVScroll = 0x00200000"
definition wsTabStop :: "32 word" where "wsTabStop = 0x00010000"
definition wsExClientEdge :: "32 word" where "wsExClientEdge = 0x00000200"
definition ssLeft :: "32 word" where "ssLeft = 0x0000"
definition ssCenter :: "32 word" where "ssCenter = 0x0001"
definition ssNoPrefix :: "32 word" where "ssNoPrefix = 0x0080"
definition bsPushButton :: "32 word" where "bsPushButton = 0x0000"
definition bsOwnerDraw :: "32 word" where "bsOwnerDraw = 0x000B"
definition esMultiline :: "32 word" where "esMultiline = 0x0004"
definition esAutoVScroll :: "32 word" where "esAutoVScroll = 0x0040"
definition esReadOnly :: "32 word" where "esReadOnly = 0x0800"
definition bnClicked :: int where "bnClicked = 0"
definition idCopy :: int where "idCopy = 1001"
definition idUpdate :: int where "idUpdate = 1002"
definition idLicenses :: int where "idLicenses = 1003"
definition idPrivacy :: int where "idPrivacy = 1004"
definition idCopiedTimer :: int where "idCopiedTimer = 1"
definition endSessionGrace :: duration where "endSessionGrace = 4 * second"

datatype ui_font = UiFont | BigFont | MonoFont | BoldFont

record control =
  ct_ex :: "32 word"
  ct_class :: string
  ct_text :: string
  ct_style :: "32 word"
  ct_x :: int
  ct_y :: int
  ct_cx :: int
  ct_cy :: int
  ct_id :: int
  ct_font :: ui_font

definition ctl :: "32 word \<Rightarrow> string \<Rightarrow> string \<Rightarrow> 32 word \<Rightarrow> int \<Rightarrow> int \<Rightarrow> int \<Rightarrow> int \<Rightarrow> int \<Rightarrow> ui_font \<Rightarrow> control" where
  "ctl ex cls t style x y cx cy i f =
     \<lparr>ct_ex = ex, ct_class = cls, ct_text = t, ct_style = style, ct_x = x, ct_y = y, ct_cx = cx, ct_cy = cy, ct_id = i, ct_font = f\<rparr>"

text \<open>The calls of \<open>child\<close> in \<open>create\<close>, in 96-dpi pixels: the privacy button makes room for the licenses button.\<close>

definition privacyX :: "bool \<Rightarrow> int" where
  "privacyX licenses = (if licenses then 274 else 360)"

definition design :: "bool \<Rightarrow> bool \<Rightarrow> control list" where
  "design licenses privacy =
     [ctl 0 ''STATIC'' (''This computer'' @ [CHR 0x27] @ ''s code'') ssCenter 20 16 420 20 0 UiFont,
      ctl 0 ''STATIC'' startingText (ssCenter OR ssNoPrefix) 20 40 420 60 0 BigFont,
      ctl 0 ''BUTTON'' ''Copy code'' (bsPushButton OR wsTabStop) 175 108 110 28 idCopy UiFont,
      ctl 0 ''STATIC'' [] (ssCenter OR ssNoPrefix) 20 148 420 20 0 UiFont,
      ctl 0 ''STATIC'' [] (ssCenter OR ssNoPrefix) 20 172 420 20 0 UiFont,
      ctl 0 ''BUTTON'' [] (bsOwnerDraw OR wsTabStop) 130 196 200 30 idUpdate BoldFont,
      ctl 0 ''STATIC'' ''Activity'' ssLeft 20 234 200 18 0 UiFont]
     @ (if privacy then [ctl 0 ''BUTTON'' ''Privacy'' (bsPushButton OR wsTabStop) (privacyX licenses) 229 80 23 idPrivacy UiFont] else [])
     @ (if licenses then [ctl 0 ''BUTTON'' ''Licenses'' (bsPushButton OR wsTabStop) 360 229 80 23 idLicenses UiFont] else [])
     @ [ctl wsExClientEdge ''EDIT'' [] (wsVScroll OR wsTabStop OR esMultiline OR esReadOnly OR esAutoVScroll) 20 254 420 160 0 MonoFont]"

definition child :: "int \<Rightarrow> control \<Rightarrow> control" where
  "child dpi c = c\<lparr>ct_style := ct_style c OR wsChild OR wsVisible, ct_x := ui_scale dpi (ct_x c), ct_y := ui_scale dpi (ct_y c),
     ct_cx := ui_scale dpi (ct_cx c), ct_cy := ui_scale dpi (ct_cy c)\<rparr>"

definition layout :: "int \<Rightarrow> bool \<Rightarrow> bool \<Rightarrow> control list" where
  "layout dpi licenses privacy = map (child dpi) (design licenses privacy)"

text \<open>\<open>systemDPI\<close>: whether the function is there, and what it answers; \<open>font\<close>: the height that is asked for.\<close>

definition systemDPI :: "bool \<Rightarrow> int \<Rightarrow> int" where
  "systemDPI there d = (if \<not> there then 96 else if d \<noteq> 0 then u32 d else 96)"

definition font_height :: "int \<Rightarrow> int \<Rightarrow> int" where
  "font_height dpi points = go_div (- (points * dpi + 36)) 72"

text \<open>\<open>utf16\<close>: a text with a NUL is shown as a question mark.\<close>

definition shown_text :: "string \<Rightarrow> string" where
  "shown_text s = (if CHR 0x00 \<in> set s then ''?'' else s)"

definition inside :: "int \<Rightarrow> int \<Rightarrow> control \<Rightarrow> bool" where
  "inside w h c \<longleftrightarrow> 0 \<le> ct_x c \<and> 0 \<le> ct_y c \<and> 0 \<le> ct_cx c \<and> 0 \<le> ct_cy c \<and> ct_x c + ct_cx c \<le> w \<and> ct_y c + ct_cy c \<le> h"

definition apart :: "control \<Rightarrow> control \<Rightarrow> bool" where
  "apart c d \<longleftrightarrow> ct_x c + ct_cx c \<le> ct_x d \<or> ct_x d + ct_cx d \<le> ct_x c \<or> ct_y c + ct_cy c \<le> ct_y d \<or> ct_y d + ct_cy d \<le> ct_y c"

lemma ui_scale_small: "0 < dpi \<Longrightarrow> dpi \<le> 2 ^ 22 \<Longrightarrow> 0 \<le> v \<Longrightarrow> v \<le> 500 \<Longrightarrow> ui_scale dpi v = v * dpi div 96"
proof -
  assume a: "0 < dpi" "dpi \<le> 2 ^ 22" "0 \<le> v" "v \<le> 500"
  have v: "0 \<le> v * dpi" "v * dpi \<le> 500 * 2 ^ 22" using mult_mono[of v 500 dpi "2 ^ 22"] a by simp_all
  moreover have "v * dpi div 96 \<le> 500 * 2 ^ 22 div 96" by (rule zdiv_mono1) (use v in simp_all)
  ultimately have "0 \<le> v * dpi div 96" "v * dpi div 96 < 2 ^ 31" by simp_all
  then show ?thesis using v by (simp add: ui_scale_def go_div_nonneg i32_id)
qed

lemma ui_scale_add:
  assumes "0 < dpi" and "dpi \<le> 2 ^ 22" and "0 \<le> a" and "0 \<le> b" and "a + b \<le> c" and "c \<le> 500"
  shows "ui_scale dpi a + ui_scale dpi b \<le> ui_scale dpi c"
proof -
  have m: "(a + b) * dpi \<le> c * dpi" using assms by (intro mult_right_mono) auto
  have "a * dpi div 96 + b * dpi div 96 \<le> c * dpi div 96" using m by (simp add: distrib_right)
  then show ?thesis using assms by (simp add: ui_scale_small)
qed

lemma inside_child:
  assumes "0 < dpi" and "dpi \<le> 2 ^ 22" and "inside 460 428 c"
  shows "inside (ui_scale dpi 460) (ui_scale dpi 428) (child dpi c)"
proof -
  from assms(3) have c: "0 \<le> ct_x c" "0 \<le> ct_y c" "0 \<le> ct_cx c" "0 \<le> ct_cy c" "ct_x c + ct_cx c \<le> 460" "ct_y c + ct_cy c \<le> 428"
    by (simp_all add: inside_def)
  have "0 \<le> ui_scale dpi v" if "0 \<le> v" "v \<le> 500" for v
    using that assms(1,2) by (simp add: ui_scale_small pos_imp_zdiv_nonneg_iff)
  with c ui_scale_add[OF assms(1,2) c(1,3,5)] ui_scale_add[OF assms(1,2) c(2,4,6)] show ?thesis
    by (simp add: inside_def child_def)
qed

lemma apart_child:
  assumes "0 < dpi" and "dpi \<le> 2 ^ 22" and "inside 460 428 c" and "inside 460 428 d" and "apart c d"
  shows "apart (child dpi c) (child dpi d)"
proof -
  have *: "ui_scale dpi a + ui_scale dpi b \<le> ui_scale dpi e" if "0 \<le> a" "0 \<le> b" "a + b \<le> e" "e \<le> 460" for a b e
    using ui_scale_add[OF assms(1,2) that(1-3)] that(4) by simp
  show ?thesis using assms(3-5) by (auto simp: apart_def inside_def child_def intro: *)
qed

text \<open>At every scale of the desktop each control lies within the window's client area, and no two of them overlap,
  with and without the buttons for the licenses and the privacy page.\<close>

theorem layout_sound:
  assumes "0 < dpi" and "dpi \<le> 2 ^ 22"
  shows "list_all (inside (ui_scale dpi 460) (ui_scale dpi 428)) (layout dpi licenses privacy) \<and> sorted_wrt apart (layout dpi licenses privacy)"
proof -
  have i: "list_all (inside 460 428) (design licenses privacy)"
    by (simp add: design_def ctl_def inside_def privacyX_def)
  have a: "sorted_wrt apart (design licenses privacy)"
    by (simp add: design_def ctl_def apart_def privacyX_def)
  have s: "sorted_wrt apart (map (child dpi) cs)" if "sorted_wrt apart cs" "list_all (inside 460 428) cs" for cs
    using that by (induction cs) (auto simp: list_all_iff intro: apart_child[OF assms])
  show ?thesis using i s[OF a i] by (auto simp: layout_def list_all_iff intro: inside_child[OF assms])
qed

lemma layout_sound_witness: "sorted_wrt apart (layout 144 True True)"
  using layout_sound[of 144 True True] by simp

section \<open>Painting\<close>

datatype gdi_obj = Brush nat | Pen nat | Font nat | NoObject

record dc =
  dc_brush :: nat
  dc_pen :: nat
  dc_font :: nat

text \<open>\<open>SelectObject\<close> puts an object in the place of the one of its kind, which it returns.\<close>

fun SelectObject :: "gdi_obj \<Rightarrow> dc \<Rightarrow> gdi_obj \<times> dc" where
  "SelectObject (Brush b) d = (Brush (dc_brush d), d\<lparr>dc_brush := b\<rparr>)"
| "SelectObject (Pen p) d = (Pen (dc_pen d), d\<lparr>dc_pen := p\<rparr>)"
| "SelectObject (Font f) d = (Font (dc_font d), d\<lparr>dc_font := f\<rparr>)"
| "SelectObject NoObject d = (NoObject, d)"

text \<open>\<open>paint\<close> of the window, made once, and what is drawn: with the objects it is drawn with.\<close>

record paints =
  pa_brush :: gdi_obj
  pa_brushPressed :: gdi_obj
  pa_pen :: gdi_obj
  pa_penPressed :: gdi_obj
  pa_bold :: gdi_obj

datatype drawing = Fill | Round nat nat int | Text nat string

record drawItem =
  di_hwndItem :: nat
  di_selected :: bool

definition paint_button :: "gdi_obj \<Rightarrow> gdi_obj \<Rightarrow> gdi_obj \<Rightarrow> int \<Rightarrow> string \<Rightarrow> dc \<Rightarrow> drawing list \<times> dc" where
  "paint_button brush pen bold dpi updateText d0 =
     (case SelectObject brush d0 of (oldBrush, d1) \<Rightarrow>
      case SelectObject pen d1 of (oldPen, d2) \<Rightarrow>
        let shape = Round (dc_brush d2) (dc_pen d2) (ui_scale dpi 10) in
      case SelectObject oldBrush d2 of (_, d3) \<Rightarrow>
      case SelectObject oldPen d3 of (_, d4) \<Rightarrow>
      case SelectObject bold d4 of (oldFont, d5) \<Rightarrow>
        ([Fill, shape, Text (dc_font d5) (shown_text updateText)], snd (SelectObject oldFont d5)))"

definition drawUpdateButton :: "paints \<Rightarrow> int \<Rightarrow> nat \<Rightarrow> string \<Rightarrow> drawItem option \<Rightarrow> dc \<Rightarrow> bool \<times> drawing list \<times> dc" where
  "drawUpdateButton pa dpi updateBtn updateText item d0 =
     (case item of
        None \<Rightarrow> (False, [], d0)
      | Some it \<Rightarrow>
          if updateBtn = 0 \<or> di_hwndItem it \<noteq> updateBtn then (False, [], d0)
          else (True, if di_selected it then paint_button (pa_brushPressed pa) (pa_penPressed pa) (pa_bold pa) dpi updateText d0
                      else paint_button (pa_brush pa) (pa_pen pa) (pa_bold pa) dpi updateText d0))"

text \<open>What \<open>create\<close> makes; an object that could not be made is none at all.\<close>

definition paints_ok :: "paints \<Rightarrow> bool" where
  "paints_ok pa \<longleftrightarrow>
     pa_brush pa \<in> insert NoObject (range Brush) \<and> pa_brushPressed pa \<in> insert NoObject (range Brush)
     \<and> pa_pen pa \<in> insert NoObject (range Pen) \<and> pa_penPressed pa \<in> insert NoObject (range Pen) \<and> pa_bold pa \<in> insert NoObject (range Font)"

lemma paint_button_restores:
  assumes "brush \<in> insert NoObject (range Brush)" and "pen \<in> insert NoObject (range Pen)" and "bold \<in> insert NoObject (range Font)"
  shows "snd (paint_button brush pen bold dpi t d) = d"
  using assms by (elim insertE imageE) (simp_all add: paint_button_def)

lemma draw_restores:
  "paints_ok pa \<Longrightarrow> snd (snd (drawUpdateButton pa dpi btn t item d)) = d"
  by (simp add: drawUpdateButton_def paints_ok_def paint_button_restores split: option.split)

lemma draw_ours: "fst (drawUpdateButton pa dpi btn t item d) \<longleftrightarrow> (\<exists>it. item = Some it \<and> btn \<noteq> 0 \<and> di_hwndItem it = btn)"
  by (auto simp: drawUpdateButton_def split: option.split)

text \<open>\<open>ctlColor\<close>: the changes to the device context, and the brush; \<open>None\<close> leaves both to Windows.\<close>

datatype dc_change = BkColor int | TextColor int | BkTransparent
datatype brush_answer = WhiteBrush | FaceBrush

definition ctlColor :: "nat \<Rightarrow> nat \<Rightarrow> nat \<Rightarrow> bool \<Rightarrow> int \<Rightarrow> nat \<Rightarrow> (dc_change list \<times> brush_answer) option" where
  "ctlColor activityCtl codeCtl labelCtl failed grey c =
     (if c \<noteq> 0 \<and> c = activityCtl then Some ([BkColor 0xFFFFFF], WhiteBrush)
      else if c \<noteq> 0 \<and> c = codeCtl \<and> failed then Some ([TextColor 0xC0, BkTransparent], FaceBrush)
      else if c \<noteq> 0 \<and> c = labelCtl then Some ([TextColor grey, BkTransparent], FaceBrush)
      else None)"

section \<open>The buttons\<close>

record ui_options =
  op_licenses :: string
  op_privacyURL :: string

text \<open>The window with what \<open>StatusWindow\<close> leaves out: the text on the copy button and its timer, the addresses given
  to the browser, the texts put on the clipboard, and the licenses window.\<close>

record shell =
  sh_win :: window
  sh_copyBtn :: string
  sh_timer :: bool
  sh_opened :: "string list"
  sh_copied :: "string list"
  sh_lic_hwnd :: nat
  sh_lic_edit :: nat
  sh_lic_open :: "nat set"
  sh_lic_text :: string
  sh_quit :: bool

definition shell_new :: shell where
  "shell_new = \<lparr>sh_win = window_new, sh_copyBtn = ''Copy code'', sh_timer = False, sh_opened = [], sh_copied = [],
     sh_lic_hwnd = 0, sh_lic_edit = 0, sh_lic_open = {}, sh_lic_text = [], sh_quit = False\<rparr>"

definition openURL :: "string \<Rightarrow> shell \<Rightarrow> shell" where
  "openURL u s = (if u = [] then s else s\<lparr>sh_opened := sh_opened s @ [u]\<rparr>)"

definition openUpdate :: "shell \<Rightarrow> shell" where
  "openUpdate s = openURL (wn_updateURL (sh_win s)) s"

text \<open>\<open>copyCode\<close>, with whether the clipboard takes the text and the timer starts.\<close>

definition copyCode :: "bool \<Rightarrow> bool \<Rightarrow> shell \<Rightarrow> shell" where
  "copyCode wrote timer s =
     (if wn_codeText (sh_win s) = [] then s
      else if \<not> wrote then s
      else s\<lparr>sh_copied := sh_copied s @ [wn_codeText (sh_win s)], sh_copyBtn := ''Copied'', sh_timer := sh_timer s \<or> timer\<rparr>)"

definition on_timer :: "int \<Rightarrow> shell \<Rightarrow> shell" where
  "on_timer wParam s = (if wParam = idCopiedTimer then s\<lparr>sh_timer := False, sh_copyBtn := ''Copy code''\<rparr> else s)"

text \<open>\<open>showLicenses\<close>: whether the class is there, and the handles of the window (new, or 0) and of its text box.\<close>

record lic_env =
  le_class :: bool
  le_hwnd :: nat
  le_edit :: nat

definition showLicenses :: "ui_options \<Rightarrow> lic_env \<Rightarrow> shell \<Rightarrow> shell" where
  "showLicenses op e s =
     (if sh_lic_hwnd s \<noteq> 0 then s
      else if \<not> le_class e then s
      else if le_hwnd e = 0 then s
      else s\<lparr>sh_lic_hwnd := le_hwnd e, sh_lic_edit := le_edit e, sh_lic_open := insert (le_hwnd e) (sh_lic_open s),
             sh_lic_text := (if le_edit e \<noteq> 0 then shown_text (editText (op_licenses op)) else [])\<rparr>)"

text \<open>\<open>licensesProc\<close>: its text box is moved with it, and only its own end is remembered.\<close>

datatype lic_msg = LicSize int int | LicCtlColor nat | LicDestroy | LicOther

definition licenses_size :: "nat \<Rightarrow> int \<Rightarrow> int \<Rightarrow> shell \<Rightarrow> (nat \<times> int \<times> int) option" where
  "licenses_size hwnd cx cy s = (if hwnd = sh_lic_hwnd s \<and> sh_lic_edit s \<noteq> 0 then Some (sh_lic_edit s, cx mod 0x10000, cy mod 0x10000) else None)"

definition licensesProc :: "nat \<Rightarrow> lic_msg \<Rightarrow> shell \<Rightarrow> shell" where
  "licensesProc hwnd m s =
     (case m of
        LicDestroy \<Rightarrow>
          let s' = s\<lparr>sh_lic_open := sh_lic_open s - {hwnd}\<rparr>
          in if hwnd = sh_lic_hwnd s then s'\<lparr>sh_lic_hwnd := 0, sh_lic_edit := 0\<rparr> else s'
      | _ \<Rightarrow> s)"

text \<open>\<open>WM_COMMAND\<close>: the notification in the high word, the control in the low one.\<close>

record button_env =
  be_wrote :: bool
  be_timer :: bool
  be_lic :: lic_env

definition on_command :: "ui_options \<Rightarrow> button_env \<Rightarrow> int \<Rightarrow> shell \<Rightarrow> shell" where
  "on_command op e wParam s =
     (if wParam div 2 ^ 16 mod 2 ^ 16 = bnClicked then
        (let i = wParam mod 2 ^ 16
         in if i = idCopy then copyCode (be_wrote e) (be_timer e) s
            else if i = idUpdate then openUpdate s
            else if i = idLicenses then showLicenses op (be_lic e) s
            else if i = idPrivacy then openURL (op_privacyURL op) s
            else s)
      else s)"

text \<open>\<open>WM_ENDSESSION\<close>: how long the window waits for the agent, which reports after \<open>finished\<close>, if ever.\<close>

definition end_session_wait :: "bool \<Rightarrow> bool \<Rightarrow> duration option \<Rightarrow> duration" where
  "end_session_wait really is_done finished =
     (if \<not> really \<or> is_done then 0 else case finished of None \<Rightarrow> endSessionGrace | Some t \<Rightarrow> min t endSessionGrace)"

lemma end_session_bounded: "(\<forall>t. finished = Some t \<longrightarrow> 0 \<le> t) \<Longrightarrow> 0 \<le> end_session_wait really is_done finished \<and> end_session_wait really is_done finished \<le> 4 * second"
  by (auto simp: end_session_wait_def endSessionGrace_def time_units split: option.split)

text \<open>The two windows: \<open>StatusWindow\<close>'s steps, and the messages of the buttons, the timer, the licenses window and the end.\<close>

inductive shell_step :: "ui_options \<Rightarrow> shell \<Rightarrow> shell \<Rightarrow> bool" for op :: ui_options where
  window: "window_step (sh_win s) w \<Longrightarrow> shell_step op s (s\<lparr>sh_win := w\<rparr>)"
| command: "shell_step op s (on_command op e wParam s)"
| timer: "shell_step op s (on_timer wParam s)"
| licenses: "hwnd \<in> sh_lic_open s \<Longrightarrow> shell_step op s (licensesProc hwnd m s)"
| destroyed: "wn_destroyed (sh_win s) \<Longrightarrow> shell_step op s (s\<lparr>sh_quit := True\<rparr>)"

section \<open>One licenses window, and where the browser goes\<close>

definition lic_inv :: "shell \<Rightarrow> bool" where
  "lic_inv s \<longleftrightarrow> sh_lic_open s = (if sh_lic_hwnd s = 0 then {} else {sh_lic_hwnd s}) \<and> (sh_quit s \<longrightarrow> wn_destroyed (sh_win s))"

lemma ui_step_destroyed:
  assumes "window_step w w'" and "wn_destroyed w"
  shows "wn_destroyed w'"
  using assms
proof (cases rule: window_step.cases)
  case (message m)
  with assms(2) show ?thesis by simp
qed (auto simp: ui_post_def post_swap_def post_send_def create_handle_def take_message_def drain_clear_def drain_take_def)

lemma shell_step_lic: "shell_step op s s' \<Longrightarrow> lic_inv s \<Longrightarrow> lic_inv s'"
proof (induction rule: shell_step.induct)
  case (window s w)
  then show ?case using ui_step_destroyed by (auto simp: lic_inv_def)
next
  case (licenses hwnd s m)
  then show ?case by (cases m) (auto simp: lic_inv_def licensesProc_def Let_def split: if_splits)
qed (auto simp: lic_inv_def on_command_def copyCode_def openUpdate_def openURL_def showLicenses_def on_timer_def Let_def)

text \<open>The addresses of the updates queued and applied so far, and what was opened, come from those that were posted.\<close>

fun update_urls :: "ui_update list \<Rightarrow> string set" where
  "update_urls [] = {}"
| "update_urls (Update v u # us) = insert u (update_urls us)"
| "update_urls (_ # us) = update_urls us"

lemma update_urls_append [simp]: "update_urls (us @ vs) = update_urls us \<union> update_urls vs"
  by (induction us rule: update_urls.induct) auto

lemma apply_updates_url: "wn_updateURL (fold apply_update us w) \<in> insert (wn_updateURL w) (update_urls us)"
proof (induction us arbitrary: w)
  case (Cons u us)
  show ?case using Cons[of "apply_update u w"] by (cases u) auto
qed simp

lemma apply_batch_url: "wn_updateURL (apply_batch us w) \<in> insert (wn_updateURL w) (update_urls us)"
  using apply_updates_url[of us w] by (simp add: apply_batch_def Let_def appendLines_def split: prod.split)

definition url_inv :: "ui_options \<Rightarrow> string set \<Rightarrow> shell \<Rightarrow> bool" where
  "url_inv op U s \<longleftrightarrow> wn_updateURL (sh_win s) \<in> insert [] U \<and> update_urls (wn_pending (sh_win s)) \<subseteq> U
     \<and> set (sh_opened s) \<subseteq> insert (op_privacyURL op) U \<and> [] \<notin> set (sh_opened s)"

lemma on_command_cases:
  "on_command op e i s \<in> {s, copyCode (be_wrote e) (be_timer e) s, openURL (wn_updateURL (sh_win s)) s, showLicenses op (be_lic e) s, openURL (op_privacyURL op) s}"
  by (simp add: on_command_def Let_def openUpdate_def)

lemma button_sel [simp]:
  "sh_win (copyCode a b s) = sh_win s" "sh_opened (copyCode a b s) = sh_opened s" "sh_win (showLicenses op l s) = sh_win s"
  "sh_opened (showLicenses op l s) = sh_opened s" "sh_win (openURL u s) = sh_win s"
  "sh_opened (openURL u s) = (if u = [] then sh_opened s else sh_opened s @ [u])"
  by (simp_all add: copyCode_def showLicenses_def openURL_def)

lemma on_command_win [simp]: "sh_win (on_command op e i s) = sh_win s"
  using on_command_cases[of op e i s] by (elim insertE emptyE) simp_all

lemma on_command_urls: "url_inv op U s \<Longrightarrow> url_inv op U (on_command op e i s)"
  using on_command_cases[of op e i s] by (elim insertE emptyE) (auto simp: url_inv_def)

text \<open>A run, with the addresses given to \<open>ShowUpdate\<close> in it.\<close>

inductive shell_run :: "ui_options \<Rightarrow> string set \<Rightarrow> shell \<Rightarrow> bool" for op :: ui_options where
  start: "shell_run op {} shell_new"
| offered: "shell_run op U s \<Longrightarrow> shell_run op (insert u U) (s\<lparr>sh_win := ui_post (Update v u) (sh_win s)\<rparr>)"
| further: "shell_run op U s \<Longrightarrow> shell_step op s s' \<Longrightarrow> (\<And>v u. sh_win s' \<noteq> ui_post (Update v u) (sh_win s)) \<Longrightarrow> shell_run op U s'"

lemma ui_step_urls:
  assumes "window_step w w'" and "\<And>v u. w' \<noteq> ui_post (Update v u) w"
    and "wn_updateURL w \<in> insert [] U" and "update_urls (wn_pending w) \<subseteq> U"
  shows "wn_updateURL w' \<in> insert [] U \<and> update_urls (wn_pending w') \<subseteq> U"
  using assms(1)
proof (cases rule: window_step.cases)
  case (post u)
  with assms(2-4) show ?thesis by (cases u) (auto simp: ui_post_def)
next
  case take
  then show ?thesis using assms(3,4) apply_batch_url[of "wn_pending w" "w\<lparr>wn_pending := [], wn_stage := Idle\<rparr>"]
    by (auto simp: drain_take_def)
next
  case (message m)
  with assms(3,4) show ?thesis by (cases m) (simp_all add: requestClose_def ui_finish_def Let_def)
qed (use assms(3,4) in \<open>simp_all add: post_swap_def post_send_def create_handle_def take_message_def drain_clear_def\<close>)

lemma shell_run_inv: "shell_run op U s \<Longrightarrow> lic_inv s \<and> url_inv op U s"
proof (induction rule: shell_run.induct)
  case start
  then show ?case by (simp add: lic_inv_def url_inv_def shell_new_def window_new_def)
next
  case (offered U s u v)
  then show ?case by (auto simp: lic_inv_def url_inv_def ui_post_def)
next
  case (further U s s')
  have "url_inv op U s'"
    using further(2)
  proof (cases rule: shell_step.cases)
    case (window w)
    with further ui_step_urls[OF window(2), of U] show ?thesis by (simp add: url_inv_def)
  next
    case (command e wParam)
    with further(4) show ?thesis by (simp add: on_command_urls)
  next
    case (timer wParam)
    with further(4) show ?thesis by (simp add: url_inv_def on_timer_def)
  next
    case (licenses hwnd m)
    with further(4) show ?thesis by (cases m) (simp_all add: url_inv_def licensesProc_def Let_def)
  next
    case destroyed
    with further(4) show ?thesis by (simp add: url_inv_def)
  qed
  with further shell_step_lic show ?case by blast
qed


definition ex_button_env :: button_env where
  "ex_button_env = \<lparr>be_wrote = True, be_timer = True, be_lic = \<lparr>le_class = True, le_hwnd = 7, le_edit = 8\<rparr>\<rparr>"

definition ex_options :: ui_options where
  "ex_options = \<lparr>op_licenses = ''MIT'', op_privacyURL = ''p''\<rparr>"


section \<open>The window on macOS\<close>

text \<open>\<open>Append\<close>: the log is kept here and handed over whole, under one lock.\<close>

record mac_window =
  mw_ring :: lineRing
  mw_log :: "string list"

definition mac_window_new :: mac_window where
  "mac_window_new = \<lparr>mw_ring = newLineRing, mw_log = []\<rparr>"

definition mac_Append :: "string \<Rightarrow> mac_window \<Rightarrow> mac_window" where
  "mac_Append r w =
     (let ls = splitRecord r
      in if ls = [] then w
         else (let ring = snd (ring_push ls (mw_ring w)) in w\<lparr>mw_ring := ring, mw_log := mw_log w @ [join_with [CHR 0x0A] (lr_lines ring)]\<rparr>))"

lemma mac_log_whole:
  "mw_log (fold mac_Append rs mac_window_new) \<noteq> [] \<Longrightarrow>
   last (mw_log (fold mac_Append rs mac_window_new)) = join_with [CHR 0x0A] (lr_lines (mw_ring (fold mac_Append rs mac_window_new)))"
proof (induction rs rule: rev_induct)
  case (snoc r rs)
  then show ?case by (cases "splitRecord r = []") (simp_all add: mac_Append_def[of r] Let_def)
qed (simp add: mac_window_new_def)

text \<open>\<open>Echo\<close> on Windows: stderr, if there is one whose type is known.\<close>

definition Echo_windows :: "bool \<Rightarrow> int option \<Rightarrow> bool" where
  "Echo_windows stderr file_type = (stderr \<and> (case file_type of None \<Rightarrow> False | Some t \<Rightarrow> t \<noteq> 0))"

end
