(* ===== verification/Workers.thy ===== *)
theory Workers
  imports Clipboard Capture
begin

text \<open>
  The goroutines behind two interfaces: the clipboard's worker (\<open>clipboard/worker.go\<close>), which does everything with the
  clipboard on one thread, and the capture's two goroutines as \<open>Start\<close> and \<open>guarded\<close> run them (\<open>capture/pipeline.go\<close>).
  Every choice of \<open>select\<close>, every failure and every panic is a step. The theory shows that a job is run at most once
  and its caller told the truth, that no caller can be stuck for good, that the clipboard is opened and closed in
  pairs, and that a capture, however its goroutines end, answers \<open>Start\<close> once and closes its frames.
\<close>

section \<open>The clipboard worker\<close>

datatype worker_at = WkOpening | WkIdle | WkRunning nat | WkDead

datatype caller_at = CaNone | CaOffering | CaWaiting | CaReturned bool

text \<open>\<open>wk_ran\<close> are the jobs run, by their caller; \<open>wk_done\<close> those whose \<open>done\<close> is closed.\<close>

record worker =
  wk_at :: worker_at
  wk_ready :: "bool option"
  wk_quit :: bool
  wk_callers :: "nat \<Rightarrow> caller_at"
  wk_ran :: "nat list"
  wk_polls :: nat
  wk_opens :: nat
  wk_closes :: nat

definition startWorker :: worker where
  "startWorker = \<lparr>wk_at = WkOpening, wk_ready = None, wk_quit = False, wk_callers = \<lambda>_. CaNone, wk_ran = [], wk_polls = 0, wk_opens = 0, wk_closes = 0\<rparr>"

definition set_caller :: "nat \<Rightarrow> caller_at \<Rightarrow> worker \<Rightarrow> worker" where
  "set_caller k c w = w\<lparr>wk_callers := (wk_callers w)(k := c)\<rparr>"

text \<open>The end of \<open>loop\<close>: the board is closed, then \<open>dead\<close>.\<close>

definition worker_end :: "worker \<Rightarrow> worker" where
  "worker_end w = w\<lparr>wk_at := WkDead, wk_closes := wk_closes w + 1\<rparr>"

inductive wk_step :: "worker \<Rightarrow> worker \<Rightarrow> bool" where
  opened: "wk_at w = WkOpening \<Longrightarrow> wk_step w (w\<lparr>wk_at := WkIdle, wk_ready := Some True, wk_opens := wk_opens w + 1\<rparr>)"
| not_opened: "wk_at w = WkOpening \<Longrightarrow> wk_step w (w\<lparr>wk_at := WkDead, wk_ready := Some False\<rparr>)"
| offers: "wk_ready w = Some True \<Longrightarrow> wk_callers w k = CaNone \<Longrightarrow> wk_step w (set_caller k CaOffering w)"
| takes: "wk_at w = WkIdle \<Longrightarrow> wk_callers w k = CaOffering \<Longrightarrow> wk_step w ((set_caller k CaWaiting w)\<lparr>wk_at := WkRunning k\<rparr>)"
| runs: "wk_at w = WkRunning k \<Longrightarrow> wk_step w (w\<lparr>wk_at := WkIdle, wk_ran := wk_ran w @ [k]\<rparr>)"
| ticks: "wk_at w = WkIdle \<Longrightarrow> wk_step w (w\<lparr>wk_polls := wk_polls w + 1\<rparr>)"
| quits: "wk_at w = WkIdle \<Longrightarrow> wk_quit w \<Longrightarrow> wk_step w (worker_end w)"
| stop: "wk_ready w = Some True \<Longrightarrow> wk_step w (if wk_at w = WkDead then w else w\<lparr>wk_quit := True\<rparr>)"
| is_done: "wk_callers w k = CaWaiting \<Longrightarrow> k \<in> set (wk_ran w) \<Longrightarrow> wk_step w (set_caller k (CaReturned True) w)"
| is_dead: "wk_callers w k \<in> {CaOffering, CaWaiting} \<Longrightarrow> wk_at w = WkDead \<Longrightarrow> wk_step w (set_caller k (CaReturned False) w)"

inductive_cases wk_stepE: "wk_step w w'"

definition wk_reach :: "worker \<Rightarrow> bool" where
  "wk_reach w \<longleftrightarrow> wk_step\<^sup>*\<^sup>* startWorker w"

definition caller_ok :: "worker \<Rightarrow> nat \<Rightarrow> bool" where
  "caller_ok w k \<longleftrightarrow>
     (case wk_callers w k of
        CaNone \<Rightarrow> k \<notin> set (wk_ran w) \<and> wk_at w \<noteq> WkRunning k
      | CaOffering \<Rightarrow> k \<notin> set (wk_ran w) \<and> wk_at w \<noteq> WkRunning k \<and> wk_ready w = Some True
      | CaWaiting \<Rightarrow> (k \<in> set (wk_ran w)) \<noteq> (wk_at w = WkRunning k) \<and> wk_ready w = Some True
      | CaReturned ok \<Rightarrow> if ok then k \<in> set (wk_ran w) \<and> wk_at w \<noteq> WkRunning k else wk_at w = WkDead)"

definition board_ok :: "worker \<Rightarrow> bool" where
  "board_ok w \<longleftrightarrow>
     (wk_at w = WkOpening \<longleftrightarrow> wk_ready w = None)
     \<and> wk_opens w = (if wk_ready w = Some True then 1 else 0)
     \<and> wk_closes w = (if wk_at w = WkDead then wk_opens w else 0)
     \<and> (wk_ready w = Some False \<longrightarrow> wk_at w = WkDead)
     \<and> distinct (wk_ran w)"

lemma running_fresh: "(\<And>k. caller_ok w k) \<Longrightarrow> wk_at w = WkRunning k \<Longrightarrow> k \<notin> set (wk_ran w)"
proof -
  assume "\<And>k. caller_ok w k" and "wk_at w = WkRunning k"
  then show "k \<notin> set (wk_ran w)" using caller_ok_def[of w k] by (auto split: caller_at.splits if_splits)
qed

lemma wk_step_board:
  assumes "wk_step w w'" and "board_ok w" and "\<And>k. caller_ok w k"
  shows "board_ok w'"
  using assms
proof (cases rule: wk_step.cases)
  case (runs k)
  with assms(2) running_fresh[of w k] assms(3) show ?thesis by (simp add: board_ok_def)
qed (auto simp: board_ok_def set_caller_def worker_end_def)

lemma wk_step_caller:
  assumes "wk_step w w'" and "board_ok w" and "\<And>k. caller_ok w k"
  shows "caller_ok w' j"
proof -
  have ok: "caller_ok w j" by (rule assms(3))
  from assms(1) show ?thesis
  proof (cases rule: wk_step.cases)
    case (offers k)
    with ok show ?thesis by (cases "j = k") (auto simp: caller_ok_def set_caller_def split: caller_at.splits if_splits)
  next
    case (takes k)
    with ok show ?thesis by (cases "j = k") (auto simp: caller_ok_def set_caller_def split: caller_at.splits if_splits)
  next
    case (runs k)
    with ok show ?thesis by (cases "j = k") (auto simp: caller_ok_def split: caller_at.splits if_splits)
  next
    case (is_done k)
    with ok show ?thesis by (cases "j = k") (auto simp: caller_ok_def set_caller_def split: caller_at.splits if_splits)
  next
    case (is_dead k)
    with ok show ?thesis by (cases "j = k") (auto simp: caller_ok_def set_caller_def split: caller_at.splits if_splits)
  qed (use ok assms(2) in \<open>auto simp: caller_ok_def worker_end_def board_ok_def split: caller_at.splits if_splits\<close>)
qed

lemma wk_reach_ok:
  assumes "wk_reach w"
  shows "board_ok w \<and> (\<forall>k. caller_ok w k)"
  using assms unfolding wk_reach_def
proof (induction rule: rtranclp_induct)
  case base
  show ?case by (simp add: board_ok_def caller_ok_def startWorker_def)
next
  case (step w1 w2)
  then show ?case using wk_step_board wk_step_caller by blast
qed

text \<open>C37: in every order of callers, ticks and stops: no job is run twice; \<open>do\<close> returns true only for a job that was run, and
  false only when the worker is dead; and the clipboard is closed exactly when the worker is dead, if it was opened.\<close>

theorem worker_tells_truth:
  assumes "wk_reach w"
  shows "distinct (wk_ran w) \<and> wk_closes w = (if wk_at w = WkDead then wk_opens w else 0)
     \<and> {k. wk_callers w k = CaReturned True} \<subseteq> set (wk_ran w) \<and> ({k. wk_callers w k = CaReturned False} = {} \<or> wk_at w = WkDead)"
proof -
  have o: "board_ok w" "\<And>k. caller_ok w k" using wk_reach_ok[OF assms] by simp_all
  have t: "wk_callers w k = CaReturned True \<Longrightarrow> k \<in> set (wk_ran w)" for k using o(2)[of k] by (simp add: caller_ok_def)
  have f: "wk_callers w k = CaReturned False \<Longrightarrow> wk_at w = WkDead" for k using o(2)[of k] by (simp add: caller_ok_def)
  show ?thesis using o(1) t f by (auto simp: board_ok_def)
qed

text \<open>From wherever a run has come to, a caller inside \<open>do\<close> can still return: with the job done, or because the worker is
  dead.\<close>

lemma do_returns:
  assumes "wk_reach w" and "wk_callers w k \<in> {CaOffering, CaWaiting}"
  shows "\<exists>w' ok. wk_step\<^sup>*\<^sup>* w w' \<and> wk_callers w' k = CaReturned ok"
proof -
  note chain = converse_rtranclp_into_rtranclp
  have o: "board_ok w" "\<And>k. caller_ok w k" using wk_reach_ok[OF assms(1)] by simp_all
  have ready: "wk_ready w = Some True" using assms(2) o(2)[of k] by (auto simp: caller_ok_def)
  have idle: "\<exists>w' ok. wk_step\<^sup>*\<^sup>* v w' \<and> wk_callers w' k = CaReturned ok"
    if v: "wk_at v = WkIdle" "wk_callers v k = CaOffering \<or> wk_callers v k = CaWaiting \<and> k \<in> set (wk_ran v)" for v
    using v(2)
  proof
    assume c: "wk_callers v k = CaOffering"
    let ?a = "(set_caller k CaWaiting v)\<lparr>wk_at := WkRunning k\<rparr>"
    let ?b = "?a\<lparr>wk_at := WkIdle, wk_ran := wk_ran ?a @ [k]\<rparr>"
    let ?c = "set_caller k (CaReturned True) ?b"
    have s1: "wk_step v ?a" using v(1) c by (rule wk_step.takes)
    have s2: "wk_step ?a ?b" by (rule wk_step.runs) simp
    have s3: "wk_step ?b ?c" by (rule wk_step.is_done) (simp_all add: set_caller_def)
    have "wk_step\<^sup>*\<^sup>* v ?c" using s1 s2 s3 by (meson chain rtranclp.rtrancl_refl)
    moreover have "wk_callers ?c k = CaReturned True" by (simp add: set_caller_def)
    ultimately show ?thesis by blast
  next
    assume c: "wk_callers v k = CaWaiting \<and> k \<in> set (wk_ran v)"
    then have "wk_step v (set_caller k (CaReturned True) v)" by (auto intro: wk_step.is_done)
    then show ?thesis by (intro exI[of _ "set_caller k (CaReturned True) v"] exI[of _ True]) (simp add: set_caller_def r_into_rtranclp)
  qed
  show ?thesis
  proof (cases "wk_at w")
    case WkOpening
    with o(1) ready show ?thesis by (simp add: board_ok_def)
  next
    case WkIdle
    with assms(2) o(2)[of k] show ?thesis by (intro idle) (auto simp: caller_ok_def)
  next
    case (WkRunning j)
    let ?v = "w\<lparr>wk_at := WkIdle, wk_ran := wk_ran w @ [j]\<rparr>"
    have s: "wk_step w ?v" using WkRunning by (rule wk_step.runs)
    have "\<exists>w' ok. wk_step\<^sup>*\<^sup>* ?v w' \<and> wk_callers w' k = CaReturned ok"
      using assms(2) o(2)[of k] WkRunning by (intro idle) (auto simp: caller_ok_def)
    with s show ?thesis by (meson chain)
  next
    case WkDead
    then have "wk_step w (set_caller k (CaReturned False) w)" using assms(2) by (auto intro: wk_step.is_dead)
    then show ?thesis by (intro exI[of _ "set_caller k (CaReturned False) w"] exI[of _ False]) (simp add: set_caller_def r_into_rtranclp)
  qed
qed

lemma ex_worker_reach:
  "wk_reach (set_caller 1 (CaReturned False) (worker_end ((set_caller 1 CaOffering (startWorker\<lparr>wk_at := WkIdle, wk_ready := Some True, wk_opens := 1\<rparr>))\<lparr>wk_quit := True\<rparr>)))"
proof -
  let ?a = "startWorker\<lparr>wk_at := WkIdle, wk_ready := Some True, wk_opens := 1\<rparr>"
  let ?b = "set_caller 1 CaOffering ?a"
  let ?c = "?b\<lparr>wk_quit := True\<rparr>"
  have "wk_step startWorker ?a" using wk_step.opened[of startWorker] by (simp add: startWorker_def)
  moreover have "wk_step ?a ?b" by (rule wk_step.offers) (simp_all add: startWorker_def)
  moreover have "wk_step ?b ?c" using wk_step.stop[of ?b] by (simp add: set_caller_def startWorker_def)
  moreover have "wk_step ?c (worker_end ?c)" by (rule wk_step.quits) (simp_all add: set_caller_def)
  moreover have "wk_step (worker_end ?c) (set_caller 1 (CaReturned False) (worker_end ?c))"
    by (rule wk_step.is_dead) (simp_all add: set_caller_def worker_end_def)
  ultimately show ?thesis unfolding wk_reach_def by (meson converse_rtranclp_into_rtranclp rtranclp.rtrancl_refl)
qed

lemma worker_tells_truth_witness: "wk_closes (worker_end (startWorker\<lparr>wk_opens := 1\<rparr>)) = 1"
  using worker_tells_truth[OF ex_worker_reach] by (simp add: set_caller_def worker_end_def startWorker_def)

section \<open>A capture from start to end\<close>

datatype cap_at = CapOpening | CapRunning | CapEnded

text \<open>\<open>cl_started\<close> is the channel \<open>started\<close>, with room for one answer; \<open>cl_answer\<close> is the one \<open>Start\<close> has taken.\<close>

record cap_life =
  cl_capture :: cap_at
  cl_encoding :: bool
  cl_started :: "bool option"
  cl_answer :: "bool option"
  cl_cancelled :: bool
  cl_jobs_closed :: bool
  cl_frames_closed :: bool
  cl_source :: int
  cl_crashes :: nat

definition Start_capture :: cap_life where
  "Start_capture = \<lparr>cl_capture = CapOpening, cl_encoding = True, cl_started = None, cl_answer = None, cl_cancelled = False,
     cl_jobs_closed = False, cl_frames_closed = False, cl_source = 0, cl_crashes = 0\<rparr>"

text \<open>The end of \<open>capture\<close> with its deferred calls; \<open>guarded\<close> around a goroutine that panicked, which tells \<open>started\<close> when
  there is one and it has room.\<close>

definition capture_end :: "cap_life \<Rightarrow> cap_life" where
  "capture_end c = c\<lparr>cl_capture := CapEnded, cl_jobs_closed := True, cl_source := (if cl_capture c = CapRunning then cl_source c - 1 else cl_source c)\<rparr>"

definition guarded_crash :: "bool \<Rightarrow> cap_life \<Rightarrow> cap_life" where
  "guarded_crash has_started c =
     (let c' = c\<lparr>cl_crashes := cl_crashes c + 1\<rparr>
      in if has_started \<and> cl_started c' = None then c'\<lparr>cl_started := Some False\<rparr> else c')"

definition encoder_end :: "cap_life \<Rightarrow> cap_life" where
  "encoder_end c = c\<lparr>cl_encoding := False, cl_frames_closed := True, cl_cancelled := True\<rparr>"

inductive cl_step :: "cap_life \<Rightarrow> cap_life \<Rightarrow> bool" where
  session_ends: "cl_step c (c\<lparr>cl_cancelled := True\<rparr>)"
| opens: "cl_capture c = CapOpening \<Longrightarrow> cl_step c (c\<lparr>cl_capture := CapRunning, cl_source := cl_source c + 1, cl_started := Some True\<rparr>)"
| open_fails: "cl_capture c = CapOpening \<Longrightarrow> cl_step c (capture_end (c\<lparr>cl_started := Some False\<rparr>))"
| capture_gives_up: "cl_capture c = CapRunning \<Longrightarrow> cl_step c (capture_end c)"
| capture_crashes: "cl_capture c \<noteq> CapEnded \<Longrightarrow> cl_step c (guarded_crash True (capture_end c))"
| encoder_gives_up: "cl_encoding c \<Longrightarrow> cl_step c (encoder_end c)"
| encoder_crashes: "cl_encoding c \<Longrightarrow> cl_step c (encoder_end (guarded_crash False c))"
| answers: "cl_answer c = None \<Longrightarrow> cl_started c = Some ok \<Longrightarrow>
     cl_step c (c\<lparr>cl_started := None, cl_answer := Some ok, cl_cancelled := cl_cancelled c \<or> \<not> ok\<rparr>)"

definition cl_reach :: "cap_life \<Rightarrow> bool" where
  "cl_reach c \<longleftrightarrow> cl_step\<^sup>*\<^sup>* Start_capture c"

definition cl_inv :: "cap_life \<Rightarrow> bool" where
  "cl_inv c \<longleftrightarrow>
     (cl_capture c = CapOpening \<longrightarrow> cl_started c = None \<and> cl_answer c = None)
     \<and> (cl_answer c = None \<longrightarrow> cl_capture c = CapOpening \<or> cl_started c \<noteq> None)
     \<and> (cl_jobs_closed c \<longleftrightarrow> cl_capture c = CapEnded)
     \<and> (cl_frames_closed c \<longleftrightarrow> \<not> cl_encoding c) \<and> (\<not> cl_encoding c \<longrightarrow> cl_cancelled c)
     \<and> cl_source c = (if cl_capture c = CapRunning then 1 else 0)
     \<and> (cl_answer c = Some False \<longrightarrow> cl_capture c = CapEnded \<and> cl_cancelled c)
     \<and> (cl_started c = Some False \<longrightarrow> cl_capture c = CapEnded)"

lemma cl_step_inv:
  assumes "cl_step c c'" and "cl_inv c"
  shows "cl_inv c'"
proof -
  note i = assms(2)[unfolded cl_inv_def]
  from assms(1) show ?thesis
    by (cases rule: cl_step.cases; insert i; cases "cl_capture c"; cases "cl_started c";
        simp add: cl_inv_def capture_end_def guarded_crash_def encoder_end_def Let_def)
qed

lemma cl_reach_inv: "cl_reach c \<Longrightarrow> cl_inv c"
  unfolding cl_reach_def
proof (induction rule: rtranclp_induct)
  case base
  show ?case by (simp add: cl_inv_def Start_capture_def)
qed (rule cl_step_inv)

text \<open>C38: however the two goroutines of a capture end, by themselves or in a panic: once the capture goroutine is past opening
  the screen, \<open>Start\<close> has its answer or finds it waiting; the screen is held exactly while that goroutine runs; the
  frames are closed as soon as the encoder has ended; and a capture whose \<open>Start\<close> failed is being stopped.\<close>

theorem capture_ends_clean:
  assumes "cl_reach c"
  shows "(cl_capture c = CapOpening \<or> cl_answer c \<noteq> None \<or> cl_started c \<noteq> None)
     \<and> cl_source c = (if cl_capture c = CapRunning then 1 else 0)
     \<and> (cl_frames_closed c \<longleftrightarrow> \<not> cl_encoding c) \<and> (cl_encoding c \<or> cl_cancelled c)
     \<and> (cl_answer c \<noteq> Some False \<or> cl_capture c = CapEnded \<and> cl_cancelled c)"
proof -
  note i = cl_reach_inv[OF assms, unfolded cl_inv_def]
  have "cl_capture c = CapOpening \<or> cl_answer c \<noteq> None \<or> cl_started c \<noteq> None" using i by blast
  moreover have "cl_answer c \<noteq> Some False \<or> cl_capture c = CapEnded \<and> cl_cancelled c" using i by blast
  moreover have "cl_encoding c \<or> cl_cancelled c" using i by blast
  ultimately show ?thesis using i by blast
qed

lemma capture_ends_clean_witness:
  "cl_source (guarded_crash True (capture_end Start_capture)) = 0 \<and> cl_started (guarded_crash True (capture_end Start_capture)) = Some False"
proof -
  have "cl_step Start_capture (guarded_crash True (capture_end Start_capture))"
    by (rule cl_step.capture_crashes) (simp add: Start_capture_def)
  then have "cl_reach (guarded_crash True (capture_end Start_capture))" by (simp add: cl_reach_def r_into_rtranclp)
  from capture_ends_clean[OF this]
  have "cl_source (guarded_crash True (capture_end Start_capture))
      = (if cl_capture (guarded_crash True (capture_end Start_capture)) = CapRunning then 1 else 0)" by blast
  moreover have "cl_capture (guarded_crash True (capture_end Start_capture)) = CapEnded"
    "cl_started (guarded_crash True (capture_end Start_capture)) = Some False"
    by (simp_all add: guarded_crash_def capture_end_def Start_capture_def)
  ultimately show ?thesis by simp
qed

text \<open>A capture can always come to its end: the frames closed, the screen given back.\<close>

lemma capture_can_end:
  assumes "cl_inv c"
  shows "\<exists>c'. cl_step\<^sup>*\<^sup>* c c' \<and> cl_capture c' = CapEnded \<and> cl_frames_closed c' \<and> cl_source c' = 0"
proof -
  have cap: "\<exists>c1. cl_step\<^sup>*\<^sup>* c c1 \<and> cl_capture c1 = CapEnded"
  proof (cases "cl_capture c = CapEnded")
    case False
    then have "cl_step c (guarded_crash True (capture_end c))" by (rule cl_step.capture_crashes)
    moreover have "cl_capture (guarded_crash True (capture_end c)) = CapEnded" by (simp add: guarded_crash_def capture_end_def Let_def)
    ultimately show ?thesis by blast
  qed auto
  then obtain c1 where c1: "cl_step\<^sup>*\<^sup>* c c1" "cl_capture c1 = CapEnded" by blast
  have i1: "cl_inv c1" using c1(1) assms by (induction rule: rtranclp_induct) (auto intro: cl_step_inv)
  show ?thesis
  proof (cases "cl_encoding c1")
    case True
    have "cl_step\<^sup>*\<^sup>* c (encoder_end c1)" using c1(1) cl_step.encoder_gives_up[OF True] by (rule rtranclp.rtrancl_into_rtrancl)
    then show ?thesis using c1(2) i1 by (intro exI[of _ "encoder_end c1"]) (simp add: encoder_end_def cl_inv_def)
  next
    case False
    with c1 i1 show ?thesis by (intro exI[of _ c1]) (simp add: cl_inv_def)
  qed
qed

end
