(* ===== verification/Transport.thy ===== *)
theory Transport
  imports Signaling
begin

text \<open>
  The outer operations of the Firebase client and of the signaling transport: \<open>Put\<close>, \<open>Patch\<close>, \<open>Delete\<close> and \<open>Stream\<close> of
  \<open>firebase/rtdb.go\<close>, and \<open>Start\<close>, the publishing calls and the two that wait for the remote side of
  \<open>signaling/rtdb_transport.go\<close>. The theory shows that a session's stream is started once, with one answer for every
  caller, and that each role publishes under the keys the other one reads.
\<close>

section \<open>The client\<close>

definition EventKeepAlive :: string where "EventKeepAlive = ''keep-alive''"

definition ServerTimestamp :: jval where
  "ServerTimestamp = JObj [(''.sv'', JStr ''timestamp'')]"

definition rtdb_Put :: "string option \<Rightarrow> RTDB \<Rightarrow> string \<Rightarrow> (int \<times> string) option \<Rightarrow> rtdb_err option" where
  "rtdb_Put token r path resp = (case rtdb_write token r ''PUT'' path True resp of Inl e \<Rightarrow> Some e | Inr _ \<Rightarrow> None)"

definition rtdb_Patch :: "string option \<Rightarrow> RTDB \<Rightarrow> string \<Rightarrow> (int \<times> string) option \<Rightarrow> rtdb_err option" where
  "rtdb_Patch token r path resp = (case rtdb_write token r ''PATCH'' path True resp of Inl e \<Rightarrow> Some e | Inr _ \<Rightarrow> None)"

definition rtdb_Delete :: "string option \<Rightarrow> RTDB \<Rightarrow> string \<Rightarrow> (int \<times> string) option \<Rightarrow> rtdb_err option" where
  "rtdb_Delete token r path resp = (case rtdb_write token r ''DELETE'' path True resp of Inl e \<Rightarrow> Some e | Inr _ \<Rightarrow> None)"

text \<open>The scanner of \<open>Stream\<close> gives up at a line of four mebibytes; the events end there.\<close>

definition maxLine :: nat where "maxLine = 4 * 1024 * 1024"

definition scanned :: "string list \<Rightarrow> string list" where
  "scanned lines = takeWhile (\<lambda>l. length l < maxLine) lines"

text \<open>\<open>Stream\<close>: the answer is its status, its body if that is an error, and its lines.\<close>

definition rtdb_Stream ::
  "(string \<Rightarrow> jval option) \<Rightarrow> string option \<Rightarrow> RTDB \<Rightarrow> string \<Rightarrow> (int \<times> string \<times> string list) option \<Rightarrow> rtdb_err + StreamEvent list" where
  "rtdb_Stream parse token r path resp =
     (case endpoint r token path False of
        Inl e \<Rightarrow> Inl e
      | Inr _ \<Rightarrow>
          (case resp of
             None \<Rightarrow> Inl ErrTransport
           | Some (code, body, lines) \<Rightarrow>
               if code < 200 \<or> 300 \<le> code then Inl (ErrStatus code ''STREAM'' path (trim_space body))
               else Inr (stream_lines parse [] (scanned lines))))"

lemma Stream_known_events:
  "rtdb_Stream parse token r path resp = Inr evs \<Longrightarrow> ev \<in> set evs \<Longrightarrow> ev_Event ev \<in> {EventPut, EventPatch, EventCancel, EventAuthRevoked}"
  using stream_lines_known[of ev parse]
  by (auto simp: rtdb_Stream_def EventPut_def EventPatch_def EventCancel_def EventAuthRevoked_def split: sum.splits option.splits if_splits)

section \<open>The transport\<close>

text \<open>\<open>startOnce\<close> and \<open>startErr\<close>, and the loops that were started.\<close>

record starter =
  st_once :: bool
  st_startErr :: "rtdb_err option"
  st_runs :: nat
  st_tr :: transport

definition new_starter :: "string \<Rightarrow> Role \<Rightarrow> starter" where
  "new_starter sessionID role = \<lparr>st_once = False, st_startErr = None, st_runs = 0, st_tr = NewRTDBTransport sessionID role\<rparr>"

text \<open>\<open>Start\<close>, with what opening the stream would say; and whether it was opened by this call.\<close>

definition transport_Start :: "rtdb_err option \<Rightarrow> starter \<Rightarrow> rtdb_err option \<times> starter" where
  "transport_Start err s =
     (let s' = (if st_once s then s
                else (case err of
                        Some e \<Rightarrow> s\<lparr>st_once := True, st_startErr := Some e, st_tr := markGone (st_tr s)\<rparr>
                      | None \<Rightarrow> s\<lparr>st_once := True, st_runs := st_runs s + 1\<rparr>))
      in (st_startErr s', s'))"

datatype await_error = StartFailed rtdb_err | ErrSessionGone | CtxErr

datatype await_event = DescArrived | SessionGone | CtxEnded

definition AwaitRemoteDescription :: "rtdb_err option \<Rightarrow> await_event \<Rightarrow> Description \<Rightarrow> starter \<Rightarrow> (await_error + Description) \<times> starter" where
  "AwaitRemoteDescription err ev d s =
     (case transport_Start err s of
        (Some e, s') \<Rightarrow> (Inl (StartFailed e), s')
      | (None, s') \<Rightarrow> (case ev of DescArrived \<Rightarrow> Inr d | SessionGone \<Rightarrow> Inl ErrSessionGone | CtxEnded \<Rightarrow> Inl CtxErr, s'))"

definition RemoteCandidates :: "rtdb_err option \<Rightarrow> starter \<Rightarrow> (rtdb_err + ICECandidate list) \<times> starter" where
  "RemoteCandidates err s =
     (case transport_Start err s of (Some e, s') \<Rightarrow> (Inl e, s') | (None, s') \<Rightarrow> (Inr (tr_remoteCand (st_tr s')), s'))"

definition PublishLocalDescription :: "string option \<Rightarrow> RTDB \<Rightarrow> (int \<times> string) option \<Rightarrow> transport \<Rightarrow> string \<times> rtdb_err option" where
  "PublishLocalDescription token r resp t =
     (let path = tr_basePath t @ ''/'' @ localDescKey t in (path, rtdb_Put token r path resp))"

definition PublishLocalCandidate ::
  "(string \<Rightarrow> jval option) \<Rightarrow> string option \<Rightarrow> RTDB \<Rightarrow> (int \<times> string) option \<Rightarrow> transport \<Rightarrow> string \<times> rtdb_err option" where
  "PublishLocalCandidate parse token r resp t =
     (let path = tr_basePath t @ ''/'' @ localCandKey t
      in (path, case rtdb_Push parse token r path resp of Inl e \<Rightarrow> Some e | Inr _ \<Rightarrow> None))"

lemma Start_once:
  assumes "transport_Start err s = (a, s')"
  shows "transport_Start err' s' = (a, s')"
  using assms by (auto simp: transport_Start_def Let_def split: if_splits option.splits)

lemma one_run: "st_runs (snd (transport_Start err (fold (\<lambda>e s. snd (transport_Start e s)) errs (new_starter i role)))) \<le> 1"
proof -
  have "st_runs s \<le> 1 \<and> (\<not> st_once s \<longrightarrow> st_runs s = 0) \<Longrightarrow>
      st_runs (snd (transport_Start e s)) \<le> 1 \<and> (\<not> st_once (snd (transport_Start e s)) \<longrightarrow> st_runs (snd (transport_Start e s)) = 0)" for e s
    by (simp add: transport_Start_def Let_def split: option.split)
  note step = this
  have "st_runs (fold (\<lambda>e s. snd (transport_Start e s)) es s) \<le> 1
      \<and> (\<not> st_once (fold (\<lambda>e s. snd (transport_Start e s)) es s) \<longrightarrow> st_runs (fold (\<lambda>e s. snd (transport_Start e s)) es s) = 0)"
    if "st_runs s \<le> 1 \<and> (\<not> st_once s \<longrightarrow> st_runs s = 0)" for es s
    using that
  proof (induction es arbitrary: s)
    case (Cons e es)
    from Cons.IH[OF step[OF Cons.prems]] show ?case by simp
  qed simp
  from step[OF this[of "new_starter i role" errs]] show ?thesis by (simp add: new_starter_def)
qed

text \<open>Each role writes where the other reads.\<close>

lemma keys_meet:
  assumes "tr_role t \<noteq> tr_role u"
  shows "localDescKey t = remoteDescKey u \<and> localCandKey t = remoteCandKey u"
  using assms by (cases "tr_role t"; cases "tr_role u") (simp_all add: localDescKey_def remoteDescKey_def localCandKey_def remoteCandKey_def)

end
