(* ===== verification/MacGlue.thy ===== *)
theory MacGlue
  imports Utf8 Prelude "HOL-Library.Multiset"
begin

text \<open>
  The Go side of the calls into AppKit (\<open>macos/window_darwin.go\<close>, \<open>pasteboard_darwin.go\<close>, \<open>files_darwin.go\<close>,
  \<open>screen_darwin.go\<close>): which texts are made C strings, in what form they arrive, what is freed and when. What the
  Objective-C functions answer is an argument. The theory shows that a text for a window always arrives whole and as
  valid UTF-8, and that every C string made is freed exactly once, after the call that reads it.
\<close>

section \<open>Texts for AppKit\<close>

text \<open>\<open>strings.ToValidUTF8\<close>: a run of bytes that are no UTF-8 becomes one replacement.\<close>

fun valid_pieces :: "string \<Rightarrow> bool \<Rightarrow> (int \<times> nat) list \<Rightarrow> string \<Rightarrow> string" where
  "valid_pieces rep bad [] s = []"
| "valid_pieces rep bad (r # rs) s =
     (if rune_ok r then take (snd r) s @ valid_pieces rep False rs (drop (snd r) s)
      else (if bad then [] else rep) @ valid_pieces rep True rs (drop (snd r) s))"

definition ToValidUTF8 :: "string \<Rightarrow> string \<Rightarrow> string" where
  "ToValidUTF8 s rep = valid_pieces rep False (rune_seq s) s"

definition replacement :: string where "replacement = [CHR 0xEF, CHR 0xBF, CHR 0xBD]"

definition no_nul :: "string \<Rightarrow> string" where
  "no_nul s = filter (\<lambda>c. c \<noteq> CHR 0x00) s"

definition cText :: "string \<Rightarrow> string" where
  "cText s = no_nul (ToValidUTF8 s replacement)"

text \<open>What C reads of a Go string that was copied with a NUL behind it.\<close>

definition c_reads :: "string \<Rightarrow> string" where
  "c_reads s = takeWhile (\<lambda>c. c \<noteq> CHR 0x00) s"

lemma head_valid:
  assumes "s \<noteq> []" and "rune_ok (decode_rune s)"
  shows "valid_utf8 (take (snd (decode_rune s)) s)"
proof -
  let ?w = "snd (decode_rune s)"
  have d: "decode_rune (take ?w s) = decode_rune s" using assms(2,1) by (rule decode_rune_take)
  have "1 \<le> ?w" "?w \<le> length s" using decode_rune_width[OF assms(1)] by simp_all
  then have "take ?w s \<noteq> []" using assms(1) by auto
  with d assms show ?thesis by (simp add: valid_utf8_step)
qed

lemma pieces_valid: "valid_utf8 rep \<Longrightarrow> valid_utf8 (valid_pieces rep bad (rune_seq s) s)"
proof (induction s arbitrary: bad rule: rune_seq.induct)
  case (1 s)
  show ?case
  proof (cases "s = []")
    case False
    then have u: "rune_seq s = decode_rune s # rune_seq (drop (snd (decode_rune s)) s)" by (simp add: rune_seq.simps[of s])
    note ih = "1.IH"[OF False "1.prems"]
    show ?thesis
    proof (cases "rune_ok (decode_rune s)")
      case True
      with ih head_valid[OF False True] show ?thesis by (simp add: u valid_utf8_append)
    next
      case bad: False
      with ih "1.prems" show ?thesis by (simp add: u valid_utf8_append)
    qed
  qed simp
qed

lemma pieces_same: "valid_utf8 s \<Longrightarrow> valid_pieces rep bad (rune_seq s) s = s"
proof (induction s arbitrary: bad rule: rune_seq.induct)
  case (1 s)
  show ?case
  proof (cases "s = []")
    case False
    then have u: "rune_seq s = decode_rune s # rune_seq (drop (snd (decode_rune s)) s)" by (simp add: rune_seq.simps[of s])
    from "1.prems" False have "rune_ok (decode_rune s)" "valid_utf8 (drop (snd (decode_rune s)) s)" by (simp_all add: valid_utf8_step)
    with "1.IH"[OF False this(2)] show ?thesis by (simp add: u)
  qed simp
qed

lemma rune_no_nul:
  assumes "one_rune ch"
  shows "no_nul ch = [] \<or> no_nul ch = ch"
  using one_rune_shape[OF assms]
proof
  assume "\<exists>a. ch = [a] \<and> byte a < 128"
  then obtain a where ch: "ch = [a]" by blast
  show ?thesis by (cases "a = CHR 0x00") (simp_all add: ch no_nul_def)
next
  assume "\<exists>a us. ch = a # us \<and> rune_start a \<and> 128 \<le> byte a \<and> us \<noteq> [] \<and> length us \<le> 3 \<and> list_all (\<lambda>c. \<not> rune_start c) us"
  then obtain a us where ch: "ch = a # us" "128 \<le> byte a" "list_all (\<lambda>c. \<not> rune_start c) us" by blast
  have nul: "byte (CHR 0x00) = 0" by (simp add: byte_def)
  have "c \<noteq> CHR 0x00" if "c \<in> set ch" for c
    using that ch nul by (auto simp: list_all_iff rune_start_def)
  then have "no_nul ch = ch" by (simp add: no_nul_def filter_id_conv)
  then show ?thesis ..
qed

lemma no_nul_valid: "valid_utf8 s \<Longrightarrow> valid_utf8 (no_nul s)"
proof (induction s rule: length_induct)
  case (1 s)
  show ?case
  proof (cases "s = []")
    case False
    obtain p ch where s: "s = p @ ch" "valid_utf8 p" "one_rune ch" using valid_utf8_last[OF 1(2) False] by blast
    then have "length p < length s" by (auto simp: one_rune_def)
    with 1(1) s(2) have p: "valid_utf8 (no_nul p)" by blast
    have "valid_utf8 ch" using 1(2) s by (simp add: valid_utf8_append)
    with p rune_no_nul[OF s(3)] show ?thesis by (auto simp: s(1) no_nul_def valid_utf8_append)
  qed (simp add: no_nul_def)
qed

lemma replacement_valid: "valid_utf8 replacement"
proof -
  have "(valid_utf8 replacement) = True" by code_simp
  then show ?thesis by simp
qed

text \<open>Whatever the text, the window is given valid UTF-8 that C reads to its end; and a text that is valid and without NUL
  arrives as it is.\<close>

theorem cText_arrives:
  "valid_utf8 (cText s) \<and> c_reads (cText s) = cText s \<and> (valid_utf8 s \<longrightarrow> cText s = no_nul s)"
proof -
  have "valid_utf8 (cText s)"
    unfolding cText_def ToValidUTF8_def by (intro no_nul_valid pieces_valid replacement_valid)
  moreover have "c_reads (cText s) = cText s"
    by (simp add: c_reads_def cText_def no_nul_def takeWhile_eq_all_conv)
  moreover have "valid_utf8 s \<Longrightarrow> cText s = no_nul s" by (simp add: cText_def ToValidUTF8_def pieces_same)
  ultimately show ?thesis by simp
qed

section \<open>Calls with C strings\<close>

text \<open>A C string is the number of its allocation.\<close>

datatype c_op = CMalloc nat string | CCall string "nat list" | CFree nat

text \<open>Strings made in groups, the call that reads them all, and the groups freed again by the deferred calls: the group made
  last is freed first.\<close>

definition with_texts :: "string \<Rightarrow> string list list \<Rightarrow> c_op list" where
  "with_texts f gs =
     (let ts = concat gs;
          starts = map (\<lambda>i. sum_list (map length (take i gs))) [0..<length gs]
      in map2 CMalloc [0..<length ts] ts @ [CCall f [0..<length ts]]
         @ map CFree (concat (rev (map2 (\<lambda>k g. [k..<k + length g]) starts gs))))"

text \<open>\<open>OpenStatusWindow\<close>: the calls, the close handler that is stored from then on, whether the window opened, and whether
  the application is open.\<close>

definition OpenStatusWindow :: "string \<Rightarrow> string \<Rightarrow> string \<Rightarrow> 'f option \<Rightarrow> bool \<Rightarrow> bool \<Rightarrow> c_op list \<times> 'f option option \<times> bool \<times> bool" where
  "OpenStatusWindow title licenses privacyURL onClose ok was_open =
     (with_texts ''fd_win_open'' [[cText title], [cText licenses], [cText privacyURL]], Some onClose, ok, was_open \<or> ok)"

definition SetCode :: "string \<Rightarrow> string \<Rightarrow> c_op list" where
  "SetCode code site = with_texts ''fd_win_set_code'' [[cText code], [cText site]]"

definition SetStatus :: "string \<Rightarrow> c_op list" where
  "SetStatus t = with_texts ''fd_win_set_status'' [[cText t]]"

definition SetLog :: "string \<Rightarrow> c_op list" where
  "SetLog t = with_texts ''fd_win_set_log'' [[cText t]]"

definition ShowUpdate :: "string \<Rightarrow> string \<Rightarrow> c_op list" where
  "ShowUpdate version url = with_texts ''fd_win_show_update'' [[cText version], [cText url]]"

text \<open>The window asked to close: the handler that was stored, if there is one.\<close>

definition fdStatusWindowCloseRequested :: "'a option option \<Rightarrow> 'a option" where
  "fdStatusWindowCloseRequested stored = Option.bind stored (\<lambda>f. f)"

section \<open>The pasteboard, files and the screen\<close>

datatype paste_access = PasteAllowed | PasteNeverAsked | PasteAsk | PasteDenied

definition OpenPasteboard :: "string \<Rightarrow> c_op list" where
  "OpenPasteboard name = (if name \<noteq> [] then with_texts ''fd_pb_open'' [[name]] else [CCall ''fd_pb_open'' []])"

definition ReleasePasteboard :: "string \<Rightarrow> c_op list" where
  "ReleasePasteboard name = with_texts ''fd_pb_release_globally'' [[name]]"

definition HasType :: "string \<Rightarrow> int \<Rightarrow> c_op list \<times> bool" where
  "HasType uti answer = (with_texts ''fd_pb_has_type'' [[uti]], answer \<noteq> 0)"

definition HasFiles :: "int \<Rightarrow> c_op list \<times> bool" where
  "HasFiles answer = HasType ''public.file-url'' answer"

text \<open>\<open>ReadText\<close>: the C function allocated the text it hands over, with its length, which becomes a C int; a negative
  length makes Go panic.\<close>

definition pb_ReadText :: "string option \<Rightarrow> string option option \<times> c_op list" where
  "pb_ReadText answer =
     (case answer of
        None \<Rightarrow> (Some None, [CCall ''fd_pb_read_text'' []])
      | Some s \<Rightarrow>
          (let n = i32 (int (length s))
           in (if n < 0 then None else Some (Some (take (nat n) s)), [CCall ''fd_pb_read_text'' [], CMalloc 0 s, CFree 0])))"

text \<open>\<open>WriteText\<close> lends the bytes for the call, with their number: nothing is copied or cut.\<close>

definition pb_WriteText :: "string \<Rightarrow> int \<Rightarrow> string \<times> bool" where
  "pb_WriteText t answer = (t, answer \<noteq> 0)"

definition pb_WriteStrings :: "(string \<times> string) list \<Rightarrow> int \<Rightarrow> c_op list \<times> bool" where
  "pb_WriteStrings values answer = (with_texts ''fd_pb_write_strings'' [map fst values, map snd values], answer \<noteq> 0)"

definition pb_ReadFiles :: "string list option \<Rightarrow> string list" where
  "pb_ReadFiles answer = (case answer of None \<Rightarrow> [] | Some ps \<Rightarrow> map c_reads ps)"

definition pb_WriteFiles :: "string list \<Rightarrow> int \<Rightarrow> c_op list \<times> bool" where
  "pb_WriteFiles paths answer = (with_texts ''fd_pb_write_files'' [paths], answer \<noteq> 0)"

definition Quarantine :: "string \<Rightarrow> int \<Rightarrow> c_op list \<times> bool" where
  "Quarantine path answer = (with_texts ''fd_quarantine'' [[path]], answer \<noteq> 0)"

definition VolumeCapacity :: "string \<Rightarrow> int \<Rightarrow> int \<Rightarrow> c_op list \<times> int \<times> bool" where
  "VolumeCapacity path answer room = (with_texts ''fd_volume_capacity'' [[path]], if answer = 0 then (0, False) else (u64 room, True))"

definition MainDisplay :: "(int \<times> int \<times> int) option \<Rightarrow> int \<times> int \<times> int \<times> bool" where
  "MainDisplay answer = (case answer of None \<Rightarrow> (0, 0, 0, False) | Some (i, w, h) \<Rightarrow> (u32 i, w, h, True))"

datatype grab_answer = SckChanged | SckUnchanged | SckUnavailable | SckFailed
datatype grab_error = ErrNoPicture | GrabError

definition stream_Grab :: "grab_answer \<Rightarrow> 'p \<Rightarrow> grab_error + ('p \<times> bool)" where
  "stream_Grab answer picture =
     (case answer of
        SckChanged \<Rightarrow> Inr (picture, True)
      | SckUnchanged \<Rightarrow> Inr (picture, False)
      | SckUnavailable \<Rightarrow> Inl ErrNoPicture
      | SckFailed \<Rightarrow> Inl GrabError)"

section \<open>Every string is freed once\<close>

text \<open>A log read from the front, with the strings that are live: a call may use live ones only, and only a live one is
  freed.\<close>

fun c_run :: "c_op list \<Rightarrow> nat set \<Rightarrow> nat set option" where
  "c_run [] L = Some L"
| "c_run (CMalloc a s # ops) L = (if a \<in> L then None else c_run ops (insert a L))"
| "c_run (CCall f as # ops) L = (if set as \<subseteq> L then c_run ops L else None)"
| "c_run (CFree a # ops) L = (if a \<in> L then c_run ops (L - {a}) else None)"

lemma c_run_append: "c_run (xs @ ys) L = Option.bind (c_run xs L) (c_run ys)"
  by (induction xs L rule: c_run.induct) auto

lemma c_run_mallocs: "length as = length ts \<Longrightarrow> distinct as \<Longrightarrow> set as \<inter> L = {} \<Longrightarrow> c_run (map2 CMalloc as ts) L = Some (L \<union> set as)"
  by (induction as ts arbitrary: L rule: list_induct2) auto

lemma c_run_frees: "distinct as \<Longrightarrow> set as \<subseteq> L \<Longrightarrow> c_run (map CFree as) L = Some (L - set as)"
proof (induction as arbitrary: L)
  case (Cons a as)
  then have "set as \<subseteq> L - {a}" "a \<in> L" "distinct as" by auto
  with Cons.IH show ?case by (simp add: Diff_insert2[of L a "set as"])
qed simp

lemma upt_append: "[m..<m + a] @ [m + a..<m + (a + b)] = [m..<m + (a + b)]"
  using upt_add_eq_append[of m "m + a" b] by (simp add: add.assoc)

lemma group_starts:
  "concat (map2 (\<lambda>k g. [k..<k + length g]) (map (\<lambda>i. m + sum_list (map length (take i gs))) [0..<length gs]) gs)
   = [m..<m + length (concat gs)]"
proof (induction gs arbitrary: m)
  case (Cons g gs)
  have "map (\<lambda>i. m + sum_list (map length (take i (g # gs)))) [0..<length (g # gs)]
      = m # map (\<lambda>i. (m + length g) + sum_list (map length (take i gs))) [0..<length gs]"
    by (simp add: upt_conv_Cons map_Suc_upt[symmetric] comp_def add.assoc del: upt_Suc)
  with Cons[of "m + length g"] show ?case by (simp add: upt_append add.assoc del: upt_Suc)
qed simp

lemma set_concat_rev: "set (concat (rev xs)) = set (concat xs)" "distinct (concat (rev xs)) = distinct (concat xs)"
proof -
  show "set (concat (rev xs)) = set (concat xs)" by simp
  have "mset (concat (rev xs)) = mset (concat xs)" by (induction xs) (simp_all add: add.commute)
  then show "distinct (concat (rev xs)) = distinct (concat xs)" by (rule mset_eq_imp_distinct_iff)
qed

lemma with_texts_balanced: "c_run (with_texts f gs) {} = Some {}"
proof -
  let ?n = "length (concat gs)"
  let ?r = "map2 (\<lambda>k g. [k..<k + length g]) (map (\<lambda>i. sum_list (map length (take i gs))) [0..<length gs]) gs"
  have c: "concat ?r = [0..<?n]" using group_starts[of 0 gs] by simp
  have "set (concat (rev ?r)) = set [0..<?n]" "distinct (concat (rev ?r))" by (simp_all only: set_concat_rev c distinct_upt)
  moreover have "c_run (map2 CMalloc [0..<?n] (concat gs)) {} = Some (set [0..<?n])" by (subst c_run_mallocs) simp_all
  ultimately show ?thesis
    by (simp only: with_texts_def Let_def c_run_append bind.bind_lunit c_run.simps subset_refl if_True c_run_frees Diff_cancel)
qed

lemma glue_balanced:
  "c_run (fst (OpenStatusWindow t l p h ok was)) {} = Some {}" "c_run (SetCode c s) {} = Some {}" "c_run (SetLog t) {} = Some {}"
  "c_run (OpenPasteboard n) {} = Some {}" "c_run (fst (pb_WriteStrings vs a)) {} = Some {}" "c_run (fst (pb_WriteFiles ps a)) {} = Some {}"
  "c_run (snd (pb_ReadText r)) {} = Some {}"
  by (simp_all add: OpenStatusWindow_def SetCode_def SetLog_def OpenPasteboard_def pb_WriteStrings_def pb_WriteFiles_def pb_ReadText_def Let_def
      with_texts_balanced split: option.split)

text \<open>A text of less than two gibibytes is read whole.\<close>

lemma ReadText_whole: "length s < 2147483648 \<Longrightarrow> fst (pb_ReadText (Some s)) = Some (Some s)"
  by (simp add: pb_ReadText_def Let_def i32_id)

end
