(* ===== verification/CaptureLife.thy ===== *)
theory CaptureLife
  imports CaptureSources
begin

text \<open>
  How the capture goroutine (\<open>capture\<close> in \<open>capture/pipeline.go\<close>) treats the \<open>source\<close> it was given, on Windows
  (\<open>capture_windows.go\<close>): opened once, grabbed on every tick, replaced when it fails, closed at the end. The locale
  \<open>capture_source\<close> is what the goroutine relies on; desktop duplication, the GDI copy and the choice between the two
  interpret it. The theory shows that everything any of them obtained is given back exactly once, however often a
  source fails and is replaced, and that the goroutine never looks at a picture that is not there.
\<close>

section \<open>The goroutine\<close>

text \<open>What one tick meets: the source's environment, and what opening another one would.\<close>

record ('e, 'o) life_tick =
  lt_grab :: 'e
  lt_open :: 'o

record ('e, 'o, 's) source_ops =
  so_open :: "'o \<Rightarrow> (cap_err + 's) \<times> res_event list"
  so_grab :: "'e \<Rightarrow> 's \<Rightarrow> grabbed \<times> 's"
  so_close :: "'s \<Rightarrow> 's"
  so_log :: "'s \<Rightarrow> res_event list"
  so_current :: "'s \<Rightarrow> dib option"

text \<open>The loop until the context ends, a source cannot be replaced, or the code panics on a picture that is not there;
  the deferred \<open>close\<close> runs on every way out, on the source there is then. The result says whether it panicked, and
  what all the sources obtained and gave back.\<close>

fun source_life :: "('e, 'o, 's) source_ops \<Rightarrow> ('e, 'o) life_tick list \<Rightarrow> 's \<Rightarrow> res_event list \<Rightarrow> bool \<times> res_event list" where
  "source_life ops [] s l = (False, l @ so_log ops (so_close ops s))"
| "source_life ops (t # ts) s l =
     (case so_grab ops (lt_grab t) s of
        (GrabUnavailable, s1) \<Rightarrow> source_life ops ts s1 l
      | (GrabErr err, s1) \<Rightarrow>
          (let l1 = l @ so_log ops (so_close ops s1)
           in case so_open ops (lt_open t) of
                (Inl err, lo) \<Rightarrow> (False, l1 @ lo)
              | (Inr s2, lo) \<Rightarrow> source_life ops ts s2 (l1 @ lo))
      | (GrabOk changed, s1) \<Rightarrow>
          if so_current ops s1 = None then (True, l @ so_log ops (so_close ops s1)) else source_life ops ts s1 l)"

definition capture_life :: "('e, 'o, 's) source_ops \<Rightarrow> 'o \<Rightarrow> ('e, 'o) life_tick list \<Rightarrow> bool \<times> res_event list" where
  "capture_life ops e ts =
     (case so_open ops e of
        (Inl err, l) \<Rightarrow> (False, l)
      | (Inr s, l) \<Rightarrow> source_life ops ts s l)"

section \<open>What it relies on\<close>

text \<open>\<open>good\<close> holds of a source between two calls. The log of a failed or abandoned attempt to open is apart from the log
  of the source that was opened.\<close>

locale capture_source =
  fixes ops :: "('e, 'o, 's) source_ops" and good :: "'s \<Rightarrow> bool"
  assumes open_fails: "so_open ops e = (Inl err, l) \<Longrightarrow> live l {#} = Some {#}"
    and opens: "so_open ops e = (Inr s, l) \<Longrightarrow> good s \<and> live l {#} = Some {#}"
    and grab_keeps: "good s \<Longrightarrow> so_grab ops g s = (r, s') \<Longrightarrow> good s'"
    and grab_current: "good s \<Longrightarrow> so_grab ops g s = (GrabOk changed, s') \<Longrightarrow> so_current ops s' \<noteq> None"
    and close_frees: "good s \<Longrightarrow> live (so_log ops (so_close ops s)) {#} = Some {#}"
begin

lemma given_back_append: "live l {#} = Some {#} \<Longrightarrow> live l' {#} = Some {#} \<Longrightarrow> live (l @ l') {#} = Some {#}"
  by (simp add: live_append)

lemma life_gives_back:
  "good s \<Longrightarrow> live l {#} = Some {#} \<Longrightarrow> \<not> fst (source_life ops ts s l) \<and> live (snd (source_life ops ts s l)) {#} = Some {#}"
proof (induction ts arbitrary: s l)
  case Nil
  then show ?case using given_back_append[OF Nil(2) close_frees[OF Nil(1)]] by simp
next
  case (Cons t ts)
  obtain r s1 where g: "so_grab ops (lt_grab t) s = (r, s1)" by fastforce
  have s1: "good s1" by (rule grab_keeps[OF Cons.prems(1) g])
  have l1: "live (l @ so_log ops (so_close ops s1)) {#} = Some {#}" by (rule given_back_append[OF Cons.prems(2) close_frees[OF s1]])
  show ?case
  proof (cases r)
    case GrabUnavailable
    with g Cons.IH[OF s1 Cons.prems(2)] show ?thesis by simp
  next
    case (GrabOk changed)
    with g grab_current[OF Cons.prems(1)] Cons.IH[OF s1 Cons.prems(2)] show ?thesis by auto
  next
    case (GrabErr err)
    obtain q lo where o: "so_open ops (lt_open t) = (q, lo)" by fastforce
    show ?thesis
    proof (cases q)
      case (Inl e)
      with g GrabErr o given_back_append[OF l1 open_fails] show ?thesis by simp
    next
      case (Inr s2)
      with o have "good s2" "live lo {#} = Some {#}" using opens by simp_all
      with Cons.IH[OF _ given_back_append[OF l1]] g GrabErr o Inr show ?thesis by simp
    qed
  qed
qed

lemma capture_gives_back: "\<not> fst (capture_life ops e ts) \<and> live (snd (capture_life ops e ts)) {#} = Some {#}"
proof -
  obtain q l where o: "so_open ops e = (q, l)" by fastforce
  show ?thesis
  proof (cases q)
    case (Inl err)
    with o open_fails show ?thesis by (simp add: capture_life_def)
  next
    case (Inr s)
    with o have "good s" "live l {#} = Some {#}" using opens by simp_all
    with life_gives_back o Inr show ?thesis by (simp add: capture_life_def)
  qed
qed

end

section \<open>The sources\<close>

text \<open>A source's own log starts when it is opened, so an open that works leaves none beside it.\<close>

definition dxgi_ops :: "(grab_env, open_env, dxgiSource) source_ops" where
  "dxgi_ops = \<lparr>so_open = \<lambda>e. (case openDXGI e of (Inl err, s) \<Rightarrow> (Inl err, dx_log s) | (Inr _, s) \<Rightarrow> (Inr s, [])),
     so_grab = dx_grab, so_close = dx_close, so_log = dx_log, so_current = dx_frame\<rparr>"

definition gdi_ops :: "(gdi_env, (int \<times> int) \<times> nat option \<times> nat option, gdiSource) source_ops" where
  "gdi_ops = \<lparr>so_open = \<lambda>(sz, a). (case openGDI sz a of (Inl err, s) \<Rightarrow> (Inl err, gs_log s) | (Inr _, s) \<Rightarrow> (Inr s, [])),
     so_grab = gdi_grab, so_close = gdi_close, so_log = gs_log, so_current = gs_frame\<rparr>"

lemma gdi_grab_current: "gdi_good s \<Longrightarrow> gdi_grab e s = (r, s') \<Longrightarrow> gs_frame s' \<noteq> None"
  using gdi_grab_good[of s e r s'] unfolding gdi_good_def by blast

lemma dx_good_close: "dx_good s \<Longrightarrow> live (dx_log (dx_close s)) {#} = Some {#}"
  using dx_close_acct[of "{#}" s] by (simp add: dx_good_def dx_acct_def)

interpretation dxgi: capture_source dxgi_ops dx_good
proof unfold_locales
  show "live l {#} = Some {#}" if "so_open dxgi_ops e = (Inl err, l)" for e err l
    using that openDXGI_acct[of e] by (auto simp: dxgi_ops_def dx_acct_def split: prod.splits sum.splits)
  show "dx_good s \<and> live l {#} = Some {#}" if "so_open dxgi_ops e = (Inr s, l)" for e s l
    using that openDXGI_acct[of e] by (auto simp: dxgi_ops_def dx_good_def split: prod.splits sum.splits)
qed (use dx_grab_good dx_good_close in \<open>auto simp: dxgi_ops_def\<close>)

interpretation gdi: capture_source gdi_ops gdi_good
proof unfold_locales
  show "live l {#} = Some {#}" if "so_open gdi_ops e = (Inl err, l)" for e err l
    using that openGDI_good[of "fst e" "snd e"] by (cases e) (auto simp: gdi_ops_def split: prod.splits sum.splits)
  show "gdi_good s \<and> live l {#} = Some {#}" if "so_open gdi_ops e = (Inr s, l)" for e s l
    using that openGDI_good[of "fst e" "snd e"] by (cases e) (auto simp: gdi_ops_def split: prod.splits sum.splits)
qed (use gdi_grab_good gdi_grab_current gdi_leaks_nothing in \<open>auto simp: gdi_ops_def\<close>)

section \<open>Either of the two\<close>

datatype win_source = DxgiSource dxgiSource | GdiSource gdiSource

text \<open>\<open>openSource\<close>, given whether duplication is skipped, what opening it meets, and what opening the copy does.\<close>

definition openSource :: "bool \<times> open_env \<times> (int \<times> int) \<times> nat option \<times> nat option \<Rightarrow> (cap_err + win_source) \<times> res_event list" where
  "openSource a =
     (case a of (skip, e, g) \<Rightarrow>
       (case (if skip then (Inl (CapErr ''skipped''), []) else so_open dxgi_ops e) of
          (Inr d, l) \<Rightarrow> (Inr (DxgiSource d), l)
        | (Inl err, l) \<Rightarrow>
            (case so_open gdi_ops g of
               (Inl gerr, l') \<Rightarrow> (Inl gerr, l @ l')
             | (Inr s, l') \<Rightarrow> (Inr (GdiSource s), l @ l'))))"

definition win_grab :: "grab_env \<times> gdi_env \<Rightarrow> win_source \<Rightarrow> grabbed \<times> win_source" where
  "win_grab e s =
     (case s of
        DxgiSource d \<Rightarrow> map_prod (\<lambda>r. r) DxgiSource (dx_grab (fst e) d)
      | GdiSource g \<Rightarrow> map_prod (\<lambda>r. r) GdiSource (gdi_grab (snd e) g))"

definition windows_ops :: "(grab_env \<times> gdi_env, bool \<times> open_env \<times> (int \<times> int) \<times> nat option \<times> nat option, win_source) source_ops" where
  "windows_ops = \<lparr>so_open = openSource, so_grab = win_grab,
     so_close = case_win_source (DxgiSource \<circ> dx_close) (GdiSource \<circ> gdi_close), so_log = case_win_source dx_log gs_log,
     so_current = case_win_source dx_frame gs_frame\<rparr>"

lemma openSource_good:
  assumes "openSource a = (r, l)"
  shows "live l {#} = Some {#} \<and> (case r of Inl _ \<Rightarrow> True | Inr s \<Rightarrow> case_win_source dx_good gdi_good s)"
proof -
  obtain skip e g where a: "a = (skip, e, g)" by (cases a)
  obtain q lq where q: "(if skip then (Inl (CapErr ''skipped''), []) else so_open dxgi_ops e) = (q, lq)" by fastforce
  have lq: "live lq {#} = Some {#}" "\<And>d. q = Inr d \<Longrightarrow> dx_good d"
    using q dxgi.open_fails[of e] dxgi.opens[of e] by (cases q; auto split: if_splits)+
  obtain p lp where p: "so_open gdi_ops g = (p, lp)" by fastforce
  have lp: "live lp {#} = Some {#}" "\<And>s. p = Inr s \<Longrightarrow> gdi_good s"
    using p gdi.open_fails[of g] gdi.opens[of g] by (cases p; auto)+
  have eq: "openSource a = (case q of Inr d \<Rightarrow> (Inr (DxgiSource d), lq)
      | Inl err \<Rightarrow> (case p of Inl gerr \<Rightarrow> (Inl gerr, lq @ lp) | Inr s \<Rightarrow> (Inr (GdiSource s), lq @ lp)))"
    by (simp add: openSource_def a q p split: sum.split)
  from assms lq lp dxgi.given_back_append[OF lq(1) lp(1)] show ?thesis unfolding eq by (auto split: sum.splits)
qed

interpretation win_src: capture_source windows_ops "case_win_source dx_good gdi_good"
proof unfold_locales
  show "live l {#} = Some {#}" if "so_open windows_ops a = (Inl err, l)" for a err l
    using that openSource_good[of a "Inl err" l] by (simp add: windows_ops_def)
  show "case_win_source dx_good gdi_good s \<and> live l {#} = Some {#}" if "so_open windows_ops a = (Inr s, l)" for a s l
    using that openSource_good[of a "Inr s" l] by (simp add: windows_ops_def)
  show "case_win_source dx_good gdi_good s'" if "case_win_source dx_good gdi_good s" "so_grab windows_ops g s = (r, s')" for s g r s'
    using that dx_grab_good gdi_grab_good
    by (cases s) (auto simp: windows_ops_def win_grab_def map_prod_def split: prod.splits)
  show "so_current windows_ops s' \<noteq> None"
    if "case_win_source dx_good gdi_good s" "so_grab windows_ops g s = (GrabOk c, s')" for s g c s'
    using that dx_grab_good gdi_grab_current
    by (cases s) (auto simp: windows_ops_def win_grab_def map_prod_def split: prod.splits)
  show "live (so_log windows_ops (so_close windows_ops s)) {#} = Some {#}" if "case_win_source dx_good gdi_good s" for s
    using that dx_good_close gdi_leaks_nothing by (cases s) (simp_all add: windows_ops_def)
qed

text \<open>C40: on Windows, whatever opening meets, however often a source fails and is replaced, and whenever the capture ends:
  every COM object, device context, bitmap and duplicated frame obtained was given back exactly once, and no picture
  was read from a source that had none.\<close>

theorem screen_given_back:
  "\<not> fst (capture_life windows_ops e ts) \<and> live (snd (capture_life windows_ops e ts)) {#} = Some {#}"
  by (rule win_src.capture_gives_back)

text \<open>Duplication that works for one picture, fails, and cannot be had again: the copy takes over.\<close>

definition ex_gdi_open :: "(int \<times> int) \<times> nat option \<times> nat option" where
  "ex_gdi_open = ((640, 480), Some 20, Some 21)"

definition ex_gdi_env :: gdi_env where
  "ex_gdi_env = \<lparr>gv_now = 2 * second, gv_readable = True, gv_size = (640, 480), gv_dib = (None, None), gv_copy = (True, True)\<rparr>"

definition ex_life :: "(grab_env \<times> gdi_env, bool \<times> open_env \<times> (int \<times> int) \<times> nat option \<times> nat option) life_tick list" where
  "ex_life =
     (let again = (False, ex_open\<lparr>oe_factory := Inl 0x80004005\<rparr>, ex_gdi_open)
      in [\<lparr>lt_grab = (ex_grab, ex_gdi_env), lt_open = again\<rparr>,
          \<lparr>lt_grab = (ex_grab\<lparr>ge_texture := Inl 0x80004005\<rparr>, ex_gdi_env), lt_open = again\<rparr>,
          \<lparr>lt_grab = (ex_grab, ex_gdi_env), lt_open = again\<rparr>])"

lemma ex_life_uses_both:
  "let l = snd (capture_life windows_ops (False, ex_open, ex_gdi_open) ex_life)
   in Got DupFrame \<in> set l \<and> Got (Bitmap 21) \<in> set l \<and> last l = Gave (Dc 20)"
  by (simp add: capture_life_def windows_ops_def openSource_def dxgi_ops_def gdi_ops_def ex_life_def ex_gdi_open_def ex_gdi_env_def openGDI_def
      gdi_grab_def gdi_copy_def gdi_close_def copyScreenGDI_def win_grab_def
      openDXGI_def ex_open_def open_device_def ex_dup_def duplicate_def Let_def dxgiUnavailable_def hresultErr_def
      u32_def dxgiErrorAccessDenied_def dx_grab_def grab_dup_def dx_empty_def log_more_def ex_grab_def probe_check_def
      checkDuplicationDesc_def dxgiFormatB8G8R8A8Unorm_def duplicate_frame_def newDIB_def grab_frame_def dx_lose_def dx_close_def
      com_release_def dib_close_def)

end
