(* ===== verification/Spec2Isabelle.thy ===== *)
theory Spec2Isabelle
  imports TransferSafety TransferSend Coordinator InputDarwin ClipboardBoards CapturePipeline Cursor CaptureSources Peer HostMain StatusWindow
    ImportCheck Notices Encoder Dialogs FirewallCom Live WindowParts Workers Transport MacGlue CaptureLife
begin

text \<open>
  A verification library for the FreeDesk host agent, the Go program under \<open>src/host-agent\<close>: it publishes a computer
  under a six-digit code, asks its operator about every request to connect, shows the screen to a viewer over WebRTC,
  injects the viewer's input, shares the clipboard and exchanges files. Everything is translated from the sources; what
  an operating system, a server, pion or libvpx answers is an argument of the definitions that use it.

  \<^bold>\<open>How the program hangs together.\<close> \<open>cmd/host\<close> loads the configuration, signs in, registers a code in the
  database and listens on its inbox. A request becomes a run of the session coordinator: one at a time, first the
  operator's consent, then a peer connection whose signaling goes through the database, then the capture pipeline in one
  direction and two data channels in the other, one for input and one for files and the clipboard. The end of a run, of
  a channel or of the program lets go of all of it. Around that stand the status window, the check of the firewall, the
  endpoint for the web page on the same computer, and two build tools.

  \<^bold>\<open>Base.\<close> \<open>Prelude\<close> has Go's integers (\<open>i64\<close>, \<open>u64\<close>, \<open>i32\<close>, \<open>u16\<close> write the wrap-around out; where bits matter the
  theories use \<open>word\<close>), times in nanoseconds and the lemmas on lists and maps the components share. \<open>GoStrings\<close>, \<open>Utf8\<close>,
  \<open>Strconv\<close>, \<open>Paths\<close>, \<open>Floats\<close>, \<open>Json\<close> and \<open>LineEnds\<close> are the parts of Go's standard library the sources lean on; a
  string is its bytes.

  \<^bold>\<open>Files\<close> (\<open>internal/transfer\<close>). \<open>FileName\<close>: \<open>name.go\<close>, names a viewer supplies made safe. \<open>TransferMsg\<close>: \<open>message.go\<close>,
  the control frames; encoding and parsing are inverse. \<open>Store\<close>: the locale \<open>part_store\<close>, what the session expects of
  the folder. \<open>Dest\<close>: \<open>dest.go\<close>, \<open>space.go\<close>, the folder itself, which interprets that locale. \<open>TransferSession\<close> and
  \<open>TransferSend\<close>: \<open>session.go\<close>, \<open>send.go\<close>, one operation per lock region, the streaming loop and its termination.
  \<open>TransferSafety\<close>: these regions in any interleaving, with the invariants on the disk, the limits and the end.

  \<^bold>\<open>Consent\<close> (\<open>internal/consent\<close>). \<open>Consent\<close>: what is asked, how an answer is read, the lock \<open>uiMu\<close>. \<open>Approval\<close>: the
  policies in \<open>session/coordinator.go\<close> that protect the operator, refined to a function of the questions shown.
  \<open>Dialogs\<close>: the message box on Windows with its helper thread (\<open>dialog_windows.go\<close>), the registry of dialogs on macOS
  (\<open>macos/dialogs_darwin.go\<close>) and the pickers; which answers count, and that a box never takes the keyboard.

  \<^bold>\<open>Sessions\<close> (\<open>internal/session\<close>). \<open>Inbox\<close>: \<open>inbox.go\<close>, \<open>router.go\<close>. \<open>Coordinator\<close>: the life of a request, any number of
  them at once. \<open>Live\<close>: what \<open>prepare\<close> and \<open>run\<close> build for an accepted one, the composition of input handler,
  transfers, clipboard and channels: each part makes a run of its own theory, and nothing of it is left at the end.

  \<^bold>\<open>The connection.\<close> \<open>Firebase\<close>, \<open>Signaling\<close> and \<open>Transport\<close>: \<open>firebase/rtdb.go\<close>, \<open>signaling\<close>: requests, event streams, and
  the session node taken apart. \<open>Peer\<close>: package \<open>webrtc\<close>, the order of descriptions and candidates.

  \<^bold>\<open>Input\<close> (\<open>internal/input\<close>). \<open>InputHandler\<close>: frames, the gate, and the locale \<open>injector\<close>; \<open>InputWindows\<close> and
  \<open>InputDarwin\<close>: the platforms, which interpret it; nothing stays pressed.

  \<^bold>\<open>Clipboard\<close> (\<open>internal/clipboard\<close>). \<open>Clipboard\<close>: \<open>sync.go\<close> and the polls; \<open>ClipboardBoards\<close>: the platforms' boards and who
  owns which memory; \<open>Workers\<close>: the worker's thread and its callers.

  \<^bold>\<open>The screen\<close> (\<open>internal/capture\<close>, \<open>internal/vpx\<close>). \<open>CaptureSources\<close>: desktop duplication, GDI and ScreenCaptureKit, with
  what they acquire; \<open>CaptureLife\<close>: the locale \<open>capture_source\<close>, what the capture goroutine relies on, which they interpret,
  and the goroutine's opening, replacing and closing of them. \<open>Cursor\<close>: the pointer. \<open>Capture\<close>: ticks, jobs and settings. \<open>CapturePipeline\<close>: the two goroutines
  and the images that pass between them. \<open>Workers\<close>: how they start, panic and end. \<open>Convert\<close>, \<open>I420\<close>: \<open>convert.c\<close> on
  buffers with bounds, shown to compute the exact averages and BT.601 values. \<open>Encoder\<close>: \<open>encoder_cgo.go\<close>, \<open>fdvpx.c\<close>. The
  property of this file spans capture and session: the media clock is the time between the pictures.

  \<^bold>\<open>The agent.\<close> \<open>Config\<close>, \<open>Auth\<close>, \<open>Registrar\<close> (with the database's rules for \<open>/hosts\<close>), \<open>Update\<close>, \<open>LocalApi\<close>: the packages of
  these names. \<open>Agent\<close>: heartbeat and replacement of codes beside all other users of the database. \<open>HostMain\<close>: start,
  shutdown and the count of sessions. \<open>Firewall\<close> and \<open>FirewallCom\<close>: the verdict, and the COM calls it is read with, down
  to every object, string and variant given back. \<open>StatusWindow\<close> and \<open>WindowParts\<close>: package \<open>ui\<close>, the queue and the life
  of the window, its layout, painting, commands and the licenses window. \<open>MacGlue\<close>: the C strings of \<open>internal/macos\<close>.
  \<open>ImportCheck\<close> and \<open>Notices\<close>: \<open>cmd/importcheck\<close>, \<open>cmd/notices\<close>.

  \<^bold>\<open>State and steps.\<close> Code that runs under a lock or on one goroutine is a function on a record; goroutines that share
  state are an inductive step relation whose steps are those functions, and its theorems hold in every reachable state,
  so in every interleaving. A loop that waits for the environment runs over the list of what each pass meets; a run that
  would not end is one that uses the list up. Bounds: the walk to the nearest existing directory has as much fuel as the
  path has bytes and three, which is shown to be enough; the scaler's exactness needs a shrinking of at most 23 times,
  and a lemma shows the weights wrap at 30 (the agent's own widths stay far below); layouts are checked up to a scale of
  \<open>2 ^ 22\<close> dots per inch, beyond which 32 bits would not hold the coordinates.

  \<^bold>\<open>Not modelled.\<close> The web page, the Objective-C files and the system libraries; libvpx and pion, which are third-party;
  the tokenizer of JSON (a frame is the value its text stands for); the wording of log lines beyond what the operator is
  shown; the encoder's stub of builds without cgo; \<open>diag\<close>, which only prints; the rules of the database for \<open>/inbox\<close> and
  \<open>/sessions\<close>; the registration of window classes, fonts, cursors and icons; the row-by-row copy out of mapped GPU
  memory; real time, of which steps see only the clock values they are given. Data races below a Go lock or an atomic
  operation are outside the model, as each such region is one step.
\<close>

section \<open>The screen, from the picture to the media clock\<close>

text \<open>C24: across the capture and the session: the frames written to the viewer carry exactly the encoder's
  packets in order, and while no gap exceeds five seconds the media clock has advanced by the real
  time between the first picture and the last, whatever the encoder skipped in between.\<close>

theorem media_clock:
  assumes "encode_run interval js (encode_init free) = out" and "out \<noteq> []"
    and "map fi_elapsed fs = map (fr_Elapsed \<circ> snd) out" and "map fi_data fs = map (fr_Data \<circ> snd) out"
    and "pumpFrames True None fs = (ss, l, False)"
    and "sorted (map fst out)"
    and "\<forall>i < length out - 1. map fst out ! Suc i - map fst out ! i \<le> 5 * second"
  shows "frame_data ss = map (fr_Data \<circ> snd) out
    \<and> sum_list (map sample_time ss) = fst (last out) - fst (hd out)"
proof -
  obtain t0 f0 rest where out: "out = (t0, f0) # rest" using assms(2) by (cases out) auto
  obtain g gs where fs: "fs = g # gs" using assms(3) out by (cases fs) auto
  have gaps: "clock_gaps None out" using encode_run_gaps[of "encode_init free" interval js] assms(1) by (simp add: encode_init_def)
  then have f0: "fr_Elapsed f0 = 0" "clock_gaps (Some t0) rest" by (simp_all add: out)
  have sum: "sum_list (map (\<lambda>x. fr_Elapsed (snd x)) rest) = last (t0 # map fst rest) - t0 \<and> (\<forall>x \<in> set rest. 0 \<le> fr_Elapsed (snd x))"
    using assms(6,7) by (intro clock_gaps_sum f0(2)) (simp_all add: out maxElapsed_def)
  have el: "fi_elapsed g = 0" "map fi_elapsed gs = map (fr_Elapsed \<circ> snd) rest" using assms(3) f0 by (simp_all add: out fs)
  then have "\<forall>f \<in> set gs. 0 \<le> fi_elapsed f" using sum
    by (metis (no_types, lifting) comp_apply in_set_conv_nth length_map nth_map)
  then have nn: "\<forall>f \<in> set fs. 0 \<le> fi_elapsed f" using el(1) by (simp add: fs)
  from pumpFrames_clock[OF assms(5) nn] have "frame_data ss = map fi_data fs"
    "sum_list (map sample_time ss) = fi_elapsed g + sum_list (map fi_elapsed gs)" by (simp_all add: fs frame_gap_def)
  then show ?thesis using assms(4) el sum by (simp add: out last_map comp_def split: if_splits)
qed

definition ex_encode_job :: "int \<Rightarrow> encode_env \<times> job" where
  "ex_encode_job t = (\<lparr>ee_new_ok = True, ee_packet = Some ''x'', ee_done = False\<rparr>,
     \<lparr>jb_at = t * millisecond, jb_img = Some (NewImage (nat t) 8 8), jb_restart = False, jb_keyframe = False\<rparr>)"

definition ex_frame_in :: "int \<Rightarrow> frame_in" where
  "ex_frame_in d = \<lparr>fi_elapsed = d * millisecond, fi_data = ''x'', fi_now = 0, fi_done = 0, fi_advance_ok = True, fi_write_ok = True\<rparr>"

lemma media_clock_witness:
  "\<exists>ss l. pumpFrames True None [ex_frame_in 0, ex_frame_in 40] = (ss, l, False) \<and> sum_list (map sample_time ss) = 40 * millisecond"
proof -
  obtain ss l b where p: "pumpFrames True None [ex_frame_in 0, ex_frame_in 40] = (ss, l, b)" by (metis prod_cases3)
  have b: "b = False" using p by (auto simp: ex_frame_in_def frame_gap_def Let_def time_units)
  have r: "encode_run 33 [ex_encode_job 0, ex_encode_job 40] (encode_init []) =
      [(0, \<lparr>fr_Data = ''x'', fr_Elapsed = 0\<rparr>), (40 * millisecond, \<lparr>fr_Data = ''x'', fr_Elapsed = 40 * millisecond\<rparr>)]"
    by (simp add: ex_encode_job_def encode_init_def encode_job_def ensure_encoder_def Let_def NewImage_def maxElapsed_def time_units)
  from media_clock[OF r _ _ _ p[unfolded b]] p b show ?thesis by (auto simp: ex_frame_in_def time_units)
qed

end
